(* ===== verification/Prelude.thy ===== *)
theory Prelude
  imports Complex_Main "HOL-Library.Sublist" "HOL-Library.Char_ord" "HOL-Library.List_Lexorder"
    "HOL-Library.Multiset"
begin

text \<open>
  Shared vocabulary of the development: the parts of Rust's standard library that the
  program uses, as executable functions.

  Text: a Rust \<open>String\<close> is modelled as a list of characters (one byte each), and the
  case-folding and whitespace functions are those of the ASCII range, which is where
  \<open>to_lowercase\<close> and \<open>to_ascii_lowercase\<close> agree. Order on strings is the bytewise
  lexicographic order (\<open>HOL-Library.List_Lexorder\<close> over \<open>Char_ord\<close>), which is
  Rust's \<open>Ord for str\<close>.

  Integers: an \<open>i64\<close> is an \<open>int\<close>; where the source saturates, converts or wraps, the
  operation is written out (\<open>sat_i64\<close> below, explicit \<open>mod\<close> elsewhere).
\<close>

named_theorems str_simps "facts about the text functions"
named_theorems sort_facts "facts about stable sorting with a comparator"

section \<open>Text\<close>

definition is_ws :: "char \<Rightarrow> bool" where
  "is_ws c = (c = CHR 0x20 \<or> (CHR 0x09 \<le> c \<and> c \<le> CHR 0x0D))"

definition trim_start :: "string \<Rightarrow> string" where
  "trim_start s = dropWhile is_ws s"

definition trim_end :: "string \<Rightarrow> string" where
  "trim_end s = rev (dropWhile is_ws (rev s))"

definition trim :: "string \<Rightarrow> string" where
  "trim s = trim_end (trim_start s)"

definition trim_end_char :: "char \<Rightarrow> string \<Rightarrow> string" where
  "trim_end_char c s = rev (dropWhile (\<lambda>x. x = c) (rev s))"

definition char_lower :: "char \<Rightarrow> char" where
  "char_lower c = (if CHR ''A'' \<le> c \<and> c \<le> CHR ''Z'' then char_of (of_char c + 32 :: nat) else c)"

definition char_upper :: "char \<Rightarrow> char" where
  "char_upper c = (if CHR ''a'' \<le> c \<and> c \<le> CHR ''z'' then char_of (of_char c - 32 :: nat) else c)"

definition to_lower :: "string \<Rightarrow> string" where
  "to_lower s = map char_lower s"

definition to_upper :: "string \<Rightarrow> string" where
  "to_upper s = map char_upper s"

definition eq_ic :: "string \<Rightarrow> string \<Rightarrow> bool" where
  "eq_ic a b = (to_lower a = to_lower b)"

fun str_contains :: "string \<Rightarrow> string \<Rightarrow> bool" where
  "str_contains [] n = (n = [])"
| "str_contains (c # cs) n = (prefix n (c # cs) \<or> str_contains cs n)"

fun split_on :: "char \<Rightarrow> string \<Rightarrow> string list" where
  "split_on d [] = [[]]"
| "split_on d (c # cs) =
     (if c = d then [] # split_on d cs
      else (case split_on d cs of [] \<Rightarrow> [[c]] | p # ps \<Rightarrow> (c # p) # ps))"

fun join_with :: "string \<Rightarrow> string list \<Rightarrow> string" where
  "join_with sep [] = []"
| "join_with sep [x] = x"
| "join_with sep (x # y # ys) = x @ sep @ join_with sep (y # ys)"

definition is_digit :: "char \<Rightarrow> bool" where
  "is_digit c = (CHR ''0'' \<le> c \<and> c \<le> CHR ''9'')"

definition is_alpha :: "char \<Rightarrow> bool" where
  "is_alpha c = ((CHR ''a'' \<le> c \<and> c \<le> CHR ''z'') \<or> (CHR ''A'' \<le> c \<and> c \<le> CHR ''Z''))"

definition is_hex_digit :: "char \<Rightarrow> bool" where
  "is_hex_digit c = (is_digit c \<or> (CHR ''a'' \<le> c \<and> c \<le> CHR ''f'')
                                \<or> (CHR ''A'' \<le> c \<and> c \<le> CHR ''F''))"

definition digit_val :: "char \<Rightarrow> nat" where
  "digit_val c = of_char c - 48"

definition digit_char :: "nat \<Rightarrow> char" where
  "digit_char n = char_of (n + 48)"

subsection \<open>Facts about trimming, case and splitting\<close>

lemma char_le_iff: "(a :: char) \<le> b \<longleftrightarrow> (of_char a :: nat) \<le> of_char b"
  by (simp add: less_eq_char_def)

lemma char_eq_nat: "(a :: char) = b \<longleftrightarrow> (of_char a :: nat) = of_char b"
  by simp

lemma of_char_lower: "(of_char (char_lower c) :: nat) =
   (if 65 \<le> (of_char c :: nat) \<and> (of_char c :: nat) \<le> 90 then of_char c + 32 else of_char c)"
  by (simp add: char_lower_def char_le_iff)

lemma of_char_upper: "(of_char (char_upper c) :: nat) =
   (if 97 \<le> (of_char c :: nat) \<and> (of_char c :: nat) \<le> 122 then of_char c - 32 else of_char c)"
  by (auto simp: char_upper_def char_le_iff)

lemma is_ws_nat: "is_ws c \<longleftrightarrow>
   (of_char c :: nat) = 32 \<or> (9 \<le> (of_char c :: nat) \<and> (of_char c :: nat) \<le> 13)"
  using char_eq_nat [of c "CHR 0x20"] by (simp add: is_ws_def char_le_iff del: of_char_eq_iff)

lemma is_ws_char_lower [simp]: "is_ws (char_lower c) = is_ws c"
  by (auto simp: is_ws_nat of_char_lower)

lemma is_ws_char_upper [simp]: "is_ws (char_upper c) = is_ws c"
  by (auto simp: is_ws_nat of_char_upper)

lemma char_lower_idem [simp]: "char_lower (char_lower c) = char_lower c"
  by (auto simp: char_lower_def char_le_iff)

lemma to_lower_idem [simp]: "to_lower (to_lower s) = to_lower s"
  by (simp add: to_lower_def)

lemma to_lower_Nil [simp]: "to_lower [] = []"
  by (simp add: to_lower_def)

lemma to_lower_Nil_iff [simp]: "to_lower s = [] \<longleftrightarrow> s = []"
  by (simp add: to_lower_def)

lemma to_lower_append [str_simps]: "to_lower (a @ b) = to_lower a @ to_lower b"
  by (simp add: to_lower_def)

lemma char_upper_lower [simp]: "char_upper (char_lower c) = char_upper c"
  by (auto simp: char_lower_def char_upper_def char_le_iff)

lemma char_lower_upper [simp]: "char_lower (char_upper c) = char_lower c"
  by (auto simp: char_lower_def char_upper_def char_le_iff)

lemma char_upper_idem [simp]: "char_upper (char_upper c) = char_upper c"
  by (metis char_lower_upper char_upper_lower)

lemma to_upper_idem [simp]: "to_upper (to_upper s) = to_upper s"
  by (simp add: to_upper_def)

lemma to_upper_eq_iff: "to_upper a = to_upper b \<longleftrightarrow> to_lower a = to_lower b"
proof -
  have up: "to_upper s = map char_upper (to_lower s)" for s
    by (simp add: to_upper_def to_lower_def)
  have lo: "to_lower s = map char_lower (to_upper s)" for s
    by (simp add: to_upper_def to_lower_def)
  show ?thesis using up lo by metis
qed

lemma eq_ic_refl [simp]: "eq_ic a a"
  by (simp add: eq_ic_def)

lemma eq_ic_sym: "eq_ic a b \<Longrightarrow> eq_ic b a"
  by (simp add: eq_ic_def)

lemma eq_ic_trans: "eq_ic a b \<Longrightarrow> eq_ic b c \<Longrightarrow> eq_ic a c"
  by (simp add: eq_ic_def)

lemma eq_ic_upper [simp]: "eq_ic (to_upper a) b = eq_ic a b" "eq_ic a (to_upper b) = eq_ic a b"
  by (simp_all add: eq_ic_def to_lower_def to_upper_def comp_def)

lemma trim_Nil [simp]: "trim [] = []"
  by (simp add: trim_def trim_start_def trim_end_def)

lemma trim_end_idem [simp]: "trim_end (trim_end s) = trim_end s"
  by (simp add: trim_end_def dropWhile_idem)

lemma trim_end_prefix: "prefix (trim_end s) s"
  by (metis prefix_def rev_append rev_rev_ident suffix_dropWhile suffix_def trim_end_def)

lemma trim_start_fixed_iff: "trim_start s = s \<longleftrightarrow> (case s of [] \<Rightarrow> True | c # _ \<Rightarrow> \<not> is_ws c)"
proof (cases s)
  case (Cons c cs)
  have "length (dropWhile is_ws cs) \<le> length cs" by (rule length_dropWhile_le)
  then have "dropWhile is_ws cs \<noteq> c # cs" by auto
  then show ?thesis by (simp add: trim_start_def Cons)
qed (simp add: trim_start_def)

lemma trim_start_prefix: "trim_start s = s \<Longrightarrow> prefix p s \<Longrightarrow> trim_start p = p"
  by (auto simp: trim_start_fixed_iff prefix_def split: list.splits)

lemma trim_start_trim_end: "trim_start s = s \<Longrightarrow> trim_start (trim_end s) = trim_end s"
  by (erule trim_start_prefix) (rule trim_end_prefix)

lemma trim_start_idem [simp]: "trim_start (trim_start s) = trim_start s"
  by (simp add: trim_start_def dropWhile_idem)

lemma trim_start_trim [simp]: "trim_start (trim s) = trim s"
  by (simp add: trim_def trim_start_trim_end)

lemma trim_end_trim [simp]: "trim_end (trim s) = trim s"
  by (simp add: trim_def)

lemma trim_idem [simp]: "trim (trim s) = trim s"
  by (simp add: trim_def trim_start_trim_end)

lemma to_lower_Cons [str_simps]: "to_lower (c # s) = char_lower c # to_lower s"
  by (simp add: to_lower_def)

lemma trim_to_lower [simp]: "trim (to_lower s) = to_lower (trim s)"
  by (simp add: trim_def trim_start_def trim_end_def to_lower_def dropWhile_map rev_map o_def)

lemma trim_all_ws: "\<forall>c \<in> set ws. is_ws c \<Longrightarrow> trim ws = []"
  by (simp add: trim_def trim_start_def trim_end_def dropWhile_eq_Nil_conv [THEN iffD2])

lemma trim_surround:
  assumes "\<forall>c \<in> set xs. is_ws c" "\<forall>c \<in> set ys. is_ws c"
  shows "trim (xs @ s @ ys) = trim s"
proof (cases "\<forall>c \<in> set s. is_ws c")
  case True
  with assms show ?thesis by (simp add: trim_all_ws ball_Un)
next
  case False
  have "dropWhile is_ws (xs @ s @ ys) = dropWhile is_ws (s @ ys)"
    using assms(1) by (simp add: dropWhile_append2)
  also have "\<dots> = dropWhile is_ws s @ ys" using False by (auto simp: dropWhile_append1)
  finally have "dropWhile is_ws (xs @ s @ ys) = dropWhile is_ws s @ ys" .
  moreover have "dropWhile is_ws (rev ys @ zs) = dropWhile is_ws zs" for zs
    using assms(2) by (intro dropWhile_append2) simp
  ultimately show ?thesis by (simp add: trim_def trim_start_def trim_end_def)
qed

lemma set_trim_end: "set (trim_end s) \<subseteq> set s"
  by (metis set_mono_prefix trim_end_prefix)

lemma set_trim_start: "set (trim_start s) \<subseteq> set s"
  by (auto simp: trim_start_def dest: set_dropWhileD)

lemma set_trim: "set (trim s) \<subseteq> set s"
  using set_trim_end set_trim_start by (fastforce simp: trim_def)

lemma length_trim_end: "length (trim_end s) \<le> length s"
  by (simp add: prefix_length_le trim_end_prefix)

lemma length_trim: "length (trim s) \<le> length s"
  by (metis dual_order.trans length_dropWhile_le length_trim_end trim_def trim_start_def)

lemma trim_start_take: "trim_start s = s \<Longrightarrow> trim_start (take n s) = take n s"
  by (erule trim_start_prefix) (rule take_is_prefix)

lemma split_on_nonempty [simp]: "split_on d s \<noteq> []"
  by (induction d s rule: split_on.induct) (auto split: list.splits)

lemma split_on_free: "d \<notin> set s \<Longrightarrow> split_on d s = [s]"
  by (induction s) auto

lemma split_on_append: "d \<notin> set a \<Longrightarrow> split_on d (a @ d # b) = a # split_on d b"
  by (induction a) (auto split: list.splits)

lemma split_on_parts_free: "p \<in> set (split_on d s) \<Longrightarrow> d \<notin> set p"
  by (induction d s arbitrary: p rule: split_on.induct) (auto split: list.splits if_splits)

lemma split_join:
  "xs \<noteq> [] \<Longrightarrow> \<forall>x \<in> set xs. d \<notin> set x \<Longrightarrow> split_on d (join_with [d] xs) = xs"
  by (induction "[d]" xs rule: join_with.induct) (auto simp: split_on_free split_on_append)

lemma join_split: "join_with [d] (split_on d s) = s"
proof (induction s)
  case (Cons c cs)
  then show ?case
    by (cases "split_on d cs" rule: list.exhaust; cases "tl (split_on d cs)") auto
qed simp

lemma str_contains_sublist: "str_contains h n \<longleftrightarrow> sublist n h"
proof (induction h)
  case (Cons c cs)
  then show ?case by (simp add: sublist_Cons_right)
qed auto

lemma str_contains_Nil [simp]: "str_contains h []"
  by (simp add: str_contains_sublist)

lemma str_contains_trans:
  "str_contains h m \<Longrightarrow> str_contains m n \<Longrightarrow> str_contains h n"
  by (auto simp: str_contains_sublist intro: sublist_order.order.trans)

section \<open>Numbers as text\<close>

text \<open>
  \<open>show_int\<close> is \<open>i64::to_string\<close>; \<open>parse_int\<close> is the grammar of
  \<open>str::parse\<close> for integers (an optional sign, then at least one digit);
  \<open>parse_i64\<close> and \<open>parse_u32\<close> add the range check, which is how an out-of-range number
  is an \<open>Err\<close> in Rust.
\<close>

definition i64_max :: int where "i64_max = 9223372036854775807"
definition i64_min :: int where "i64_min = - 9223372036854775808"

definition i64_ok :: "int \<Rightarrow> bool" where
  "i64_ok n = (i64_min \<le> n \<and> n \<le> i64_max)"

definition sat_i64 :: "int \<Rightarrow> int" where
  "sat_i64 n = max i64_min (min i64_max n)"

fun show_nat :: "nat \<Rightarrow> string" where
  "show_nat n = (if n < 10 then [digit_char n] else show_nat (n div 10) @ [digit_char (n mod 10)])"

declare show_nat.simps [simp del]

definition show_int :: "int \<Rightarrow> string" where
  "show_int n = (if n < 0 then CHR ''-'' # show_nat (nat (- n)) else show_nat (nat n))"

definition digits_val :: "string \<Rightarrow> nat" where
  "digits_val s = foldl (\<lambda>acc c. 10 * acc + digit_val c) 0 s"

definition parse_nat :: "string \<Rightarrow> nat option" where
  "parse_nat s = (if s \<noteq> [] \<and> list_all is_digit s then Some (digits_val s) else None)"

definition parse_int :: "string \<Rightarrow> int option" where
  "parse_int s = (case s of
      [] \<Rightarrow> None
    | c # cs \<Rightarrow>
        if c = CHR ''-'' then map_option (\<lambda>n. - int n) (parse_nat cs)
        else if c = CHR ''+'' then map_option int (parse_nat cs)
        else map_option int (parse_nat s))"

definition parse_i64 :: "string \<Rightarrow> int option" where
  "parse_i64 s = (case parse_int s of
      None \<Rightarrow> None
    | Some n \<Rightarrow> if i64_ok n then Some n else None)"

definition parse_u32 :: "string \<Rightarrow> int option" where
  "parse_u32 s = (let body = (case s of CHR ''+'' # cs \<Rightarrow> cs | _ \<Rightarrow> s) in
     case parse_nat body of
       None \<Rightarrow> None
     | Some n \<Rightarrow> if int n < 4294967296 then Some (int n) else None)"

lemma sat_i64_id [simp]: "i64_ok n \<Longrightarrow> sat_i64 n = n"
  by (simp add: i64_ok_def sat_i64_def)

lemma sat_i64_ok [simp]: "i64_ok (sat_i64 n)"
  by (simp add: i64_ok_def sat_i64_def i64_min_def i64_max_def)

lemma sat_i64_mono: "m \<le> n \<Longrightarrow> sat_i64 m \<le> sat_i64 n"
  by (auto simp: sat_i64_def)

lemma of_char_digit_char [simp]: "n < 10 \<Longrightarrow> (of_char (digit_char n) :: nat) = n + 48"
  by (simp add: digit_char_def)

lemma is_digit_digit_char [simp]: "n < 10 \<Longrightarrow> is_digit (digit_char n)"
  by (simp add: is_digit_def char_le_iff)

lemma digit_val_digit_char [simp]: "n < 10 \<Longrightarrow> digit_val (digit_char n) = n"
  by (simp add: digit_val_def)

lemma show_nat_digits: "list_all is_digit (show_nat n)"
proof (induction n rule: show_nat.induct)
  case (1 n)
  then show ?case by (subst show_nat.simps) simp
qed

lemma show_nat_nonempty [simp]: "show_nat n \<noteq> []"
  by (subst show_nat.simps) simp

lemma digits_val_snoc: "digits_val (s @ [c]) = 10 * digits_val s + digit_val c"
  by (simp add: digits_val_def)

lemma digits_val_show_nat [simp]: "digits_val (show_nat n) = n"
proof (induction n rule: show_nat.induct)
  case (1 n)
  show ?case
  proof (cases "n < 10")
    case True
    then show ?thesis by (subst show_nat.simps) (simp add: digits_val_def)
  next
    case False
    with "1" have "digits_val (show_nat (n div 10)) = n div 10" by simp
    with False show ?thesis by (subst show_nat.simps) (simp add: digits_val_snoc)
  qed
qed

lemma parse_nat_show_nat [simp]: "parse_nat (show_nat n) = Some n"
  by (simp add: parse_nat_def show_nat_digits)

lemma show_nat_hd: "show_nat n = c # cs \<Longrightarrow> is_digit c"
  using show_nat_digits [of n] by simp

lemma not_digit_sign [simp]: "\<not> is_digit CHR ''-''" "\<not> is_digit CHR ''+''"
  by (simp_all add: is_digit_def char_le_iff)

lemma parse_int_show_int [simp]: "parse_int (show_int n) = Some n"
proof (cases "n < 0")
  case True
  then show ?thesis by (simp add: show_int_def parse_int_def)
next
  case False
  obtain c cs where c: "show_nat (nat n) = c # cs" by (cases "show_nat (nat n)") auto
  then have "is_digit c" by (rule show_nat_hd)
  then have "c \<noteq> CHR ''-''" "c \<noteq> CHR ''+''" by auto
  with False c parse_nat_show_nat [of "nat n"] show ?thesis
    by (simp add: show_int_def parse_int_def)
qed

lemma parse_i64_show_int [simp]: "i64_ok n \<Longrightarrow> parse_i64 (show_int n) = Some n"
  by (simp add: parse_i64_def)

lemma parse_i64_ok: "parse_i64 s = Some n \<Longrightarrow> i64_ok n"
  by (auto simp: parse_i64_def split: option.splits if_splits)

lemma digit_not_ws: "is_digit c \<Longrightarrow> \<not> is_ws c"
  by (auto simp: is_digit_def is_ws_def char_le_iff)

lemma dropWhile_none: "\<forall>c \<in> set s. \<not> P c \<Longrightarrow> dropWhile P s = s"
  by (cases s) auto

lemma trim_no_ws: "\<forall>c \<in> set s. \<not> is_ws c \<Longrightarrow> trim s = s"
  by (simp add: trim_def trim_start_def trim_end_def dropWhile_none)

lemma minus_not_ws [simp]: "\<not> is_ws CHR ''-''"
  by (simp add: is_ws_def char_le_iff)

lemma show_nat_no_ws: "c \<in> set (show_nat n) \<Longrightarrow> \<not> is_ws c"
  using show_nat_digits [of n] by (auto simp: list_all_iff digit_not_ws)

lemma show_int_no_ws: "c \<in> set (show_int n) \<Longrightarrow> \<not> is_ws c"
  by (auto simp: show_int_def show_nat_no_ws split: if_splits)

lemma trim_show_int [simp]: "trim (show_int n) = show_int n"
  by (rule trim_no_ws) (simp add: show_int_no_ws)

lemma show_int_nonempty [simp]: "show_int n \<noteq> []"
  by (simp add: show_int_def)

section \<open>Stable sorting with a comparator\<close>

text \<open>
  \<open>slice::sort_by\<close> is a stable sort. A comparator of the source is modelled by its
  \<open>Less\<close> outcome; \<open>sort_by\<close> is insertion sort with that outcome, which keeps the order
  of elements neither of which is less. The contract Rust documents for the comparator
  (a strict weak order) is the locale \<open>comparator\<close>; each comparator of the program is an
  interpretation of it.
\<close>

fun insert_by :: "('a \<Rightarrow> 'a \<Rightarrow> bool) \<Rightarrow> 'a \<Rightarrow> 'a list \<Rightarrow> 'a list" where
  "insert_by lt x [] = [x]"
| "insert_by lt x (y # ys) = (if lt y x then y # insert_by lt x ys else x # y # ys)"

definition sort_by :: "('a \<Rightarrow> 'a \<Rightarrow> bool) \<Rightarrow> 'a list \<Rightarrow> 'a list" where
  "sort_by lt xs = foldr (insert_by lt) xs []"

lemma mset_insert_by [simp]: "mset (insert_by lt x xs) = add_mset x (mset xs)"
  by (induction xs) auto

lemma sort_by_Nil [simp]: "sort_by lt [] = []"
  by (simp add: sort_by_def)

lemma sort_by_Cons [simp]: "sort_by lt (x # xs) = insert_by lt x (sort_by lt xs)"
  by (simp add: sort_by_def)

lemma mset_sort_by [simp]: "mset (sort_by lt xs) = mset xs"
  by (induction xs) auto

lemma set_sort_by [simp]: "set (sort_by lt xs) = set xs"
  by (metis mset_sort_by set_mset_mset)

lemma length_sort_by [simp]: "length (sort_by lt xs) = length xs"
  by (metis mset_sort_by size_mset)

lemma distinct_sort_by [simp]: "distinct (sort_by lt xs) = distinct xs"
  by (metis distinct_count_atmost_1 mset_sort_by set_sort_by)

lemma distinct_map_sort_by [simp]: "distinct (map f (sort_by lt xs)) = distinct (map f xs)"
  by (metis distinct_count_atmost_1 mset_map mset_sort_by set_map set_sort_by)

lemma sort_by_cong:
  assumes "\<And>a b. a \<in> set xs \<Longrightarrow> b \<in> set xs \<Longrightarrow> lt a b = lt' a b"
  shows "sort_by lt xs = sort_by lt' xs"
proof -
  have ins: "insert_by lt x ys = insert_by lt' x ys"
    if "\<forall>y \<in> set ys. lt y x = lt' y x" for x ys
    using that by (induction ys) auto
  show ?thesis using assms
  proof (induction xs)
    case (Cons x xs)
    then have "sort_by lt xs = sort_by lt' xs" by simp
    with Cons.prems ins [of "sort_by lt' xs" x] show ?case by auto
  qed simp
qed

lemma map_insert_by:
  "(\<And>y. y \<in> set xs \<Longrightarrow> lt' (f y) (f x) = lt y x) \<Longrightarrow>
   insert_by lt' (f x) (map f xs) = map f (insert_by lt x xs)"
  by (induction xs) auto

lemma map_sort_by:
  "(\<And>a b. a \<in> set xs \<Longrightarrow> b \<in> set xs \<Longrightarrow> lt' (f a) (f b) = lt a b) \<Longrightarrow>
   sort_by lt' (map f xs) = map f (sort_by lt xs)"
proof (induction xs)
  case (Cons x xs)
  then have "sort_by lt' (map f xs) = map f (sort_by lt xs)" by simp
  moreover have "insert_by lt' (f x) (map f (sort_by lt xs)) = map f (insert_by lt x (sort_by lt xs))"
    using Cons.prems by (intro map_insert_by) simp
  ultimately show ?case by simp
qed simp

locale comparator =
  fixes lt :: "'a \<Rightarrow> 'a \<Rightarrow> bool"
  assumes lt_asym: "lt a b \<Longrightarrow> \<not> lt b a"
    and lt_weak: "lt a c \<Longrightarrow> lt a b \<or> lt b c"
begin

lemma lt_trans: "lt a b \<Longrightarrow> lt b c \<Longrightarrow> lt a c"
  using lt_asym lt_weak by blast

lemma nlt_trans: "\<not> lt b a \<Longrightarrow> \<not> lt c b \<Longrightarrow> \<not> lt c a"
  using lt_weak by blast

lemma sorted_insert_by:
  "sorted_wrt (\<lambda>a b. \<not> lt b a) xs \<Longrightarrow> sorted_wrt (\<lambda>a b. \<not> lt b a) (insert_by lt x xs)"
proof (induction xs)
  case (Cons y ys)
  have set_ins: "set (insert_by lt x ys) = insert x (set ys)"
    by (metis mset_insert_by set_mset_add_mset_insert set_mset_mset)
  show ?case
  proof (cases "lt y x")
    case True
    with Cons show ?thesis by (auto simp: set_ins dest: lt_asym)
  next
    case False
    have "\<not> lt z x" if "z \<in> set ys" for z
      using nlt_trans [OF False] Cons.prems that by auto
    with False Cons.prems show ?thesis by auto
  qed
qed simp

lemma sorted_sort_by: "sorted_wrt (\<lambda>a b. \<not> lt b a) (sort_by lt xs)"
  by (induction xs) (auto intro: sorted_insert_by)

lemma insert_by_sorted:
  "(\<And>y. y \<in> set xs \<Longrightarrow> \<not> lt y x) \<Longrightarrow> insert_by lt x xs = x # xs"
  by (cases xs) auto

lemma sort_by_sorted:
  "sorted_wrt (\<lambda>a b. \<not> lt b a) xs \<Longrightarrow> sort_by lt xs = xs"
  by (induction xs) (auto intro: insert_by_sorted)

lemma sort_by_idem: "sort_by lt (sort_by lt xs) = sort_by lt xs"
  by (rule sort_by_sorted) (rule sorted_sort_by)

lemma take_before_drop:
  "a \<in> set (take n (sort_by lt xs)) \<Longrightarrow> b \<in> set (drop n (sort_by lt xs)) \<Longrightarrow> \<not> lt b a"
  using sorted_sort_by [of xs]
  by (metis append_take_drop_id sorted_wrt_append)

text \<open>A sorted list cut anywhere keeps the better element of any pair.\<close>

lemma take_sorted_closed:
  "b \<in> set (take n (sort_by lt xs)) \<Longrightarrow> a \<in> set xs \<Longrightarrow> lt a b \<Longrightarrow>
   a \<in> set (take n (sort_by lt xs))"
  using take_before_drop [of b n xs a]
  by (metis Un_iff append_take_drop_id set_append set_sort_by)

lemma filter_insert_by:
  "sorted_wrt (\<lambda>a b. \<not> lt b a) xs \<Longrightarrow>
   filter P (insert_by lt x xs) = (if P x then insert_by lt x (filter P xs) else filter P xs)"
proof (induction xs)
  case (Cons y ys)
  show ?case
  proof (cases "lt y x")
    case False
    have "\<not> lt z x" if "z \<in> set (filter P (y # ys))" for z
      using nlt_trans [OF False] Cons.prems that False by (auto split: if_splits)
    then have "insert_by lt x (filter P (y # ys)) = x # filter P (y # ys)"
      by (rule insert_by_sorted)
    with False show ?thesis by simp
  qed (use Cons in auto)
qed simp

lemma filter_sort_by: "filter P (sort_by lt xs) = sort_by lt (filter P xs)"
  by (induction xs) (auto simp: filter_insert_by sorted_sort_by)

end

text \<open>Ordering by a key of a linear order (\<open>sort_by(|a, b| f(a).cmp(&f(b)))\<close>, \<open>sort_by_key\<close>, \<open>sort\<close>).\<close>

definition lt_key :: "('a \<Rightarrow> 'k::linorder) \<Rightarrow> 'a \<Rightarrow> 'a \<Rightarrow> bool" where
  "lt_key f a b = (f a < f b)"

interpretation by_key: comparator "lt_key f" for f :: "'a \<Rightarrow> 'k::linorder"
  by unfold_locales (auto simp: lt_key_def)

lemma sorted_by_key: "sorted (map f (sort_by (lt_key f) xs))"
  using by_key.sorted_sort_by [of f xs]
  by (simp add: sorted_wrt_map lt_key_def not_less)

lemma sort_by_key_unique:
  assumes d: "distinct (map f xs)" and m: "mset xs = mset ys"
  shows "sort_by (lt_key f) xs = sort_by (lt_key f) ys"
proof (rule map_inj_on)
  have "mset (map f (sort_by (lt_key f) xs)) = mset (map f (sort_by (lt_key f) ys))"
    by (simp add: m)
  then show "map f (sort_by (lt_key f) xs) = map f (sort_by (lt_key f) ys)"
    using sorted_by_key by (metis properties_for_sort)
  have "set xs = set ys" using m by (rule mset_eq_setD)
  with d show "inj_on f (set (sort_by (lt_key f) xs) \<union> set (sort_by (lt_key f) ys))"
    by (simp add: distinct_map)
qed

lemmas sort_facts_bundle = mset_sort_by set_sort_by length_sort_by distinct_sort_by sorted_by_key

section \<open>Lists and options\<close>

lemma find_Some_set: "find P xs = Some x \<Longrightarrow> x \<in> set xs \<and> P x"
  by (auto simp: find_Some_iff)

lemma find_None_all: "find P xs = None \<longleftrightarrow> (\<forall>x \<in> set xs. \<not> P x)"
  by (auto simp: find_None_iff)

lemma find_distinct_key:
  "distinct (map f xs) \<Longrightarrow> x \<in> set xs \<Longrightarrow> find (\<lambda>y. f y = f x) xs = Some x"
  by (induction xs) (auto simp: image_iff)

lemma distinct_key_eq:
  "distinct (map f xs) \<Longrightarrow> x \<in> set xs \<Longrightarrow> y \<in> set xs \<Longrightarrow> f x = f y \<Longrightarrow> x = y"
  by (auto simp: distinct_map inj_on_def)

section \<open>Machines that keep an invariant\<close>

text \<open>\<open>run_steps\<close> feeds a list of inputs to a component that returns an output and its next
  state (a policy's tick over its memory, a store's handler). The locale is the contract the
  components' invariants have in common: on admissible inputs a step keeps the invariant and its
  output is safe; then so does every run.\<close>

fun run_steps :: "('i \<Rightarrow> 's \<Rightarrow> 'o \<times> 's) \<Rightarrow> 's \<Rightarrow> 'i list \<Rightarrow> 'o list \<times> 's" where
  "run_steps step s [] = ([], s)"
| "run_steps step s (i # is) =
     (let (out, s') = step i s; (outs, s'') = run_steps step s' is in (out # outs, s''))"

text \<open>\<open>admissible_run\<close>: every input is admissible in the state it meets.\<close>

fun admissible_run :: "('i \<Rightarrow> 's \<Rightarrow> 'o \<times> 's) \<Rightarrow> ('s \<Rightarrow> 'i \<Rightarrow> bool) \<Rightarrow> 's \<Rightarrow> 'i list \<Rightarrow> bool" where
  "admissible_run step ok s [] = True"
| "admissible_run step ok s (i # is) = (ok s i \<and> admissible_run step ok (snd (step i s)) is)"

lemma admissible_run_uniform: "\<forall>i \<in> set is. \<forall>s. ok s i \<Longrightarrow> admissible_run step ok s is"
  by (induction "is" arbitrary: s) auto

locale keeps_invariant =
  fixes step :: "'i \<Rightarrow> 's \<Rightarrow> 'o \<times> 's"
    and admissible :: "'s \<Rightarrow> 'i \<Rightarrow> bool"
    and inv :: "'s \<Rightarrow> bool"
    and safe :: "'o \<Rightarrow> bool"
  assumes inv_step: "admissible s i \<Longrightarrow> inv s \<Longrightarrow> inv (snd (step i s))"
    and safe_step: "admissible s i \<Longrightarrow> inv s \<Longrightarrow> safe (fst (step i s))"
begin

lemma inv_run: "admissible_run step admissible s is \<Longrightarrow> inv s \<Longrightarrow> inv (snd (run_steps step s is))"
  by (induction "is" arbitrary: s) (auto simp: split_def Let_def inv_step)

lemma safe_run:
  "admissible_run step admissible s is \<Longrightarrow> inv s \<Longrightarrow> out \<in> set (fst (run_steps step s is)) \<Longrightarrow> safe out"
proof (induction "is" arbitrary: s)
  case (Cons i "is")
  then have "out = fst (step i s) \<or> out \<in> set (fst (run_steps step (snd (step i s)) is))"
    by (simp add: split_def Let_def)
  with Cons show ?case using inv_step safe_step by auto
qed simp

end

lemma set_map_filter: "set (List.map_filter f xs) = {y. \<exists>x \<in> set xs. f x = Some y}"
  by (force simp: List.map_filter_def)

lemma length_run_steps [simp]: "length (fst (run_steps step s is)) = length is"
  by (induction "is" arbitrary: s) (auto simp: split_def Let_def)

end
