(* ===== verification/F64.thy ===== *)
theory F64
  imports Prelude
begin

text \<open>
  Finite IEEE 754 binary64 numbers, as the program's \<open>f64\<close> arithmetic uses them: a value is
  the rational it denotes, and every operation is the exact rational operation followed by
  \<open>rnd\<close>, round to nearest with ties to even at 53 bits of precision (and the subnormal
  exponent floor). The program's operands are \<open>i64\<close> values, their quotients and products
  with small constants, so no operation overflows the binary64 range.
\<close>

type_synonym f64 = rat

fun ilog2 :: "nat \<Rightarrow> nat" where
  "ilog2 n = (if n \<le> 1 then 0 else Suc (ilog2 (n div 2)))"

declare ilog2.simps [simp del]

definition pow2 :: "int \<Rightarrow> rat" where
  "pow2 e = (if 0 \<le> e then 2 ^ nat e else 1 / 2 ^ nat (- e))"

definition exponent :: "rat \<Rightarrow> int" where
  "exponent x =
     (let (p, q) = quotient_of x;
          e = int (ilog2 (nat p)) - int (ilog2 (nat q))
      in if pow2 e \<le> x then e else e - 1)"

definition round_even :: "rat \<Rightarrow> int" where
  "round_even x =
     (let f = \<lfloor>x\<rfloor>; d = x - of_int f
      in if d < 1 / 2 then f
         else if 1 / 2 < d then f + 1
         else if even f then f else f + 1)"

definition rnd_pos :: "rat \<Rightarrow> f64" where
  "rnd_pos x = (let u = pow2 (max (exponent x) (- 1022) - 52) in of_int (round_even (x / u)) * u)"

definition rnd :: "rat \<Rightarrow> f64" where
  "rnd x = (if x = 0 then 0 else if 0 < x then rnd_pos x else - rnd_pos (- x))"

definition f64_of_int :: "int \<Rightarrow> f64" where
  "f64_of_int n = rnd (of_int n)"

definition f64_mul :: "f64 \<Rightarrow> f64 \<Rightarrow> f64" where
  "f64_mul a b = rnd (a * b)"

definition f64_div :: "f64 \<Rightarrow> f64 \<Rightarrow> f64" where
  "f64_div a b = rnd (a / b)"

definition f64_sub :: "f64 \<Rightarrow> f64 \<Rightarrow> f64" where
  "f64_sub a b = rnd (a - b)"

definition f64_clamp :: "f64 \<Rightarrow> f64 \<Rightarrow> f64 \<Rightarrow> f64" where
  "f64_clamp x lo hi = (if x < lo then lo else if hi < x then hi else x)"

section \<open>Powers of two and the exponent\<close>

lemma pow2_pos [simp]: "0 < pow2 e"
  by (simp add: pow2_def)

lemma pow2_nonneg [simp]: "0 \<le> pow2 e"
  using pow2_pos [of e] by linarith

lemma pow2_nonzero [simp]: "pow2 e \<noteq> 0"
  using pow2_pos [of e] by linarith

lemma pow2_0 [simp]: "pow2 0 = 1"
  by (simp add: pow2_def)

lemma pow2_Suc: "pow2 (e + 1) = 2 * pow2 e"
proof (cases "0 \<le> e")
  case True
  then show ?thesis by (simp add: pow2_def nat_add_distrib)
next
  case False
  then have "nat (- e) = Suc (nat (- (e + 1)))" by simp
  with False show ?thesis by (cases "e = - 1") (simp_all add: pow2_def)
qed

lemma pow2_add_nat: "pow2 (e + int n) = pow2 e * 2 ^ n"
proof (induction n)
  case (Suc n)
  have "pow2 (e + int (Suc n)) = pow2 (e + int n + 1)" by (simp add: algebra_simps)
  with Suc show ?case by (simp add: pow2_Suc)
qed simp

lemma pow2_add: "pow2 (a + b) = pow2 a * pow2 b"
proof (cases "0 \<le> b")
  case True
  then show ?thesis using pow2_add_nat [of a "nat b"] by (simp add: pow2_def)
next
  case False
  then have "pow2 a = pow2 (a + b) * 2 ^ nat (- b)"
    using pow2_add_nat [of "a + b" "nat (- b)"] by simp
  with False show ?thesis by (simp add: pow2_def)
qed

lemma pow2_mono: "a \<le> b \<Longrightarrow> pow2 a \<le> pow2 b"
  using pow2_add_nat [of a "nat (b - a)"] by simp

lemma pow2_of_nat [simp]: "pow2 (int n) = 2 ^ n"
  by (simp add: pow2_def)

lemma ilog2_bounds: "0 < n \<Longrightarrow> 2 ^ ilog2 n \<le> n \<and> n < 2 ^ Suc (ilog2 n)"
proof (induction n rule: ilog2.induct)
  case (1 n)
  show ?case
  proof (cases "n \<le> 1")
    case True
    with "1.prems" show ?thesis by (simp add: ilog2.simps [of n])
  next
    case False
    then have "2 ^ ilog2 (n div 2) \<le> n div 2 \<and> n div 2 < 2 ^ Suc (ilog2 (n div 2))"
      using "1.IH" by auto
    then have "2 * 2 ^ ilog2 (n div 2) \<le> n \<and> n < 2 * 2 ^ Suc (ilog2 (n div 2))" by linarith
    with False show ?thesis by (simp add: ilog2.simps [of n])
  qed
qed

lemma exponent_bounds:
  assumes "0 < x"
  shows "pow2 (exponent x) \<le> x" "x < pow2 (exponent x + 1)"
proof -
  obtain p q where pq: "quotient_of x = (p, q)" by (cases "quotient_of x")
  then have q: "0 < q" and x: "x = of_int p / of_int q"
    using quotient_of_denom_pos quotient_of_div by auto
  with assms have p: "0 < p" by (simp add: zero_less_divide_iff)
  define a where "a = ilog2 (nat p)"
  define b where "b = ilog2 (nat q)"
  have "2 ^ a \<le> nat p \<and> nat p < 2 ^ Suc a" unfolding a_def by (rule ilog2_bounds) (use p in simp)
  then have A: "(2 :: int) ^ a \<le> p" "p < 2 ^ Suc a"
    using p by (metis le_nat_iff less_imp_le of_nat_numeral of_nat_power nat_less_iff)+
  have "2 ^ b \<le> nat q \<and> nat q < 2 ^ Suc b" unfolding b_def by (rule ilog2_bounds) (use q in simp)
  then have B: "(2 :: int) ^ b \<le> q" "q < 2 ^ Suc b"
    using q by (metis le_nat_iff less_imp_le of_nat_numeral of_nat_power nat_less_iff)+
  have A': "(2 :: rat) ^ a \<le> of_int p" "(of_int p :: rat) < 2 ^ Suc a"
    using A by (metis of_int_le_iff of_int_less_iff of_int_numeral of_int_power)+
  have B': "(2 :: rat) ^ b \<le> of_int q" "(of_int q :: rat) < 2 ^ Suc b"
    using B by (metis of_int_le_iff of_int_less_iff of_int_numeral of_int_power)+
  define e where "e = int a - int b"
  have e2: "pow2 e * 2 ^ b = 2 ^ a"
    using pow2_add_nat [of e b] by (simp add: e_def)
  have up: "x < pow2 (e + 1)"
  proof -
    have "pow2 (e + 1) * of_int q \<ge> pow2 (e + 1) * 2 ^ b" using B' by simp
    also have "pow2 (e + 1) * 2 ^ b = 2 ^ Suc a" using e2 by (simp add: pow2_Suc)
    finally have "of_int p < pow2 (e + 1) * of_int q" using A' by linarith
    with q show ?thesis by (simp add: x pos_divide_less_eq)
  qed
  have lo: "pow2 (e - 1) \<le> x"
  proof -
    have "pow2 (e - 1) * of_int q \<le> pow2 (e - 1) * (2 * 2 ^ b)" using B' by simp
    also have "\<dots> = 2 ^ a" using e2 pow2_Suc [of "e - 1"] by simp
    finally have "pow2 (e - 1) * of_int q \<le> of_int p" using A' by linarith
    with q show ?thesis by (simp add: x pos_le_divide_eq)
  qed
  have "exponent x = (if pow2 e \<le> x then e else e - 1)"
    by (simp add: exponent_def pq e_def a_def b_def)
  with up lo show "pow2 (exponent x) \<le> x" "x < pow2 (exponent x + 1)" by (auto split: if_splits)
qed

lemma exponent_le: "0 < x \<Longrightarrow> x \<le> y \<Longrightarrow> exponent x \<le> exponent y"
proof (rule ccontr)
  assume a: "0 < x" "x \<le> y" "\<not> exponent x \<le> exponent y"
  then have "pow2 (exponent y + 1) \<le> pow2 (exponent x)" by (intro pow2_mono) simp
  with a exponent_bounds(1) [of x] exponent_bounds(2) [of y] show False by simp
qed

section \<open>Rounding\<close>

lemma round_even_mono: "x \<le> y \<Longrightarrow> round_even x \<le> round_even y"
proof -
  assume xy: "x \<le> y"
  then have f: "\<lfloor>x\<rfloor> \<le> \<lfloor>y\<rfloor>" by (rule floor_mono)
  show ?thesis
  proof (cases "\<lfloor>x\<rfloor> = \<lfloor>y\<rfloor>")
    case True
    with xy show ?thesis by (auto simp: round_even_def Let_def)
  next
    case False
    with f have "\<lfloor>x\<rfloor> + 1 \<le> \<lfloor>y\<rfloor>" by simp
    moreover have "round_even x \<le> \<lfloor>x\<rfloor> + 1" by (simp add: round_even_def Let_def)
    moreover have "\<lfloor>y\<rfloor> \<le> round_even y" by (simp add: round_even_def Let_def)
    ultimately show ?thesis by simp
  qed
qed

lemma round_even_int [simp]: "round_even (of_int n) = n"
  by (simp add: round_even_def)

lemma round_even_numeral [simp]: "round_even (2 ^ n) = 2 ^ n"
  using round_even_int [of "2 ^ n"] by simp

text \<open>A value that is a whole multiple of the unit of its binade is unchanged.\<close>

lemma rnd_pos_exact:
  "x / pow2 (max (exponent x) (- 1022) - 52) = of_int k \<Longrightarrow> rnd_pos x = x"
proof -
  let ?u = "pow2 (max (exponent x) (- 1022) - 52)"
  assume a: "x / ?u = of_int k"
  have "x / ?u * ?u = x" by simp
  with a show ?thesis by (simp add: rnd_pos_def Let_def)
qed

lemma unit_split: "e' \<le> e \<Longrightarrow> pow2 (e - 52) = of_int (2 ^ nat (e - e')) * pow2 (e' - 52)"
  using pow2_add_nat [of "e' - 52" "nat (e - e')"] by (simp add: mult.commute)

lemma rnd_pos_mono:
  assumes x: "0 < x" and xy: "x \<le> y"
  shows "rnd_pos x \<le> rnd_pos y"
proof -
  define e where "e = max (exponent x) (- 1022)"
  define f where "f = max (exponent y) (- 1022)"
  have ef: "e \<le> f" using exponent_le [OF x xy] by (auto simp: e_def f_def)
  show ?thesis
  proof (cases "e = f")
    case True
    have "x / pow2 (e - 52) \<le> y / pow2 (e - 52)" using xy by (simp add: divide_right_mono)
    then have "round_even (x / pow2 (e - 52)) \<le> round_even (y / pow2 (e - 52))"
      by (rule round_even_mono)
    then show ?thesis using True unfolding rnd_pos_def Let_def e_def [symmetric] f_def [symmetric]
      by (simp add: mult_right_mono)
  next
    case False
    with ef have lt: "e + 1 \<le> f" by simp
    have fy: "f = exponent y" using lt by (auto simp: e_def f_def max_def split: if_splits)
    have "x < pow2 (exponent x + 1)" using x by (rule exponent_bounds)
    also have "\<dots> \<le> pow2 (e + 1)" by (rule pow2_mono) (simp add: e_def)
    finally have "x / pow2 (e - 52) \<le> pow2 (e + 1) / pow2 (e - 52)"
      by (simp add: divide_right_mono)
    also have "pow2 (e + 1) = 2 ^ 53 * pow2 (e - 52)"
      using pow2_add_nat [of "e - 52" 53] by (simp add: add.commute mult.commute)
    finally have "x / pow2 (e - 52) \<le> 2 ^ 53" by simp
    then have "round_even (x / pow2 (e - 52)) \<le> 2 ^ 53"
      using round_even_mono round_even_numeral [of 53] by metis
    then have "(of_int (round_even (x / pow2 (e - 52))) :: rat) \<le> of_int (2 ^ 53)"
      by (simp only: of_int_le_iff)
    then have A: "rnd_pos x \<le> of_int (2 ^ 53) * pow2 (e - 52)"
      unfolding rnd_pos_def Let_def e_def [symmetric] by (rule mult_right_mono) simp
    have "of_int (2 ^ 53) * pow2 (e - 52) = pow2 (e + 1)"
      using pow2_add_nat [of "e - 52" 53] by (simp add: add.commute mult.commute)
    also have "\<dots> \<le> pow2 f" using lt by (rule pow2_mono)
    finally have A': "rnd_pos x \<le> pow2 f" using A by linarith
    have y0: "0 < y" using x xy by simp
    have "pow2 f \<le> y" using exponent_bounds(1) [OF y0] fy by simp
    then have "pow2 f / pow2 (f - 52) \<le> y / pow2 (f - 52)" by (simp add: divide_right_mono)
    moreover have "pow2 f = 2 ^ 52 * pow2 (f - 52)" using pow2_add_nat [of "f - 52" 52] by simp
    ultimately have "2 ^ 52 \<le> y / pow2 (f - 52)" by simp
    then have "2 ^ 52 \<le> round_even (y / pow2 (f - 52))"
      using round_even_mono round_even_numeral [of 52] by metis
    then have "(of_int (2 ^ 52) :: rat) \<le> of_int (round_even (y / pow2 (f - 52)))"
      by (simp only: of_int_le_iff)
    then have "of_int (2 ^ 52) * pow2 (f - 52) \<le> rnd_pos y"
      unfolding rnd_pos_def Let_def f_def [symmetric] by (rule mult_right_mono) simp
    then have "pow2 f \<le> rnd_pos y" using \<open>pow2 f = 2 ^ 52 * pow2 (f - 52)\<close> by simp
    with A' show ?thesis by linarith
  qed
qed

lemma rnd_pos_nonneg: "0 < x \<Longrightarrow> 0 \<le> rnd_pos x"
proof -
  assume "0 < x"
  then have "0 \<le> x / pow2 (max (exponent x) (- 1022) - 52)" by simp
  then have "round_even 0 \<le> round_even (x / pow2 (max (exponent x) (- 1022) - 52))"
    by (rule round_even_mono)
  then have "0 \<le> round_even (x / pow2 (max (exponent x) (- 1022) - 52))"
    using round_even_int [of 0] by simp
  then show ?thesis by (simp add: rnd_pos_def Let_def)
qed

lemma rnd_0 [simp]: "rnd 0 = 0"
  by (simp add: rnd_def)

lemma rnd_mono: "x \<le> y \<Longrightarrow> rnd x \<le> rnd y"
proof -
  assume xy: "x \<le> y"
  consider "0 < x" | "x \<le> 0" "0 \<le> y" | "y < 0" by linarith
  then show ?thesis
  proof cases
    case 1
    with xy show ?thesis using rnd_pos_mono by (simp add: rnd_def)
  next
    case 2
    then show ?thesis using rnd_pos_nonneg [of y] rnd_pos_nonneg [of "- x"]
      by (auto simp: rnd_def intro: order_trans [of _ 0])
  next
    case 3
    then show ?thesis using xy rnd_pos_mono [of "- y" "- x"] by (simp add: rnd_def)
  qed
qed

lemma rnd_minus: "rnd (- x) = - rnd x"
  by (simp add: rnd_def)

text \<open>Every integer up to \<open>2^53\<close> in magnitude is a binary64 value.\<close>

lemma rnd_pos_of_int:
  assumes "0 < n" "n < 2 ^ 53"
  shows "rnd_pos (of_int n) = of_int n"
proof -
  let ?x = "of_int n :: rat"
  have x: "0 < ?x" using assms by simp
  have "1 \<le> ?x" using assms by (metis int_one_le_iff_zero_less of_int_1_le_iff)
  have e0: "0 \<le> exponent ?x"
  proof (rule ccontr)
    assume "\<not> 0 \<le> exponent ?x"
    then have "pow2 (exponent ?x + 1) \<le> pow2 0" by (intro pow2_mono) simp
    with exponent_bounds(2) [OF x] \<open>1 \<le> ?x\<close> show False by simp
  qed
  have e53: "exponent ?x \<le> 52"
  proof (rule ccontr)
    assume "\<not> exponent ?x \<le> 52"
    then have "pow2 53 \<le> pow2 (exponent ?x)" by (intro pow2_mono) simp
    also have "\<dots> \<le> ?x" using x by (rule exponent_bounds)
    finally have "(of_int (2 ^ 53) :: rat) \<le> of_int n" using pow2_of_nat [of 53] by simp
    then have "(2 ^ 53 :: int) \<le> n" by (simp only: of_int_le_iff)
    with assms show False by simp
  qed
  define m where "m = nat (52 - exponent ?x)"
  have "pow2 (exponent ?x - 52) * 2 ^ m = 1"
    using pow2_add_nat [of "exponent ?x - 52" m] e53 by (simp add: m_def)
  then have "1 / pow2 (exponent ?x - 52) = 2 ^ m" by (simp add: field_simps)
  then have "?x / pow2 (exponent ?x - 52) = of_int (n * 2 ^ m)"
    by (metis (no_types) mult.right_neutral of_int_mult of_int_numeral of_int_power times_divide_eq_right)
  then show ?thesis using e0 by (intro rnd_pos_exact [of _ "n * 2 ^ m"]) simp
qed

lemma rnd_of_int [simp]: "\<bar>n\<bar> < 2 ^ 53 \<Longrightarrow> rnd (of_int n) = of_int n"
  using rnd_pos_of_int [of n] rnd_pos_of_int [of "- n"]
  by (cases "n = 0"; cases "0 < n") (auto simp: rnd_def)

text \<open>Neither does a division by \<open>2^20\<close> round them.\<close>

lemma rnd_pos_mib:
  assumes "0 < n" "n < 2 ^ 53"
  shows "rnd_pos (of_int n / 2 ^ 20) = of_int n / 2 ^ 20"
proof -
  let ?x = "of_int n / 2 ^ 20 :: rat"
  have x: "0 < ?x" using assms by simp
  have "1 \<le> (of_int n :: rat)" using assms by (metis int_one_le_iff_zero_less of_int_1_le_iff)
  then have ge: "pow2 (- 20) \<le> ?x" by (simp add: pow2_def field_simps)
  have e0: "- 1022 \<le> exponent ?x"
  proof (rule ccontr)
    assume "\<not> - 1022 \<le> exponent ?x"
    then have "pow2 (exponent ?x + 1) \<le> pow2 (- 20)" by (intro pow2_mono) simp
    with exponent_bounds(2) [OF x] ge show False by simp
  qed
  have e33: "exponent ?x \<le> 32"
  proof (rule ccontr)
    assume "\<not> exponent ?x \<le> 32"
    then have "pow2 33 \<le> pow2 (exponent ?x)" by (intro pow2_mono) simp
    also have "\<dots> \<le> ?x" using x by (rule exponent_bounds)
    finally have "2 ^ 33 * 2 ^ 20 \<le> (of_int n :: rat)" using pow2_of_nat [of 33] by (simp add: field_simps)
    then have "(of_int (2 ^ 53) :: rat) \<le> of_int n" by simp
    then have "(2 ^ 53 :: int) \<le> n" by (simp only: of_int_le_iff)
    with assms show False by simp
  qed
  define m where "m = nat (32 - exponent ?x)"
  have "pow2 (exponent ?x - 52) * 2 ^ m = pow2 (- 20)"
    using pow2_add_nat [of "exponent ?x - 52" m] e33 by (simp add: m_def)
  then have u: "pow2 (exponent ?x - 52) * 2 ^ m * 2 ^ 20 = 1" by (simp add: pow2_def)
  have inverse_unit: "y / D = y * M * P" if "P * M * D = 1" for y D M P :: rat
  proof -
    from that have "D \<noteq> 0" by auto
    moreover have "y = y * M * P * D" using that by (simp add: mult.assoc mult.left_commute mult.commute)
    ultimately show ?thesis by (simp add: divide_eq_eq)
  qed
  from inverse_unit [OF u] have "?x = of_int n * 2 ^ m * pow2 (exponent ?x - 52)" .
  moreover have "y / u = k" if "y = k * u" "u \<noteq> 0" for y k u :: rat using that by simp
  ultimately have "?x / pow2 (exponent ?x - 52) = of_int n * 2 ^ m" using pow2_nonzero by blast
  then have "?x / pow2 (exponent ?x - 52) = of_int (n * 2 ^ m)" by (simp only: of_int_mult of_int_power of_int_numeral)
  then show ?thesis using e0 by (intro rnd_pos_exact [of _ "n * 2 ^ m"]) (simp only: max_absorb1)
qed

lemma rnd_mib: "\<bar>n\<bar> < 2 ^ 53 \<Longrightarrow> rnd (of_int n / 2 ^ 20) = of_int n / 2 ^ 20"
  using rnd_pos_mib [of n] rnd_pos_mib [of "- n"]
  by (cases "n = 0"; cases "0 < n") (auto simp: rnd_def zero_less_divide_iff)

lemma rnd_1 [simp]: "rnd 1 = 1"
  using rnd_of_int [of 1] by simp

lemma rnd_100 [simp]: "rnd 100 = 100"
  using rnd_of_int [of 100] by simp

lemma rnd_ge_1: "1 \<le> x \<Longrightarrow> 1 \<le> rnd x"
  using rnd_mono [of 1 x] by simp

lemma rnd_nonneg: "0 \<le> x \<Longrightarrow> 0 \<le> rnd x"
  using rnd_mono [of 0 x] by simp

lemma f64_of_int_mono: "m \<le> n \<Longrightarrow> f64_of_int m \<le> f64_of_int n"
  by (simp add: f64_of_int_def rnd_mono)

lemma f64_of_int_pos: "0 < n \<Longrightarrow> 1 \<le> f64_of_int n"
  unfolding f64_of_int_def by (rule rnd_ge_1) (metis int_one_le_iff_zero_less of_int_1_le_iff)

lemma f64_of_int_exact [simp]: "\<bar>n\<bar> < 2 ^ 53 \<Longrightarrow> f64_of_int n = of_int n"
  by (simp add: f64_of_int_def)

lemma f64_clamp_bounds: "lo \<le> hi \<Longrightarrow> lo \<le> f64_clamp x lo hi \<and> f64_clamp x lo hi \<le> hi"
  by (simp add: f64_clamp_def)

end
