(* ===== verification/Types.thy ===== *)
theory Types
  imports F64
begin

text \<open>
  The wire types (\<open>crates/rtorrent/src/types.rs\<close>) and the underived daemon rows
  (\<open>crates/rtorrent/src/rtorrent/mod.rs\<close>). One record per struct, one datatype per enum;
  the field names carry a short prefix for the struct, because record fields are global names:
  \<open>dto_\<close> for \<open>TorrentDto\<close>, \<open>raw_\<close> for \<open>RawTorrent\<close>, and so on. \<open>u64\<close> counters are
  \<open>nat\<close>, \<open>i64\<close> fields are \<open>int\<close>, \<open>f64\<close> fields are \<open>f64\<close>.
\<close>

datatype status = Downloading | Seeding | Completed | Paused | Stalled | Checking | StatusError

record torrent_dto =
  dto_hash :: string
  dto_name :: string
  dto_size :: int
  dto_bytes_done :: int
  dto_percent :: f64
  dto_status :: status
  dto_status_msg :: string
  dto_seeds_connected :: int
  dto_peers_connected :: int
  dto_seeds_swarm :: int
  dto_peers_swarm :: int
  dto_down_rate :: int
  dto_up_rate :: int
  dto_eta_seconds :: "int option"
  dto_ratio :: f64
  dto_label :: string
  dto_tracker_host :: string
  dto_save_path :: string
  dto_priority :: int
  dto_is_private :: bool
  dto_throttle_name :: string
  dto_down_rate_limit :: "int option"
  dto_up_rate_limit :: "int option"
  dto_started_at :: int
  dto_finished_at :: int
  dto_peers_max :: int
  dto_peers_min :: int
  dto_uploads_max :: int
  dto_connection_type :: string
  dto_added_by :: string
  dto_source_path :: string
  dto_added_at :: int
  dto_tags :: "string list"
  dto_force_start :: bool
  dto_throttle_rule :: string
  dto_views :: "string list"
  dto_error_kind :: string
  dto_is_open :: bool
  dto_is_active :: bool

record global_stats =
  gs_down_rate :: int
  gs_up_rate :: int
  gs_down_rate_limit :: int
  gs_up_rate_limit :: int
  gs_dht_nodes :: int
  gs_free_space :: "int option"
  gs_disk_size :: "int option"
  gs_turtle_active :: bool

datatype conn_phase = Connecting | Connected | Disconnected

record conn_state =
  cs_phase :: conn_phase
  cs_endpoint :: string
  cs_daemon_version :: "string option"
  cs_error :: "string option"
  cs_retry_in_seconds :: "int option"

record snapshot =
  sn_revision :: nat
  sn_torrents :: "torrent_dto list"
  sn_globals :: global_stats
  sn_connection :: conn_state

record snapshot_delta =
  sd_revision :: nat
  sd_base_revision :: nat
  sd_added :: "torrent_dto list"
  sd_updated :: "torrent_dto list"
  sd_removed :: "string list"
  sd_globals :: global_stats
  sd_connection :: conn_state

record raw_torrent =
  raw_hash :: string
  raw_name :: string
  raw_size_bytes :: int
  raw_bytes_done :: int
  raw_complete :: bool
  raw_is_active :: bool
  raw_is_open :: bool
  raw_hashing :: bool
  raw_message :: string
  raw_down_rate :: int
  raw_up_rate :: int
  raw_ratio_permille :: int
  raw_label :: string
  raw_directory :: string
  raw_base_path :: string
  raw_peers_complete :: int
  raw_peers_accounted :: int
  raw_peers_connected :: int
  raw_priority :: int
  raw_is_private :: bool
  raw_throttle_name :: string
  raw_finished_at :: int
  raw_chunks_hashed :: int
  raw_size_chunks :: int
  raw_started_at :: int
  raw_peers_max :: int
  raw_peers_min :: int
  raw_uploads_max :: int
  raw_connection_current :: string
  raw_added_by :: string
  raw_source_path :: string
  raw_added_at :: int
  raw_tags :: "string list"
  raw_final_dir :: string
  raw_force_start :: bool
  raw_queue_pos :: "int option"
  raw_throttle_rule :: string

record raw_global =
  rg_down_rate :: int
  rg_up_rate :: int
  rg_down_rate_limit :: int
  rg_up_rate_limit :: int
  rg_dht_nodes :: int

text \<open>The derived \<open>Default\<close> values.\<close>

definition raw_torrent_default :: raw_torrent where
  "raw_torrent_default = \<lparr>
     raw_hash = [], raw_name = [], raw_size_bytes = 0, raw_bytes_done = 0, raw_complete = False,
     raw_is_active = False, raw_is_open = False, raw_hashing = False, raw_message = [],
     raw_down_rate = 0, raw_up_rate = 0, raw_ratio_permille = 0, raw_label = [],
     raw_directory = [], raw_base_path = [], raw_peers_complete = 0, raw_peers_accounted = 0,
     raw_peers_connected = 0, raw_priority = 0, raw_is_private = False, raw_throttle_name = [],
     raw_finished_at = 0, raw_chunks_hashed = 0, raw_size_chunks = 0, raw_started_at = 0,
     raw_peers_max = 0, raw_peers_min = 0, raw_uploads_max = 0, raw_connection_current = [],
     raw_added_by = [], raw_source_path = [], raw_added_at = 0, raw_tags = [],
     raw_final_dir = [], raw_force_start = False, raw_queue_pos = None,
     raw_throttle_rule = []\<rparr>"

definition raw_global_default :: raw_global where
  "raw_global_default = \<lparr>rg_down_rate = 0, rg_up_rate = 0, rg_down_rate_limit = 0,
     rg_up_rate_limit = 0, rg_dht_nodes = 0\<rparr>"

section \<open>Errors of the daemon layer\<close>

datatype rtorrent_error =
    Unreachable string
  | Timeout
  | Protocol string
  | Parse string
  | Fault int string
  | Unexpected string
  | Unsupported string

type_synonym 'a result = "rtorrent_error + 'a"

fun error_text :: "rtorrent_error \<Rightarrow> string" where
  "error_text (Unreachable s) = ''cannot reach rtorrent: '' @ s"
| "error_text Timeout = ''rtorrent request timed out''"
| "error_text (Protocol s) = ''protocol error: '' @ s"
| "error_text (Parse s) = ''failed to parse response: '' @ s"
| "error_text (Fault c m) = ''rtorrent fault '' @ show_int c @ '': '' @ m"
| "error_text (Unexpected s) = ''unexpected response: '' @ s"
| "error_text (Unsupported s) = s"

section \<open>Magnet links\<close>

text \<open>\<open>str::find\<close> with a string pattern, as the text after the first occurrence.\<close>

fun after_first :: "string \<Rightarrow> string \<Rightarrow> string option" where
  "after_first m [] = (if m = [] then Some [] else None)"
| "after_first m (c # cs) =
     (if prefix m (c # cs) then Some (drop (length m) (c # cs)) else after_first m cs)"

definition until_any :: "char list \<Rightarrow> string \<Rightarrow> string" where
  "until_any ds s = takeWhile (\<lambda>c. c \<notin> set ds) s"

fun split_any :: "char list \<Rightarrow> string \<Rightarrow> string list" where
  "split_any ds [] = [[]]"
| "split_any ds (c # cs) =
     (if c \<in> set ds then [] # split_any ds cs
      else (case split_any ds cs of [] \<Rightarrow> [[c]] | p # ps \<Rightarrow> (c # p) # ps))"

definition magnet_hash :: "string \<Rightarrow> string option" where
  "magnet_hash uri =
     (case after_first ''urn:btih:'' uri of
        None \<Rightarrow> None
      | Some rest \<Rightarrow>
          let value = trim (until_any ''&#'' rest) in
          if length value \<noteq> 40 \<or> \<not> list_all is_hex_digit value then None
          else Some (to_upper value))"

definition magnet_name :: "string \<Rightarrow> string" where
  "magnet_name uri =
     (case after_first ''dn='' uri of
        None \<Rightarrow> []
      | Some rest \<Rightarrow>
          map (\<lambda>c. if c = CHR ''+'' then CHR '' '' else c) (trim (until_any ''&#'' rest)))"

definition strip_prefix :: "string \<Rightarrow> string \<Rightarrow> string option" where
  "strip_prefix p s = (if prefix p s then Some (drop (length p) s) else None)"

definition magnet_trackers :: "string \<Rightarrow> string list" where
  "magnet_trackers uri =
     filter (\<lambda>v. v \<noteq> [])
       (map (until_any ''#'')
         (List.map_filter (strip_prefix ''tr='') (split_any ''&?'' uri)))"

end
