(* ===== verification/Error_Kind.thy ===== *)
theory Error_Kind
  imports Types
begin

text \<open>
  The error taxonomy of \<open>d.message\<close>
  (\<open>crates/rtorrent/src/rtorrent/error_kind.rs\<close>): \<open>classify\<close> sorts a free-form daemon message
  into one bucket by case-insensitive keyword search, more precise buckets first. The keyword
  tables are the source's, in its order.
\<close>

datatype error_kind =
    Unregistered | TrackerTimeout | TrackerError | MissingFiles | NoSpace | Permission
  | DiskError | OtherError

fun as_str :: "error_kind \<Rightarrow> string" where
  "as_str Unregistered = ''unregistered''"
| "as_str TrackerTimeout = ''tracker_timeout''"
| "as_str TrackerError = ''tracker_error''"
| "as_str MissingFiles = ''missing_files''"
| "as_str NoSpace = ''no_space''"
| "as_str Permission = ''permission''"
| "as_str DiskError = ''disk_error''"
| "as_str OtherError = ''other''"

fun kind_label :: "error_kind \<Rightarrow> string" where
  "kind_label Unregistered = ''unregistered''"
| "kind_label TrackerTimeout = ''timeout''"
| "kind_label TrackerError = ''trk error''"
| "kind_label MissingFiles = ''missing files''"
| "kind_label NoSpace = ''no space''"
| "kind_label Permission = ''permission''"
| "kind_label DiskError = ''disk error''"
| "kind_label OtherError = ''error''"

definition contains_any :: "string \<Rightarrow> string list \<Rightarrow> bool" where
  "contains_any hay needles = list_ex (str_contains hay) needles"

definition unregistered_words :: "string list" where
  "unregistered_words = [
     ''unregistered'', ''not registered'', ''torrent not found'', ''unknown torrent'',
     ''invalid torrent'', ''unrecognized torrent'', ''not authorized'', ''not authorised'',
     ''unauthorized'', ''unauthorised'', ''passkey'', ''bad passkey'', ''invalid passkey'']"

definition no_space_words :: "string list" where
  "no_space_words = [
     ''no space'', ''no space left'', ''disk full'', ''not enough disk space'',
     ''no disk space'']"

definition permission_words :: "string list" where
  "permission_words = [
     ''permission denied'', ''access denied'', ''read-only file system'',
     ''read only file system'', ''read-only filesystem'']"

definition missing_words :: "string list" where
  "missing_words = [
     ''no such file'', ''file not found'', ''file chunk read error'', ''chunk read error'',
     ''missing file'', ''bad file descriptor'']"

definition open_failed_words :: "string list" where
  "open_failed_words = [
     ''could not open file'', ''couldn'' @ [CHR 0x27] @ ''t open file'', ''failed to open'',
     ''open failed'']"

definition timeout_words :: "string list" where
  "timeout_words = [
     ''timed out'', ''timeout'', ''could not connect'', ''couldn'' @ [CHR 0x27] @ ''t connect'',
     ''cannot connect'', ''connection timed out'', ''connection refused'', ''connection reset'',
     ''no connection'', ''unreachable'', ''host not found'', ''could not resolve host'',
     ''could not resolve'', ''name resolution'', ''network is unreachable'',
     ''network unreachable'']"

definition disk_words :: "string list" where
  "disk_words = [
     ''storage error'', ''storage failed'', ''disk error'', ''disk i/o error'', ''io error'',
     ''file error'']"

definition classify :: "string \<Rightarrow> error_kind option" where
  "classify msg =
    (if trim msg = [] then None
     else let lower = to_lower msg in
       if contains_any lower unregistered_words then Some Unregistered
       else if contains_any lower no_space_words then Some NoSpace
       else if contains_any lower permission_words then Some Permission
       else if contains_any lower missing_words then Some MissingFiles
       else if contains_any lower open_failed_words \<and> \<not> str_contains lower ''tracker''
         then Some MissingFiles
       else if contains_any lower timeout_words then Some TrackerTimeout
       else if str_contains lower ''tracker'' then Some TrackerError
       else if contains_any lower disk_words then Some DiskError
       else if (str_contains lower ''file'' \<or> str_contains lower ''directory'') \<and>
               (str_contains lower ''error'' \<or> str_contains lower ''failed'' \<or>
                str_contains lower ''failure'')
         then Some DiskError
       else Some OtherError)"

section \<open>Facts\<close>

lemma as_str_inj: "as_str k = as_str k' \<Longrightarrow> k = k'"
  by (cases k; cases k') simp_all

lemma as_str_nonempty [simp]: "as_str k \<noteq> []"
  by (cases k) simp_all

lemma classify_None_iff: "classify msg = None \<longleftrightarrow> trim msg = []"
  by (simp add: classify_def Let_def)

lemma classify_case_insensitive: "classify (to_lower msg) = classify msg"
  by (simp add: classify_def trim_to_lower)

text \<open>What each bucket promises: the bucket's own evidence, and none of the earlier buckets'.\<close>

definition local_failure_words :: "string list" where
  "local_failure_words = no_space_words @ permission_words @ missing_words"

lemma contains_any_append:
  "contains_any h (xs @ ys) \<longleftrightarrow> contains_any h xs \<or> contains_any h ys"
  by (simp add: contains_any_def)

lemma classify_Unregistered:
  "trim msg \<noteq> [] \<Longrightarrow>
   classify msg = Some Unregistered \<longleftrightarrow> contains_any (to_lower msg) unregistered_words"
  by (simp add: classify_def Let_def)

lemma classify_tracker_bucket:
  "classify msg \<in> {Some TrackerError, Some TrackerTimeout} \<Longrightarrow>
   \<not> contains_any (to_lower msg) (unregistered_words @ local_failure_words)"
  by (auto simp: classify_def Let_def contains_any_append local_failure_words_def split: if_splits)

lemma classify_TrackerError:
  "classify msg = Some TrackerError \<Longrightarrow>
   str_contains (to_lower msg) ''tracker'' \<and> \<not> contains_any (to_lower msg) timeout_words"
  by (auto simp: classify_def Let_def split: if_splits)

lemma classify_Other_no_tracker:
  "classify msg = Some OtherError \<Longrightarrow> \<not> str_contains (to_lower msg) ''tracker''"
  by (auto simp: classify_def Let_def split: if_splits)

text \<open>Error buckets are a total, case-insensitive classification with the documented
  precedence: a message gets a bucket exactly when it is not blank; an unregistered-torrent keyword
  always wins; a tracker bucket is only given to messages with no unregistered, no-space, permission
  or missing-file keyword; and any message that mentions the tracker lands in one of the
  buckets before the generic disk and other buckets.\<close>

theorem classify_precedence:
  "classify (to_lower msg) = classify msg \<and>
   (classify msg = None \<longleftrightarrow> trim msg = []) \<and>
   (classify msg = Some Unregistered \<longleftrightarrow>
      trim msg \<noteq> [] \<and> contains_any (to_lower msg) unregistered_words) \<and>
   \<not> (classify msg \<in> {Some TrackerError, Some TrackerTimeout} \<and>
      contains_any (to_lower msg) (unregistered_words @ local_failure_words)) \<and>
   \<not> (classify msg \<in> {Some OtherError, Some DiskError} \<and> str_contains (to_lower msg) ''tracker'')"
proof (intro conjI)
  show "classify msg = Some Unregistered \<longleftrightarrow>
      trim msg \<noteq> [] \<and> contains_any (to_lower msg) unregistered_words"
    by (cases "trim msg = []") (auto simp: classify_Unregistered classify_None_iff [THEN iffD2])
  show "\<not> (classify msg \<in> {Some TrackerError, Some TrackerTimeout} \<and>
      contains_any (to_lower msg) (unregistered_words @ local_failure_words))"
    using classify_tracker_bucket by blast
  show "\<not> (classify msg \<in> {Some OtherError, Some DiskError} \<and>
      str_contains (to_lower msg) ''tracker'')"
    by (auto simp: classify_def Let_def split: if_splits)
qed (rule classify_case_insensitive classify_None_iff)+

end
