(* ===== verification/Derive.thy ===== *)
theory Derive
  imports Error_Kind
begin

text \<open>
  Derivation of the presentation row from the raw daemon row
  (\<open>crates/rtorrent/src/rtorrent/derive.rs\<close>) and the snapshot assembly on top of it
  (\<open>crates/rtorrent/src/snapshot.rs\<close>).
\<close>

definition status :: "raw_torrent \<Rightarrow> status" where
  "status t =
    (if raw_message t \<noteq> [] then StatusError
     else if raw_hashing t then Checking
     else if \<not> raw_is_open t \<or> \<not> raw_is_active t then Paused
     else if raw_complete t then Seeding
     else if raw_down_rate t > 0 then Downloading
     else Stalled)"

definition percent_of :: "int \<Rightarrow> int \<Rightarrow> f64" where
  "percent_of part whole =
     f64_clamp (f64_mul (f64_div (f64_of_int part) (f64_of_int whole)) 100) 0 100"

definition percent :: "raw_torrent \<Rightarrow> f64" where
  "percent t =
    (if raw_size_bytes t \<le> 0 then 0 else percent_of (raw_bytes_done t) (raw_size_bytes t))"

text \<open>Rust's \<open>/\<close> on \<open>i64\<close> truncates; both operands are non-negative where it is reached.\<close>

definition eta_seconds :: "raw_torrent \<Rightarrow> status \<Rightarrow> int option" where
  "eta_seconds t st =
    (if st = Downloading \<and> raw_down_rate t > 0
     then let remaining = max (raw_size_bytes t - raw_bytes_done t) 0
          in Some (remaining div raw_down_rate t)
     else None)"

definition ratio :: "raw_torrent \<Rightarrow> f64" where
  "ratio t = f64_div (f64_of_int (raw_ratio_permille t)) 1000"

definition error_kind_text :: "raw_torrent \<Rightarrow> status \<Rightarrow> string" where
  "error_kind_text t st =
    (if st = StatusError
     then (case classify (raw_message t) of None \<Rightarrow> [] | Some k \<Rightarrow> as_str k)
     else [])"

definition to_dto :: "raw_torrent \<Rightarrow> string \<Rightarrow> (int \<times> int) option \<Rightarrow> torrent_dto" where
  "to_dto t tracker_host named_limits =
    (let st = status t;
         pct = (if st = Checking \<and> raw_size_chunks t > 0
                then percent_of (raw_chunks_hashed t) (raw_size_chunks t)
                else percent t)
     in \<lparr>dto_hash = raw_hash t,
         dto_name = raw_name t,
         dto_size = raw_size_bytes t,
         dto_bytes_done = raw_bytes_done t,
         dto_percent = pct,
         dto_status = st,
         dto_status_msg = raw_message t,
         dto_seeds_connected = min (raw_peers_complete t) (raw_peers_connected t),
         dto_peers_connected = raw_peers_connected t,
         dto_seeds_swarm = raw_peers_complete t,
         dto_peers_swarm = raw_peers_accounted t,
         dto_down_rate = raw_down_rate t,
         dto_up_rate = raw_up_rate t,
         dto_eta_seconds = eta_seconds t st,
         dto_ratio = ratio t,
         dto_label = raw_label t,
         dto_tracker_host = tracker_host,
         dto_save_path = (if raw_base_path t = [] then raw_directory t else raw_base_path t),
         dto_priority = raw_priority t,
         dto_is_private = raw_is_private t,
         dto_throttle_name = raw_throttle_name t,
         dto_down_rate_limit = map_option (\<lambda>l. sat_i64 (fst l * 1024)) named_limits,
         dto_up_rate_limit = map_option (\<lambda>l. sat_i64 (snd l * 1024)) named_limits,
         dto_started_at = raw_started_at t,
         dto_finished_at = raw_finished_at t,
         dto_peers_max = raw_peers_max t,
         dto_peers_min = raw_peers_min t,
         dto_uploads_max = raw_uploads_max t,
         dto_connection_type = raw_connection_current t,
         dto_added_by = raw_added_by t,
         dto_source_path = raw_source_path t,
         dto_added_at = raw_added_at t,
         dto_tags = raw_tags t,
         dto_force_start = raw_force_start t,
         dto_throttle_rule = raw_throttle_rule t,
         dto_views = [],
         dto_error_kind = error_kind_text t st,
         dto_is_open = raw_is_open t,
         dto_is_active = raw_is_active t\<rparr>)"

section \<open>Snapshot assembly\<close>

definition to_dtos ::
  "raw_torrent list \<Rightarrow> (string \<Rightarrow> string) \<Rightarrow> (string \<Rightarrow> (int \<times> int) option) \<Rightarrow> torrent_dto list" where
  "to_dtos raw tracker_host throttle_limits =
     map (\<lambda>t. to_dto t (tracker_host (raw_hash t)) (throttle_limits (raw_throttle_name t))) raw"

definition to_globals ::
  "raw_global \<Rightarrow> int option \<Rightarrow> int option \<Rightarrow> bool \<Rightarrow> global_stats" where
  "to_globals g free_space disk_size turtle_active =
     \<lparr>gs_down_rate = rg_down_rate g, gs_up_rate = rg_up_rate g,
      gs_down_rate_limit = rg_down_rate_limit g, gs_up_rate_limit = rg_up_rate_limit g,
      gs_dht_nodes = rg_dht_nodes g, gs_free_space = free_space, gs_disk_size = disk_size,
      gs_turtle_active = turtle_active\<rparr>"

definition empty_globals :: global_stats where
  "empty_globals = to_globals raw_global_default None None False"

section \<open>Facts\<close>

lemma percent_of_bounds: "0 \<le> percent_of a b \<and> percent_of a b \<le> 100"
  unfolding percent_of_def by (rule f64_clamp_bounds) simp

lemma percent_of_full:
  assumes "0 < b" "b \<le> a"
  shows "percent_of a b = 100"
proof -
  have b: "1 \<le> f64_of_int b" using assms(1) by (rule f64_of_int_pos)
  have "f64_of_int b \<le> f64_of_int a" using assms(2) by (rule f64_of_int_mono)
  with b have "1 \<le> f64_of_int a / f64_of_int b" by (simp add: le_divide_eq)
  then have "1 \<le> f64_div (f64_of_int a) (f64_of_int b)"
    unfolding f64_div_def by (rule rnd_ge_1)
  then have "100 \<le> f64_div (f64_of_int a) (f64_of_int b) * 100" by simp
  then have "rnd 100 \<le> f64_mul (f64_div (f64_of_int a) (f64_of_int b)) 100"
    unfolding f64_mul_def by (rule rnd_mono)
  then show ?thesis by (simp add: percent_of_def f64_clamp_def)
qed

lemma percent_of_mono:
  assumes "0 < b" "a \<le> a'"
  shows "percent_of a b \<le> percent_of a' b"
proof -
  have "0 < f64_of_int b" using f64_of_int_pos [OF assms(1)] by linarith
  then have "f64_of_int a / f64_of_int b \<le> f64_of_int a' / f64_of_int b"
    using f64_of_int_mono [OF assms(2)] by (simp add: divide_right_mono)
  then have "f64_div (f64_of_int a) (f64_of_int b) * 100
      \<le> f64_div (f64_of_int a') (f64_of_int b) * 100"
    unfolding f64_div_def using rnd_mono by simp
  then have "f64_mul (f64_div (f64_of_int a) (f64_of_int b)) 100
      \<le> f64_mul (f64_div (f64_of_int a') (f64_of_int b)) 100"
    unfolding f64_mul_def by (rule rnd_mono)
  then show ?thesis by (simp add: percent_of_def f64_clamp_def)
qed

lemma status_Error_iff: "status t = StatusError \<longleftrightarrow> raw_message t \<noteq> []"
  by (simp add: status_def)

lemma status_Downloading:
  "status t = Downloading \<Longrightarrow> raw_down_rate t > 0 \<and> \<not> raw_complete t \<and> raw_is_open t \<and> raw_is_active t"
  by (auto simp: status_def split: if_splits)

lemma dto_projections [simp]:
  "dto_hash (to_dto t h l) = raw_hash t"
  "dto_status (to_dto t h l) = status t"
  "dto_is_open (to_dto t h l) = raw_is_open t"
  "dto_is_active (to_dto t h l) = raw_is_active t"
  "dto_eta_seconds (to_dto t h l) = eta_seconds t (status t)"
  "dto_error_kind (to_dto t h l) = error_kind_text t (status t)"
  by (simp_all add: to_dto_def Let_def)

lemma to_dtos_hashes: "map dto_hash (to_dtos raw h l) = map raw_hash raw"
  by (simp add: to_dtos_def)

lemma length_to_dtos: "length (to_dtos raw h l) = length raw"
  by (simp add: to_dtos_def)

text \<open>The progress figure of a row is a percentage: it always lies in 0..100, it never
  decreases when more bytes are done, and once all bytes are there it is exactly 100 in binary64
  arithmetic, rounding included; while checking, the same holds of the verified chunks.\<close>

theorem percent_sound:
  fixes t :: raw_torrent
  shows "0 \<le> dto_percent (to_dto t h l) \<and> dto_percent (to_dto t h l) \<le> 100 \<and>
    (0 < raw_size_bytes t \<and> raw_size_bytes t \<le> raw_bytes_done t \<longrightarrow> percent t = 100) \<and>
    (raw_bytes_done t \<le> n \<longrightarrow> percent t \<le> percent (t\<lparr>raw_bytes_done := n\<rparr>)) \<and>
    (status t = Checking \<and> 0 < raw_size_chunks t \<and> raw_size_chunks t \<le> raw_chunks_hashed t \<longrightarrow>
       dto_percent (to_dto t h l) = 100)"
  by (auto simp: to_dto_def Let_def percent_def percent_of_bounds percent_of_full percent_of_mono)

theorem percent_sound_witness:
  "percent (raw_torrent_default\<lparr>raw_size_bytes := 3, raw_bytes_done := 3\<rparr>) = 100"
  using percent_sound [of "raw_torrent_default\<lparr>raw_size_bytes := 3, raw_bytes_done := 3\<rparr>" "[]" None 3]
  by simp

text \<open>The status of a row follows the documented priority (message, hash check, stopped
  or paused, seeding, downloading, stalled), an estimate of the time left exists exactly for
  downloading rows and is the remaining bytes over the rate rounded down, and the error bucket is
  non-empty exactly when the daemon message is not blank.\<close>

theorem row_derivation:
  "(case dto_status (to_dto t h l) of
      StatusError \<Rightarrow> raw_message t \<noteq> []
    | Checking \<Rightarrow> raw_message t = [] \<and> raw_hashing t
    | Paused \<Rightarrow> raw_message t = [] \<and> \<not> raw_hashing t \<and> \<not> (raw_is_open t \<and> raw_is_active t)
    | Seeding \<Rightarrow> raw_message t = [] \<and> \<not> raw_hashing t \<and> raw_is_open t \<and> raw_is_active t
                  \<and> raw_complete t
    | Downloading \<Rightarrow> raw_message t = [] \<and> \<not> raw_hashing t \<and> raw_is_open t \<and> raw_is_active t
                  \<and> \<not> raw_complete t \<and> 0 < raw_down_rate t
    | Stalled \<Rightarrow> raw_message t = [] \<and> \<not> raw_hashing t \<and> raw_is_open t \<and> raw_is_active t
                  \<and> \<not> raw_complete t \<and> raw_down_rate t \<le> 0
    | Completed \<Rightarrow> False) \<and>
   (dto_eta_seconds (to_dto t h l) \<noteq> None \<longleftrightarrow> dto_status (to_dto t h l) = Downloading) \<and>
   (case dto_eta_seconds (to_dto t h l) of
      None \<Rightarrow> True
    | Some e \<Rightarrow> 0 \<le> e \<and> e * raw_down_rate t \<le> max (raw_size_bytes t - raw_bytes_done t) 0 \<and>
                max (raw_size_bytes t - raw_bytes_done t) 0 < (e + 1) * raw_down_rate t) \<and>
   (dto_error_kind (to_dto t h l) = [] \<longleftrightarrow> trim (raw_message t) = [])"
proof (intro conjI)
  show "dto_eta_seconds (to_dto t h l) \<noteq> None \<longleftrightarrow> dto_status (to_dto t h l) = Downloading"
    using status_Downloading by (auto simp: eta_seconds_def Let_def)
  show "case dto_eta_seconds (to_dto t h l) of None \<Rightarrow> True
    | Some e \<Rightarrow> 0 \<le> e \<and> e * raw_down_rate t \<le> max (raw_size_bytes t - raw_bytes_done t) 0 \<and>
                max (raw_size_bytes t - raw_bytes_done t) 0 < (e + 1) * raw_down_rate t"
  proof (cases "status t = Downloading \<and> raw_down_rate t > 0")
    case True
    define m where "m = max (raw_size_bytes t - raw_bytes_done t) 0"
    define r where "r = raw_down_rate t"
    have r: "0 < r" and m: "0 \<le> m" using True by (simp_all add: r_def m_def)
    have "m div r * r \<le> m" using r m by (metis div_times_less_eq_dividend mult.commute minus_mod_eq_mult_div
          mult_div_mod_eq le_add_same_cancel1 pos_mod_sign)
    moreover have "m < (m div r + 1) * r"
      using r by (metis add.commute distrib_right div_mult_mod_eq add_less_cancel_left
          mult_1 pos_mod_bound)
    moreover have "0 \<le> m div r" using r m by (simp add: pos_imp_zdiv_nonneg_iff)
    ultimately show ?thesis using True by (simp add: eta_seconds_def m_def r_def Let_def)
  qed (auto simp: eta_seconds_def)
  show "dto_error_kind (to_dto t h l) = [] \<longleftrightarrow> trim (raw_message t) = []"
    by (cases "raw_message t = []")
       (auto simp: error_kind_text_def status_Error_iff classify_None_iff [symmetric] split: option.splits)
qed (auto simp: status_def)

end
