(* ===== verification/Delta.thy ===== *)
theory Delta
  imports Derive
begin

text \<open>
  Incremental snapshots (\<open>crates/rtorrent/src/delta.rs\<close>): \<open>diff\<close> computes the update between
  two snapshots, \<open>delta_apply\<close> replays it on the client's copy. The \<open>HashMap\<close>s built from a
  torrent list keep the last row of a hash (\<open>row_map\<close>); the iteration order of the
  \<open>HashSet\<close>s is unspecified in Rust and is taken to be list order here, which is
  immaterial because every resulting list is sorted by its (unique) hash before it is
  returned.
\<close>

datatype panic = ArithmeticOverflow

definition f64_epsilon :: f64 where
  "f64_epsilon = 1 / 2 ^ 52"

definition ratio_close :: "f64 \<Rightarrow> f64 \<Rightarrow> bool" where
  "ratio_close a b = (\<bar>f64_sub a b\<bar> < f64_epsilon)"

definition same_torrent :: "torrent_dto \<Rightarrow> torrent_dto \<Rightarrow> bool" where
  "same_torrent a b =
    (dto_bytes_done a = dto_bytes_done b
   \<and> dto_percent a = dto_percent b
   \<and> dto_status a = dto_status b
   \<and> dto_status_msg a = dto_status_msg b
   \<and> dto_error_kind a = dto_error_kind b
   \<and> dto_down_rate a = dto_down_rate b
   \<and> dto_up_rate a = dto_up_rate b
   \<and> dto_seeds_connected a = dto_seeds_connected b
   \<and> dto_peers_connected a = dto_peers_connected b
   \<and> dto_seeds_swarm a = dto_seeds_swarm b
   \<and> dto_peers_swarm a = dto_peers_swarm b
   \<and> dto_eta_seconds a = dto_eta_seconds b
   \<and> ratio_close (dto_ratio a) (dto_ratio b)
   \<and> dto_label a = dto_label b
   \<and> dto_tags a = dto_tags b
   \<and> dto_force_start a = dto_force_start b
   \<and> dto_throttle_rule a = dto_throttle_rule b
   \<and> dto_tracker_host a = dto_tracker_host b
   \<and> dto_priority a = dto_priority b
   \<and> dto_name a = dto_name b
   \<and> dto_throttle_name a = dto_throttle_name b
   \<and> dto_down_rate_limit a = dto_down_rate_limit b
   \<and> dto_up_rate_limit a = dto_up_rate_limit b
   \<and> dto_started_at a = dto_started_at b
   \<and> dto_finished_at a = dto_finished_at b
   \<and> dto_views a = dto_views b
   \<and> dto_save_path a = dto_save_path b
   \<and> dto_is_private a = dto_is_private b)"

definition row_map :: "torrent_dto list \<Rightarrow> string \<Rightarrow> torrent_dto option" where
  "row_map ts h = find (\<lambda>t. dto_hash t = h) (rev ts)"

definition row_hashes :: "torrent_dto list \<Rightarrow> string list" where
  "row_hashes ts = remdups (map dto_hash ts)"

definition changed_row ::
  "(string \<Rightarrow> torrent_dto option) \<Rightarrow> (string \<Rightarrow> torrent_dto option) \<Rightarrow> string \<Rightarrow> torrent_dto option" where
  "changed_row pm nm h =
     (case (pm h, nm h) of
        (Some a, Some b) \<Rightarrow> if same_torrent a b then None else Some b
      | _ \<Rightarrow> None)"

definition diff :: "snapshot \<Rightarrow> snapshot \<Rightarrow> snapshot_delta" where
  "diff prev next =
    (let pm = row_map (sn_torrents prev);
         nm = row_map (sn_torrents next);
         ph = row_hashes (sn_torrents prev);
         nh = row_hashes (sn_torrents next);
         added = List.map_filter nm (filter (\<lambda>h. h \<notin> set ph) nh);
         removed = filter (\<lambda>h. h \<notin> set nh) ph;
         updated = List.map_filter (changed_row pm nm) (filter (\<lambda>h. h \<in> set nh) ph)
     in \<lparr>sd_revision = sn_revision next,
         sd_base_revision = sn_revision prev,
         sd_added = sort_by (lt_key dto_hash) added,
         sd_updated = sort_by (lt_key dto_hash) updated,
         sd_removed = sort removed,
         sd_globals = sn_globals next,
         sd_connection = sn_connection next\<rparr>)"

text \<open>
  \<open>Vec::with_capacity(len - removed + added)\<close> is \<open>usize\<close> arithmetic: when more distinct hashes
  are removed than the snapshot has rows, the subtraction overflows and panics.
\<close>

definition merge_rows :: "snapshot_delta \<Rightarrow> torrent_dto list \<Rightarrow> torrent_dto list" where
  "merge_rows d ts =
     map (\<lambda>t. case row_map (sd_updated d) (dto_hash t) of Some u \<Rightarrow> u | None \<Rightarrow> t)
         (filter (\<lambda>t. dto_hash t \<notin> set (sd_removed d)) ts)
     @ sd_added d"

definition delta_apply :: "snapshot \<Rightarrow> snapshot_delta \<Rightarrow> panic + snapshot option" where
  "delta_apply s d =
    (if sd_base_revision d \<noteq> sn_revision s then Inr None
     else if length (sn_torrents s) < length (remdups (sd_removed d)) then Inl ArithmeticOverflow
     else Inr (Some
       \<lparr>sn_revision = sd_revision d,
        sn_torrents = sort_by (lt_key dto_hash) (merge_rows d (sn_torrents s)),
        sn_globals = sd_globals d,
        sn_connection = sd_connection d\<rparr>))"

section \<open>Well-formed snapshots and the view a client must have\<close>

definition wf_snapshot :: "snapshot \<Rightarrow> bool" where
  "wf_snapshot s = distinct (map dto_hash (sn_torrents s))"

text \<open>
  \<open>in_sync c s\<close>: the client's copy \<open>c\<close> shows the poller's snapshot \<open>s\<close>: same revision, globals
  and connection, the same hashes and for each the row the poller has, up to
  the comparison the program uses.
\<close>

definition in_sync :: "snapshot \<Rightarrow> snapshot \<Rightarrow> bool" where
  "in_sync c s =
    (sn_revision c = sn_revision s \<and> sn_globals c = sn_globals s \<and>
     sn_connection c = sn_connection s \<and>
     mset (map dto_hash (sn_torrents c)) = mset (map dto_hash (sn_torrents s)) \<and>
     (\<forall>t \<in> set (sn_torrents c).
        \<exists>u \<in> set (sn_torrents s). dto_hash u = dto_hash t \<and> same_torrent t u))"

text \<open>Ratios that are equal whenever the program takes them for equal (any two distinct
  per-mille figures of the daemon are at least \<open>0.001\<close> apart).\<close>

definition ratios_separated :: "snapshot list \<Rightarrow> bool" where
  "ratios_separated ss =
    (\<forall>a \<in> set ss. \<forall>b \<in> set ss. \<forall>t \<in> set (sn_torrents a). \<forall>u \<in> set (sn_torrents b).
       ratio_close (dto_ratio t) (dto_ratio u) \<longrightarrow> dto_ratio t = dto_ratio u)"

section \<open>Lemmas\<close>

lemma ratio_close_refl [simp]: "ratio_close r r"
  by (simp add: ratio_close_def f64_sub_def f64_epsilon_def)

lemma same_torrent_refl [simp]: "same_torrent t t"
  by (simp add: same_torrent_def)

lemma same_torrent_trans:
  "same_torrent a b \<Longrightarrow> same_torrent b c \<Longrightarrow> ratio_close (dto_ratio a) (dto_ratio c) \<Longrightarrow> same_torrent a c"
  by (simp add: same_torrent_def)

lemma same_torrent_ratio: "same_torrent a b \<Longrightarrow> ratio_close (dto_ratio a) (dto_ratio b)"
  by (simp add: same_torrent_def)

lemma row_map_Some: "row_map ts h = Some t \<Longrightarrow> t \<in> set ts \<and> dto_hash t = h"
  by (auto simp: row_map_def dest: find_Some_set)

lemma row_map_None: "row_map ts h = None \<longleftrightarrow> h \<notin> dto_hash ` set ts"
  by (auto simp: row_map_def find_None_all)

lemma row_map_distinct:
  "distinct (map dto_hash ts) \<Longrightarrow> t \<in> set ts \<Longrightarrow> row_map ts (dto_hash t) = Some t"
  unfolding row_map_def by (rule find_distinct_key) (simp_all add: rev_map [symmetric])

lemma set_row_hashes [simp]: "set (row_hashes ts) = dto_hash ` set ts"
  by (simp add: row_hashes_def)

lemma distinct_row_hashes [simp]: "distinct (row_hashes ts)"
  by (simp add: row_hashes_def)

lemma changed_row_Some:
  "changed_row pm nm h = Some t \<longleftrightarrow> (\<exists>a. pm h = Some a \<and> nm h = Some t \<and> \<not> same_torrent a t)"
  by (auto simp: changed_row_def split: option.splits)

lemma diff_fields [simp]:
  "sd_revision (diff p n) = sn_revision n"
  "sd_base_revision (diff p n) = sn_revision p"
  "sd_globals (diff p n) = sn_globals n"
  "sd_connection (diff p n) = sn_connection n"
  by (simp_all add: diff_def Let_def)

lemma diff_removed: "set (sd_removed (diff p n)) = dto_hash ` set (sn_torrents p) - dto_hash ` set (sn_torrents n)"
  by (auto simp: diff_def Let_def)

lemma diff_added_set:
  "set (sd_added (diff p n)) =
     {t. row_map (sn_torrents n) (dto_hash t) = Some t \<and> dto_hash t \<notin> dto_hash ` set (sn_torrents p)}"
  by (auto simp: diff_def Let_def set_map_filter dest: row_map_Some)
     (metis image_eqI row_map_Some)

lemma diff_updated_set:
  "set (sd_updated (diff p n)) =
     {t. row_map (sn_torrents n) (dto_hash t) = Some t \<and>
         (\<exists>a. row_map (sn_torrents p) (dto_hash t) = Some a \<and> \<not> same_torrent a t)}"
  by (auto simp: diff_def Let_def set_map_filter changed_row_Some dest: row_map_Some)
     (metis image_eqI row_map_Some)+

lemma distinct_map_filter_hash:
  assumes "distinct hs" "\<And>h t. f h = Some t \<Longrightarrow> dto_hash t = h"
  shows "distinct (map dto_hash (List.map_filter f hs))"
  using assms
proof (induction hs)
  case (Cons h hs)
  have "dto_hash t \<in> set hs" if "t \<in> set (List.map_filter f hs)" for t
    using that Cons.prems(2) by (auto simp: set_map_filter)
  with Cons show ?case by (auto simp: List.map_filter_simps split: option.splits)
qed (simp add: List.map_filter_simps)

lemma diff_added_distinct: "distinct (map dto_hash (sd_added (diff p n)))"
  by (simp add: diff_def Let_def)
     (intro distinct_map_filter_hash, simp, blast dest: row_map_Some)

lemma diff_updated_distinct: "distinct (map dto_hash (sd_updated (diff p n)))"
  by (simp add: diff_def Let_def)
     (intro distinct_map_filter_hash, simp, auto simp: changed_row_Some dest: row_map_Some)

lemma diff_updated_lookup:
  "row_map (sd_updated (diff p n)) h =
     (case (row_map (sn_torrents p) h, row_map (sn_torrents n) h) of
        (Some a, Some b) \<Rightarrow> if same_torrent a b then None else Some b
      | _ \<Rightarrow> None)"
proof (cases "row_map (sd_updated (diff p n)) h")
  case None
  then have "\<not> (row_map (sn_torrents n) (dto_hash t) = Some t \<and>
      (\<exists>a. row_map (sn_torrents p) (dto_hash t) = Some a \<and> \<not> same_torrent a t))"
    if "dto_hash t = h" for t
    using that by (auto simp: row_map_None diff_updated_set image_iff)
  then have "\<not> (row_map (sn_torrents n) h = Some b \<and> row_map (sn_torrents p) h = Some a \<and>
      \<not> same_torrent a b)" for a b
    using row_map_Some by blast
  with None show ?thesis by (auto split: option.splits)
next
  case (Some t)
  then have "t \<in> set (sd_updated (diff p n))" "dto_hash t = h" by (auto dest: row_map_Some)
  with Some show ?thesis by (auto simp: diff_updated_set)
qed

text \<open>The rows a client computes from its own copy and the delta, hash by hash.\<close>

lemma merge_rows_hashes:
  assumes c: "set (map dto_hash ts) = dto_hash ` set (sn_torrents p)"
    and dc: "distinct (map dto_hash ts)"
  shows "distinct (map dto_hash (merge_rows (diff p n) ts)) \<and>
    dto_hash ` set (merge_rows (diff p n) ts) = dto_hash ` set (sn_torrents n)"
proof -
  let ?kept = "filter (\<lambda>t. dto_hash t \<notin> set (sd_removed (diff p n))) ts"
  let ?up = "\<lambda>t. case row_map (sd_updated (diff p n)) (dto_hash t) of Some u \<Rightarrow> u | None \<Rightarrow> t"
  have up: "dto_hash (?up t) = dto_hash t" for t
    by (auto split: option.splits dest: row_map_Some)
  have A: "map dto_hash (map ?up ?kept) = map dto_hash ?kept" by (simp add: up)
  have "dto_hash ` set ?kept = dto_hash ` set ts - set (sd_removed (diff p n))" by auto
  then have "dto_hash ` set ?kept = dto_hash ` set (sn_torrents p) \<inter> dto_hash ` set (sn_torrents n)"
    using c by (auto simp: diff_removed)
  with A have B: "dto_hash ` set (map ?up ?kept) =
      dto_hash ` set (sn_torrents p) \<inter> dto_hash ` set (sn_torrents n)"
    by (metis set_map)
  have C: "dto_hash ` set (sd_added (diff p n)) =
      dto_hash ` set (sn_torrents n) - dto_hash ` set (sn_torrents p)"
  proof (intro set_eqI iffI)
    fix h assume h: "h \<in> dto_hash ` set (sn_torrents n) - dto_hash ` set (sn_torrents p)"
    then obtain t where t: "row_map (sn_torrents n) h = Some t" using row_map_None by blast
    then have "dto_hash t = h" by (auto dest: row_map_Some)
    with h t have "t \<in> set (sd_added (diff p n))" by (simp add: diff_added_set)
    moreover note \<open>dto_hash t = h\<close>
    ultimately have "t \<in> set (sd_added (diff p n))" "dto_hash t = h" by simp_all
    then show "h \<in> dto_hash ` set (sd_added (diff p n))" by blast
  qed (auto simp: diff_added_set dest!: row_map_Some)
  have D: "distinct (map dto_hash (map ?up ?kept))"
    unfolding A using dc by (simp add: distinct_map_filter)
  show ?thesis
    unfolding merge_rows_def map_append distinct_append set_append image_Un
    using B C D diff_added_distinct [of p n] by (auto simp del: map_map)
qed

lemma merge_rows_row:
  assumes t: "t \<in> set (merge_rows (diff p n) ts)" and wn: "wf_snapshot n"
    and sync: "\<And>x. x \<in> set ts \<Longrightarrow> \<exists>u \<in> set (sn_torrents p). dto_hash u = dto_hash x \<and> same_torrent x u"
    and wp: "wf_snapshot p"
  shows "t \<in> set (sn_torrents n) \<or>
    (t \<in> set ts \<and> (\<exists>a \<in> set (sn_torrents p). \<exists>b \<in> set (sn_torrents n).
       dto_hash a = dto_hash t \<and> dto_hash b = dto_hash t \<and> same_torrent t a \<and> same_torrent a b))"
proof -
  from t consider (added) "t \<in> set (sd_added (diff p n))"
    | (kept) x where "x \<in> set ts" "dto_hash x \<notin> set (sd_removed (diff p n))"
        "t = (case row_map (sd_updated (diff p n)) (dto_hash x) of Some u \<Rightarrow> u | None \<Rightarrow> x)"
    by (auto simp: merge_rows_def)
  then show ?thesis
  proof cases
    case added
    then show ?thesis by (auto simp: diff_added_set dest: row_map_Some)
  next
    case kept
    from sync [OF kept(1)] obtain a where a: "a \<in> set (sn_torrents p)" "dto_hash a = dto_hash x"
      "same_torrent x a" by blast
    with wp have pa: "row_map (sn_torrents p) (dto_hash x) = Some a"
      using row_map_distinct by (fastforce simp: wf_snapshot_def)
    from kept(2) a have "dto_hash x \<in> dto_hash ` set (sn_torrents n)"
      by (auto simp: diff_removed image_iff)
    then obtain b where b: "row_map (sn_torrents n) (dto_hash x) = Some b"
      using row_map_None by blast
    then have bn: "b \<in> set (sn_torrents n)" "dto_hash b = dto_hash x" by (auto dest: row_map_Some)
    show ?thesis
    proof (cases "same_torrent a b")
      case True
      then have "t = x" using kept(3) pa b by (simp add: diff_updated_lookup)
      with True a bn kept(1) show ?thesis by auto
    next
      case False
      then have "t = b" using kept(3) pa b by (simp add: diff_updated_lookup)
      with bn show ?thesis by simp
    qed
  qed
qed

lemma sorted_hashes_merge:
  assumes "distinct (map dto_hash xs)" "distinct (map dto_hash ys)"
    "dto_hash ` set xs = dto_hash ` set ys"
  shows "map dto_hash (sort_by (lt_key dto_hash) xs) = sort (map dto_hash ys)"
proof -
  have "mset (map dto_hash xs) = mset (map dto_hash ys)"
    using assms by (metis set_eq_iff_mset_eq_distinct set_map)
  then have "mset (map dto_hash (sort_by (lt_key dto_hash) xs)) = mset (map dto_hash ys)"
    by simp
  then show ?thesis using sorted_by_key by (metis properties_for_sort)
qed

lemma removed_fits:
  assumes "dto_hash ` set (sn_torrents p) = dto_hash ` set ts"
  shows "length (remdups (sd_removed (diff p n))) \<le> length ts"
proof -
  have "length (remdups (sd_removed (diff p n))) = card (set (sd_removed (diff p n)))"
    by (simp add: length_remdups_card_conv)
  also have "\<dots> \<le> card (dto_hash ` set ts)"
    unfolding diff_removed assms by (rule card_mono) auto
  also have "\<dots> \<le> length ts" by (metis card_image_le card_length finite_set order_trans)
  finally show ?thesis .
qed

lemma delta_apply_steps:
  assumes "in_sync c p" "wf_snapshot p" "wf_snapshot n"
  obtains c' where "delta_apply c (diff p n) = Inr (Some c')"
    "sn_revision c' = sn_revision n" "sn_globals c' = sn_globals n" "sn_connection c' = sn_connection n"
    "map dto_hash (sn_torrents c') = sort (map dto_hash (sn_torrents n))"
    "set (sn_torrents c') = set (merge_rows (diff p n) (sn_torrents c))"
proof -
  let ?c = "\<lparr>sn_revision = sd_revision (diff p n),
        sn_torrents = sort_by (lt_key dto_hash) (merge_rows (diff p n) (sn_torrents c)),
        sn_globals = sd_globals (diff p n), sn_connection = sd_connection (diff p n)\<rparr>"
  have hs: "dto_hash ` set (sn_torrents p) = dto_hash ` set (sn_torrents c)"
    using assms(1) unfolding in_sync_def by (metis mset_eq_setD set_map)
  have dc: "distinct (map dto_hash (sn_torrents c))"
    using assms(1,2) unfolding in_sync_def wf_snapshot_def by (metis mset_eq_imp_distinct_iff)
  have "delta_apply c (diff p n) = Inr (Some ?c)"
    using removed_fits [OF hs, of n] assms(1)
    by (simp add: delta_apply_def in_sync_def not_less)
  moreover have "map dto_hash (sn_torrents ?c) = sort (map dto_hash (sn_torrents n))"
    using merge_rows_hashes [of "sn_torrents c" p n] hs dc assms(3)
    by (simp add: sorted_hashes_merge wf_snapshot_def)
  ultimately show thesis by (intro that [of ?c]) simp_all
qed

lemma in_sync_refl [simp]: "in_sync s s"
  by (auto simp: in_sync_def)

section \<open>Properties\<close>

text \<open>Property C19. Applying the delta between two well-formed snapshots to the first one succeeds,
  without the capacity subtraction overflowing, and yields a snapshot in sync with the second: same
  revision, globals and connection, exactly its hashes in hash order, every row equal to its row up to
  the program's row comparison. A delta whose base is another revision is refused.\<close>

theorem delta_roundtrip:
  assumes "wf_snapshot p" "wf_snapshot n"
  shows "(\<exists>s. delta_apply p (diff p n) = Inr (Some s) \<and> in_sync s n \<and>
              map dto_hash (sn_torrents s) = sort (map dto_hash (sn_torrents n))) \<and>
         (\<forall>c. sn_revision c \<noteq> sn_revision p \<longrightarrow> delta_apply c (diff p n) = Inr None)"
proof (intro conjI allI impI)
  from delta_apply_steps [OF in_sync_refl assms] obtain s where
    s: "delta_apply p (diff p n) = Inr (Some s)"
      "sn_revision s = sn_revision n" "sn_globals s = sn_globals n"
      "sn_connection s = sn_connection n"
      "map dto_hash (sn_torrents s) = sort (map dto_hash (sn_torrents n))"
      "set (sn_torrents s) = set (merge_rows (diff p n) (sn_torrents p))" by blast
  have "\<exists>u \<in> set (sn_torrents n). dto_hash u = dto_hash t \<and> same_torrent t u"
    if "t \<in> set (sn_torrents s)" for t
  proof -
    have own: "\<exists>u \<in> set (sn_torrents p). dto_hash u = dto_hash x \<and> same_torrent x u"
      if "x \<in> set (sn_torrents p)" for x
      using that by auto
    from that s(6) have "t \<in> set (merge_rows (diff p n) (sn_torrents p))" by simp
    from merge_rows_row [OF this assms(2) own assms(1)] show ?thesis
    proof
      assume "t \<in> set (sn_torrents p) \<and> (\<exists>a \<in> set (sn_torrents p). \<exists>b \<in> set (sn_torrents n).
        dto_hash a = dto_hash t \<and> dto_hash b = dto_hash t \<and> same_torrent t a \<and> same_torrent a b)"
      then obtain a b where ab: "t \<in> set (sn_torrents p)" "a \<in> set (sn_torrents p)"
        "b \<in> set (sn_torrents n)" "dto_hash a = dto_hash t" "dto_hash b = dto_hash t" "same_torrent a b"
        by auto
      then have "a = t" using assms(1) by (auto simp: wf_snapshot_def intro: distinct_key_eq)
      with ab show ?thesis by blast
    qed auto
  qed
  with s have "in_sync s n" by (simp add: in_sync_def flip: mset_map)
  with s(1,5) show "\<exists>s. delta_apply p (diff p n) = Inr (Some s) \<and> in_sync s n \<and>
      map dto_hash (sn_torrents s) = sort (map dto_hash (sn_torrents n))" by blast
qed (simp add: delta_apply_def)

text \<open>A client that follows the poller: it starts from a full snapshot and applies the deltas
  between consecutive published snapshots.\<close>

fun follow :: "snapshot \<Rightarrow> snapshot \<Rightarrow> snapshot list \<Rightarrow> (panic + snapshot option)" where
  "follow c p [] = Inr (Some c)"
| "follow c p (n # ns) =
     (case delta_apply c (diff p n) of
        Inl e \<Rightarrow> Inl e
      | Inr None \<Rightarrow> Inr None
      | Inr (Some c') \<Rightarrow> follow c' n ns)"

text \<open>The relation kept along the stream: \<open>in_sync\<close>, with every row drawn from a snapshot of the
  stream.\<close>

definition rows_from :: "snapshot list \<Rightarrow> torrent_dto list \<Rightarrow> bool" where
  "rows_from ss ts = (\<forall>t \<in> set ts. \<exists>s \<in> set ss. t \<in> set (sn_torrents s))"

lemma follow_step:
  assumes sync: "in_sync c p" and wf: "wf_snapshot p" "wf_snapshot n"
    and rows: "rows_from ss (sn_torrents c)" and mem: "p \<in> set ss" "n \<in> set ss"
    and sep: "ratios_separated ss"
  shows "\<exists>c'. delta_apply c (diff p n) = Inr (Some c') \<and> in_sync c' n \<and> rows_from ss (sn_torrents c')"
proof -
  from delta_apply_steps [OF sync wf] obtain c' where
    c': "delta_apply c (diff p n) = Inr (Some c')"
      "sn_revision c' = sn_revision n" "sn_globals c' = sn_globals n"
      "sn_connection c' = sn_connection n"
      "map dto_hash (sn_torrents c') = sort (map dto_hash (sn_torrents n))"
      "set (sn_torrents c') = set (merge_rows (diff p n) (sn_torrents c))" by blast
  have own: "\<exists>u \<in> set (sn_torrents p). dto_hash u = dto_hash x \<and> same_torrent x u"
    if "x \<in> set (sn_torrents c)" for x
    using sync that by (simp add: in_sync_def)
  have row: "(\<exists>u \<in> set (sn_torrents n). dto_hash u = dto_hash t \<and> same_torrent t u) \<and>
      (\<exists>s \<in> set ss. t \<in> set (sn_torrents s))" if "t \<in> set (sn_torrents c')" for t
  proof -
    from that c'(6) have "t \<in> set (merge_rows (diff p n) (sn_torrents c))" by simp
    from merge_rows_row [OF this wf(2) own wf(1)] show ?thesis
    proof
      assume "t \<in> set (sn_torrents n)"
      with mem show ?thesis by auto
    next
      assume "t \<in> set (sn_torrents c) \<and> (\<exists>a \<in> set (sn_torrents p). \<exists>b \<in> set (sn_torrents n).
        dto_hash a = dto_hash t \<and> dto_hash b = dto_hash t \<and> same_torrent t a \<and> same_torrent a b)"
      then obtain a b where ab: "t \<in> set (sn_torrents c)" "a \<in> set (sn_torrents p)"
        "b \<in> set (sn_torrents n)" "dto_hash b = dto_hash t" "same_torrent t a" "same_torrent a b"
        by auto
      from rows ab(1) obtain s where s: "s \<in> set ss" "t \<in> set (sn_torrents s)"
        by (auto simp: rows_from_def)
      have "dto_ratio t = dto_ratio a" "dto_ratio a = dto_ratio b"
        using sep s mem ab same_torrent_ratio unfolding ratios_separated_def by blast+
      then have "same_torrent t b" using ab same_torrent_trans by simp
      with ab s show ?thesis by blast
    qed
  qed
  then have "in_sync c' n" "rows_from ss (sn_torrents c')"
    using c' by (simp_all add: in_sync_def rows_from_def flip: mset_map)
  with c'(1) show ?thesis by blast
qed

lemma follow_sync:
  assumes "in_sync c p" "rows_from ss (sn_torrents c)" "ratios_separated ss"
    "set (p # ns) \<subseteq> set ss" "\<forall>s \<in> set (p # ns). wf_snapshot s"
  shows "\<exists>c'. follow c p ns = Inr (Some c') \<and> in_sync c' (last (p # ns))"
  using assms
proof (induction ns arbitrary: c p)
  case (Cons n ns)
  then obtain c' where "delta_apply c (diff p n) = Inr (Some c')" "in_sync c' n"
    "rows_from ss (sn_torrents c')"
    using follow_step [of c p n ss] by auto
  with Cons show ?case by simp
qed simp

text \<open>A client that starts from a full snapshot and applies every published delta stays in
  sync with the poller for ever: after any number of ticks over well-formed snapshots it holds the
  poller's current revision and the same rows, and no step is refused or panics. (The stream's
  ratios must be separated, because rows whose ratios differ by less than machine epsilon compare
  equal, which is not a transitive comparison.)\<close>

theorem delta_stream_in_sync:
  assumes "ratios_separated (s # ss)" "\<forall>x \<in> set (s # ss). wf_snapshot x"
  shows "\<exists>c. follow s s ss = Inr (Some c) \<and> in_sync c (last (s # ss))"
proof (rule follow_sync [where ss = "s # ss"])
  show "rows_from (s # ss) (sn_torrents s)" by (simp add: rows_from_def)
qed (use assms in simp_all)

definition sample_conn :: conn_state where
  "sample_conn = \<lparr>cs_phase = Connected, cs_endpoint = ''test'', cs_daemon_version = None,
     cs_error = None, cs_retry_in_seconds = None\<rparr>"

definition sample_row :: "string \<Rightarrow> bool \<Rightarrow> torrent_dto" where
  "sample_row h op = to_dto (raw_torrent_default\<lparr>raw_hash := h, raw_is_open := op\<rparr>) [] None"

definition sample_snapshot :: "nat \<Rightarrow> torrent_dto list \<Rightarrow> snapshot" where
  "sample_snapshot r ts = \<lparr>sn_revision = r, sn_torrents = ts, sn_globals = empty_globals,
     sn_connection = sample_conn\<rparr>"

lemma sample_row_hash [simp]: "dto_hash (sample_row h op) = h"
  by (simp add: sample_row_def)

lemma sample_row_ratio [simp]: "dto_ratio (sample_row h op) = dto_ratio (sample_row h' op')"
  by (simp add: sample_row_def to_dto_def ratio_def Let_def)

theorem delta_stream_in_sync_witness:
  "\<exists>c. follow (sample_snapshot 1 [sample_row ''A'' True]) (sample_snapshot 1 [sample_row ''A'' True])
        [sample_snapshot 2 [sample_row ''B'' True, sample_row ''A'' False], sample_snapshot 3 []] = Inr (Some c) \<and>
       in_sync c (last [sample_snapshot 1 [sample_row ''A'' True],
         sample_snapshot 2 [sample_row ''B'' True, sample_row ''A'' False], sample_snapshot 3 []])"
proof (rule delta_stream_in_sync)
  show "ratios_separated [sample_snapshot 1 [sample_row ''A'' True],
      sample_snapshot 2 [sample_row ''B'' True, sample_row ''A'' False], sample_snapshot 3 []]"
    by (auto simp: ratios_separated_def sample_snapshot_def intro: sample_row_ratio)
qed (simp add: sample_snapshot_def wf_snapshot_def)

theorem delta_roundtrip_witness:
  "\<exists>s. delta_apply (sample_snapshot 1 [sample_row ''A'' True])
          (diff (sample_snapshot 1 [sample_row ''A'' True]) (sample_snapshot 2 [sample_row ''B'' False]))
        = Inr (Some s) \<and> in_sync s (sample_snapshot 2 [sample_row ''B'' False])"
proof -
  have "wf_snapshot (sample_snapshot 1 [sample_row ''A'' True])"
    "wf_snapshot (sample_snapshot 2 [sample_row ''B'' False])"
    by (simp_all add: wf_snapshot_def sample_snapshot_def)
  from delta_roundtrip [OF this] show ?thesis by blast
qed

text \<open>The row comparison leaves out fields the row carries: a change of the open flag alone
  (stopped against queued, which the status cannot tell apart), of the active flag of a row whose
  status stays the same, of the size, the connection caps, the connection type or the add-time
  metadata is never sent, so the delta of such a change carries no row.\<close>

theorem delta_omits_fields:
  "same_torrent t
     (t\<lparr>dto_size := sz, dto_is_open := op, dto_is_active := act, dto_peers_max := pmax,
        dto_peers_min := pmin, dto_uploads_max := umax, dto_connection_type := ct,
        dto_added_by := ab, dto_source_path := sp, dto_added_at := aa\<rparr>) \<and>
   (let p = sample_snapshot 1 [sample_row ''A'' True];
        n = sample_snapshot 2 [sample_row ''A'' False]
    in sd_added (diff p n) = [] \<and> sd_updated (diff p n) = [] \<and> sd_removed (diff p n) = [] \<and>
       map dto_is_open (sn_torrents p) \<noteq> map dto_is_open (sn_torrents n))"
proof
  have "status (raw_torrent_default\<lparr>raw_hash := ''A'', raw_is_open := op\<rparr>) = Paused" for op
    by (simp add: status_def raw_torrent_default_def)
  then have "same_torrent (sample_row ''A'' True) (sample_row ''A'' False)"
    by (simp add: sample_row_def to_dto_def same_torrent_def Let_def percent_def ratio_def
        eta_seconds_def error_kind_text_def)
  then show "let p = sample_snapshot 1 [sample_row ''A'' True];
        n = sample_snapshot 2 [sample_row ''A'' False]
    in sd_added (diff p n) = [] \<and> sd_updated (diff p n) = [] \<and> sd_removed (diff p n) = [] \<and>
       map dto_is_open (sn_torrents p) \<noteq> map dto_is_open (sn_torrents n)"
    by (simp add: diff_def Let_def sample_snapshot_def row_hashes_def row_map_def changed_row_def
        List.map_filter_simps) (simp add: sample_row_def raw_torrent_default_def)
qed (simp add: same_torrent_def)

end
