(* ===== verification/Queue.thy ===== *)
theory Queue
  imports Types
begin

text \<open>
  The client-side queue scheduler (\<open>crates/rtorrent/src/queue.rs\<close>): \<open>decide_queues\<close> is one tick
  (rank, cut the windows, trim to the total cap, read the user's intent off the edges, emit
  starts and holds), \<open>plan_reorder\<close> the manual reorder. \<open>HashSet\<close>s are sets, the
  \<open>prev_active\<close> map is a map; ranks and caps are \<open>i64\<close> values as integers.
\<close>

section \<open>Positions\<close>

definition parse_pos :: "string \<Rightarrow> int option" where
  "parse_pos raw = (let trimmed = trim raw in if trimmed = [] then None else parse_i64 trimmed)"

definition format_pos :: "int \<Rightarrow> string" where
  "format_pos pos = show_int pos"

section \<open>Configuration, memory, verdict\<close>

record queue_config =
  max_downloads :: int
  max_uploads :: int
  max_total :: int
  slow_limit_kbs :: int

definition configured :: "queue_config \<Rightarrow> bool" where
  "configured c = (max_downloads c > 0 \<or> max_uploads c > 0 \<or> max_total c > 0)"

record queue_memory =
  prev_active :: "string \<rightharpoonup> bool"
  user_exempt :: "string set"
  user_paused :: "string set"

definition queue_memory_reset :: "queue_memory \<Rightarrow> queue_memory" where
  "queue_memory_reset m = m\<lparr>prev_active := Map.empty, user_exempt := {}, user_paused := {}\<rparr>"

definition set_scheduler_held :: "string \<Rightarrow> bool \<Rightarrow> queue_memory \<Rightarrow> queue_memory" where
  "set_scheduler_held h held m =
     (if held then m\<lparr>user_paused := insert h (user_paused m)\<rparr>
      else m\<lparr>user_paused := user_paused m - {h}\<rparr>)"

record queue_actions =
  qa_start :: "string list"
  qa_stop :: "string list"

section \<open>Ranking\<close>

type_synonym rank = "int \<times> int \<times> int"

definition started_key :: "raw_torrent \<Rightarrow> int" where
  "started_key t = (if raw_started_at t = 0 then i64_max else raw_started_at t)"

definition queue_pos_or_0 :: "raw_torrent \<Rightarrow> int" where
  "queue_pos_or_0 t = (case raw_queue_pos t of None \<Rightarrow> 0 | Some p \<Rightarrow> p)"

definition order_key :: "raw_torrent \<Rightarrow> rank" where
  "order_key t = (raw_priority t, queue_pos_or_0 t, started_key t)"

fun better :: "rank \<Rightarrow> rank \<Rightarrow> bool" where
  "better (p, q, s) (p', q', s') =
     (if p \<noteq> p' then p > p' else if q \<noteq> q' then q < q' else s < s')"

definition rank_lt :: "raw_torrent \<Rightarrow> raw_torrent \<Rightarrow> bool" where
  "rank_lt a b = better (order_key a) (order_key b)"

text \<open>The comparator of the total-cap trim: the same rank, then downloads before uploads.\<close>

definition ranked_lt :: "raw_torrent \<Rightarrow> raw_torrent \<Rightarrow> bool" where
  "ranked_lt a b =
    (let (pa, qa, sa) = order_key a; (pb, qb, sb) = order_key b in
     pb < pa \<or> (pb = pa \<and> (qa < qb \<or> (qa = qb \<and> (sa < sb \<or>
       (sa = sb \<and> \<not> raw_complete a \<and> raw_complete b))))))"

section \<open>One tick\<close>

definition healthy :: "raw_torrent \<Rightarrow> bool" where
  "healthy t = (\<not> raw_hashing t \<and> raw_message t = [])"

definition is_slow :: "raw_torrent \<Rightarrow> int \<Rightarrow> bool" where
  "is_slow t slow_kbs =
     (slow_kbs > 0 \<and> raw_down_rate t + raw_up_rate t < sat_i64 (slow_kbs * 1024))"

definition managed :: "queue_config \<Rightarrow> raw_torrent \<Rightarrow> bool" where
  "managed cfg t = (healthy t \<and> \<not> raw_force_start t \<and> \<not> is_slow t (slow_limit_kbs cfg))"

definition downloads :: "queue_config \<Rightarrow> raw_torrent list \<Rightarrow> raw_torrent list" where
  "downloads cfg raw = sort_by rank_lt (filter (\<lambda>t. managed cfg t \<and> \<not> raw_complete t) raw)"

definition uploads :: "queue_config \<Rightarrow> raw_torrent list \<Rightarrow> raw_torrent list" where
  "uploads cfg raw = sort_by rank_lt (filter (\<lambda>t. managed cfg t \<and> raw_complete t) raw)"

definition window :: "'a list \<Rightarrow> int \<Rightarrow> nat" where
  "window xs cap = (if cap \<le> 0 then length xs else min (nat cap) (length xs))"

definition windowed :: "queue_config \<Rightarrow> raw_torrent list \<Rightarrow> string set" where
  "windowed cfg raw =
     (let ds = downloads cfg raw; us = uploads cfg raw in
      set (map raw_hash (take (window ds (max_downloads cfg)) ds)) \<union>
      set (map raw_hash (take (window us (max_uploads cfg)) us)))"

definition want_set :: "queue_config \<Rightarrow> raw_torrent list \<Rightarrow> string set" where
  "want_set cfg raw =
     (let want = windowed cfg raw in
      if max_total cfg > 0 \<and> card want > nat (max_total cfg)
      then set (map raw_hash (take (nat (max_total cfg))
             (sort_by ranked_lt (filter (\<lambda>t. raw_hash t \<in> want) raw))))
      else want)"

definition prune_memory :: "string set \<Rightarrow> queue_memory \<Rightarrow> queue_memory" where
  "prune_memory live m =
     m\<lparr>prev_active := (\<lambda>h. if h \<in> live then prev_active m h else None),
       user_exempt := user_exempt m \<inter> live,
       user_paused := user_paused m \<inter> live\<rparr>"

definition edge_step :: "string set \<Rightarrow> raw_torrent \<Rightarrow> queue_memory \<Rightarrow> queue_memory" where
  "edge_step want t m =
     (let h = raw_hash t;
          prev = prev_active m h;
          wanted = (h \<in> want);
          m1 = (if raw_is_active t \<and> prev = Some False
                then (if wanted then m\<lparr>user_paused := user_paused m - {h}\<rparr>
                      else m\<lparr>user_exempt := insert h (user_exempt m)\<rparr>)
                else if \<not> raw_is_active t \<and> prev = Some True \<and> wanted
                then m\<lparr>user_paused := insert h (user_paused m)\<rparr>
                else m)
      in if wanted then m1\<lparr>user_exempt := user_exempt m1 - {h}\<rparr> else m1)"

definition record_active :: "raw_torrent list \<Rightarrow> queue_memory \<Rightarrow> queue_memory" where
  "record_active raw m =
     m\<lparr>prev_active := fold (\<lambda>t f. f(raw_hash t \<mapsto> raw_is_active t)) raw (prev_active m)\<rparr>"

definition decide_queues ::
  "raw_torrent list \<Rightarrow> queue_config \<Rightarrow> queue_memory \<Rightarrow> string set \<Rightarrow> queue_actions \<times> queue_memory" where
  "decide_queues raw cfg mem skip =
    (if \<not> configured cfg then (\<lparr>qa_start = [], qa_stop = []\<rparr>, mem)
     else
       let mem1 = prune_memory (set (map raw_hash raw)) mem;
           ds = downloads cfg raw;
           us = uploads cfg raw;
           want = want_set cfg raw;
           mem2 = record_active raw (fold (edge_step want) raw mem1);
           touch = (\<lambda>t. raw_hash t \<notin> skip \<and> managed cfg t);
           start = map raw_hash (filter (\<lambda>t. touch t \<and> raw_hash t \<in> want \<and> \<not> raw_is_active t
                                              \<and> raw_hash t \<notin> user_paused mem2) (ds @ us));
           stop = map raw_hash (filter (\<lambda>t. touch t \<and> raw_hash t \<notin> want \<and> raw_is_active t
                                             \<and> raw_hash t \<notin> user_exempt mem2) (rev us @ rev ds))
       in (\<lparr>qa_start = start, qa_stop = stop\<rparr>, mem2))"

text \<open>What the daemon's next snapshot shows when exactly these actions were carried out.\<close>

definition carry_out :: "queue_actions \<Rightarrow> raw_torrent list \<Rightarrow> raw_torrent list" where
  "carry_out a raw =
     map (\<lambda>t. t\<lparr>raw_is_active := (raw_hash t \<in> set (qa_start a) \<or>
                                  (raw_is_active t \<and> raw_hash t \<notin> set (qa_stop a)))\<rparr>) raw"

section \<open>Manual reorder\<close>

datatype move_dir = Top | Up | Down | Bottom

record reorder =
  ro_hash :: string
  ro_priority :: int
  ro_pos :: int

type_synonym reorder_state = "string list \<times> (string \<rightharpoonup> int \<times> int) \<times> reorder list"

definition find_raw :: "raw_torrent list \<Rightarrow> string \<Rightarrow> raw_torrent option" where
  "find_raw raw h = find (\<lambda>t. raw_hash t = h) raw"

definition hash_order_lt :: "raw_torrent list \<Rightarrow> string \<Rightarrow> string \<Rightarrow> bool" where
  "hash_order_lt raw a b =
     (case (find_raw raw a, find_raw raw b) of
        (Some ta, Some tb) \<Rightarrow>
          if better (order_key ta) (order_key tb) then True
          else if better (order_key tb) (order_key ta) then False
          else a < b
      | _ \<Rightarrow> False)"

definition ordered_hashes :: "raw_torrent list \<Rightarrow> string list" where
  "ordered_hashes raw = sort_by (hash_order_lt raw) (map raw_hash raw)"

definition key_of ::
  "raw_torrent list \<Rightarrow> (string \<rightharpoonup> int \<times> int) \<Rightarrow> string \<Rightarrow> int \<times> int" where
  "key_of raw assigned h =
     (case assigned h of
        Some k \<Rightarrow> k
      | None \<Rightarrow> (case find_raw raw h of
                   Some t \<Rightarrow> (raw_priority t, queue_pos_or_0 t)
                 | None \<Rightarrow> (1, 0)))"

fun update_first :: "string \<Rightarrow> int \<times> int \<Rightarrow> reorder list \<Rightarrow> reorder list" where
  "update_first h k [] = []"
| "update_first h k (r # rs) =
     (if ro_hash r = h then r\<lparr>ro_priority := fst k, ro_pos := snd k\<rparr> # rs
      else r # update_first h k rs)"

definition emit_reorder ::
  "string \<Rightarrow> int \<times> int \<Rightarrow> (string \<rightharpoonup> int \<times> int) \<times> reorder list
   \<Rightarrow> (string \<rightharpoonup> int \<times> int) \<times> reorder list" where
  "emit_reorder h k st =
     (let (assigned, out) = st in
      if assigned h \<noteq> None then (assigned(h \<mapsto> k), update_first h k out)
      else (assigned(h \<mapsto> k), out @ [\<lparr>ro_hash = h, ro_priority = fst k, ro_pos = snd k\<rparr>]))"

fun position :: "('a \<Rightarrow> bool) \<Rightarrow> 'a list \<Rightarrow> nat option" where
  "position P [] = None"
| "position P (x # xs) = (if P x then Some 0 else map_option Suc (position P xs))"

definition position_or_0 :: "string \<Rightarrow> string list \<Rightarrow> nat" where
  "position_or_0 h xs = (case position (\<lambda>x. x = h) xs of Some i \<Rightarrow> i | None \<Rightarrow> 0)"

definition swap_at :: "nat \<Rightarrow> nat \<Rightarrow> 'a list \<Rightarrow> 'a list" where
  "swap_at i j xs = xs[i := xs ! j, j := xs ! i]"

definition up_step :: "raw_torrent list \<Rightarrow> string set \<Rightarrow> string \<Rightarrow> reorder_state \<Rightarrow> reorder_state" where
  "up_step raw sel h st =
     (let (ordered, assigned, out) = st in
      if h \<notin> sel then st
      else let pos = position_or_0 h ordered in
        if pos = 0 then st
        else let pred = ordered ! (pos - 1);
                 hk = key_of raw assigned h;
                 pk = key_of raw assigned pred;
                 st' = emit_reorder pred hk (emit_reorder h pk (assigned, out))
             in (swap_at pos (pos - 1) ordered, st'))"

definition down_step :: "raw_torrent list \<Rightarrow> string set \<Rightarrow> string \<Rightarrow> reorder_state \<Rightarrow> reorder_state" where
  "down_step raw sel h st =
     (let (ordered, assigned, out) = st in
      if h \<notin> sel then st
      else let pos = position_or_0 h ordered in
        if length ordered \<le> pos + 1 then st
        else let succ = ordered ! (pos + 1);
                 hk = key_of raw assigned h;
                 sk = key_of raw assigned succ;
                 st' = emit_reorder succ hk (emit_reorder h sk (assigned, out))
             in (swap_at pos (pos + 1) ordered, st'))"

definition pin_step :: "int \<Rightarrow> int \<Rightarrow> string set \<Rightarrow> string
   \<Rightarrow> int \<times> (string \<rightharpoonup> int \<times> int) \<times> reorder list \<Rightarrow> int \<times> (string \<rightharpoonup> int \<times> int) \<times> reorder list" where
  "pin_step band delta sel h st =
     (if h \<notin> sel then st
      else let (edge, rest) = st; edge' = edge + delta
           in (edge', emit_reorder h (band, edge') rest))"

definition min_pos :: "raw_torrent list \<Rightarrow> int" where
  "min_pos raw = (case raw of [] \<Rightarrow> 0 | t # ts \<Rightarrow> fold (\<lambda>t m. min m (queue_pos_or_0 t)) ts (queue_pos_or_0 t))"

definition max_pos :: "raw_torrent list \<Rightarrow> int" where
  "max_pos raw = (case raw of [] \<Rightarrow> 0 | t # ts \<Rightarrow> fold (\<lambda>t m. max m (queue_pos_or_0 t)) ts (queue_pos_or_0 t))"

definition plan_reorder :: "raw_torrent list \<Rightarrow> string list \<Rightarrow> move_dir \<Rightarrow> reorder list" where
  "plan_reorder raw hashes dir =
    (if hashes = [] then []
     else let ordered = ordered_hashes raw; sel = set hashes in
       case dir of
         Up \<Rightarrow> snd (snd (fold (up_step raw sel) ordered (ordered, Map.empty, [])))
       | Down \<Rightarrow> snd (snd (fold (down_step raw sel) (rev ordered) (ordered, Map.empty, [])))
       | Top \<Rightarrow> snd (snd (fold (pin_step 3 (- 1) sel) ordered (min_pos raw, Map.empty, [])))
       | Bottom \<Rightarrow> snd (snd (fold (pin_step 0 1 sel) (rev ordered) (max_pos raw, Map.empty, []))))"

definition force_toggle_value :: "raw_torrent list \<Rightarrow> string list \<Rightarrow> string" where
  "force_toggle_value rows hashes =
     (if list_ex (\<lambda>h. case find_raw rows h of None \<Rightarrow> True | Some t \<Rightarrow> \<not> raw_force_start t) hashes
      then ''1'' else [])"

section \<open>The comparators are strict weak orders\<close>

interpretation by_rank: comparator rank_lt
proof
  show "\<not> rank_lt b a" if "rank_lt a b" for a b
    using that by (auto simp: rank_lt_def order_key_def split: if_splits)
  show "rank_lt a b \<or> rank_lt b c" if "rank_lt a c" for a b c
    using that by (auto simp: rank_lt_def order_key_def split: if_splits)
qed

interpretation by_ranked: comparator ranked_lt
  by unfold_locales (auto simp: ranked_lt_def order_key_def)

lemma rank_lt_ranked_lt: "rank_lt a b \<Longrightarrow> ranked_lt a b"
  by (auto simp: rank_lt_def ranked_lt_def order_key_def split: if_splits)

lemma rank_lt_active [simp]:
  "rank_lt (a\<lparr>raw_is_active := x\<rparr>) (b\<lparr>raw_is_active := y\<rparr>) = rank_lt a b"
  "ranked_lt (a\<lparr>raw_is_active := x\<rparr>) (b\<lparr>raw_is_active := y\<rparr>) = ranked_lt a b"
  by (simp_all add: rank_lt_def ranked_lt_def order_key_def queue_pos_or_0_def started_key_def)

section \<open>The want-set\<close>

definition distinct_rows :: "raw_torrent list \<Rightarrow> bool" where
  "distinct_rows raw = distinct (map raw_hash raw)"

lemma distinct_rows_eq:
  "distinct_rows raw \<Longrightarrow> a \<in> set raw \<Longrightarrow> b \<in> set raw \<Longrightarrow> raw_hash a = raw_hash b \<Longrightarrow> a = b"
  unfolding distinct_rows_def by (rule distinct_key_eq)

lemma set_downloads: "set (downloads cfg raw) = {t \<in> set raw. managed cfg t \<and> \<not> raw_complete t}"
  by (auto simp: downloads_def)

lemma set_uploads: "set (uploads cfg raw) = {t \<in> set raw. managed cfg t \<and> raw_complete t}"
  by (auto simp: uploads_def)

lemma windowed_managed: "h \<in> windowed cfg raw \<Longrightarrow> \<exists>t \<in> set raw. raw_hash t = h \<and> managed cfg t"
  using in_set_takeD [of _ _ "downloads cfg raw"] in_set_takeD [of _ _ "uploads cfg raw"]
  by (fastforce simp: windowed_def Let_def set_downloads set_uploads)

lemma want_subset_windowed: "want_set cfg raw \<subseteq> windowed cfg raw"
  by (auto simp: want_set_def Let_def dest!: in_set_takeD)

lemma want_managed: "h \<in> want_set cfg raw \<Longrightarrow> \<exists>t \<in> set raw. raw_hash t = h \<and> managed cfg t"
  using want_subset_windowed windowed_managed by blast

lemma windowed_download:
  assumes "distinct_rows raw" "t \<in> set raw" "\<not> raw_complete t"
  shows "raw_hash t \<in> windowed cfg raw \<longleftrightarrow>
    t \<in> set (take (window (downloads cfg raw) (max_downloads cfg)) (downloads cfg raw))"
proof
  assume "raw_hash t \<in> windowed cfg raw"
  then obtain u where u: "raw_hash u = raw_hash t"
    "u \<in> set (take (window (downloads cfg raw) (max_downloads cfg)) (downloads cfg raw)) \<or>
     u \<in> set (take (window (uploads cfg raw) (max_uploads cfg)) (uploads cfg raw))"
    by (auto simp: windowed_def Let_def)
  then have "u \<in> set raw" by (auto dest!: in_set_takeD simp: set_downloads set_uploads)
  with assms u have "u = t" by (auto intro: distinct_rows_eq)
  with u assms show "t \<in> set (take (window (downloads cfg raw) (max_downloads cfg)) (downloads cfg raw))"
    by (auto dest!: in_set_takeD simp: set_uploads)
qed (auto simp: windowed_def Let_def)

lemma windowed_upload:
  assumes "distinct_rows raw" "t \<in> set raw" "raw_complete t"
  shows "raw_hash t \<in> windowed cfg raw \<longleftrightarrow>
    t \<in> set (take (window (uploads cfg raw) (max_uploads cfg)) (uploads cfg raw))"
proof
  assume "raw_hash t \<in> windowed cfg raw"
  then obtain u where u: "raw_hash u = raw_hash t"
    "u \<in> set (take (window (downloads cfg raw) (max_downloads cfg)) (downloads cfg raw)) \<or>
     u \<in> set (take (window (uploads cfg raw) (max_uploads cfg)) (uploads cfg raw))"
    by (auto simp: windowed_def Let_def)
  then have "u \<in> set raw" by (auto dest!: in_set_takeD simp: set_downloads set_uploads)
  with assms u have "u = t" by (auto intro: distinct_rows_eq)
  with u assms show "t \<in> set (take (window (uploads cfg raw) (max_uploads cfg)) (uploads cfg raw))"
    by (auto dest!: in_set_takeD simp: set_downloads)
qed (auto simp: windowed_def Let_def)

lemma want_trimmed:
  assumes "distinct_rows raw" "t \<in> set raw"
    "max_total cfg > 0" "card (windowed cfg raw) > nat (max_total cfg)"
  shows "raw_hash t \<in> want_set cfg raw \<longleftrightarrow>
    t \<in> set (take (nat (max_total cfg))
      (sort_by ranked_lt (filter (\<lambda>t. raw_hash t \<in> windowed cfg raw) raw)))"
    (is "_ \<longleftrightarrow> t \<in> set (take ?n ?xs)")
proof
  assume "raw_hash t \<in> want_set cfg raw"
  then obtain u where u: "u \<in> set (take ?n ?xs)" "raw_hash u = raw_hash t"
    using assms(3,4) by (auto simp: want_set_def Let_def)
  then have "u \<in> set raw" by (auto dest!: in_set_takeD)
  with assms u have "u = t" by (auto intro: distinct_rows_eq)
  with u show "t \<in> set (take ?n ?xs)" by simp
next
  assume "t \<in> set (take ?n ?xs)"
  with assms(3,4) show "raw_hash t \<in> want_set cfg raw" by (auto simp: want_set_def Let_def)
qed

lemma want_untrimmed:
  "\<not> (max_total cfg > 0 \<and> card (windowed cfg raw) > nat (max_total cfg)) \<Longrightarrow>
   want_set cfg raw = windowed cfg raw"
  by (auto simp: want_set_def Let_def)

lemma card_hashes_take: "card (set (map f (take n xs))) \<le> n"
  by (metis card_length length_map length_take min.cobounded2 order_trans)

lemma finite_want [simp]: "finite (want_set cfg raw)"
  by (simp add: want_set_def windowed_def Let_def)

lemma want_total_cap: "max_total cfg > 0 \<Longrightarrow> card (want_set cfg raw) \<le> nat (max_total cfg)"
  using card_hashes_take by (auto simp: want_set_def Let_def)

lemma window_cap: "cap > 0 \<Longrightarrow> window xs cap \<le> nat cap"
  by (simp add: window_def)

lemma want_download_cap:
  assumes "distinct_rows raw" "max_downloads cfg > 0"
  shows "card {h \<in> want_set cfg raw. \<exists>t \<in> set raw. raw_hash t = h \<and> \<not> raw_complete t}
    \<le> nat (max_downloads cfg)"
proof -
  let ?ds = "downloads cfg raw"
  let ?taken = "set (map raw_hash (take (window ?ds (max_downloads cfg)) ?ds))"
  have "{h \<in> want_set cfg raw. \<exists>t \<in> set raw. raw_hash t = h \<and> \<not> raw_complete t} \<subseteq> ?taken"
    using want_subset_windowed windowed_download [OF assms(1)] by fastforce
  then have "card {h \<in> want_set cfg raw. \<exists>t \<in> set raw. raw_hash t = h \<and> \<not> raw_complete t} \<le> card ?taken"
    by (intro card_mono) simp_all
  also have "\<dots> \<le> window ?ds (max_downloads cfg)" by (rule card_hashes_take)
  also have "\<dots> \<le> nat (max_downloads cfg)" using assms(2) by (rule window_cap)
  finally show ?thesis .
qed

lemma want_upload_cap:
  assumes "distinct_rows raw" "max_uploads cfg > 0"
  shows "card {h \<in> want_set cfg raw. \<exists>t \<in> set raw. raw_hash t = h \<and> raw_complete t}
    \<le> nat (max_uploads cfg)"
proof -
  let ?us = "uploads cfg raw"
  let ?taken = "set (map raw_hash (take (window ?us (max_uploads cfg)) ?us))"
  have "{h \<in> want_set cfg raw. \<exists>t \<in> set raw. raw_hash t = h \<and> raw_complete t} \<subseteq> ?taken"
    using want_subset_windowed windowed_upload [OF assms(1)] by fastforce
  then have "card {h \<in> want_set cfg raw. \<exists>t \<in> set raw. raw_hash t = h \<and> raw_complete t} \<le> card ?taken"
    by (intro card_mono) simp_all
  also have "\<dots> \<le> window ?us (max_uploads cfg)" by (rule card_hashes_take)
  also have "\<dots> \<le> nat (max_uploads cfg)" using assms(2) by (rule window_cap)
  finally show ?thesis .
qed

lemma downloads_take_closed:
  "b \<in> set (take n (downloads cfg raw)) \<Longrightarrow> a \<in> set (downloads cfg raw) \<Longrightarrow> rank_lt a b \<Longrightarrow>
   a \<in> set (take n (downloads cfg raw))"
  unfolding downloads_def set_sort_by by (rule by_rank.take_sorted_closed)

lemma uploads_take_closed:
  "b \<in> set (take n (uploads cfg raw)) \<Longrightarrow> a \<in> set (uploads cfg raw) \<Longrightarrow> rank_lt a b \<Longrightarrow>
   a \<in> set (take n (uploads cfg raw))"
  unfolding uploads_def set_sort_by by (rule by_rank.take_sorted_closed)

lemma want_rank_closed:
  assumes d: "distinct_rows raw" and a: "a \<in> set raw" "managed cfg a" and b: "b \<in> set raw"
    and same: "raw_complete a = raw_complete b" and lt: "rank_lt a b"
    and w: "raw_hash b \<in> want_set cfg raw"
  shows "raw_hash a \<in> want_set cfg raw"
proof -
  have bw: "raw_hash b \<in> windowed cfg raw" using w want_subset_windowed by blast
  have aw: "raw_hash a \<in> windowed cfg raw"
  proof (cases "raw_complete a")
    case False
    have "b \<in> set (take (window (downloads cfg raw) (max_downloads cfg)) (downloads cfg raw))"
      using bw windowed_download [OF d b] same False by simp
    then have "a \<in> set (take (window (downloads cfg raw) (max_downloads cfg)) (downloads cfg raw))"
      by (rule downloads_take_closed) (use a False lt in \<open>simp_all add: set_downloads\<close>)
    then show ?thesis using windowed_download [OF d a(1) False] by simp
  next
    case True
    have "b \<in> set (take (window (uploads cfg raw) (max_uploads cfg)) (uploads cfg raw))"
      using bw windowed_upload [OF d b] same True by simp
    then have "a \<in> set (take (window (uploads cfg raw) (max_uploads cfg)) (uploads cfg raw))"
      by (rule uploads_take_closed) (use a True lt in \<open>simp_all add: set_uploads\<close>)
    then show ?thesis using windowed_upload [OF d a(1) True] by simp
  qed
  show ?thesis
  proof (cases "max_total cfg > 0 \<and> card (windowed cfg raw) > nat (max_total cfg)")
    case True
    with w d b have "b \<in> set (take (nat (max_total cfg))
        (sort_by ranked_lt (filter (\<lambda>t. raw_hash t \<in> windowed cfg raw) raw)))"
      by (simp add: want_trimmed)
    then have "a \<in> set (take (nat (max_total cfg))
        (sort_by ranked_lt (filter (\<lambda>t. raw_hash t \<in> windowed cfg raw) raw)))"
      by (rule by_ranked.take_sorted_closed) (use a aw lt rank_lt_ranked_lt in auto)
    with True d a show ?thesis by (simp add: want_trimmed)
  qed (use aw want_untrimmed in simp)
qed

section \<open>User intent\<close>

lemma edge_step_other:
  "h \<noteq> raw_hash t \<Longrightarrow> h \<in> user_paused (edge_step want t m) \<longleftrightarrow> h \<in> user_paused m"
  "h \<noteq> raw_hash t \<Longrightarrow> h \<in> user_exempt (edge_step want t m) \<longleftrightarrow> h \<in> user_exempt m"
  "prev_active (edge_step want t m) = prev_active m"
  by (simp_all add: edge_step_def Let_def)

lemma edges_other:
  "h \<notin> raw_hash ` set raw \<Longrightarrow> h \<in> user_paused (fold (edge_step want) raw m) \<longleftrightarrow> h \<in> user_paused m"
  "h \<notin> raw_hash ` set raw \<Longrightarrow> h \<in> user_exempt (fold (edge_step want) raw m) \<longleftrightarrow> h \<in> user_exempt m"
  "prev_active (fold (edge_step want) raw m) = prev_active m"
  by (induction raw arbitrary: m) (auto simp: edge_step_other)

definition paused_after :: "string set \<Rightarrow> queue_memory \<Rightarrow> raw_torrent \<Rightarrow> bool" where
  "paused_after want m t =
     (if raw_is_active t \<and> prev_active m (raw_hash t) = Some False \<and> raw_hash t \<in> want then False
      else if \<not> raw_is_active t \<and> prev_active m (raw_hash t) = Some True \<and> raw_hash t \<in> want then True
      else raw_hash t \<in> user_paused m)"

definition exempt_after :: "string set \<Rightarrow> queue_memory \<Rightarrow> raw_torrent \<Rightarrow> bool" where
  "exempt_after want m t =
     (raw_hash t \<notin> want \<and>
      ((raw_is_active t \<and> prev_active m (raw_hash t) = Some False) \<or> raw_hash t \<in> user_exempt m))"

lemma edge_step_own:
  "raw_hash t \<in> user_paused (edge_step want t m) \<longleftrightarrow> paused_after want m t"
  "raw_hash t \<in> user_exempt (edge_step want t m) \<longleftrightarrow> exempt_after want m t"
  by (auto simp: edge_step_def paused_after_def exempt_after_def Let_def)

lemma edges_own_both:
  "distinct_rows raw \<Longrightarrow> t \<in> set raw \<Longrightarrow>
   (raw_hash t \<in> user_paused (fold (edge_step want) raw m) \<longleftrightarrow> paused_after want m t) \<and>
   (raw_hash t \<in> user_exempt (fold (edge_step want) raw m) \<longleftrightarrow> exempt_after want m t)"
proof (induction raw arbitrary: m)
  case (Cons u us)
  from Cons.prems have d: "distinct_rows us" "raw_hash u \<notin> raw_hash ` set us"
    by (auto simp: distinct_rows_def)
  show ?case
  proof (cases "t = u")
    case True
    with d show ?thesis by (simp add: edges_other edge_step_own)
  next
    case False
    with Cons.prems have t: "t \<in> set us" by simp
    with d have n: "raw_hash t \<noteq> raw_hash u" by (auto simp: image_iff)
    with Cons.IH [OF d(1) t, of "edge_step want u m"] show ?thesis
      by (simp add: paused_after_def exempt_after_def edge_step_other)
  qed
qed simp

lemmas edges_own = edges_own_both [THEN conjunct1] edges_own_both [THEN conjunct2]

lemma record_active_sets [simp]:
  "user_paused (record_active raw m) = user_paused m"
  "user_exempt (record_active raw m) = user_exempt m"
  by (simp_all add: record_active_def)

lemma fold_record_other:
  "h \<notin> raw_hash ` set raw \<Longrightarrow>
   fold (\<lambda>t f. f(raw_hash t \<mapsto> raw_is_active t)) raw f h = f h"
  by (induction raw arbitrary: f) auto

lemma record_active_own:
  "distinct_rows raw \<Longrightarrow> t \<in> set raw \<Longrightarrow>
   prev_active (record_active raw m) (raw_hash t) = Some (raw_is_active t)"
proof -
  have "fold (\<lambda>t f. f(raw_hash t \<mapsto> raw_is_active t)) raw f (raw_hash t) = Some (raw_is_active t)"
    if "distinct_rows raw" "t \<in> set raw" for f
    using that
  proof (induction raw arbitrary: f)
    case (Cons u us)
    show ?case
    proof (cases "t = u")
      case True
      with Cons.prems have "raw_hash u \<notin> raw_hash ` set us" by (simp add: distinct_rows_def)
      from fold_record_other [OF this] show ?thesis
        unfolding True by (simp del: fun_upd_apply add: fun_upd_same)
    next
      case False
      with Cons show ?thesis by (simp add: distinct_rows_def)
    qed
  qed simp
  then show "distinct_rows raw \<Longrightarrow> t \<in> set raw \<Longrightarrow>
    prev_active (record_active raw m) (raw_hash t) = Some (raw_is_active t)"
    by (simp add: record_active_def)
qed

section \<open>What one tick emits\<close>

definition tick_memory :: "raw_torrent list \<Rightarrow> queue_config \<Rightarrow> queue_memory \<Rightarrow> queue_memory" where
  "tick_memory raw cfg mem =
     record_active raw (fold (edge_step (want_set cfg raw)) raw (prune_memory (set (map raw_hash raw)) mem))"

lemma decide_memory:
  "configured cfg \<Longrightarrow> snd (decide_queues raw cfg mem skip) = tick_memory raw cfg mem"
  by (simp add: decide_queues_def tick_memory_def Let_def)

lemma decide_start:
  "h \<in> set (qa_start (fst (decide_queues raw cfg mem skip))) \<longleftrightarrow>
   configured cfg \<and> h \<notin> skip \<and> h \<in> want_set cfg raw \<and> h \<notin> user_paused (tick_memory raw cfg mem) \<and>
   (\<exists>t \<in> set raw. raw_hash t = h \<and> managed cfg t \<and> \<not> raw_is_active t)"
  by (auto simp: decide_queues_def tick_memory_def Let_def set_downloads set_uploads)

lemma decide_stop:
  "h \<in> set (qa_stop (fst (decide_queues raw cfg mem skip))) \<longleftrightarrow>
   configured cfg \<and> h \<notin> skip \<and> h \<notin> want_set cfg raw \<and> h \<notin> user_exempt (tick_memory raw cfg mem) \<and>
   (\<exists>t \<in> set raw. raw_hash t = h \<and> managed cfg t \<and> raw_is_active t)"
  by (auto simp: decide_queues_def tick_memory_def Let_def set_downloads set_uploads)

lemma tick_memory_paused:
  assumes "distinct_rows raw" "t \<in> set raw"
  shows "raw_hash t \<in> user_paused (tick_memory raw cfg mem) \<longleftrightarrow> paused_after (want_set cfg raw) mem t"
  using edges_own [OF assms] assms(2)
  by (simp add: tick_memory_def paused_after_def prune_memory_def)

lemma tick_memory_exempt:
  assumes "distinct_rows raw" "t \<in> set raw"
  shows "raw_hash t \<in> user_exempt (tick_memory raw cfg mem) \<longleftrightarrow> exempt_after (want_set cfg raw) mem t"
  using edges_own [OF assms] assms(2)
  by (simp add: tick_memory_def exempt_after_def prune_memory_def)

lemma tick_memory_prev:
  "distinct_rows raw \<Longrightarrow> t \<in> set raw \<Longrightarrow>
   prev_active (tick_memory raw cfg mem) (raw_hash t) = Some (raw_is_active t)"
  by (simp add: tick_memory_def record_active_own)

section \<open>Properties of the scheduler\<close>

text \<open>Property C18. One scheduler tick only touches torrents the queue manages: every torrent it starts is
  idle, inside the wanted set and not paused by the user; every torrent it holds back is running,
  outside the wanted set and not exempted by a manual resume; both are healthy, not forced, not
  slow and not in the skip set; and no torrent is both started and held. With every cap disabled the
  tick does nothing and leaves its memory alone.\<close>

theorem decide_queues_safe:
  "(let (acts, mem') = decide_queues raw cfg mem skip in
     (\<forall>h \<in> set (qa_start acts). h \<in> want_set cfg raw \<and> h \<notin> skip \<and> h \<notin> user_paused mem' \<and>
        (\<exists>t \<in> set raw. raw_hash t = h \<and> healthy t \<and> \<not> raw_force_start t \<and>
           \<not> is_slow t (slow_limit_kbs cfg) \<and> \<not> raw_is_active t)) \<and>
     (\<forall>h \<in> set (qa_stop acts). h \<notin> want_set cfg raw \<and> h \<notin> skip \<and> h \<notin> user_exempt mem' \<and>
        (\<exists>t \<in> set raw. raw_hash t = h \<and> healthy t \<and> \<not> raw_force_start t \<and>
           \<not> is_slow t (slow_limit_kbs cfg) \<and> raw_is_active t)) \<and>
     set (qa_start acts) \<inter> set (qa_stop acts) = {}) \<and>
   (\<not> configured cfg \<longrightarrow> decide_queues raw cfg mem skip = (\<lparr>qa_start = [], qa_stop = []\<rparr>, mem))"
proof
  obtain acts mem' where am: "decide_queues raw cfg mem skip = (acts, mem')"
    by (cases "decide_queues raw cfg mem skip")
  have start: "h \<in> set (qa_start acts) \<longleftrightarrow> configured cfg \<and> h \<notin> skip \<and> h \<in> want_set cfg raw \<and>
      h \<notin> user_paused (tick_memory raw cfg mem) \<and>
      (\<exists>t \<in> set raw. raw_hash t = h \<and> managed cfg t \<and> \<not> raw_is_active t)" for h
    using decide_start [of h raw cfg mem skip] am by simp
  have stop: "h \<in> set (qa_stop acts) \<longleftrightarrow> configured cfg \<and> h \<notin> skip \<and> h \<notin> want_set cfg raw \<and>
      h \<notin> user_exempt (tick_memory raw cfg mem) \<and>
      (\<exists>t \<in> set raw. raw_hash t = h \<and> managed cfg t \<and> raw_is_active t)" for h
    using decide_stop [of h raw cfg mem skip] am by simp
  have mem': "configured cfg \<Longrightarrow> mem' = tick_memory raw cfg mem"
    using decide_memory [of cfg raw mem skip] am by simp
  show "let (acts, mem') = decide_queues raw cfg mem skip in
     (\<forall>h \<in> set (qa_start acts). h \<in> want_set cfg raw \<and> h \<notin> skip \<and> h \<notin> user_paused mem' \<and>
        (\<exists>t \<in> set raw. raw_hash t = h \<and> healthy t \<and> \<not> raw_force_start t \<and>
           \<not> is_slow t (slow_limit_kbs cfg) \<and> \<not> raw_is_active t)) \<and>
     (\<forall>h \<in> set (qa_stop acts). h \<notin> want_set cfg raw \<and> h \<notin> skip \<and> h \<notin> user_exempt mem' \<and>
        (\<exists>t \<in> set raw. raw_hash t = h \<and> healthy t \<and> \<not> raw_force_start t \<and>
           \<not> is_slow t (slow_limit_kbs cfg) \<and> raw_is_active t)) \<and>
     set (qa_start acts) \<inter> set (qa_stop acts) = {}"
    unfolding am Let_def prod.case
    using mem' by (auto simp: start stop managed_def)
qed (simp add: decide_queues_def)

definition sample_torrent :: "string \<Rightarrow> bool \<Rightarrow> int \<Rightarrow> raw_torrent" where
  "sample_torrent h active prio =
     raw_torrent_default\<lparr>raw_hash := h, raw_is_open := True, raw_is_active := active, raw_priority := prio\<rparr>"

definition sample_cfg :: queue_config where
  "sample_cfg = \<lparr>max_downloads = 1, max_uploads = 0, max_total = 0, slow_limit_kbs = 0\<rparr>"

definition fresh_memory :: queue_memory where
  "fresh_memory = \<lparr>prev_active = Map.empty, user_exempt = {}, user_paused = {}\<rparr>"

lemmas sample_simps = sample_torrent_def sample_cfg_def fresh_memory_def raw_torrent_default_def

theorem decide_queues_safe_witness:
  "decide_queues [sample_torrent ''A'' True 0]
     \<lparr>max_downloads = 0, max_uploads = 0, max_total = 0, slow_limit_kbs = 0\<rparr> fresh_memory {}
   = (\<lparr>qa_start = [], qa_stop = []\<rparr>, fresh_memory)"
  using decide_queues_safe [of "[sample_torrent ''A'' True 0]"
      "\<lparr>max_downloads = 0, max_uploads = 0, max_total = 0, slow_limit_kbs = 0\<rparr>" fresh_memory "{}"]
  by (simp add: configured_def)

lemma carry_out_active:
  assumes "distinct_rows raw" "u \<in> set (carry_out a raw)"
  obtains t where "t \<in> set raw" "raw_hash u = raw_hash t"
    "u = t\<lparr>raw_is_active := (raw_hash t \<in> set (qa_start a) \<or>
                              (raw_is_active t \<and> raw_hash t \<notin> set (qa_stop a)))\<rparr>"
  using assms(2) by (auto simp: carry_out_def)

lemma managed_active [simp]: "managed cfg (t\<lparr>raw_is_active := b\<rparr>) = managed cfg t"
  by (simp add: managed_def healthy_def is_slow_def)

text \<open>The caps hold after a tick: in the state the daemon shows once the actions are carried
  out, every managed torrent that runs is wanted, exempted by the user or skipped; the wanted
  downloads, uploads and torrents in all number at most their caps; and starting fresh with nothing
  skipped, exactly the wanted torrents run.\<close>

theorem caps_respected:
  assumes d: "distinct_rows raw" and c: "configured cfg"
  shows "(\<forall>u \<in> set (carry_out (fst (decide_queues raw cfg mem skip)) raw).
       managed cfg u \<and> raw_is_active u \<longrightarrow>
         raw_hash u \<in> want_set cfg raw \<union> user_exempt (snd (decide_queues raw cfg mem skip)) \<union> skip) \<and>
    (max_downloads cfg > 0 \<longrightarrow>
       card {h \<in> want_set cfg raw. \<exists>t \<in> set raw. raw_hash t = h \<and> \<not> raw_complete t} \<le> nat (max_downloads cfg)) \<and>
    (max_uploads cfg > 0 \<longrightarrow>
       card {h \<in> want_set cfg raw. \<exists>t \<in> set raw. raw_hash t = h \<and> raw_complete t} \<le> nat (max_uploads cfg)) \<and>
    (max_total cfg > 0 \<longrightarrow> card (want_set cfg raw) \<le> nat (max_total cfg)) \<and>
    {raw_hash u | u. u \<in> set (carry_out (fst (decide_queues raw cfg (queue_memory_reset mem) {})) raw) \<and>
                     managed cfg u \<and> raw_is_active u} = want_set cfg raw"
proof (intro conjI impI)
  show "\<forall>u \<in> set (carry_out (fst (decide_queues raw cfg mem skip)) raw).
       managed cfg u \<and> raw_is_active u \<longrightarrow>
         raw_hash u \<in> want_set cfg raw \<union> user_exempt (snd (decide_queues raw cfg mem skip)) \<union> skip"
  proof (intro ballI impI)
    fix u assume "u \<in> set (carry_out (fst (decide_queues raw cfg mem skip)) raw)"
      and m: "managed cfg u \<and> raw_is_active u"
    then obtain t where t: "t \<in> set raw" "raw_hash u = raw_hash t" "managed cfg t"
      "raw_hash t \<in> set (qa_start (fst (decide_queues raw cfg mem skip))) \<or>
       (raw_is_active t \<and> raw_hash t \<notin> set (qa_stop (fst (decide_queues raw cfg mem skip))))"
      using d by (auto elim!: carry_out_active)
    then show "raw_hash u \<in> want_set cfg raw \<union> user_exempt (snd (decide_queues raw cfg mem skip)) \<union> skip"
      using c by (auto simp: decide_start decide_stop decide_memory)
  qed
  let ?m = "queue_memory_reset mem"
  let ?acts = "fst (decide_queues raw cfg ?m {})"
  have paused: "\<not> raw_hash t \<in> user_paused (tick_memory raw cfg ?m)"
    and exempt: "\<not> raw_hash t \<in> user_exempt (tick_memory raw cfg ?m)" if "t \<in> set raw" for t
    using that d
    by (simp_all add: tick_memory_paused tick_memory_exempt paused_after_def exempt_after_def
        queue_memory_reset_def)
  show "{raw_hash u | u. u \<in> set (carry_out ?acts raw) \<and> managed cfg u \<and> raw_is_active u} = want_set cfg raw"
    (is "?L = _")
  proof
    show "?L \<subseteq> want_set cfg raw"
    proof
      fix h assume "h \<in> ?L"
      then obtain t where t: "t \<in> set raw" "h = raw_hash t" "managed cfg t"
        "raw_hash t \<in> set (qa_start ?acts) \<or> (raw_is_active t \<and> raw_hash t \<notin> set (qa_stop ?acts))"
        using d by (auto elim!: carry_out_active)
      with exempt c show "h \<in> want_set cfg raw" by (auto simp: decide_start decide_stop)
    qed
    show "want_set cfg raw \<subseteq> ?L"
    proof
      fix h assume h: "h \<in> want_set cfg raw"
      then obtain t where t: "t \<in> set raw" "raw_hash t = h" "managed cfg t" using want_managed by blast
      let ?u = "t\<lparr>raw_is_active := (raw_hash t \<in> set (qa_start ?acts) \<or>
                  (raw_is_active t \<and> raw_hash t \<notin> set (qa_stop ?acts)))\<rparr>"
      have "?u \<in> set (carry_out ?acts raw)" using t(1) by (auto simp: carry_out_def)
      moreover have "raw_is_active ?u"
        using t h c paused [OF t(1)] by (cases "raw_is_active t") (auto simp: decide_start decide_stop)
      ultimately show "h \<in> ?L" using t by (intro CollectI exI [of _ ?u]) simp
    qed
  qed
qed (use d want_download_cap want_upload_cap want_total_cap in blast)+

theorem caps_respected_witness:
  "{raw_hash u | u. u \<in> set (carry_out (fst (decide_queues
        [sample_torrent ''A'' True 0, sample_torrent ''B'' False 3] sample_cfg (queue_memory_reset fresh_memory) {}))
        [sample_torrent ''A'' True 0, sample_torrent ''B'' False 3]) \<and> managed sample_cfg u \<and> raw_is_active u}
   = want_set sample_cfg [sample_torrent ''A'' True 0, sample_torrent ''B'' False 3]"
proof -
  have d: "distinct_rows [sample_torrent ''A'' True 0, sample_torrent ''B'' False 3]"
    by (simp add: distinct_rows_def sample_simps)
  have c: "configured sample_cfg" by (simp add: configured_def sample_cfg_def)
  show ?thesis using caps_respected [OF d c, of fresh_memory "{}"] by blast
qed

text \<open>Property C20. The queue is fair to its ranking: whenever a torrent is wanted, so is every managed
  torrent of the same class (download or upload) that outranks it, also after the total cap has trimmed the
  set; so no tick holds back a torrent while it leaves a lower-ranked one of its class wanted.\<close>

theorem no_priority_inversion:
  assumes "distinct_rows raw" "a \<in> set raw" "b \<in> set raw" "managed cfg a"
    "raw_complete a = raw_complete b" "better (order_key a) (order_key b)"
    "raw_hash b \<in> want_set cfg raw"
  shows "raw_hash a \<in> want_set cfg raw \<and>
    raw_hash a \<notin> set (qa_stop (fst (decide_queues raw cfg mem skip)))"
  using want_rank_closed [of raw a cfg b] assms by (auto simp: rank_lt_def decide_stop)

lemma sample_want:
  "want_set sample_cfg [sample_torrent ''A'' True 3, sample_torrent ''B'' False 0] = {''A''}"
  by (simp add: want_set_def windowed_def downloads_def uploads_def window_def managed_def healthy_def
      is_slow_def rank_lt_def order_key_def queue_pos_or_0_def started_key_def sample_simps Let_def)

theorem no_priority_inversion_witness:
  "''A'' \<in> want_set (sample_cfg\<lparr>max_downloads := 2\<rparr>) [sample_torrent ''A'' True 3, sample_torrent ''B'' False 0]"
proof -
  let ?raw = "[sample_torrent ''A'' True 3, sample_torrent ''B'' False 0]"
  let ?cfg = "sample_cfg\<lparr>max_downloads := 2\<rparr>"
  have "''B'' \<in> want_set ?cfg ?raw"
    by (simp add: want_set_def windowed_def downloads_def uploads_def window_def managed_def healthy_def
        is_slow_def rank_lt_def order_key_def queue_pos_or_0_def started_key_def sample_simps Let_def)
  then have "raw_hash (sample_torrent ''A'' True 3) \<in> want_set ?cfg ?raw \<and>
      raw_hash (sample_torrent ''A'' True 3) \<notin> set (qa_stop (fst (decide_queues ?raw ?cfg fresh_memory {})))"
    by (intro no_priority_inversion [of ?raw _ "sample_torrent ''B'' False 0"])
       (simp_all add: distinct_rows_def managed_def healthy_def is_slow_def order_key_def
         queue_pos_or_0_def started_key_def sample_simps)
  then show ?thesis by (simp add: sample_simps)
qed

section \<open>Convergence and the user's intent over many ticks\<close>

lemma map_hash_carry [simp]: "map raw_hash (carry_out a raw) = map raw_hash raw"
  by (simp add: carry_out_def o_def)

lemma distinct_rows_carry [simp]: "distinct_rows (carry_out a raw) = distinct_rows raw"
  unfolding distinct_rows_def by simp

lemma rank_invariant:
  "rank_lt (t\<lparr>raw_is_active := x\<rparr>) u = rank_lt t u" "rank_lt t (u\<lparr>raw_is_active := y\<rparr>) = rank_lt t u"
  "ranked_lt (t\<lparr>raw_is_active := x\<rparr>) u = ranked_lt t u" "ranked_lt t (u\<lparr>raw_is_active := y\<rparr>) = ranked_lt t u"
  by (simp_all add: rank_lt_def ranked_lt_def order_key_def queue_pos_or_0_def started_key_def)

lemma filter_carry:
  "(\<And>t b. P (t\<lparr>raw_is_active := b\<rparr>) = P t) \<Longrightarrow> filter P (carry_out a raw) = carry_out a (filter P raw)"
  by (induction raw) (auto simp: carry_out_def)

lemma sort_carry:
  assumes "\<And>t u x y. lt (t\<lparr>raw_is_active := x\<rparr>) (u\<lparr>raw_is_active := y\<rparr>) = lt t u"
  shows "sort_by lt (carry_out a raw) = carry_out a (sort_by lt raw)"
  unfolding carry_out_def by (simp add: map_sort_by assms)

lemma take_carry: "take n (carry_out a raw) = carry_out a (take n raw)"
  by (simp add: carry_out_def take_map)

lemma length_carry [simp]: "length (carry_out a raw) = length raw"
  by (simp add: carry_out_def)

lemma want_set_carry [simp]: "want_set cfg (carry_out a raw) = want_set cfg raw"
proof -
  have ds: "downloads cfg (carry_out a raw) = carry_out a (downloads cfg raw)"
    and us: "uploads cfg (carry_out a raw) = carry_out a (uploads cfg raw)"
    unfolding downloads_def uploads_def
    by (subst filter_carry, simp, rule sort_carry, simp)+
  have w: "windowed cfg (carry_out a raw) = windowed cfg raw"
    unfolding windowed_def Let_def ds us take_carry map_hash_carry window_def length_carry ..
  have "take n (sort_by ranked_lt (filter (\<lambda>t. raw_hash t \<in> W) (carry_out a raw))) =
      carry_out a (take n (sort_by ranked_lt (filter (\<lambda>t. raw_hash t \<in> W) raw)))" for n W
    unfolding take_carry [symmetric]
    by (subst filter_carry, simp, subst sort_carry, simp_all)
  then show ?thesis by (simp only: want_set_def w Let_def map_hash_carry)
qed

definition after_actions :: "queue_actions \<Rightarrow> raw_torrent \<Rightarrow> bool" where
  "after_actions a t = (raw_hash t \<in> set (qa_start a) \<or> (raw_is_active t \<and> raw_hash t \<notin> set (qa_stop a)))"

lemma decide_start_row:
  assumes "distinct_rows raw" "t \<in> set raw"
  shows "raw_hash t \<in> set (qa_start (fst (decide_queues raw cfg mem skip))) \<longleftrightarrow>
    configured cfg \<and> raw_hash t \<notin> skip \<and> raw_hash t \<in> want_set cfg raw \<and>
    \<not> paused_after (want_set cfg raw) mem t \<and> managed cfg t \<and> \<not> raw_is_active t"
  using assms distinct_rows_eq [OF assms(1) _ assms(2)]
  by (auto simp: decide_start tick_memory_paused)

lemma decide_stop_row:
  assumes "distinct_rows raw" "t \<in> set raw"
  shows "raw_hash t \<in> set (qa_stop (fst (decide_queues raw cfg mem skip))) \<longleftrightarrow>
    configured cfg \<and> raw_hash t \<notin> skip \<and> raw_hash t \<notin> want_set cfg raw \<and>
    \<not> exempt_after (want_set cfg raw) mem t \<and> managed cfg t \<and> raw_is_active t"
  using assms distinct_rows_eq [OF assms(1) _ assms(2)]
  by (auto simp: decide_stop tick_memory_exempt)

lemma no_actions_iff:
  "qa_start (fst (decide_queues raw cfg mem skip)) = [] \<and> qa_stop (fst (decide_queues raw cfg mem skip)) = []
   \<longleftrightarrow> (\<forall>t \<in> set raw. raw_hash t \<notin> set (qa_start (fst (decide_queues raw cfg mem skip))) \<and>
                        raw_hash t \<notin> set (qa_stop (fst (decide_queues raw cfg mem skip))))"
proof -
  have "set (qa_start (fst (decide_queues raw cfg mem skip))) \<subseteq> raw_hash ` set raw"
    "set (qa_stop (fst (decide_queues raw cfg mem skip))) \<subseteq> raw_hash ` set raw"
    by (auto simp: decide_start decide_stop)
  then have "x \<notin> set (qa_start (fst (decide_queues raw cfg mem skip)))"
      "x \<notin> set (qa_stop (fst (decide_queues raw cfg mem skip)))"
    if "\<forall>t \<in> set raw. raw_hash t \<notin> set (qa_start (fst (decide_queues raw cfg mem skip))) \<and>
                        raw_hash t \<notin> set (qa_stop (fst (decide_queues raw cfg mem skip)))" for x
    using that by blast+
  then show ?thesis by (metis list.set_intros(1) neq_Nil_conv empty_iff list.set(1))
qed

text \<open>Property C21. The scheduler converges in one tick: when the daemon carries out the tick's actions and
  nothing else changes, the next tick (same configuration, same skip set) has nothing left to start or hold.\<close>

theorem queue_quiescent:
  assumes d: "distinct_rows raw" and run: "decide_queues raw cfg mem skip = (acts, mem')"
  shows "qa_start (fst (decide_queues (carry_out acts raw) cfg mem' skip)) = [] \<and>
    qa_stop (fst (decide_queues (carry_out acts raw) cfg mem' skip)) = []"
proof (cases "configured cfg")
  case True
  have acts: "acts = fst (decide_queues raw cfg mem skip)" and mem': "mem' = tick_memory raw cfg mem"
    using run decide_memory [OF True, of raw mem skip] by simp_all
  show ?thesis unfolding no_actions_iff
  proof
    fix u assume u: "u \<in> set (carry_out acts raw)"
    with d obtain t where t: "t \<in> set raw" "raw_hash u = raw_hash t"
      and ut: "u = t\<lparr>raw_is_active := after_actions acts t\<rparr>"
      by (auto simp: after_actions_def elim!: carry_out_active)
    have du: "distinct_rows (carry_out acts raw)" using d by simp
    note start = decide_start_row [OF d t(1), of cfg mem skip]
    note stop = decide_stop_row [OF d t(1), of cfg mem skip]
    note mem_facts = tick_memory_prev [OF d t(1), of cfg mem] tick_memory_paused [OF d t(1), of cfg mem]
      tick_memory_exempt [OF d t(1), of cfg mem]
    show "raw_hash u \<notin> set (qa_start (fst (decide_queues (carry_out acts raw) cfg mem' skip))) \<and>
          raw_hash u \<notin> set (qa_stop (fst (decide_queues (carry_out acts raw) cfg mem' skip)))"
      unfolding decide_start_row [OF du u] decide_stop_row [OF du u] want_set_carry
      using start stop mem_facts
      by (cases "raw_is_active t"; cases "raw_hash t \<in> want_set cfg raw")
         (simp_all add: ut after_actions_def acts mem' paused_after_def [of _ "tick_memory raw cfg mem"]
           exempt_after_def [of _ "tick_memory raw cfg mem"], blast?)
  qed
qed (simp add: decide_queues_def)

theorem queue_quiescent_witness:
  "qa_start (fst (decide_queues (carry_out (fst (decide_queues [sample_torrent ''A'' False 3] sample_cfg fresh_memory {}))
      [sample_torrent ''A'' False 3]) sample_cfg
      (snd (decide_queues [sample_torrent ''A'' False 3] sample_cfg fresh_memory {})) {})) = []"
  using queue_quiescent [of "[sample_torrent ''A'' False 3]" sample_cfg fresh_memory "{}"
      "fst (decide_queues [sample_torrent ''A'' False 3] sample_cfg fresh_memory {})"
      "snd (decide_queues [sample_torrent ''A'' False 3] sample_cfg fresh_memory {})"]
  by (simp add: distinct_rows_def sample_simps)

definition queue_tick ::
  "queue_config \<Rightarrow> raw_torrent list \<times> string set \<Rightarrow> queue_memory \<Rightarrow> queue_actions \<times> queue_memory" where
  "queue_tick cfg input mem = decide_queues (fst input) cfg mem (snd input)"

definition shows_idle :: "string \<Rightarrow> raw_torrent list \<times> string set \<Rightarrow> bool" where
  "shows_idle h input = (distinct_rows (fst input) \<and> (\<exists>t \<in> set (fst input). raw_hash t = h \<and> \<not> raw_is_active t))"

definition shows_running_unwanted :: "queue_config \<Rightarrow> string \<Rightarrow> raw_torrent list \<times> string set \<Rightarrow> bool" where
  "shows_running_unwanted cfg h input = (distinct_rows (fst input) \<and> h \<notin> want_set cfg (fst input) \<and>
     (\<exists>t \<in> set (fst input). raw_hash t = h \<and> raw_is_active t))"

lemma paused_tick:
  assumes "configured cfg" "shows_idle h input" "h \<in> user_paused m \<or>
      (prev_active m h = Some True \<and> h \<in> want_set cfg (fst input))"
  shows "h \<in> user_paused (snd (queue_tick cfg input m)) \<and> h \<notin> set (qa_start (fst (queue_tick cfg input m)))"
proof -
  from assms(2) obtain t where t: "distinct_rows (fst input)" "t \<in> set (fst input)" "raw_hash t = h"
    "\<not> raw_is_active t" by (auto simp: shows_idle_def)
  with assms(3) have "paused_after (want_set cfg (fst input)) m t" by (auto simp: paused_after_def)
  with t assms(1) tick_memory_paused [OF t(1,2)] decide_start_row [OF t(1,2)] show ?thesis
    by (simp add: queue_tick_def decide_memory)
qed

lemma exempt_tick:
  assumes "configured cfg" "shows_running_unwanted cfg h input" "h \<in> user_exempt m \<or> prev_active m h = Some False"
  shows "h \<in> user_exempt (snd (queue_tick cfg input m)) \<and> h \<notin> set (qa_stop (fst (queue_tick cfg input m)))"
proof -
  from assms(2) obtain t where t: "distinct_rows (fst input)" "t \<in> set (fst input)" "raw_hash t = h"
    "raw_is_active t" "h \<notin> want_set cfg (fst input)" by (auto simp: shows_running_unwanted_def)
  with assms(3) have "exempt_after (want_set cfg (fst input)) m t" by (auto simp: exempt_after_def)
  with t assms(1) tick_memory_exempt [OF t(1,2)] decide_stop_row [OF t(1,2)] show ?thesis
    by (simp add: queue_tick_def decide_memory)
qed

interpretation pause_sticks: keeps_invariant "queue_tick cfg" "\<lambda>_ i. configured cfg \<and> shows_idle h i"
    "\<lambda>m. h \<in> user_paused m" "\<lambda>a. h \<notin> set (qa_start a)" for cfg h
  by unfold_locales (use paused_tick in blast)+

interpretation resume_sticks: keeps_invariant "queue_tick cfg"
    "\<lambda>_ i. configured cfg \<and> shows_running_unwanted cfg h i"
    "\<lambda>m. h \<in> user_exempt m" "\<lambda>a. h \<notin> set (qa_stop a)" for cfg h
  by unfold_locales (use exempt_tick in blast)+


lemma single_want:
  "want_set sample_cfg [sample_torrent ''A'' b 3] = {''A''}"
  by (simp add: want_set_def windowed_def downloads_def uploads_def window_def managed_def healthy_def
      is_slow_def rank_lt_def order_key_def queue_pos_or_0_def started_key_def sample_simps Let_def)


section \<open>Manual reorder\<close>

lemma set_ordered [simp]: "set (ordered_hashes raw) = raw_hash ` set raw"
  by (simp add: ordered_hashes_def)

lemma distinct_ordered: "distinct_rows raw \<Longrightarrow> distinct (ordered_hashes raw)"
  by (simp add: ordered_hashes_def distinct_rows_def)

lemma emit_fresh:
  "assigned h = None \<Longrightarrow>
   emit_reorder h k (assigned, out) = (assigned(h \<mapsto> k), out @ [\<lparr>ro_hash = h, ro_priority = fst k, ro_pos = snd k\<rparr>])"
  by (simp add: emit_reorder_def)

fun pins :: "int \<Rightarrow> int \<Rightarrow> int \<Rightarrow> string list \<Rightarrow> reorder list" where
  "pins band edge delta [] = []"
| "pins band edge delta (h # hs) =
     \<lparr>ro_hash = h, ro_priority = band, ro_pos = edge + delta\<rparr> # pins band (edge + delta) delta hs"

lemma fold_pin_step:
  "distinct hs \<Longrightarrow> set hs \<inter> dom assigned = {} \<Longrightarrow>
   snd (snd (fold (pin_step band delta sel) hs (edge, assigned, out))) =
   out @ pins band edge delta (filter (\<lambda>h. h \<in> sel) hs)"
proof (induction hs arbitrary: edge assigned out)
  case (Cons h hs)
  then have "assigned h = None" by (auto simp: domIff)
  with Cons show ?case by (auto simp: pin_step_def [of band delta sel] emit_fresh Let_def)
qed simp

lemma pins_nth:
  "i < length hs \<Longrightarrow> pins band edge delta hs ! i =
     \<lparr>ro_hash = hs ! i, ro_priority = band, ro_pos = edge + (int i + 1) * delta\<rparr>"
  by (induction hs arbitrary: edge i) (auto simp: nth_Cons algebra_simps split: nat.splits)

lemma length_pins [simp]: "length (pins band edge delta hs) = length hs"
  by (induction hs arbitrary: edge) auto

text \<open>Pinning to the top writes one assignment per selected torrent, in rank order, into the
  High band at positions counting down from below the lowest position in use; grounding to the bottom
  one per selected torrent, worst first, into the Off band at positions counting up from above the
  highest. Since a lower position ranks better, the later write always beats the earlier one: a
  multi-selection comes out with its relative order reversed at both ends.\<close>

theorem pinning_writes:
  assumes "distinct_rows raw" "hashes \<noteq> []"
  shows "(let sel = filter (\<lambda>h. h \<in> set hashes) (ordered_hashes raw) in
    map ro_hash (plan_reorder raw hashes Top) = sel \<and>
    map ro_hash (plan_reorder raw hashes Bottom) = rev sel \<and>
    (\<forall>i < length sel.
       ro_priority (plan_reorder raw hashes Top ! i) = 3 \<and>
       ro_pos (plan_reorder raw hashes Top ! i) = min_pos raw - 1 - int i \<and>
       ro_priority (plan_reorder raw hashes Bottom ! i) = 0 \<and>
       ro_pos (plan_reorder raw hashes Bottom ! i) = max_pos raw + 1 + int i))"
proof -
  let ?sel = "filter (\<lambda>h. h \<in> set hashes) (ordered_hashes raw)"
  have top: "plan_reorder raw hashes Top = pins 3 (min_pos raw) (- 1) ?sel"
    using assms fold_pin_step [OF distinct_ordered [OF assms(1)], of Map.empty]
    by (simp add: plan_reorder_def)
  have bottom: "plan_reorder raw hashes Bottom = pins 0 (max_pos raw) 1 (rev ?sel)"
    using assms fold_pin_step [of "rev (ordered_hashes raw)" Map.empty] distinct_ordered [OF assms(1)]
    by (simp add: plan_reorder_def rev_filter)
  have hashes_pins: "map ro_hash (pins b e d hs) = hs" for b e d hs
    by (induction hs arbitrary: e) auto
  show ?thesis unfolding top bottom Let_def by (simp add: hashes_pins pins_nth)
qed

theorem pinning_writes_witness:
  "map ro_hash (plan_reorder [sample_torrent ''A'' True 1, sample_torrent ''B'' True 2] [''A'', ''B''] Top)
     = [''B'', ''A''] \<and>
   ro_pos (plan_reorder [sample_torrent ''A'' True 1, sample_torrent ''B'' True 2] [''A'', ''B''] Top ! 0) = - 1"
proof -
  let ?raw = "[sample_torrent ''A'' True 1, sample_torrent ''B'' True 2]"
  have d: "distinct_rows ?raw" by (simp add: distinct_rows_def sample_simps)
  have o: "ordered_hashes ?raw = [''B'', ''A'']"
    by (simp add: ordered_hashes_def hash_order_lt_def find_raw_def order_key_def queue_pos_or_0_def
        started_key_def sample_simps)
  have m: "min_pos ?raw = 0" by (simp add: min_pos_def queue_pos_or_0_def sample_simps)
  show ?thesis using pinning_writes [OF d, of "[''A'', ''B'']"] by (simp add: Let_def o m)
qed

definition row_key :: "raw_torrent \<Rightarrow> int \<times> int" where
  "row_key t = (raw_priority t, queue_pos_or_0 t)"

definition write_for :: "string \<Rightarrow> raw_torrent \<Rightarrow> reorder" where
  "write_for h t = \<lparr>ro_hash = h, ro_priority = raw_priority t, ro_pos = queue_pos_or_0 t\<rparr>"

lemma key_of_row:
  "distinct_rows raw \<Longrightarrow> t \<in> set raw \<Longrightarrow> assigned (raw_hash t) = None \<Longrightarrow> key_of raw assigned (raw_hash t) = row_key t"
  by (simp add: key_of_def find_raw_def find_distinct_key distinct_rows_def row_key_def)

lemma position_append:
  "h \<notin> set xs \<Longrightarrow> position_or_0 h (xs @ h # ys) = length xs"
proof -
  assume "h \<notin> set xs"
  then have "position (\<lambda>x. x = h) (xs @ h # ys) = Some (length xs)" by (induction xs) auto
  then show ?thesis by (simp add: position_or_0_def)
qed

lemma step_unselected [simp]:
  "h \<notin> sel \<Longrightarrow> up_step raw sel h st = st" "h \<notin> sel \<Longrightarrow> down_step raw sel h st = st"
  by (simp_all add: up_step_def down_step_def split: prod.splits)

lemma fold_up_unselected [simp]:
  "h \<notin> set xs \<Longrightarrow> fold (up_step raw {h}) xs st = st"
  "h \<notin> set xs \<Longrightarrow> fold (down_step raw {h}) xs st = st"
  by (induction xs) auto

text \<open>Moving one torrent up swaps keys with its predecessor: the plan writes the neighbour's
  band and position to the torrent and the torrent's to the neighbour, and nothing else; moving that
  neighbour down writes the same two assignments; the head cannot move up, nor the tail down. When the two
  already share band and position (as unpositioned torrents do) the plan rewrites the values
  already there.\<close>

theorem single_move_swaps:
  assumes d: "distinct_rows raw" and p: "p \<in> set raw" and t: "t \<in> set raw"
    and o: "ordered_hashes raw = xs @ raw_hash p # raw_hash t # ys"
  shows "plan_reorder raw [raw_hash t] Up = [write_for (raw_hash t) p, write_for (raw_hash p) t] \<and>
    plan_reorder raw [raw_hash p] Down = [write_for (raw_hash p) t, write_for (raw_hash t) p] \<and>
    plan_reorder raw [hd (ordered_hashes raw)] Up = [] \<and>
    plan_reorder raw [last (ordered_hashes raw)] Down = [] \<and>
    (row_key p = row_key t \<longrightarrow>
       plan_reorder raw [raw_hash t] Up = [write_for (raw_hash t) t, write_for (raw_hash p) p])"
proof -
  let ?h = "raw_hash t" and ?p = "raw_hash p" and ?o = "ordered_hashes raw"
  have dist: "distinct (xs @ ?p # ?h # ys)" using distinct_ordered [OF d] o by simp
  have keys: "key_of raw Map.empty ?h = row_key t" "key_of raw Map.empty ?p = row_key p"
    using key_of_row d p t by simp_all
  have pos: "position_or_0 ?h ?o = Suc (length xs)" "position_or_0 ?p ?o = length xs"
    using position_append [of ?h "xs @ [?p]" ys] position_append [of ?p xs "?h # ys"] dist o by auto
  have up1: "fold (up_step raw {?h}) ?o st = up_step raw {?h} ?h st"
    and down1: "fold (down_step raw {?p}) (rev ?o) st = down_step raw {?p} ?p st" for st
    using dist o not_sym [of ?p ?h] by simp_all
  have up: "plan_reorder raw [?h] Up = [write_for ?h p, write_for ?p t]"
  proof -
    have "plan_reorder raw [?h] Up = snd (snd (up_step raw {?h} ?h (?o, Map.empty, [])))"
      by (simp add: plan_reorder_def Let_def up1)
    also have "\<dots> = [write_for ?h p, write_for ?p t]"
      using dist pos keys by (simp add: o up_step_def Let_def emit_reorder_def nth_append write_for_def row_key_def)
    finally show ?thesis .
  qed
  moreover have down: "plan_reorder raw [?p] Down = [write_for ?p t, write_for ?h p]"
  proof -
    have "plan_reorder raw [?p] Down = snd (snd (down_step raw {?p} ?p (?o, Map.empty, [])))"
      by (simp add: plan_reorder_def Let_def down1)
    also have "\<dots> = [write_for ?p t, write_for ?h p]"
      using dist pos keys not_sym [of ?p ?h]
      by (simp add: o down_step_def Let_def emit_reorder_def nth_append write_for_def row_key_def)
    finally show ?thesis .
  qed
  moreover have "plan_reorder raw [hd ?o] Up = []"
  proof -
    have "?o \<noteq> []" using o by simp
    then obtain z zs where z: "?o = z # zs" by (cases ?o) simp_all
    with distinct_ordered [OF d] have "z \<notin> set zs" by simp
    with z show ?thesis
      by (simp add: plan_reorder_def up_step_def position_or_0_def)
  qed
  moreover have "plan_reorder raw [last ?o] Down = []"
  proof -
    have "?o \<noteq> []" using o by simp
    then obtain z zs where z: "?o = zs @ [z]" by (cases ?o rule: rev_cases) simp_all
    with distinct_ordered [OF d] have "z \<notin> set zs" by simp
    with z position_append [of z zs "[]"] show ?thesis
      by (simp add: plan_reorder_def down_step_def)
  qed
  ultimately show ?thesis by (auto simp: write_for_def row_key_def)
qed

theorem single_move_swaps_witness:
  "plan_reorder [sample_torrent ''A'' True 1, sample_torrent ''B'' True 2] [''A''] Up =
     [write_for ''A'' (sample_torrent ''B'' True 2), write_for ''B'' (sample_torrent ''A'' True 1)]"
proof -
  let ?raw = "[sample_torrent ''A'' True 1, sample_torrent ''B'' True 2]"
  have d: "distinct_rows ?raw" by (simp add: distinct_rows_def sample_simps)
  have o: "ordered_hashes ?raw =
      [] @ raw_hash (sample_torrent ''B'' True 2) # raw_hash (sample_torrent ''A'' True 1) # []"
    by (simp add: ordered_hashes_def hash_order_lt_def find_raw_def order_key_def queue_pos_or_0_def
        started_key_def sample_simps)
  show ?thesis using single_move_swaps [OF d _ _ o] by (simp add: sample_torrent_def)
qed

text \<open>A queue position survives the daemon's custom field: what \<open>format_pos\<close> writes,
  \<open>parse_pos\<close> reads back, for every 64-bit position, blanks around it included; a blank
  field is no position.\<close>

theorem queue_position_roundtrip:
  assumes "i64_ok n" "\<forall>c \<in> set ws. is_ws c"
  shows "parse_pos (format_pos n) = Some n \<and> parse_pos (ws @ format_pos n @ ws) = Some n \<and> parse_pos ws = None"
proof -
  have t: "trim (format_pos n) = show_int n" by (simp add: format_pos_def)
  then have "trim (ws @ format_pos n @ ws) = show_int n" using trim_surround assms(2) by simp
  with t assms show ?thesis by (simp add: parse_pos_def Let_def trim_all_ws)
qed

theorem queue_position_roundtrip_witness:
  "parse_pos ('' '' @ format_pos (- 42) @ '' '') = Some (- 42)"
  using queue_position_roundtrip [of "- 42" "'' ''"] by (simp add: i64_ok_def i64_min_def i64_max_def is_ws_def)

end
