(* ===== verification/Complete.thy ===== *)
theory Complete
  imports Types
begin

text \<open>
  The pure half of move-on-complete (\<open>crates/rtorrent/src/complete.rs\<close>): destination rules, routing
  through the incomplete directory, the move plan, collision-safe names, the free-space preflight
  and the operation journal. An optional tag or label is an \<open>option\<close>, an \<open>Err\<close> string the
  left of a sum. The JSON codec of the journal is serde's and not modelled.
\<close>

section \<open>Destination rules\<close>

record move_rule =
  rule_tag :: "string option"
  rule_label :: "string option"
  rule_dest :: string

definition tag_rule :: "string \<Rightarrow> string \<Rightarrow> move_rule" where
  "tag_rule tag dest = \<lparr>rule_tag = Some (to_lower (trim tag)), rule_label = None, rule_dest = trim dest\<rparr>"

definition label_rule :: "string \<Rightarrow> string \<Rightarrow> move_rule" where
  "label_rule label dest = \<lparr>rule_tag = None, rule_label = Some (to_lower (trim label)), rule_dest = trim dest\<rparr>"

definition tag_hit :: "string list \<Rightarrow> move_rule \<Rightarrow> bool" where
  "tag_hit tags r =
     (case rule_tag r of
        None \<Rightarrow> False
      | Some tag \<Rightarrow> trim tag \<noteq> [] \<and> to_lower (trim tag) \<in> set (map to_lower tags) \<and> rule_dest r \<noteq> [])"

definition label_hit :: "string \<Rightarrow> move_rule \<Rightarrow> bool" where
  "label_hit label_key r =
     (rule_tag r = None \<and>
      (case rule_label r of
         None \<Rightarrow> False
       | Some l \<Rightarrow> to_lower (trim l) = label_key \<and> rule_dest r \<noteq> []))"

definition resolve_destination :: "string \<Rightarrow> string list \<Rightarrow> move_rule list \<Rightarrow> string \<Rightarrow> string" where
  "resolve_destination label tags rules default_dir =
     (case find (tag_hit tags) rules of
        Some r \<Rightarrow> rule_dest r
      | None \<Rightarrow>
          (let label_key = to_lower (trim label) in
           case (if label_key = [] then None else find (label_hit label_key) rules) of
             Some r \<Rightarrow> rule_dest r
           | None \<Rightarrow> default_dir))"

definition label_rules :: "(string \<times> string) list \<Rightarrow> move_rule list" where
  "label_rules paths =
     map (\<lambda>(label, path). label_rule label path)
       (filter (\<lambda>(label, path). trim label \<noteq> [] \<and> trim path \<noteq> []) paths)"

definition completion_destination ::
  "string \<Rightarrow> string list \<Rightarrow> move_rule list \<Rightarrow> (string \<times> string) list \<Rightarrow> string \<Rightarrow> string" where
  "completion_destination label tags move_rules label_paths default_dir =
     resolve_destination label tags (move_rules @ label_rules label_paths) default_dir"

section \<open>Routing and planning\<close>

definition slash :: char where "slash = CHR ''/''"

definition route_new_download :: "string \<Rightarrow> string \<Rightarrow> string \<times> string option" where
  "route_new_download incomplete_dir chosen_dir =
     (let incomplete = trim incomplete_dir; chosen = trim chosen_dir in
      if incomplete = [] \<or> chosen = [] then (chosen, None)
      else if eq_ic incomplete (trim_end_char slash chosen) \<or> eq_ic (trim_end_char slash incomplete) chosen
      then (chosen, None)
      else (incomplete, Some chosen))"

record move_plan =
  plan_src :: string
  plan_dst :: string

definition join_path :: "string \<Rightarrow> string \<Rightarrow> string" where
  "join_path dir name = dir @ slash # name"

definition plan_move :: "string \<Rightarrow> string \<Rightarrow> string \<Rightarrow> move_plan option" where
  "plan_move current_dir destination name =
     (let current = trim_end_char slash (trim current_dir);
          dest = trim_end_char slash (trim destination);
          nm = trim name
      in if dest = [] \<or> nm = [] \<or> eq_ic current dest then None
         else if current = [] then None
         else Some \<lparr>plan_src = join_path current nm, plan_dst = join_path dest nm\<rparr>)"

section \<open>Collisions\<close>

datatype collision_policy = CollisionError | AutoRename

definition rfind :: "char \<Rightarrow> string \<Rightarrow> nat option" where
  "rfind c s = (let r = takeWhile (\<lambda>x. x \<noteq> c) (rev s) in
     if length r = length s then None else Some (length s - length r - 1))"

definition split_ext :: "string \<Rightarrow> string \<times> string" where
  "split_ext name =
     (case rfind (CHR ''.'') name of
        Some idx \<Rightarrow>
          if idx > 0
          then let ext = drop (idx + 1) name in
               if 2 \<le> length ext \<and> length ext \<le> 5 \<and> list_all is_alpha ext
               then (take idx name, ext) else (name, [])
          else (name, [])
      | None \<Rightarrow> (name, []))"

definition candidate :: "string \<Rightarrow> nat \<Rightarrow> string" where
  "candidate name n =
     (let (stem, ext) = split_ext name;
          base = stem @ '' ('' @ show_nat n @ '')''
      in if ext = [] then base else base @ CHR ''.'' # ext)"

definition already_exists :: "string \<Rightarrow> string \<Rightarrow> string" where
  "already_exists dir name = ''destination already exists: '' @ join_path dir name"

definition resolve_collision ::
  "string \<Rightarrow> string \<Rightarrow> string list \<Rightarrow> collision_policy \<Rightarrow> string + string" where
  "resolve_collision dst_dir given_name siblings_lower policy =
     (let dir = trim_end_char slash (trim dst_dir); name = trim given_name in
      if to_lower name \<notin> set siblings_lower then Inr (join_path dir name)
      else case policy of
             CollisionError \<Rightarrow> Inl (already_exists dir name)
           | AutoRename \<Rightarrow>
               (case find (\<lambda>n. to_lower (candidate name n) \<notin> set siblings_lower) [1..<1000] of
                  Some n \<Rightarrow> Inr (join_path dir (candidate name n))
                | None \<Rightarrow> Inl (already_exists dir name)))"

section \<open>Free-space preflight\<close>

datatype preflight_result = Ready | Unknown | BlockedNoSpace (required: int) (free_bytes: int)

definition preflight :: "int \<Rightarrow> int option \<Rightarrow> preflight_result" where
  "preflight remaining free =
     (if remaining \<le> 0 then Ready
      else case free of
             None \<Rightarrow> Unknown
           | Some f \<Rightarrow> if f \<ge> remaining then Ready else BlockedNoSpace remaining f)"

section \<open>The journal\<close>

datatype move_state = Pending | InProgress | Done | Failed | Cancelled

record move_op =
  op_id :: string
  op_hash :: string
  op_name :: string
  op_src :: string
  op_dst :: string
  op_state :: move_state
  op_error :: string
  op_size :: int
  op_created :: int
  op_updated :: int

type_synonym journal = "move_op list"

definition make_id :: "string \<Rightarrow> int \<Rightarrow> string" where
  "make_id h now = to_upper h @ CHR ''-'' # show_int now"

fun resumable_state :: "move_state \<Rightarrow> bool" where
  "resumable_state Pending = True"
| "resumable_state InProgress = True"
| "resumable_state Failed = True"
| "resumable_state _ = False"

definition holds_hash :: "string \<Rightarrow> move_op \<Rightarrow> bool" where
  "holds_hash h op = (eq_ic (op_hash op) h \<and> resumable_state (op_state op))"

definition journal_add :: "move_op \<Rightarrow> journal \<Rightarrow> move_op \<times> journal" where
  "journal_add op j =
     (case find (holds_hash (op_hash op)) j of
        Some o' \<Rightarrow> (o', j)
      | None \<Rightarrow> (op, j @ [op]))"

definition resumable :: "journal \<Rightarrow> journal" where
  "resumable j = filter (\<lambda>o'. resumable_state (op_state o')) j"

fun journal_mark :: "string \<Rightarrow> move_state \<Rightarrow> string \<Rightarrow> int \<Rightarrow> journal \<Rightarrow> journal" where
  "journal_mark i st err now [] = []"
| "journal_mark i st err now (o' # j) =
     (if op_id o' = i then o'\<lparr>op_state := st, op_error := err, op_updated := now\<rparr> # j
      else o' # journal_mark i st err now j)"

definition journal_prune_done :: "journal \<Rightarrow> journal" where
  "journal_prune_done j = filter (\<lambda>o'. op_state o' \<noteq> Done) j"

section \<open>Facts about destinations\<close>

lemma find_append: "find P (xs @ ys) = (case find P xs of Some x \<Rightarrow> Some x | None \<Rightarrow> find P ys)"
  by (induction xs) auto

lemma label_rules_no_tag: "r \<in> set (label_rules paths) \<Longrightarrow> rule_tag r = None"
  by (auto simp: label_rules_def label_rule_def)

lemma no_tag_hit_labels: "find (tag_hit tags) (label_rules paths) = None"
  unfolding find_None_all by (auto simp: tag_hit_def label_rules_no_tag)

lemma label_hit_label_rule:
  "trim path \<noteq> [] \<Longrightarrow> label_hit key (label_rule l path) \<longleftrightarrow> to_lower (trim l) = key"
  by (auto simp: label_hit_def label_rule_def)

lemma rule_dest_label_rule [simp]: "rule_dest (label_rule l p) = trim p"
  by (simp add: label_rule_def)

lemma find_label_rules:
  "key \<noteq> [] \<Longrightarrow>
   map_option rule_dest (find (label_hit key) (label_rules paths)) =
   map_option (\<lambda>(l, p). trim p) (find (\<lambda>(l, p). to_lower (trim l) = key \<and> trim p \<noteq> []) paths)"
proof (induction paths)
  case (Cons lp paths)
  obtain l p where lp: "lp = (l, p)" by (cases lp)
  with Cons show ?case
    by (cases "trim p = []"; cases "trim l = []")
       (auto simp: label_rules_def label_hit_label_rule rule_dest_label_rule)
qed (simp add: label_rules_def)

lemma resolve_destination_cases:
  "resolve_destination label tags rules default_dir =
     (case find (tag_hit tags) rules of
        Some r \<Rightarrow> rule_dest r
      | None \<Rightarrow>
          (case (if trim label = [] then None else find (label_hit (to_lower (trim label))) rules) of
             Some r \<Rightarrow> rule_dest r
           | None \<Rightarrow> default_dir))"
  by (cases "find (tag_hit tags) rules"; cases "trim label = []")
     (simp_all add: resolve_destination_def Let_def)

text \<open>Where a completed torrent goes: the first tag rule the torrent's tags hit wins over every
  label rule; else the first explicit label rule for its label; else the first per-label save
  path for it; else the default. Tags and labels match without regard to case and surrounding blanks,
  rules with an empty destination never fire, and an unlabelled torrent hits no label rule.\<close>

theorem destination_precedence:
  "completion_destination label tags rules paths default_dir =
     (case find (tag_hit tags) rules of
        Some r \<Rightarrow> rule_dest r
      | None \<Rightarrow>
          if trim label = [] then default_dir
          else case find (label_hit (to_lower (trim label))) rules of
                 Some r \<Rightarrow> rule_dest r
               | None \<Rightarrow>
                   (case find (\<lambda>(l, p). to_lower (trim l) = to_lower (trim label) \<and> trim p \<noteq> []) paths of
                      Some (l, p) \<Rightarrow> trim p
                    | None \<Rightarrow> default_dir))"
proof (cases "trim label = []")
  case True
  then show ?thesis
    by (simp add: completion_destination_def resolve_destination_cases find_append no_tag_hit_labels
        split: option.splits)
next
  case False
  then have k: "to_lower (trim label) \<noteq> []" by simp
  show ?thesis
    using False find_label_rules [OF k, of paths]
    by (cases "find (label_hit (to_lower (trim label))) (label_rules paths)";
        cases "find (\<lambda>(l, p). to_lower (trim l) = to_lower (trim label) \<and> trim p \<noteq> []) paths")
       (auto simp: completion_destination_def resolve_destination_cases find_append no_tag_hit_labels
         split: option.splits)
qed

section \<open>Facts about names\<close>

lemma trim_end_char_le: "length (trim_end_char c s) \<le> length s"
  using length_dropWhile_le [of _ "rev s"] by (simp add: trim_end_char_def)

lemma trim_end_char_id: "s = [] \<or> last s \<noteq> c \<Longrightarrow> trim_end_char c s = s"
  by (cases s rule: rev_cases) (auto simp: trim_end_char_def)

lemma trim_end_char_idem [simp]: "trim_end_char c (trim_end_char c s) = trim_end_char c s"
  by (simp add: trim_end_char_def dropWhile_idem)

lemma show_nat_inj: "show_nat m = show_nat n \<Longrightarrow> m = n"
  by (metis digits_val_show_nat)

lemma to_lower_show_nat [simp]: "to_lower (show_nat n) = show_nat n"
proof -
  have "char_lower c = c" if "is_digit c" for c
    using that by (auto simp: is_digit_def char_lower_def char_le_iff)
  then show ?thesis
    using show_nat_digits [of n] by (simp add: to_lower_def list_all_iff map_idI)
qed

lemma candidate_inj: "to_lower (candidate name m) = to_lower (candidate name n) \<Longrightarrow> m = n"
  by (auto simp: candidate_def Let_def to_lower_append to_lower_Cons split: prod.splits if_splits dest: show_nat_inj)

lemma candidate_differs: "candidate name n \<noteq> name"
proof -
  have "length (fst (split_ext name)) + length (snd (split_ext name)) + (if snd (split_ext name) = [] then 0 else 1)
      \<ge> length name"
    by (auto simp: split_ext_def rfind_def Let_def split: option.splits)
  then have "length (candidate name n) > length name"
    by (auto simp: candidate_def Let_def split: prod.splits)
  then show ?thesis by auto
qed

lemma find_free_candidate:
  assumes "card (set sib) < 999"
  shows "\<exists>n. find (\<lambda>n. to_lower (candidate name n) \<notin> set sib) [1..<1000] = Some n"
proof (rule ccontr)
  assume "\<nexists>n. find (\<lambda>n. to_lower (candidate name n) \<notin> set sib) [1..<1000] = Some n"
  then have "find (\<lambda>n. to_lower (candidate name n) \<notin> set sib) [1..<1000] = None" by auto
  then have "(\<lambda>n. to_lower (candidate name n)) ` {1..<1000} \<subseteq> set sib"
    by (auto simp: find_None_all)
  then have "card ((\<lambda>n. to_lower (candidate name n)) ` {1..<1000}) \<le> card (set sib)"
    by (intro card_mono) simp_all
  moreover have "card ((\<lambda>n. to_lower (candidate name n)) ` {1..<1000}) = card {1..<1000::nat}"
    by (intro card_image inj_onI) (rule candidate_inj)
  ultimately show False using assms by simp
qed

text \<open>The collision rule never yields a taken name: whatever it accepts is a name in the
  destination whose lowercase form no sibling has, the given name itself when that is free; a taken name
  is refused under the Error policy, and under AutoRename gets the least free number, which exists
  whenever the directory holds fewer than 999 names.\<close>

theorem collision_safe:
  "(let dir = trim_end_char slash (trim dst_dir); name = trim given; r = resolve_collision dst_dir given sib policy in
     (\<forall>full. r = Inr full \<longrightarrow> (\<exists>nm. full = join_path dir nm \<and> to_lower nm \<notin> set sib)) \<and>
     (to_lower name \<notin> set sib \<longrightarrow> r = Inr (join_path dir name)) \<and>
     (to_lower name \<in> set sib \<and> policy = CollisionError \<longrightarrow> r = Inl (already_exists dir name)) \<and>
     (to_lower name \<in> set sib \<and> policy = AutoRename \<and> card (set sib) < 999 \<longrightarrow>
        (\<exists>n. 0 < n \<and> n < 1000 \<and> r = Inr (join_path dir (candidate name n)) \<and> candidate name n \<noteq> name \<and>
           (\<forall>m. 0 < m \<and> m < n \<longrightarrow> to_lower (candidate name m) \<in> set sib))))"
proof -
  let ?name = "trim given"
  let ?f = "find (\<lambda>n. to_lower (candidate ?name n) \<notin> set sib) [1..<1000]"
  have least: "0 < n \<and> n < 1000 \<and> (\<forall>m. 0 < m \<and> m < n \<longrightarrow> to_lower (candidate ?name m) \<in> set sib)"
    if "?f = Some n" for n
  proof -
    from that obtain i where i: "i < 999" "n = Suc i"
      "\<forall>j < i. to_lower (candidate ?name (Suc j)) \<in> set sib"
      by (auto simp: find_Some_iff)
    have "to_lower (candidate ?name m) \<in> set sib" if "0 < m" "m < n" for m
      using i that by (cases m) auto
    with i show ?thesis by auto
  qed
  show ?thesis unfolding Let_def
  proof (intro conjI impI allI)
    fix full assume "resolve_collision dst_dir given sib policy = Inr full"
    then show "\<exists>nm. full = join_path (trim_end_char slash (trim dst_dir)) nm \<and> to_lower nm \<notin> set sib"
      by (auto simp: resolve_collision_def Let_def split: if_splits collision_policy.splits option.splits
          dest: find_Some_set)
  next
    assume a: "to_lower ?name \<in> set sib \<and> policy = AutoRename \<and> card (set sib) < 999"
    then obtain n where n: "?f = Some n" using find_free_candidate by blast
    then show "\<exists>n. 0 < n \<and> n < 1000 \<and> resolve_collision dst_dir given sib policy =
        Inr (join_path (trim_end_char slash (trim dst_dir)) (candidate ?name n)) \<and> candidate ?name n \<noteq> ?name \<and>
        (\<forall>m. 0 < m \<and> m < n \<longrightarrow> to_lower (candidate ?name m) \<in> set sib)"
      using a least [OF n] by (intro exI [of _ n]) (simp add: resolve_collision_def Let_def candidate_differs)
  qed (simp_all add: resolve_collision_def Let_def)
qed

theorem collision_safe_witness:
  "resolve_collision ''/dl/'' ''Movie.mkv'' [''movie.mkv'', ''movie (1).mkv''] AutoRename
     = Inr ''/dl/Movie (2).mkv''"
proof -
  have d: "trim_end_char slash (trim ''/dl/'') = ''/dl''" by code_simp
  have t: "trim ''Movie.mkv'' = ''Movie.mkv''" by code_simp
  have l: "to_lower ''Movie.mkv'' \<in> set [''movie.mkv'', ''movie (1).mkv'']" by code_simp
  have c: "card (set [''movie.mkv'', ''movie (1).mkv'']) < 999" by simp
  have c2: "to_lower (candidate ''Movie.mkv'' 2) \<notin> set [''movie.mkv'', ''movie (1).mkv'']" by code_simp
  have c1: "to_lower (candidate ''Movie.mkv'' 1) \<in> set [''movie.mkv'', ''movie (1).mkv'']" by code_simp
  have j: "join_path ''/dl'' (candidate ''Movie.mkv'' 2) = ''/dl/Movie (2).mkv''" by code_simp
  obtain n where n: "resolve_collision ''/dl/'' ''Movie.mkv'' [''movie.mkv'', ''movie (1).mkv''] AutoRename
      = Inr (join_path ''/dl'' (candidate ''Movie.mkv'' n))"
    and pos: "0 < n" and least: "\<forall>m. 0 < m \<and> m < n \<longrightarrow> to_lower (candidate ''Movie.mkv'' m) \<in> set [''movie.mkv'', ''movie (1).mkv'']"
    and free: "\<exists>nm. join_path ''/dl'' (candidate ''Movie.mkv'' n) = join_path ''/dl'' nm \<and>
                 to_lower nm \<notin> set [''movie.mkv'', ''movie (1).mkv'']"
    using collision_safe [of "''/dl/''" "''Movie.mkv''" "[''movie.mkv'', ''movie (1).mkv'']" AutoRename] l c
    unfolding Let_def d t by (metis (no_types, lifting))
  from free have "to_lower (candidate ''Movie.mkv'' n) \<notin> set [''movie.mkv'', ''movie (1).mkv'']"
    by (auto simp: join_path_def)
  with c1 have "n \<noteq> 1" by auto
  moreover from least [rule_format, of 2] c2 have "\<not> 2 < n" by auto
  moreover have "n \<noteq> 0" using pos by simp
  ultimately have "n = 2" by linarith
  with n j show ?thesis by simp
qed

section \<open>Routing\<close>

lemma plan_move_Some:
  "plan_move cur dest name = Some p \<longleftrightarrow>
     trim_end_char slash (trim dest) \<noteq> [] \<and> trim name \<noteq> [] \<and> trim_end_char slash (trim cur) \<noteq> [] \<and>
     \<not> eq_ic (trim_end_char slash (trim cur)) (trim_end_char slash (trim dest)) \<and>
     p = \<lparr>plan_src = join_path (trim_end_char slash (trim cur)) (trim name),
          plan_dst = join_path (trim_end_char slash (trim dest)) (trim name)\<rparr>"
  by (auto simp: plan_move_def Let_def)

lemma char_lower_slash: "char_lower c = slash \<longleftrightarrow> c = slash"
proof -
  have "of_char (char_lower c) = (47 :: nat) \<longleftrightarrow> of_char c = (47 :: nat)"
    by (simp add: of_char_lower)
  moreover have "of_char slash = (47 :: nat)" by (simp add: slash_def)
  ultimately show ?thesis by (metis char_eq_nat)
qed

lemma to_lower_trim_slash: "to_lower (trim_end_char slash s) = trim_end_char slash (to_lower s)"
  by (simp add: trim_end_char_def to_lower_def rev_map dropWhile_map o_def char_lower_slash)

lemma eq_ic_trim_slash: "eq_ic a b \<Longrightarrow> eq_ic (trim_end_char slash a) (trim_end_char slash b)"
  by (simp add: eq_ic_def to_lower_trim_slash)

text \<open>A download routed through the incomplete directory can come home: whenever routing records
  a final directory, the completion plan from the incomplete directory to it exists and moves the
  torrent's name between the two, except when both directories are written with a trailing slash and
  are the same directory, which routing fails to recognise; when routing records nothing there is
  nothing to move, and without an incomplete directory nothing is recorded.\<close>

theorem routed_download_comes_home:
  assumes "trim name \<noteq> []" "trim_end_char slash (trim incomplete) \<noteq> []" "trim_end_char slash (trim chosen) \<noteq> []"
  shows "(case route_new_download incomplete chosen of
      (dir, Some final) \<Rightarrow>
        dir = trim incomplete \<and> final = trim chosen \<and>
        (plan_move dir final name =
           Some \<lparr>plan_src = join_path (trim_end_char slash dir) (trim name),
                 plan_dst = join_path (trim_end_char slash final) (trim name)\<rparr> \<or>
         (last dir = slash \<and> last final = slash \<and>
          eq_ic (trim_end_char slash dir) (trim_end_char slash final) \<and> plan_move dir final name = None))
    | (dir, None) \<Rightarrow> dir = trim chosen \<and> plan_move (trim incomplete) dir name = None) \<and>
   route_new_download [] chosen = (trim chosen, None) \<and>
   route_new_download ''/a/'' ''/a/'' = (''/a/'', Some ''/a/'')"
proof (intro conjI)
  let ?i = "trim incomplete" and ?c = "trim chosen"
  let ?same = "eq_ic ?i (trim_end_char slash ?c) \<or> eq_ic (trim_end_char slash ?i) ?c"
  have ne: "?i \<noteq> []" "?c \<noteq> []" using assms by (auto simp: trim_end_char_def)
  have same: "eq_ic (trim_end_char slash ?i) (trim_end_char slash ?c)" if ?same
    using that eq_ic_trim_slash [of ?i "trim_end_char slash ?c"] eq_ic_trim_slash [of "trim_end_char slash ?i" ?c]
    by auto
  have slashes: "last ?i = slash \<and> last ?c = slash"
    if "\<not> ?same" "eq_ic (trim_end_char slash ?i) (trim_end_char slash ?c)"
    using that trim_end_char_id [of ?i slash] trim_end_char_id [of ?c slash] by metis
  show "case route_new_download incomplete chosen of
      (dir, Some final) \<Rightarrow>
        dir = trim incomplete \<and> final = trim chosen \<and>
        (plan_move dir final name =
           Some \<lparr>plan_src = join_path (trim_end_char slash dir) (trim name),
                 plan_dst = join_path (trim_end_char slash final) (trim name)\<rparr> \<or>
         (last dir = slash \<and> last final = slash \<and>
          eq_ic (trim_end_char slash dir) (trim_end_char slash final) \<and> plan_move dir final name = None))
    | (dir, None) \<Rightarrow> dir = trim chosen \<and> plan_move (trim incomplete) dir name = None"
  proof (cases ?same)
    case True
    with same show ?thesis by (simp add: route_new_download_def Let_def plan_move_def)
  next
    case False
    then have r: "route_new_download incomplete chosen = (?i, Some ?c)"
      using ne by (simp add: route_new_download_def Let_def)
    show ?thesis
      using slashes [OF False] assms unfolding r by (auto simp: plan_move_def Let_def)
  qed
  show "route_new_download ''/a/'' ''/a/'' = (''/a/'', Some ''/a/'')" by code_simp
qed (simp add: route_new_download_def)

theorem routed_download_comes_home_witness:
  "route_new_download ''/incomplete'' ''/dl'' = (''/incomplete'', Some ''/dl'') \<and>
   plan_move ''/incomplete'' ''/dl'' ''Show'' =
     Some \<lparr>plan_src = ''/incomplete/Show'', plan_dst = ''/dl/Show''\<rparr>"
proof -
  have h: "trim ''Show'' \<noteq> []" "trim_end_char slash (trim ''/incomplete'') \<noteq> []"
    "trim_end_char slash (trim ''/dl'') \<noteq> []" by code_simp+
  have r: "route_new_download ''/incomplete'' ''/dl'' = (''/incomplete'', Some ''/dl'')" by code_simp
  have e: "\<not> eq_ic (trim_end_char slash ''/incomplete'') (trim_end_char slash ''/dl'')" by code_simp
  have p: "join_path (trim_end_char slash ''/incomplete'') (trim ''Show'') = ''/incomplete/Show''"
    "join_path (trim_end_char slash ''/dl'') (trim ''Show'') = ''/dl/Show''" by code_simp+
  show ?thesis using routed_download_comes_home [OF h] e unfolding r by (simp add: p)
qed

end
