(* ===== verification/Fs.thy ===== *)
theory Fs
  imports Types "HOL-Library.AList"
begin

text \<open>
  The data mover (\<open>crates/rtorrent/src/fs.rs\<close>) over an explicit filesystem: a tree of files,
  directories and special entries, addressed by component lists. What the operating system decides is
  a script in the state: for each call in order whether it succeeds or fails with which message, and
  for each read of the cancel flag what it holds; the empty script means success and no cancel. What a failed recursive
  removal leaves of a tree is a function in the state. The source tree is read as it stands when the
  copy begins.
\<close>

section \<open>The filesystem\<close>

type_synonym path = "string list"

datatype node = File string | Dir "(string \<times> node) list" | Special

fun look :: "node \<Rightarrow> path \<Rightarrow> node option" where
  "look n [] = Some n"
| "look (Dir es) (x # p) = (case map_of es x of None \<Rightarrow> None | Some c \<Rightarrow> look c p)"
| "look _ (x # p) = None"

fun modify_at :: "path \<Rightarrow> (node \<Rightarrow> node option) \<Rightarrow> node \<Rightarrow> node option" where
  "modify_at [] f n = f n"
| "modify_at (x # p) f (Dir es) =
     (case map_of es x of
        None \<Rightarrow> None
      | Some c \<Rightarrow> map_option (\<lambda>c'. Dir (AList.update x c' es)) (modify_at p f c))"
| "modify_at (x # p) f _ = None"

fun set_entry :: "string \<Rightarrow> node \<Rightarrow> node \<Rightarrow> node option" where
  "set_entry x new (Dir es) = Some (Dir (AList.update x new es))"
| "set_entry x new _ = None"

fun drop_entry :: "string \<Rightarrow> node \<Rightarrow> node option" where
  "drop_entry x (Dir es) = Some (Dir (AList.delete x es))"
| "drop_entry x _ = None"

fun append_bytes :: "string \<Rightarrow> node \<Rightarrow> node option" where
  "append_bytes bytes (File c) = Some (File (c @ bytes))"
| "append_bytes bytes _ = None"

definition put_node :: "path \<Rightarrow> node \<Rightarrow> node \<Rightarrow> node option" where
  "put_node p new rt = (if p = [] then None else modify_at (butlast p) (set_entry (last p) new) rt)"

definition del_node :: "path \<Rightarrow> node \<Rightarrow> node option" where
  "del_node p rt =
     (if p = [] \<or> look rt p = None then None else modify_at (butlast p) (drop_entry (last p)) rt)"

fun mkdirs :: "path \<Rightarrow> node \<Rightarrow> node option" where
  "mkdirs [] (Dir es) = Some (Dir es)"
| "mkdirs (x # p) (Dir es) =
     map_option (\<lambda>c'. Dir (AList.update x c' es))
       (mkdirs p (case map_of es x of None \<Rightarrow> Dir [] | Some c \<Rightarrow> c))"
| "mkdirs _ _ = None"

definition exists_at :: "node \<Rightarrow> path \<Rightarrow> bool" where
  "exists_at rt p = (look rt p \<noteq> None)"

definition is_file :: "node \<Rightarrow> path \<Rightarrow> bool" where
  "is_file rt p = (case look rt p of Some (File _) \<Rightarrow> True | _ \<Rightarrow> False)"

definition is_dir :: "node \<Rightarrow> path \<Rightarrow> bool" where
  "is_dir rt p = (case look rt p of Some (Dir _) \<Rightarrow> True | _ \<Rightarrow> False)"

definition show_path :: "path \<Rightarrow> string" where
  "show_path p = concat (map (\<lambda>x. CHR ''/'' # x) p)"

section \<open>Calls, cancel checks and progress\<close>

datatype fs_move_error = FsCancelled | FsFailed string

fun fs_error_text :: "fs_move_error \<Rightarrow> string" where
  "fs_error_text FsCancelled = ''move cancelled''"
| "fs_error_text (FsFailed e) = e"

datatype io_reply = IoOk | IoErr string

record fs_state =
  fs_root :: node
  fs_io :: "io_reply list"
  fs_cancel :: "bool list"
  fs_copied :: nat
  fs_reports :: "(nat \<times> nat) list"
  fs_leftover :: "node \<Rightarrow> node"

type_synonym 'a fs_run = "fs_state \<Rightarrow> (fs_move_error + 'a) \<times> fs_state"

definition ret :: "'a \<Rightarrow> 'a fs_run" where
  "ret x s = (Inr x, s)"

definition fail :: "string \<Rightarrow> 'a fs_run" where
  "fail e s = (Inl (FsFailed e), s)"

definition andThen :: "'a fs_run \<Rightarrow> ('a \<Rightarrow> 'b fs_run) \<Rightarrow> 'b fs_run" where
  "andThen m f s = (case m s of (Inl e, s') \<Rightarrow> (Inl e, s') | (Inr x, s') \<Rightarrow> f x s')"

text \<open>\<open>on_error\<close> runs a cleanup after a failure and returns the failure.\<close>

definition on_error :: "(fs_state \<Rightarrow> fs_state) \<Rightarrow> 'a fs_run \<Rightarrow> 'a fs_run" where
  "on_error cleanup m s = (case m s of (Inl e, s') \<Rightarrow> (Inl e, cleanup s') | r \<Rightarrow> r)"

definition call :: "string \<Rightarrow> (node \<Rightarrow> node option) \<Rightarrow> unit fs_run" where
  "call what f s =
     (case fs_io s of
        IoErr e # rest \<Rightarrow> (Inl (FsFailed (what @ '': '' @ e)), s\<lparr>fs_io := rest\<rparr>)
      | script \<Rightarrow>
          (let s' = s\<lparr>fs_io := tl script\<rparr> in
           case f (fs_root s) of
             None \<Rightarrow> (Inl (FsFailed (what @ '': No such file or directory'')), s')
           | Some rt' \<Rightarrow> (Inr (), s'\<lparr>fs_root := rt'\<rparr>)))"

definition check_cancel :: "unit fs_run" where
  "check_cancel s =
     (let s' = s\<lparr>fs_cancel := tl (fs_cancel s)\<rparr> in
      if fs_cancel s \<noteq> [] \<and> hd (fs_cancel s) then (Inl FsCancelled, s') else (Inr (), s'))"

definition report :: "nat \<Rightarrow> nat \<Rightarrow> unit fs_run" where
  "report n tot s =
     (let copied = fs_copied s + n in
      (Inr (), s\<lparr>fs_copied := copied, fs_reports := fs_reports s @ [(min copied tot, tot)]\<rparr>))"

text \<open>Removal whose failure is ignored (\<open>let _ = remove_dir_all(..)\<close>): when it fails, a file stays
  and of a directory \<open>fs_leftover\<close> stays.\<close>

definition leftover_of :: "fs_state \<Rightarrow> node \<Rightarrow> node option" where
  "leftover_of s n = (case n of Dir es \<Rightarrow> Some (fs_leftover s n) | _ \<Rightarrow> Some n)"

definition try_remove :: "path \<Rightarrow> fs_state \<Rightarrow> (string + unit) \<times> fs_state" where
  "try_remove p s =
     (case fs_io s of
        IoErr e # rest \<Rightarrow>
          (Inl e, s\<lparr>fs_io := rest,
             fs_root := (case modify_at p (leftover_of s) (fs_root s) of Some r \<Rightarrow> r | None \<Rightarrow> fs_root s)\<rparr>)
      | script \<Rightarrow>
          (case del_node p (fs_root s) of
             None \<Rightarrow> (Inl ''No such file or directory'', s\<lparr>fs_io := tl script\<rparr>)
           | Some rt' \<Rightarrow> (Inr (), s\<lparr>fs_io := tl script, fs_root := rt'\<rparr>)))"

definition discard :: "path \<Rightarrow> fs_state \<Rightarrow> fs_state" where
  "discard p s = snd (try_remove p s)"

section \<open>Copying\<close>

definition chunk_size :: nat where
  "chunk_size = 1048576"

lemma chunk_size_pos [simp]: "0 < chunk_size" by (simp add: chunk_size_def)

function copy_loop :: "path \<Rightarrow> path \<Rightarrow> nat \<Rightarrow> string \<Rightarrow> unit fs_run" where
  "copy_loop src dst tot rest =
     andThen check_cancel (\<lambda>_.
     andThen (call (''could not read '' @ show_path src) Some) (\<lambda>_.
       if rest = [] then ret ()
       else andThen (call (''could not write '' @ show_path dst) (modify_at dst (append_bytes (take chunk_size rest)))) (\<lambda>_.
            andThen (report (length (take chunk_size rest)) tot) (\<lambda>_.
              copy_loop src dst tot (drop chunk_size rest)))))"
  by pat_completeness auto
termination
  by (relation "measure (\<lambda>(_, _, _, rest). length rest)") auto

declare copy_loop.simps [simp del]

definition copy_file :: "path \<Rightarrow> path \<Rightarrow> nat \<Rightarrow> string \<Rightarrow> unit fs_run" where
  "copy_file src dst tot bytes =
     andThen (call (''could not read metadata for '' @ show_path src) Some) (\<lambda>_.
     andThen (call (''could not open '' @ show_path src) Some) (\<lambda>_.
     andThen (call (''could not create '' @ show_path dst) (put_node dst (File []))) (\<lambda>_.
     andThen (copy_loop src dst tot bytes) (\<lambda>_.
     andThen (call (''could not flush '' @ show_path dst) Some) (\<lambda>_.
     andThen (call (''could not read metadata for '' @ show_path dst) Some) (\<lambda>_ s.
       case look (fs_root s) dst of
         Some (File c) \<Rightarrow>
           if length c = length bytes then ret () s
           else fail (''copy verification failed for '' @ show_path dst @ '': source size '' @ show_nat (length bytes)
                  @ '' != dest size '' @ show_nat (length c)) (discard dst s)
       | _ \<Rightarrow> fail (''could not read metadata for '' @ show_path dst) s))))))"

fun copy_node :: "path \<Rightarrow> path \<Rightarrow> nat \<Rightarrow> node \<Rightarrow> unit fs_run"
and copy_entries :: "path \<Rightarrow> path \<Rightarrow> nat \<Rightarrow> (string \<times> node) list \<Rightarrow> unit fs_run" where
  "copy_node src dst tot (File bytes) = copy_file src dst tot bytes"
| "copy_node src dst tot (Dir es) =
     andThen (call (''could not create directory '' @ show_path dst) (mkdirs dst)) (\<lambda>_.
     on_error (discard dst)
       (andThen (call (''could not read directory '' @ show_path src) Some) (\<lambda>_. copy_entries src dst tot es)))"
| "copy_node src dst tot Special = ret ()"
| "copy_entries src dst tot [] = ret ()"
| "copy_entries src dst tot (xn # es) =
     andThen (call ''could not read directory entry'' Some) (\<lambda>_.
     andThen (copy_node (src @ [fst xn]) (dst @ [fst xn]) tot (snd xn)) (\<lambda>_.
       copy_entries src dst tot es))"

section \<open>Moving\<close>

definition u64_max :: nat where "u64_max = 18446744073709551615"

fun node_bytes :: "node \<Rightarrow> nat" and entries_bytes :: "(string \<times> node) list \<Rightarrow> nat" where
  "node_bytes (File c) = length c"
| "node_bytes (Dir es) = entries_bytes es"
| "node_bytes Special = 0"
| "entries_bytes [] = 0"
| "entries_bytes (xn # es) = min u64_max (node_bytes (snd xn) + entries_bytes es)"

definition total_size :: "node \<Rightarrow> path \<Rightarrow> nat" where
  "total_size rt p = (case look rt p of None \<Rightarrow> 0 | Some n \<Rightarrow> node_bytes n)"

definition clean_partial :: "path \<Rightarrow> fs_state \<Rightarrow> fs_state" where
  "clean_partial dst s =
     (if is_file (fs_root s) dst \<or> is_dir (fs_root s) dst then discard dst s else s)"

definition remove_source :: "path \<Rightarrow> unit fs_run" where
  "remove_source src s =
     (case try_remove src s of
        (Inl e, s') \<Rightarrow>
          fail ((if is_file (fs_root s) src then ''could not remove source file ''
                 else ''could not remove source directory '') @ show_path src @ '': '' @ e) s'
      | (Inr _, s') \<Rightarrow> ret () s')"

definition copy_and_verify_then_remove :: "path \<Rightarrow> path \<Rightarrow> nat \<Rightarrow> unit fs_run" where
  "copy_and_verify_then_remove src dst tot s =
     (case look (fs_root s) src of
        Some (File c) \<Rightarrow>
          andThen (on_error (clean_partial dst) (copy_node src dst tot (File c))) (\<lambda>_. remove_source src)
            (s\<lparr>fs_copied := 0\<rparr>)
      | Some (Dir es) \<Rightarrow>
          andThen (on_error (clean_partial dst) (copy_node src dst tot (Dir es))) (\<lambda>_. remove_source src)
            (s\<lparr>fs_copied := 0\<rparr>)
      | _ \<Rightarrow> fail (''source path is neither a regular file nor a directory: '' @ show_path src) s)"

definition rename_node :: "path \<Rightarrow> path \<Rightarrow> node \<Rightarrow> node option" where
  "rename_node src dst rt =
     (if prefix src dst then None
      else case look rt src of
             None \<Rightarrow> None
           | Some n \<Rightarrow> (case del_node src rt of None \<Rightarrow> None | Some rt' \<Rightarrow> put_node dst n rt'))"

definition move_with_progress :: "path \<Rightarrow> path \<Rightarrow> path fs_run" where
  "move_with_progress src dst_dir s =
     (if src = [] then ret dst_dir s
      else let target = dst_dir @ [last src] in
        if src = target then ret target s
        else if \<not> exists_at (fs_root s) src then ret target s
        else if exists_at (fs_root s) target
        then fail (''destination already exists: '' @ show_path target) s
        else andThen
          (if exists_at (fs_root s) dst_dir then ret ()
           else call (''could not create directory '' @ show_path dst_dir) (mkdirs dst_dir))
          (\<lambda>_ s1.
             let tot = total_size (fs_root s1) src in
             case call ''rename'' (rename_node src target) s1 of
               (Inr _, s2) \<Rightarrow> (Inr target, s2\<lparr>fs_reports := fs_reports s2 @ [(tot, tot)]\<rparr>)
             | (Inl _, s2) \<Rightarrow> andThen (copy_and_verify_then_remove src target tot) (\<lambda>_. ret target) s2) s)"

definition move_torrent_data :: "path \<Rightarrow> path \<Rightarrow> fs_state \<Rightarrow> (string + path) \<times> fs_state" where
  "move_torrent_data src dst_dir s =
     (case move_with_progress src dst_dir (s\<lparr>fs_cancel := []\<rparr>) of
        (Inl e, s') \<Rightarrow> (Inl (fs_error_text e), s')
      | (Inr p, s') \<Rightarrow> (Inr p, s'))"

section \<open>Paths into the tree\<close>

definition disjoint :: "path \<Rightarrow> path \<Rightarrow> bool" where
  "disjoint p q = (\<not> prefix p q \<and> \<not> prefix q p)"

lemma disjoint_sym: "disjoint p q = disjoint q p"
  by (auto simp: disjoint_def)

lemma disjoint_Cons [simp]: "disjoint (x # p) (y # q) \<longleftrightarrow> x \<noteq> y \<or> disjoint p q"
  by (auto simp: disjoint_def)

lemma disjoint_Nil [simp]: "\<not> disjoint [] q" "\<not> disjoint q []"
  by (auto simp: disjoint_def)

lemma disjoint_extend: "disjoint p q \<Longrightarrow> prefix p p' \<Longrightarrow> disjoint p' q"
  by (auto simp: disjoint_def prefix_def append_eq_append_conv2) 

lemma look_append: "look n (p @ q) = (case look n p of None \<Rightarrow> None | Some m \<Rightarrow> look m q)"
proof (induction p arbitrary: n)
  case (Cons x p)
  then show ?case by (cases n) (auto split: option.splits)
qed simp

lemma modify_at_append:
  "modify_at (p @ q) f n = modify_at p (modify_at q f) n"
proof (induction p arbitrary: n)
  case (Cons x p)
  then show ?case by (cases n) (auto split: option.splits)
qed simp

lemma map_of_update: "map_of (AList.update k v al) = (map_of al)(k \<mapsto> v)"
  by (rule update_conv')

lemma modify_at_look:
  "modify_at p f n = Some n' \<Longrightarrow>
   \<exists>m m'. look n p = Some m \<and> f m = Some m' \<and> look n' p = Some m'"
proof (induction p arbitrary: n n')
  case (Cons x p)
  then show ?case by (cases n) (auto split: option.splits simp: map_of_update)
qed simp

lemma modify_at_defined:
  "look n p = Some m \<Longrightarrow> f m = Some m' \<Longrightarrow> \<exists>n'. modify_at p f n = Some n' \<and> look n' p = Some m'"
proof (induction p arbitrary: n)
  case (Cons x p)
  then obtain es c where n: "n = Dir es" "map_of es x = Some c" "look c p = Some m"
    by (cases n) (auto split: option.splits)
  with Cons.IH [OF n(3) Cons.prems(2)] show ?case by (auto simp: map_of_update)
qed simp

lemma modify_at_frame:
  "modify_at p f n = Some n' \<Longrightarrow> disjoint p q \<Longrightarrow> look n' q = look n q"
proof (induction p arbitrary: n n' q)
  case (Cons x p)
  then obtain es where n: "n = Dir es" by (cases n) auto
  show ?case
  proof (cases q)
    case (Cons y q')
    then show ?thesis using Cons.prems Cons.IH n
      by (cases "x = y") (auto split: option.splits simp: map_of_update)
  qed (use Cons.prems in simp)
qed simp

lemma modify_at_twice:
  "modify_at p f n = Some n1 \<Longrightarrow>
   modify_at p g n1 = modify_at p (\<lambda>m. case f m of None \<Rightarrow> None | Some m' \<Rightarrow> g m') n"
proof (induction p arbitrary: n n1)
  case (Cons x p)
  then obtain es c c1 where "n = Dir es" "map_of es x = Some c" "modify_at p f c = Some c1"
    "n1 = Dir (AList.update x c1 es)"
    by (cases n) (auto split: option.splits)
  with Cons.IH [of c c1] show ?case by (simp add: map_of_update option.map_comp o_def)
qed (simp split: option.splits)

lemma set_entry_frame:
  "modify_at p (set_entry x m) n = Some n' \<Longrightarrow> disjoint (p @ [x]) q \<Longrightarrow> look n' q = look n q"
proof (induction p arbitrary: n n' q)
  case Nil
  then obtain es where "n = Dir es" by (cases n) auto
  with Nil show ?case by (cases q) (auto simp: map_of_update)
next
  case (Cons y p)
  then obtain es where "n = Dir es" by (cases n) auto
  with Cons show ?case by (cases q) (auto split: option.splits simp: map_of_update)
qed

lemma drop_entry_frame:
  "modify_at p (drop_entry x) n = Some n' \<Longrightarrow> disjoint (p @ [x]) q \<Longrightarrow> look n' q = look n q"
proof (induction p arbitrary: n n' q)
  case Nil
  then obtain es where "n = Dir es" by (cases n) auto
  with Nil show ?case by (cases q) (auto simp: delete_conv')
next
  case (Cons y p)
  then obtain es where "n = Dir es" by (cases n) auto
  with Cons show ?case by (cases q) (auto split: option.splits simp: map_of_update)
qed

lemma put_frame: "put_node p m n = Some n' \<Longrightarrow> disjoint p q \<Longrightarrow> look n' q = look n q"
  by (cases p rule: rev_cases) (auto simp: put_node_def dest: set_entry_frame)

lemma del_frame: "del_node p n = Some n' \<Longrightarrow> disjoint p q \<Longrightarrow> look n' q = look n q"
  by (cases p rule: rev_cases) (auto simp: del_node_def split: if_splits dest: drop_entry_frame)

lemma put_look: "put_node p m n = Some n' \<Longrightarrow> look n' p = Some m"
proof (cases p rule: rev_cases)
  case (snoc q x)
  assume "put_node p m n = Some n'"
  with snoc have "modify_at q (set_entry x m) n = Some n'" by (simp add: put_node_def)
  then obtain d d' where "look n q = Some d" "set_entry x m d = Some d'" "look n' q = Some d'"
    using modify_at_look by blast
  with snoc show ?thesis by (cases d) (auto simp: look_append map_of_update)
qed (simp add: put_node_def)

lemma del_look: "del_node p n = Some n' \<Longrightarrow> look n' p = None"
proof (cases p rule: rev_cases)
  case (snoc q x)
  assume "del_node p n = Some n'"
  with snoc have "modify_at q (drop_entry x) n = Some n'" by (simp add: del_node_def split: if_splits)
  then obtain d d' where "look n q = Some d" "drop_entry x d = Some d'" "look n' q = Some d'"
    using modify_at_look by blast
  with snoc show ?thesis by (cases d) (auto simp: look_append delete_conv')
qed (simp add: del_node_def)

lemma put_then_modify:
  assumes "put_node p m n = Some n1"
  shows "modify_at p g n1 = (case g m of None \<Rightarrow> None | Some m' \<Rightarrow> put_node p m' n)"
proof (cases p rule: rev_cases)
  case (snoc q x)
  with assms have m: "modify_at q (set_entry x m) n = Some n1" by (simp add: put_node_def)
  have step: "(case set_entry x m d of None \<Rightarrow> None | Some d' \<Rightarrow> modify_at [x] g d') =
      (case g m of None \<Rightarrow> None | Some m' \<Rightarrow> set_entry x m' d)" for d
    by (cases d) (auto simp: map_of_update split: option.splits)
  have "modify_at p g n1 = modify_at q (\<lambda>d. case set_entry x m d of None \<Rightarrow> None | Some d' \<Rightarrow> modify_at [x] g d') n"
    unfolding snoc modify_at_append by (rule modify_at_twice [OF m])
  also have "\<dots> = modify_at q (\<lambda>d. case g m of None \<Rightarrow> None | Some m' \<Rightarrow> set_entry x m' d) n"
    by (simp only: step)
  also have "\<dots> = (case g m of None \<Rightarrow> None | Some m' \<Rightarrow> put_node p m' n)"
  proof (cases "g m")
    case None
    have "modify_at q (\<lambda>d. None) n = None" for n :: node
    proof (induction q arbitrary: n)
      case (Cons y q)
      then show ?case by (cases n) (auto split: option.splits)
    qed simp
    with None show ?thesis by simp
  qed (simp add: snoc put_node_def)
  finally show ?thesis .
qed (use assms in \<open>simp add: put_node_def\<close>)

lemma mkdirs_frame: "mkdirs p n = Some n' \<Longrightarrow> disjoint p q \<Longrightarrow> look n' q = look n q"
proof (induction p arbitrary: n n' q)
  case (Cons x p)
  then obtain es where n: "n = Dir es" by (cases n) auto
  show ?case
  proof (cases q)
    case (Cons y q')
    show ?thesis
    proof (cases "x = y")
      case True
      with Cons Cons.prems n obtain c' where c':
        "mkdirs p (case map_of es x of None \<Rightarrow> Dir [] | Some c \<Rightarrow> c) = Some c'"
        "n' = Dir (AList.update x c' es)" "disjoint p q'" by auto
      have "look (Dir []) q' = None" using c'(3) by (cases q') auto
      with Cons.IH [OF c'(1,3)] c'(2) n Cons True show ?thesis
        by (simp add: map_of_update split: option.splits)
    qed (use Cons Cons.prems n in \<open>auto simp: map_of_update\<close>)
  qed (use Cons.prems in simp)
qed simp

lemma mkdirs_look:
  "mkdirs p n = Some n' \<Longrightarrow> look n' p = Some (case look n p of None \<Rightarrow> Dir [] | Some d \<Rightarrow> d)"
proof (induction p arbitrary: n n')
  case Nil
  then show ?case by (cases n) auto
next
  case (Cons x p)
  then obtain es where n: "n = Dir es" by (cases n) auto
  with Cons.prems obtain c' where c':
    "mkdirs p (case map_of es x of None \<Rightarrow> Dir [] | Some c \<Rightarrow> c) = Some c'" "n' = Dir (AList.update x c' es)"
    by auto
  have "look (Dir []) p = (if p = [] then Some (Dir []) else None)" by (cases p) auto
  with Cons.IH [OF c'(1)] c'(2) n show ?case by (auto simp: map_of_update split: option.splits if_splits)
qed

lemma mkdirs_put:
  "look n p = Some d \<Longrightarrow> look n (p @ [x]) = None \<Longrightarrow> mkdirs (p @ [x]) n = put_node (p @ [x]) (Dir []) n"
proof (induction p arbitrary: n)
  case Nil
  then show ?case by (cases n) (auto simp: put_node_def split: option.splits)
next
  case (Cons y p)
  then obtain es c where n: "n = Dir es" "map_of es y = Some c" "look c p = Some d"
    by (cases n) (auto split: option.splits)
  with Cons have "mkdirs (p @ [x]) c = put_node (p @ [x]) (Dir []) c" by simp
  with n show ?case by (simp add: put_node_def)
qed

section \<open>What a copy leaves\<close>

text \<open>\<open>regular\<close> is the part of a tree the copier reproduces: files and directories, special entries
  skipped.\<close>

fun regular :: "node \<Rightarrow> node" and regular_entries :: "(string \<times> node) list \<Rightarrow> (string \<times> node) list" where
  "regular (File c) = File c"
| "regular (Dir es) = Dir (regular_entries es)"
| "regular Special = Special"
| "regular_entries [] = []"
| "regular_entries (xn # es) =
     (if snd xn = Special then regular_entries es else (fst xn, regular (snd xn)) # regular_entries es)"

fun wf_node :: "node \<Rightarrow> bool" and wf_entries :: "(string \<times> node) list \<Rightarrow> bool" where
  "wf_node (File c) = True"
| "wf_node (Dir es) = wf_entries es"
| "wf_node Special = True"
| "wf_entries [] = True"
| "wf_entries (xn # es) = (fst xn \<notin> fst ` set es \<and> wf_node (snd xn) \<and> wf_entries es)"

lemma andThen_Inr: "andThen m f s = (Inr y, s'') \<longleftrightarrow> (\<exists>x s'. m s = (Inr x, s') \<and> f x s' = (Inr y, s''))"
  by (auto simp: andThen_def split: sum.splits prod.splits)

lemma on_error_Inr: "on_error c m s = (Inr y, s') \<longleftrightarrow> m s = (Inr y, s')"
  by (auto simp: on_error_def split: sum.splits prod.splits)

lemma call_Inr: "call what f s = (Inr x, s') \<Longrightarrow> f (fs_root s) = Some (fs_root s')"
  by (auto simp: call_def Let_def split: list.splits io_reply.splits option.splits)

lemma check_cancel_root [simp]: "fs_root (snd (check_cancel s)) = fs_root s"
  by (simp add: check_cancel_def Let_def)

lemma report_root [simp]: "fs_root (snd (report n tot s)) = fs_root s"
  by (simp add: report_def Let_def)

lemma ret_Inr [simp]: "ret x s = (r, s') \<longleftrightarrow> r = Inr x \<and> s' = s"
  by (auto simp: ret_def)

lemma fail_result [simp]: "fail e s = (r, s') \<longleftrightarrow> r = Inl (FsFailed e) \<and> s' = s"
  by (auto simp: fail_def)

lemma copy_loop_puts:
  assumes "copy_loop src dst tot rest s = (Inr x, s')" "put_node dst (File acc) n0 = Some (fs_root s)"
  shows "put_node dst (File (acc @ rest)) n0 = Some (fs_root s')"
  using assms
proof (induction src dst tot rest arbitrary: s acc rule: copy_loop.induct)
  case (1 src dst tot rest)
  from 1(2) obtain u1 s1 u2 s2 where
    c: "check_cancel s = (Inr u1, s1)" and r: "call (''could not read '' @ show_path src) Some s1 = (Inr u2, s2)"
    and k: "(if rest = [] then ret ()
       else andThen (call (''could not write '' @ show_path dst) (modify_at dst (append_bytes (take chunk_size rest)))) (\<lambda>_.
            andThen (report (length (take chunk_size rest)) tot) (\<lambda>_.
              copy_loop src dst tot (drop chunk_size rest)))) s2 = (Inr x, s')"
    by (subst (asm) copy_loop.simps) (auto simp: andThen_Inr)
  have root: "fs_root s2 = fs_root s"
    using call_Inr [OF r] check_cancel_root [of s] c by simp
  show ?case
  proof (cases "rest = []")
    case True
    with k root 1(3) show ?thesis by simp
  next
    case False
    with k obtain u3 s3 u4 s4 where w: "call (''could not write '' @ show_path dst)
        (modify_at dst (append_bytes (take chunk_size rest))) s2 = (Inr u3, s3)"
      and p: "report (length (take chunk_size rest)) tot s3 = (Inr u4, s4)"
      and l: "copy_loop src dst tot (drop chunk_size rest) s4 = (Inr x, s')"
      by (auto simp: andThen_Inr)
    have "modify_at dst (append_bytes (take chunk_size rest)) (fs_root s) = Some (fs_root s3)"
      using call_Inr [OF w] root by simp
    then have "put_node dst (File (acc @ take chunk_size rest)) n0 = Some (fs_root s3)"
      using put_then_modify [OF 1(3)] by simp
    moreover have "fs_root s4 = fs_root s3" using report_root [of _ tot s3] p by (metis snd_conv)
    ultimately have "put_node dst (File (acc @ take chunk_size rest)) n0 = Some (fs_root s4)" by simp
    from 1(1) [OF False l this] show ?thesis by simp
  qed
qed

lemma copy_file_puts:
  assumes "copy_file src dst tot bytes s = (Inr x, s')"
  shows "put_node dst (File bytes) (fs_root s) = Some (fs_root s')"
proof -
  from assms obtain s1 s2 s3 s4 s5 s6 u where
    "call (''could not read metadata for '' @ show_path src) Some s = (Inr u, s1)"
    "call (''could not open '' @ show_path src) Some s1 = (Inr u, s2)"
    and create: "call (''could not create '' @ show_path dst) (put_node dst (File [])) s2 = (Inr u, s3)"
    and loop: "copy_loop src dst tot bytes s3 = (Inr u, s4)"
    and "call (''could not flush '' @ show_path dst) Some s4 = (Inr u, s5)"
    "call (''could not read metadata for '' @ show_path dst) Some s5 = (Inr u, s6)"
    and fin: "(case look (fs_root s6) dst of
         Some (File c) \<Rightarrow>
           if length c = length bytes then ret () s6
           else fail (''copy verification failed for '' @ show_path dst @ '': source size '' @ show_nat (length bytes)
                  @ '' != dest size '' @ show_nat (length c)) (discard dst s6)
       | _ \<Rightarrow> fail (''could not read metadata for '' @ show_path dst) s6) = (Inr x, s')"
    by (auto simp: copy_file_def andThen_Inr)
  then have r: "fs_root s2 = fs_root s" "fs_root s6 = fs_root s4" by (auto dest!: call_Inr)
  have "put_node dst (File []) (fs_root s) = Some (fs_root s3)" using call_Inr [OF create] r by simp
  from copy_loop_puts [OF loop this] have "put_node dst (File bytes) (fs_root s) = Some (fs_root s4)" by simp
  moreover have "s' = s6" using fin by (auto split: option.splits node.splits if_splits)
  ultimately show ?thesis using r by simp
qed

lemma regular_names: "fst ` set (regular_entries es) \<subseteq> fst ` set es"
  by (induction es) auto

lemma update_fresh: "x \<notin> fst ` set es \<Longrightarrow> AList.update x m es = es @ [(x, m)]"
  by (induction es) auto

lemma put_entry:
  assumes "put_node dst (Dir acc) n0 = Some n" "x \<notin> fst ` set acc" "put_node (dst @ [x]) m n = Some n'"
  shows "put_node dst (Dir (acc @ [(x, m)])) n0 = Some n'"
proof -
  have "modify_at dst (set_entry x m) n = Some n'" using assms(3) by (simp add: put_node_def)
  then show ?thesis using put_then_modify [OF assms(1), of "set_entry x m"] update_fresh [OF assms(2), of m] by simp
qed

lemma copy_puts:
  shows "copy_node src dst tot n s = (Inr u, s') \<Longrightarrow> wf_node n \<Longrightarrow> n \<noteq> Special \<Longrightarrow>
      dst \<noteq> [] \<Longrightarrow> look (fs_root s) (butlast dst) \<noteq> None \<Longrightarrow> look (fs_root s) dst = None \<Longrightarrow>
      put_node dst (regular n) (fs_root s) = Some (fs_root s')"
    and "copy_entries src dst tot es s = (Inr u, s') \<Longrightarrow> wf_entries es \<Longrightarrow> dst \<noteq> [] \<Longrightarrow>
      put_node dst (Dir acc) n0 = Some (fs_root s) \<Longrightarrow> fst ` set acc \<inter> fst ` set es = {} \<Longrightarrow>
      put_node dst (Dir (acc @ regular_entries es)) n0 = Some (fs_root s')"
proof (induction src dst tot n and src dst tot es arbitrary: s u s' and s u s' acc n0
    rule: copy_node_copy_entries.induct)
  case (1 src dst tot bytes)
  then show ?case by (auto intro: copy_file_puts)
next
  case (2 src dst tot es)
  from 2(2) obtain u1 s1 u2 s2 where
    mk: "call (''could not create directory '' @ show_path dst) (mkdirs dst) s = (Inr u1, s1)"
    and rd: "call (''could not read directory '' @ show_path src) Some s1 = (Inr u2, s2)"
    and es: "copy_entries src dst tot es s2 = (Inr u, s')"
    by (auto simp: andThen_Inr on_error_Inr)
  from 2(5) obtain p x where dst: "dst = p @ [x]" by (cases dst rule: rev_cases) auto
  with 2(6) obtain d where "look (fs_root s) p = Some d" by auto
  with 2(7) dst have "mkdirs dst (fs_root s) = put_node dst (Dir []) (fs_root s)"
    by (simp add: mkdirs_put)
  with call_Inr [OF mk] call_Inr [OF rd]
  have put: "put_node dst (Dir []) (fs_root s) = Some (fs_root s2)" by simp
  show ?case using 2(1) [OF es _ 2(5) put] 2(3) by simp
next
  case (5 src dst tot xn es)
  obtain x n where xn: "xn = (x, n)" by (cases xn)
  from 5(3) obtain u1 s1 u2 s2 where rd: "call ''could not read directory entry'' Some s = (Inr u1, s1)"
    and cn: "copy_node (src @ [x]) (dst @ [x]) tot n s1 = (Inr u2, s2)"
    and ce: "copy_entries src dst tot es s2 = (Inr u, s')"
    by (auto simp: andThen_Inr xn)
  have root: "fs_root s1 = fs_root s" using call_Inr [OF rd] by simp
  from 5(4) xn have wf: "x \<notin> fst ` set es" "wf_node n" "wf_entries es" by auto
  from 5(7) xn have fresh: "x \<notin> fst ` set acc" by auto
  show ?case
  proof (cases "n = Special")
    case True
    with cn have "s2 = s1" by simp
    with root 5(6) have "put_node dst (Dir acc) n0 = Some (fs_root s2)" by simp
    from 5(2) [OF ce wf(3) 5(5) this] 5(7) xn True show ?thesis by auto
  next
    case False
    have look: "look (fs_root s1) dst = Some (Dir acc)" using put_look [OF 5(6)] root by simp
    have "map_of acc x = None" using fresh by (simp add: map_of_eq_None_iff)
    then have "look (fs_root s1) (dst @ [x]) = None" using look by (simp add: look_append)
    with 5(1) cn wf(2) False look xn
    have "put_node (dst @ [x]) (regular n) (fs_root s1) = Some (fs_root s2)" by simp
    with 5(6) root fresh have "put_node dst (Dir (acc @ [(x, regular n)])) n0 = Some (fs_root s2)"
      by (simp add: put_entry)
    from 5(2) [OF ce wf(3) 5(5) this] 5(7) wf(1) xn False show ?thesis by auto
  qed
qed auto

section \<open>What a copy leaves alone\<close>

definition outside :: "path \<Rightarrow> node \<Rightarrow> node \<Rightarrow> bool" where
  "outside dst n n' = (\<forall>q. disjoint dst q \<longrightarrow> look n' q = look n q)"

definition stays_under :: "path \<Rightarrow> (fs_state \<Rightarrow> 'a \<times> fs_state) \<Rightarrow> bool" where
  "stays_under dst m = (\<forall>s. outside dst (fs_root s) (fs_root (snd (m s))))"

lemma outside_refl [simp]: "outside dst n n"
  by (simp add: outside_def)

lemma outside_trans: "outside dst a b \<Longrightarrow> outside dst b c \<Longrightarrow> outside dst a c"
  by (simp add: outside_def)

lemma outside_put: "put_node p m n = Some n' \<Longrightarrow> prefix dst p \<Longrightarrow> outside dst n n'"
  by (auto simp: outside_def dest: put_frame disjoint_extend)

lemma outside_del: "del_node p n = Some n' \<Longrightarrow> prefix dst p \<Longrightarrow> outside dst n n'"
  by (auto simp: outside_def dest: del_frame disjoint_extend)

lemma outside_modify: "modify_at p f n = Some n' \<Longrightarrow> prefix dst p \<Longrightarrow> outside dst n n'"
  by (auto simp: outside_def dest: modify_at_frame disjoint_extend)

lemma outside_mkdirs: "mkdirs p n = Some n' \<Longrightarrow> prefix dst p \<Longrightarrow> outside dst n n'"
  by (auto simp: outside_def dest: mkdirs_frame disjoint_extend)

lemmas outside_intros = outside_put outside_del outside_modify outside_mkdirs

lemma stays_andThen [intro]:
  "stays_under dst m \<Longrightarrow> (\<And>x. stays_under dst (f x)) \<Longrightarrow> stays_under dst (andThen m f)"
  unfolding stays_under_def andThen_def
  by (auto split: sum.splits prod.splits) (metis outside_trans snd_conv)+

lemma stays_ret [simp, intro]: "stays_under dst (ret x)" "stays_under dst (fail e)"
  by (simp_all add: stays_under_def ret_def fail_def)

lemma stays_call:
  "(\<And>n n'. f n = Some n' \<Longrightarrow> outside dst n n') \<Longrightarrow> stays_under dst (call what f)"
  by (auto simp: stays_under_def call_def Let_def split: list.splits io_reply.splits option.splits)

lemma stays_try_remove: "prefix dst p \<Longrightarrow> stays_under dst (try_remove p)"
  by (auto simp: stays_under_def try_remove_def Let_def intro: outside_intros
      split: list.splits io_reply.splits option.splits)

lemma outside_discard: "prefix dst p \<Longrightarrow> outside dst (fs_root s) (fs_root (discard p s))"
  using stays_try_remove [of dst p] by (simp add: stays_under_def discard_def)

lemma stays_on_error:
  "stays_under dst m \<Longrightarrow> (\<And>s. outside dst (fs_root s) (fs_root (c s))) \<Longrightarrow> stays_under dst (on_error c m)"
  unfolding stays_under_def on_error_def
  by (auto split: sum.splits prod.splits) (metis outside_trans snd_conv)+

lemma stays_check [simp]: "stays_under dst check_cancel" "stays_under dst (report n tot)"
  by (simp_all add: stays_under_def)

lemma stays_copy_loop: "prefix d dst \<Longrightarrow> stays_under d (copy_loop src dst tot rest)"
proof (induction src dst tot rest rule: copy_loop.induct)
  case (1 src dst tot rest)
  have w: "stays_under d (call what (modify_at dst f))" for what f
    using 1(2) by (intro stays_call) (rule outside_modify)
  show ?case
    by (subst copy_loop.simps) (auto intro!: stays_andThen w 1 stays_call)
qed

lemma stays_copy_file: "prefix d dst \<Longrightarrow> stays_under d (copy_file src dst tot bytes)"
proof -
  assume d: "prefix d dst"
  have c: "stays_under d (call what (put_node dst n))" for what n
    using d by (intro stays_call) (rule outside_put)
  have f: "stays_under d (\<lambda>s. case look (fs_root s) dst of
         Some (File c) \<Rightarrow>
           if length c = length bytes then ret () s
           else fail (''copy verification failed for '' @ show_path dst @ '': source size '' @ show_nat (length bytes)
                  @ '' != dest size '' @ show_nat (length c)) (discard dst s)
       | _ \<Rightarrow> fail (''could not read metadata for '' @ show_path dst) s)"
    using outside_discard [OF d]
    by (auto simp: stays_under_def ret_def fail_def split: option.splits node.splits)
  show ?thesis unfolding copy_file_def
    by (auto intro!: stays_andThen c f stays_copy_loop d stays_call)
qed

lemma stays_copy:
  shows "prefix d dst \<Longrightarrow> stays_under d (copy_node src dst tot n)"
    and "prefix d dst \<Longrightarrow> stays_under d (copy_entries src dst tot es)"
proof (induction src dst tot n and src dst tot es rule: copy_node_copy_entries.induct)
  case (1 src dst tot bytes)
  then show ?case by (simp add: stays_copy_file)
next
  case (2 src dst tot es)
  have m: "stays_under d (call what (mkdirs dst))" for what
    using 2(2) by (intro stays_call) (rule outside_mkdirs)
  show ?case using 2
    by (auto intro!: stays_andThen m stays_on_error outside_discard stays_call)
next
  case (5 src dst tot xn es)
  then show ?case by (auto intro!: stays_andThen stays_call)
qed auto

section \<open>The move as a whole\<close>

lemma try_remove_Inr: "try_remove p s = (Inr u, s') \<Longrightarrow> look (fs_root s') p = None"
  by (auto simp: try_remove_def split: list.splits io_reply.splits option.splits dest: del_look)

lemma call_Inl: "call what f s = (Inl e, s') \<Longrightarrow> fs_root s' = fs_root s \<and> e \<noteq> FsCancelled"
  by (auto simp: call_def Let_def split: list.splits io_reply.splits option.splits)

lemma on_error_Inl: "on_error c m s = (Inl e, s') \<longleftrightarrow> (\<exists>s1. m s = (Inl e, s1) \<and> s' = c s1)"
  by (auto simp: on_error_def split: sum.splits prod.splits)

lemma outside_clean: "outside dst (fs_root s) (fs_root (clean_partial dst s))"
  using outside_discard [of dst dst s] by (simp add: clean_partial_def)

lemma rename_look:
  assumes "rename_node src dst rt = Some rt'" "look rt src = Some n" "\<not> prefix dst src"
  shows "look rt' dst = Some n \<and> look rt' src = None \<and>
    (\<forall>q. disjoint src q \<and> disjoint dst q \<longrightarrow> look rt' q = look rt q)"
proof -
  from assms obtain r where r: "del_node src rt = Some r" "put_node dst n r = Some rt'" "\<not> prefix src dst"
    by (auto simp: rename_node_def split: if_splits option.splits)
  moreover have "disjoint dst src" using r(3) assms(3) by (simp add: disjoint_def)
  ultimately show ?thesis
    using put_look [OF r(2)] put_frame [OF r(2)] del_frame [OF r(1)] del_look [OF r(1)] by simp
qed

lemma copy_verify_remove_cases:
  assumes run: "copy_and_verify_then_remove src dst tot s = (r, s')"
    and n: "look (fs_root s) src = Some n" "wf_node n"
    and d: "dst \<noteq> []" "look (fs_root s) (butlast dst) \<noteq> None" "look (fs_root s) dst = None" "disjoint dst src"
  shows "(case r of
      Inr _ \<Rightarrow> look (fs_root s') src = None \<and> look (fs_root s') dst = Some (regular n)
    | Inl FsCancelled \<Rightarrow> look (fs_root s') src = Some n
    | Inl (FsFailed e) \<Rightarrow> look (fs_root s') src = Some n \<or> look (fs_root s') dst = Some (regular n)) \<and>
    (\<forall>q. disjoint dst q \<and> disjoint src q \<longrightarrow> look (fs_root s') q = look (fs_root s) q)"
proof (cases "n = Special")
  case True
  with run n show ?thesis by (auto simp: copy_and_verify_then_remove_def)
next
  case False
  let ?copy = "on_error (clean_partial dst) (copy_node src dst tot n)"
  let ?s0 = "s\<lparr>fs_copied := 0\<rparr>"
  have body: "andThen ?copy (\<lambda>_. remove_source src) ?s0 = (r, s')"
    using run n False by (cases n) (simp_all add: copy_and_verify_then_remove_def)
  have stays: "stays_under dst ?copy"
    by (intro stays_on_error stays_copy(1)) (simp_all add: outside_clean)
  obtain c s1 where c: "?copy ?s0 = (c, s1)" by (cases "?copy ?s0")
  have out: "outside dst (fs_root s) (fs_root s1)"
    using stays c unfolding stays_under_def by (metis fs_state.select_convs(1) fs_state.surjective fs_state.update_convs(4) snd_conv)
  then have src1: "look (fs_root s1) src = Some n" using d(4) n(1) by (simp add: outside_def)
  show ?thesis
  proof (cases c)
    case (Inl e)
    with body c have "r = Inl e" "s' = s1" by (auto simp: andThen_def)
    with src1 out show ?thesis by (cases e) (auto simp: outside_def)
  next
    case (Inr u)
    with c have "copy_node src dst tot n ?s0 = (Inr u, s1)" by (simp add: on_error_Inr)
    from copy_puts(1) [OF this n(2) False d(1)] d(2,3)
    have put: "put_node dst (regular n) (fs_root s) = Some (fs_root s1)" by simp
    then have dst1: "look (fs_root s1) dst = Some (regular n)" by (rule put_look)
    from body c Inr have rem: "remove_source src s1 = (r, s')" by (simp add: andThen_def)
    have out2: "outside src (fs_root s1) (fs_root s')"
    proof -
      obtain t s2 where "try_remove src s1 = (t, s2)" by (cases "try_remove src s1")
      moreover have "outside src (fs_root s1) (fs_root (snd (try_remove src s1)))"
        using stays_try_remove [of src src] by (simp add: stays_under_def)
      ultimately show ?thesis using rem by (auto simp: remove_source_def split: sum.splits)
    qed
    then have dst2: "look (fs_root s') dst = Some (regular n)"
      using dst1 d(4) by (simp add: outside_def disjoint_sym)
    have frame: "\<forall>q. disjoint dst q \<and> disjoint src q \<longrightarrow> look (fs_root s') q = look (fs_root s) q"
      using out out2 by (auto simp: outside_def)
    show ?thesis
    proof (cases r)
      case (Inl e)
      with rem obtain m where "e = FsFailed m"
        by (auto simp: remove_source_def split: prod.splits sum.splits)
      with Inl dst2 frame show ?thesis by simp
    next
      case (Inr v)
      with rem have "look (fs_root s') src = None"
        by (auto simp: remove_source_def split: prod.splits sum.splits dest: try_remove_Inr)
      with Inr dst2 frame show ?thesis by simp
    qed
  qed
qed

lemma missing_below: "look n p = None \<Longrightarrow> look n (p @ q) = None"
  by (simp add: look_append)

lemma present_above: "look n (p @ q) \<noteq> None \<Longrightarrow> look n p \<noteq> None"
  by (auto simp: look_append split: option.splits)

lemma move_body_cases:
  assumes run: "(case call ''rename'' (rename_node src target) s of
         (Inr _, s2) \<Rightarrow> (Inr target, s2\<lparr>fs_reports := fs_reports s2 @ [(tot, tot)]\<rparr>)
       | (Inl _, s2) \<Rightarrow> andThen (copy_and_verify_then_remove src target tot) (\<lambda>_. ret target) s2) = (r, s')"
    and n: "look (fs_root s) src = Some n" "wf_node n"
    and t: "target \<noteq> []" "look (fs_root s) (butlast target) \<noteq> None" "look (fs_root s) target = None"
      "disjoint target src"
  shows "(case r of
      Inr p \<Rightarrow> p = target \<and> look (fs_root s') src = None \<and> look (fs_root s') target \<in> {Some n, Some (regular n)}
    | Inl FsCancelled \<Rightarrow> look (fs_root s') src = Some n
    | Inl (FsFailed e) \<Rightarrow> look (fs_root s') src = Some n \<or> look (fs_root s') target = Some (regular n)) \<and>
    (\<forall>q. disjoint target q \<and> disjoint src q \<longrightarrow> look (fs_root s') q = look (fs_root s) q)"
proof (cases "call ''rename'' (rename_node src target) s")
  case (Pair c s2)
  show ?thesis
  proof (cases c)
    case (Inr u)
    have p: "\<not> prefix target src" using t(4) by (simp add: disjoint_def)
    have ren: "rename_node src target (fs_root s) = Some (fs_root s2)" using call_Inr Pair Inr by blast
    from run Pair Inr have "r = Inr target" "fs_root s' = fs_root s2" by auto
    with rename_look [OF ren n(1) p] show ?thesis by simp
  next
    case (Inl e)
    with Pair have root: "fs_root s2 = fs_root s" using call_Inl by blast
    obtain r1 s3 where c: "copy_and_verify_then_remove src target tot s2 = (r1, s3)"
      by (cases "copy_and_verify_then_remove src target tot s2")
    have pre: "look (fs_root s2) src = Some n" "look (fs_root s2) (butlast target) \<noteq> None"
      "look (fs_root s2) target = None" using root n(1) t(2,3) by simp_all
    note res = copy_verify_remove_cases [OF c pre(1) n(2) t(1) pre(2,3) t(4)]
    from run Pair Inl c have "s' = s3 \<and> r = (case r1 of Inl e \<Rightarrow> Inl e | Inr _ \<Rightarrow> Inr target)"
      by (cases r1) (auto simp: andThen_def ret_def)
    with res root show ?thesis
      by (cases r1) (auto split: fs_move_error.splits)
  qed
qed

lemma move_core:
  assumes run: "move_with_progress src dst_dir s = (r, s')"
    and n: "src \<noteq> []" "look (fs_root s) src = Some n" "wf_node n" and outer: "\<not> prefix src dst_dir"
  shows "(let target = dst_dir @ [last src] in
    (case r of
       Inr p \<Rightarrow> p = target \<and> (src = target \<and> s' = s \<or>
         look (fs_root s') src = None \<and> look (fs_root s') target \<in> {Some n, Some (regular n)})
     | Inl FsCancelled \<Rightarrow> look (fs_root s') src = Some n
     | Inl (FsFailed e) \<Rightarrow> look (fs_root s') src = Some n \<or> look (fs_root s') target = Some (regular n)) \<and>
    (\<forall>q. disjoint target q \<and> disjoint src q \<and> look (fs_root s) q \<noteq> None \<longrightarrow>
       look (fs_root s') q = look (fs_root s) q) \<and>
    (src \<noteq> target \<and> exists_at (fs_root s) target \<longrightarrow>
       r = Inl (FsFailed (''destination already exists: '' @ show_path target)) \<and> s' = s))"
proof -
  let ?t = "dst_dir @ [last src]"
  consider (same) "src = ?t" | (taken) "src \<noteq> ?t" "exists_at (fs_root s) ?t"
    | (free) "src \<noteq> ?t" "\<not> exists_at (fs_root s) ?t" by blast
  then show ?thesis
  proof cases
    case same
    with run n show ?thesis by (simp add: move_with_progress_def Let_def)
  next
    case taken
    with run n show ?thesis by (auto simp: move_with_progress_def Let_def exists_at_def)
  next
    case free
    let ?mk = "if exists_at (fs_root s) dst_dir then ret ()
       else call (''could not create directory '' @ show_path dst_dir) (mkdirs dst_dir)"
    let ?body = "\<lambda>s1. case call ''rename'' (rename_node src ?t) s1 of
         (Inr _, s2) \<Rightarrow> (Inr ?t, s2\<lparr>fs_reports := fs_reports s2 @ [(total_size (fs_root s1) src, total_size (fs_root s1) src)]\<rparr>)
       | (Inl _, s2) \<Rightarrow> andThen (copy_and_verify_then_remove src ?t (total_size (fs_root s1) src)) (\<lambda>_. ret ?t) s2"
    from run n free have m: "andThen ?mk (\<lambda>_ s1. ?body s1) s = (r, s')"
      by (simp add: move_with_progress_def Let_def exists_at_def)
    have d: "disjoint ?t src"
    proof -
      have "\<not> prefix src ?t" using outer free(1) by simp
      moreover have "\<not> prefix ?t src"
      proof
        assume "prefix ?t src"
        then obtain zs where "src = ?t @ zs" by (auto simp: prefix_def)
        with n(2) present_above [of "fs_root s" ?t zs] free(2) show False by (simp add: exists_at_def)
      qed
      ultimately show ?thesis by (simp add: disjoint_def)
    qed
    obtain c s1 where mk: "?mk s = (c, s1)" by (cases "?mk s")
    show ?thesis
    proof (cases c)
      case (Inl e)
      then have "fs_root s1 = fs_root s" "e \<noteq> FsCancelled"
        using mk call_Inl by (auto split: if_splits simp: ret_def)
      moreover from m mk Inl have "r = Inl e" "s' = s1" by (auto simp: andThen_def)
      ultimately show ?thesis using n free by (cases e) (auto simp: Let_def)
    next
      case (Inr u)
      with m mk have b: "?body s1 = (r, s')" by (simp add: andThen_def)
      have made: "look (fs_root s1) dst_dir \<noteq> None \<and> look (fs_root s1) ?t = None \<and> look (fs_root s1) src = Some n \<and>
        (\<forall>q. disjoint ?t q \<and> look (fs_root s) q \<noteq> None \<longrightarrow> look (fs_root s1) q = look (fs_root s) q)"
      proof (cases "exists_at (fs_root s) dst_dir")
        case True
        with mk n free show ?thesis by (auto simp: exists_at_def)
      next
        case False
        with mk Inr have k: "mkdirs dst_dir (fs_root s) = Some (fs_root s1)" using call_Inr by auto
        have "look (fs_root s) dst_dir = None" using False by (simp add: exists_at_def)
        then have new: "look (fs_root s1) dst_dir = Some (Dir [])" using mkdirs_look [OF k] by simp
        have away: "disjoint dst_dir q" if "look (fs_root s) q \<noteq> None" "\<not> prefix q dst_dir" for q
        proof -
          have "\<not> prefix dst_dir q"
          proof
            assume "prefix dst_dir q"
            then obtain zs where "q = dst_dir @ zs" by (auto simp: prefix_def)
            with that(1) present_above [of "fs_root s" dst_dir zs] False show False
              by (simp add: exists_at_def)
          qed
          with that(2) show ?thesis by (simp add: disjoint_def)
        qed
        have "look (fs_root s1) q = look (fs_root s) q"
          if "look (fs_root s) q \<noteq> None" "\<not> prefix q dst_dir" for q
          using mkdirs_frame [OF k away [OF that]] .
        moreover have "look (fs_root s1) ?t = None" using new by (simp add: look_append)
        ultimately show ?thesis using new n(2) outer by (auto simp: disjoint_def)
      qed
      have pre: "?t \<noteq> []" "look (fs_root s1) (butlast ?t) \<noteq> None" "look (fs_root s1) ?t = None"
        "look (fs_root s1) src = Some n" using made by simp_all
      note res = move_body_cases [OF b pre(4) n(3) pre(1-3) d]
      show ?thesis using res made free by (auto simp: Let_def split: sum.splits)
    qed
  qed
qed

text \<open>Property C17. A data move never loses data. Whatever calls fail, in whatever order, with whatever
  partial effect, and whenever it is cancelled: on success the source is gone and the target holds it (all of
  it after a rename, its files and directories after a copy, special entries being skipped); on a
  cancel the source is intact; on a failure the source is intact or the target holds the whole verified
  copy. Everything else on disk is as it was, and an existing target is refused with nothing touched.\<close>

theorem move_never_loses_data:
  assumes run: "move_with_progress src dst_dir s = (r, s')"
    and n: "src \<noteq> []" "look (fs_root s) src = Some n" "wf_node n" and outer: "\<not> prefix src dst_dir"
  shows "(let target = dst_dir @ [last src] in
    (case r of
       Inr p \<Rightarrow> p = target \<and> (src = target \<and> s' = s \<or>
         look (fs_root s') src = None \<and> look (fs_root s') target \<in> {Some n, Some (regular n)})
     | Inl FsCancelled \<Rightarrow> look (fs_root s') src = Some n
     | Inl (FsFailed e) \<Rightarrow> look (fs_root s') src = Some n \<or> look (fs_root s') target = Some (regular n)) \<and>
    (\<forall>q. disjoint target q \<and> disjoint src q \<and> look (fs_root s) q \<noteq> None \<longrightarrow>
       look (fs_root s') q = look (fs_root s) q) \<and>
    (src \<noteq> target \<and> exists_at (fs_root s) target \<longrightarrow>
       r = Inl (FsFailed (''destination already exists: '' @ show_path target)) \<and> s' = s))"
  using assms by (rule move_core)

definition sample_fs :: fs_state where
  "sample_fs = \<lparr>fs_root = Dir [(''dl'', Dir [(''Show'', Dir [(''e1'', File ''abc''), (''sock'', Special)])]), (''home'', Dir [])],
     fs_io = [IoErr ''cross-device link''], fs_cancel = [], fs_copied = 0, fs_reports = [], fs_leftover = (\<lambda>n. n)\<rparr>"

lemma sample_move:
  "move_with_progress [''dl'', ''Show''] [''home''] sample_fs =
     (Inr [''home'', ''Show''],
      sample_fs\<lparr>fs_root := Dir [(''dl'', Dir []), (''home'', Dir [(''Show'', Dir [(''e1'', File ''abc'')])])],
        fs_io := [], fs_copied := 3, fs_reports := [(3, 3)]\<rparr>)"
  apply (simp add: move_with_progress_def sample_fs_def exists_at_def Let_def andThen_def ret_def
      total_size_def u64_max_def call_def copy_and_verify_then_remove_def on_error_def copy_file_def
      copy_loop.simps check_cancel_def report_def put_node_def remove_source_def try_remove_def del_node_def chunk_size_def)
  done

theorem move_never_loses_data_witness:
  "look (fs_root (snd (move_with_progress [''dl'', ''Show''] [''home''] sample_fs))) [''home'', ''Show'']
     = Some (Dir [(''e1'', File ''abc'')]) \<and>
   look (fs_root (snd (move_with_progress [''dl'', ''Show''] [''home''] sample_fs))) [''dl'', ''Show''] = None"
proof -
  let ?n = "Dir [(''e1'', File ''abc''), (''sock'', Special)]"
  have n: "look (fs_root sample_fs) [''dl'', ''Show''] = Some ?n" by (simp add: sample_fs_def)
  show ?thesis using move_never_loses_data [OF sample_move _ n] unfolding sample_move
    by (simp add: Let_def sample_fs_def)
qed

end
