(* ===== verification/Mover.thy ===== *)
theory Mover
  imports Complete Fs
begin

text \<open>
  The move-on-complete executor (\<open>crates/rtorrent/src/mover.rs\<close>): planning, the journal store with its
  live handles, one journalised move and the recovery after a restart. The world of a move is a
  record: the store and its file, the filesystem of \<open>Fs\<close>, the daemon's replies in order (\<open>None\<close> for success),
  and the trace of everything the move does. Failed writes of the journal file say what a later load
  would read. A hash map whose iteration order matters is an association list.
\<close>

section \<open>Planning\<close>

record move_intent =
  mi_hash :: string
  mi_name :: string
  mi_src_base :: string
  mi_dst_dir :: string
  mi_size :: int
  mi_remaining :: int
  mi_was_active :: bool

definition intent_of ::
  "move_rule list \<Rightarrow> (string \<times> string) list \<Rightarrow> raw_torrent \<Rightarrow> move_intent option" where
  "intent_of rules paths t =
     (let default = (if trim (raw_final_dir t) = [] then [] else raw_final_dir t);
          dest = completion_destination (raw_label t) (raw_tags t) rules paths default
      in if dest = [] then None
         else case plan_move (raw_directory t) dest (raw_name t) of
                None \<Rightarrow> None
              | Some _ \<Rightarrow>
                  Some \<lparr>mi_hash = raw_hash t, mi_name = raw_name t, mi_src_base = raw_base_path t,
                        mi_dst_dir = dest, mi_size = raw_size_bytes t,
                        mi_remaining = max 0 (raw_size_bytes t - raw_bytes_done t),
                        mi_was_active = raw_is_active t\<rparr>)"

definition settled :: "raw_torrent \<Rightarrow> bool" where
  "settled t = (raw_complete t \<and> \<not> raw_hashing t \<and> trim (raw_base_path t) \<noteq> [] \<and> trim (raw_name t) \<noteq> [])"

fun first_settled :: "string set \<Rightarrow> raw_torrent list \<Rightarrow> raw_torrent list" where
  "first_settled seen [] = []"
| "first_settled seen (t # ts) =
     (if settled t \<and> raw_hash t \<notin> seen then t # first_settled (insert (raw_hash t) seen) ts
      else first_settled seen ts)"

definition decide_moves ::
  "raw_torrent list \<Rightarrow> move_rule list \<Rightarrow> (string \<times> string) list \<Rightarrow> string set \<Rightarrow> string set \<Rightarrow> move_intent list" where
  "decide_moves raw rules paths skip busy =
     List.map_filter (intent_of rules paths)
       (filter (\<lambda>t. raw_hash t \<notin> skip \<and> raw_hash t \<notin> busy) (first_settled {} raw))"

definition is_homed :: "move_rule list \<Rightarrow> (string \<times> string) list \<Rightarrow> raw_torrent \<Rightarrow> bool" where
  "is_homed rules paths t =
     (raw_complete t \<and> \<not> raw_hashing t \<and> trim (raw_final_dir t) \<noteq> [] \<and> trim (raw_directory t) \<noteq> [] \<and>
      plan_move (raw_directory t)
        (completion_destination (raw_label t) (raw_tags t) rules paths (raw_final_dir t)) (raw_name t) = None)"

definition homed_hashes ::
  "raw_torrent list \<Rightarrow> move_rule list \<Rightarrow> (string \<times> string) list \<Rightarrow> string list" where
  "homed_hashes raw rules paths = map raw_hash (filter (is_homed rules paths) raw)"

section \<open>The store\<close>

record active_move =
  am_op_id :: string
  am_hash :: string
  am_cancel :: bool
  am_done :: nat
  am_total :: nat

record move_store =
  ms_journal :: journal
  ms_disk :: journal
  ms_active :: "(string \<times> active_move) list"

definition store_load :: "journal option \<Rightarrow> move_store" where
  "store_load file =
     (let j = (case file of Some j \<Rightarrow> j | None \<Rightarrow> []) in \<lparr>ms_journal = j, ms_disk = j, ms_active = []\<rparr>)"

text \<open>\<open>None\<close>: the write succeeded; \<open>Some j\<close>: it failed, and a later load reads \<open>j\<close>.\<close>

definition store_save :: "journal option \<Rightarrow> move_store \<Rightarrow> move_store" where
  "store_save failure st = st\<lparr>ms_disk := (case failure of None \<Rightarrow> ms_journal st | Some j \<Rightarrow> j)\<rparr>"

definition busy_hashes :: "move_store \<Rightarrow> string set" where
  "busy_hashes st = am_hash ` snd ` set (ms_active st) \<union> op_hash ` set (resumable (ms_journal st))"

definition register :: "active_move \<Rightarrow> move_store \<Rightarrow> move_store" where
  "register a st = st\<lparr>ms_active := AList.update (am_op_id a) a (ms_active st)\<rparr>"

definition unregister :: "string \<Rightarrow> move_store \<Rightarrow> move_store" where
  "unregister i st = st\<lparr>ms_active := AList.delete i (ms_active st)\<rparr>"

definition unregister_hash :: "string \<Rightarrow> move_store \<Rightarrow> move_store" where
  "unregister_hash h st = st\<lparr>ms_active := filter (\<lambda>(_, a). am_hash a \<noteq> h) (ms_active st)\<rparr>"

definition cancel_move :: "string \<Rightarrow> move_store \<Rightarrow> bool \<times> move_store" where
  "cancel_move i st =
     (case (case map_of (ms_active st) i of
              Some a \<Rightarrow> Some (i, a)
            | None \<Rightarrow> find (\<lambda>(_, a). am_hash a = i) (ms_active st)) of
        Some (k, a) \<Rightarrow> (True, st\<lparr>ms_active := AList.update k (a\<lparr>am_cancel := True\<rparr>) (ms_active st)\<rparr>)
      | None \<Rightarrow> (False, st))"

definition retryable :: "move_state \<Rightarrow> bool" where
  "retryable s = (s = Failed \<or> s = Cancelled)"

definition retry :: "string \<Rightarrow> move_store \<Rightarrow> bool \<times> move_store" where
  "retry h st =
     (let kept = filter (\<lambda>o'. \<not> (eq_ic (op_hash o') h \<and> retryable (op_state o'))) (ms_journal st)
      in (length kept \<noteq> length (ms_journal st), st\<lparr>ms_journal := kept\<rparr>))"

definition prune_unknown :: "string set \<Rightarrow> move_store \<Rightarrow> move_store" where
  "prune_unknown live st =
     st\<lparr>ms_journal := filter (\<lambda>o'. op_state o' = InProgress \<or> op_state o' = Done \<or> op_hash o' \<in> live) (ms_journal st)\<rparr>"

definition store_prune_done :: "move_store \<Rightarrow> move_store" where
  "store_prune_done st = st\<lparr>ms_journal := journal_prune_done (ms_journal st)\<rparr>"

record move_status =
  mst_id :: string
  mst_hash :: string
  mst_name :: string
  mst_src :: string
  mst_dst :: string
  mst_state :: move_state
  mst_error :: string
  mst_done :: nat
  mst_total :: nat

definition store_snapshot :: "move_store \<Rightarrow> move_status list" where
  "store_snapshot st =
     map (\<lambda>o'.
        (let size = nat (max 0 (op_size o'));
             (done_bytes, total_bytes) =
               (case map_of (ms_active st) (op_id o') of
                  Some a \<Rightarrow> (am_done a, max (am_total a) size)
                | None \<Rightarrow> (0, size))
         in \<lparr>mst_id = op_id o', mst_hash = op_hash o', mst_name = op_name o', mst_src = op_src o',
             mst_dst = op_dst o', mst_state = op_state o', mst_error = op_error o',
             mst_done = done_bytes, mst_total = total_bytes\<rparr>))
       (filter (\<lambda>o'. op_state o' \<noteq> Done) (ms_journal st))"

section \<open>The world of a move\<close>

datatype daemon_call =
    CallList
  | CallStop string
  | CallStart string
  | CallSetDirectory string string
  | CallClearFinalDir string

datatype move_event = StateChanged | Progress nat nat

datatype trace_item = Called daemon_call | Saved journal | Emitted move_event | MovedData

record move_world =
  w_store :: move_store
  w_saves :: "journal option list"
  w_fs :: fs_state
  w_rows :: "raw_torrent list option"
  w_replies :: "rtorrent_error option list"
  w_join :: "string option"
  w_trace :: "trace_item list"

definition trace :: "trace_item \<Rightarrow> move_world \<Rightarrow> move_world" where
  "trace x w = w\<lparr>w_trace := w_trace w @ [x]\<rparr>"

definition persist :: "move_world \<Rightarrow> move_world" where
  "persist w =
     (let failure = (case w_saves w of [] \<Rightarrow> None | f # _ \<Rightarrow> f);
          st = store_save failure (w_store w)
      in trace (Saved (ms_disk st)) (w\<lparr>w_store := st, w_saves := tl (w_saves w)\<rparr>))"

definition call_daemon :: "daemon_call \<Rightarrow> move_world \<Rightarrow> rtorrent_error option \<times> move_world" where
  "call_daemon c w =
     (case w_replies w of [] \<Rightarrow> None | r # _ \<Rightarrow> r, trace (Called c) (w\<lparr>w_replies := tl (w_replies w)\<rparr>))"

definition on_store :: "(move_store \<Rightarrow> move_store) \<Rightarrow> move_world \<Rightarrow> move_world" where
  "on_store f w = w\<lparr>w_store := f (w_store w)\<rparr>"

definition on_journal :: "(journal \<Rightarrow> journal) \<Rightarrow> move_world \<Rightarrow> move_world" where
  "on_journal f = on_store (\<lambda>st. st\<lparr>ms_journal := f (ms_journal st)\<rparr>)"

definition mark :: "string \<Rightarrow> move_state \<Rightarrow> string \<Rightarrow> int \<Rightarrow> move_world \<Rightarrow> move_world" where
  "mark i st err now w = trace (Emitted StateChanged) (persist (on_journal (journal_mark i st err now) w))"

fun terminal :: "move_state \<Rightarrow> bool" where
  "terminal Done = True"
| "terminal Failed = True"
| "terminal Cancelled = True"
| "terminal _ = False"

definition finish :: "string \<Rightarrow> move_state \<Rightarrow> string \<Rightarrow> int \<Rightarrow> move_world \<Rightarrow> move_world" where
  "finish i st err now w =
     (let w' = mark i st err now w in if terminal st then on_store (unregister i) w' else w')"

section \<open>One move\<close>

record move_task =
  mt_intent :: move_intent
  mt_local_src :: path
  mt_local_dst_dir :: path
  mt_free :: "int option"
  mt_policy :: collision_policy
  mt_now :: int

datatype move_outcome = MoveDone string | MoveCancelled | MoveBusy | MoveFailed string

definition dir_join :: "string \<Rightarrow> string \<Rightarrow> string" where
  "dir_join dir name = join_path (trim_end_char slash dir) name"

definition file_name :: "string \<Rightarrow> string" where
  "file_name full = last (split_on slash (trim_end_char slash full))"

definition siblings_lower :: "node \<Rightarrow> path \<Rightarrow> string list" where
  "siblings_lower rt dir =
     (case look rt dir of Some (Dir es) \<Rightarrow> map (\<lambda>e. to_lower (fst e)) es | _ \<Rightarrow> [])"

definition show_tenths :: "rat \<Rightarrow> string" where
  "show_tenths v = (let t = round_even (v * 10) in show_int (t div 10) @ CHR ''.'' # show_int (t mod 10))"

fun scale_bytes :: "f64 \<Rightarrow> string list \<Rightarrow> f64 \<times> string" where
  "scale_bytes v [] = (v, [])"
| "scale_bytes v [u] = (v, u)"
| "scale_bytes v (u # us) = (if v \<ge> 1024 then scale_bytes (f64_div v 1024) us else (v, u))"

definition fmt_bytes :: "int \<Rightarrow> string" where
  "fmt_bytes n =
     (let (v, u) = scale_bytes (f64_of_int (max 0 n)) [''B'', ''KiB'', ''MiB'', ''GiB'', ''TiB''] in
      if u = ''B'' then show_int (max 0 n) @ '' B'' else show_tenths v @ '' '' @ u)"

definition planned_op :: "move_task \<Rightarrow> move_op" where
  "planned_op task =
     (let i = mt_intent task in
      \<lparr>op_id = make_id (mi_hash i) (mt_now task), op_hash = mi_hash i, op_name = mi_name i,
       op_src = mi_src_base i, op_dst = dir_join (mi_dst_dir i) (trim (mi_name i)), op_state = Pending,
       op_error = [], op_size = mi_size i, op_created = mt_now task, op_updated = mt_now task\<rparr>)"

fun set_dst :: "string \<Rightarrow> string \<Rightarrow> int \<Rightarrow> journal \<Rightarrow> journal" where
  "set_dst i dst now [] = []"
| "set_dst i dst now (o' # j) =
     (if op_id o' = i then o'\<lparr>op_dst := dst, op_updated := now\<rparr> # j else o' # set_dst i dst now j)"

definition fail_move :: "move_task \<Rightarrow> string \<Rightarrow> move_world \<Rightarrow> move_outcome \<times> move_world" where
  "fail_move task msg w = (MoveFailed msg, finish (op_id (planned_op task)) Failed msg (mt_now task) w)"

definition begin_move :: "move_task \<Rightarrow> move_world \<Rightarrow> move_world" where
  "begin_move task w =
     trace (Emitted StateChanged) (persist (on_journal (\<lambda>j. snd (journal_add (planned_op task) j)) w))"

definition resume_torrent :: "bool \<Rightarrow> string \<Rightarrow> move_world \<Rightarrow> move_world" where
  "resume_torrent resume h w = (if resume then snd (call_daemon (CallStart h) w) else w)"

text \<open>Whether the torrent runs at move time: the intent says so, or the live re-read does.\<close>

definition runs_now :: "move_intent \<Rightarrow> move_world \<Rightarrow> bool \<times> move_world" where
  "runs_now i w =
     (if mi_was_active i then (True, w)
      else ((case w_rows w of
               None \<Rightarrow> False
             | Some rows \<Rightarrow> (case find (\<lambda>t. eq_ic (raw_hash t) (mi_hash i)) rows of
                              None \<Rightarrow> False | Some t \<Rightarrow> raw_is_active t)),
            trace (Called CallList) w))"

text \<open>The blocking copy; every report becomes a progress event. A task that panics leaves the disk alone.\<close>

definition run_copy :: "move_task \<Rightarrow> move_world \<Rightarrow> (string + (fs_move_error + path)) \<times> move_world" where
  "run_copy task w =
     (case w_join w of
        Some e \<Rightarrow> (Inl e, w)
      | None \<Rightarrow>
          (let (r, fs') = move_with_progress (mt_local_src task) (mt_local_dst_dir task) (w_fs w);
               size = nat (max 0 (mi_size (mt_intent task)));
               news = drop (length (fs_reports (w_fs w))) (fs_reports fs')
           in (Inr r, w\<lparr>w_fs := fs',
                 w_trace := w_trace w @ MovedData # map (\<lambda>(d, _). Emitted (Progress d size)) news\<rparr>)))"

definition point_daemon :: "move_task \<Rightarrow> bool \<Rightarrow> path \<Rightarrow> move_world \<Rightarrow> move_outcome \<times> move_world" where
  "point_daemon task resume target w =
     (let i = mt_intent task;
          base = dir_join (mi_dst_dir i) (if target = [] then mi_name i else last target)
      in case call_daemon (CallSetDirectory (mi_hash i) (mi_dst_dir i)) w of
           (Some e, w1) \<Rightarrow>
             fail_move task (''moved '' @ mi_name i @ '' on disk but the daemon still points at the old folder (''
               @ error_text e @ '') - retry to finish'') w1
         | (None, w1) \<Rightarrow>
             (let w2 = snd (call_daemon (CallClearFinalDir (mi_hash i)) w1);
                  w3 = resume_torrent resume (mi_hash i) w2
              in (MoveDone base, finish (op_id (planned_op task)) Done [] (mt_now task) w3)))"

definition copy_and_point :: "move_task \<Rightarrow> bool \<Rightarrow> move_world \<Rightarrow> move_outcome \<times> move_world" where
  "copy_and_point task resume w =
     (let i = mt_intent task; oid = op_id (planned_op task); now = mt_now task;
          w1 = mark oid InProgress [] now w
      in case run_copy task w1 of
           (Inr (Inr target), w2) \<Rightarrow> point_daemon task resume target w2
         | (Inr (Inl FsCancelled), w2) \<Rightarrow>
             (MoveCancelled, finish oid Cancelled ''move cancelled - resumed in place'' now
                (resume_torrent resume (mi_hash i) w2))
         | (Inr (Inl (FsFailed e)), w2) \<Rightarrow>
             fail_move task (''could not move '' @ mi_name i @ '': '' @ e) (resume_torrent resume (mi_hash i) w2)
         | (Inl e, w2) \<Rightarrow>
             fail_move task (''move task failed for '' @ mi_name i @ '': '' @ e)
               (resume_torrent resume (mi_hash i) w2))"

definition stop_and_copy :: "move_task \<Rightarrow> string \<Rightarrow> move_world \<Rightarrow> move_outcome \<times> move_world" where
  "stop_and_copy task target_name w =
     (let i = mt_intent task;
          w1 = persist (on_journal (set_dst (op_id (planned_op task)) (dir_join (mi_dst_dir i) target_name) (mt_now task)) w);
          (resume, w2) = runs_now i w1
      in if resume
         then (case call_daemon (CallStop (mi_hash i)) w2 of
                 (Some e, w3) \<Rightarrow>
                   fail_move task (''could not stop '' @ mi_name i @ '' before moving: '' @ error_text e) w3
               | (None, w3) \<Rightarrow> copy_and_point task True w3)
         else copy_and_point task False w2)"

definition is_busy :: "string \<Rightarrow> move_store \<Rightarrow> bool" where
  "is_busy h st = list_ex (\<lambda>o'. eq_ic (op_hash o') h) (resumable (ms_journal st))"

definition execute_move :: "move_task \<Rightarrow> move_world \<Rightarrow> move_outcome \<times> move_world" where
  "execute_move task w =
     (let i = mt_intent task in
      if is_busy (mi_hash i) (w_store w) then (MoveBusy, w)
      else
        let w1 = begin_move task w in
        case preflight (mi_remaining i) (mt_free task) of
          BlockedNoSpace req free \<Rightarrow>
            fail_move task (''not enough free space to move '' @ mi_name i @ '' (need '' @ fmt_bytes req
              @ '', have '' @ fmt_bytes free @ '')'') w1
        | _ \<Rightarrow>
            (case resolve_collision (mi_dst_dir i) (mi_name i)
                    (siblings_lower (fs_root (w_fs w1)) (mt_local_dst_dir task)) (mt_policy task) of
               Inl msg \<Rightarrow> fail_move task msg w1
             | Inr full \<Rightarrow> stop_and_copy task (file_name full) w1))"

section \<open>Recovery after a restart\<close>

definition parent_dir :: "string \<Rightarrow> string" where
  "parent_dir p =
     (case rfind slash (trim_end_char slash p) of
        None \<Rightarrow> []
      | Some n \<Rightarrow> if n = 0 then [slash] else take n p)"

definition resume_op :: "string set \<Rightarrow> (string \<Rightarrow> bool) \<Rightarrow> int \<Rightarrow> move_op \<Rightarrow> move_world \<Rightarrow> move_world" where
  "resume_op live exists_local now o' w =
     (if op_state o' \<noteq> InProgress then w
      else if exists_local (op_dst o') \<and> op_hash o' \<in> live
      then (case call_daemon (CallSetDirectory (op_hash o') (parent_dir (op_dst o'))) w of
              (Some _, w1) \<Rightarrow> w1
            | (None, w1) \<Rightarrow>
                (case call_daemon (CallClearFinalDir (op_hash o')) w1 of
                   (Some _, w2) \<Rightarrow> w2
                 | (None, w2) \<Rightarrow> mark (op_id o') Done [] now w2))
      else if exists_local (op_dst o')
      then mark (op_id o') Failed ''torrent was removed mid-move; moved data was left in place'' now w
      else mark (op_id o') Pending [] now w)"

definition resume_moves :: "string set \<Rightarrow> (string \<Rightarrow> bool) \<Rightarrow> int \<Rightarrow> move_world \<Rightarrow> move_world" where
  "resume_moves live exists_local now w =
     fold (resume_op live exists_local now) (resumable (ms_journal (w_store w)))
       (persist (on_store (prune_unknown live) w))"

section \<open>Facts about planning\<close>

lemma first_settled_iff:
  "t \<in> set (first_settled seen ts) \<Longrightarrow> t \<in> set ts \<and> settled t \<and> raw_hash t \<notin> seen"
  by (induction ts arbitrary: seen) (auto split: if_splits)

lemma distinct_first_settled: "distinct (map raw_hash (first_settled seen ts))"
proof (induction ts arbitrary: seen)
  case (Cons t ts)
  then show ?case using first_settled_iff [of _ "insert (raw_hash t) seen" ts] by fastforce
qed simp

lemma first_settled_all:
  "distinct (map raw_hash ts) \<Longrightarrow> t \<in> set ts \<Longrightarrow> settled t \<Longrightarrow> raw_hash t \<notin> seen \<Longrightarrow>
   t \<in> set (first_settled seen ts)"
proof (induction ts arbitrary: seen)
  case (Cons u us)
  then show ?case by (cases "t = u") (auto simp: image_iff)
qed simp

lemma intent_hash: "intent_of rules paths t = Some i \<Longrightarrow> mi_hash i = raw_hash t"
  by (auto simp: intent_of_def Let_def split: if_splits option.splits)

lemma distinct_map_filter:
  "(\<And>x y. f x = Some y \<Longrightarrow> g y = h x) \<Longrightarrow> distinct (map h xs) \<Longrightarrow> distinct (map g (List.map_filter f xs))"
proof (induction xs)
  case (Cons x xs)
  then show ?case
    by (cases "f x") (auto simp: map_filter_simps set_map_filter image_iff)
qed (simp add: map_filter_simps)

lemma distinct_map_filter_rows: "distinct (map f xs) \<Longrightarrow> distinct (map f (filter P xs))"
  by (induction xs) auto

lemma settled_homed_not_planned:
  "is_homed rules paths t \<Longrightarrow> intent_of rules paths t = None"
  by (auto simp: is_homed_def intent_of_def Let_def)

lemma no_rules_no_dest: "completion_destination label tags [] [] d = d"
  by (simp add: completion_destination_def resolve_destination_def label_rules_def Let_def)

text \<open>One planning tick proposes at most one move per torrent, only for complete, settled torrents
  that are neither skipped nor busy, and only on an explicit intent; with distinct rows it
  proposes every such torrent that has a move to make, and none of those whose recorded home it reports
  as reached. Without rules, label paths and recorded directories it proposes nothing.\<close>

theorem decide_moves_explicit:
  "distinct (map mi_hash (decide_moves raw rules paths skip busy)) \<and>
   (\<forall>i \<in> set (decide_moves raw rules paths skip busy). \<exists>t \<in> set raw.
      settled t \<and> raw_hash t \<notin> skip \<union> busy \<and> intent_of rules paths t = Some i \<and> mi_dst_dir i \<noteq> [] \<and>
      (rules = [] \<and> paths = [] \<longrightarrow> trim (raw_final_dir t) \<noteq> [] \<and> mi_dst_dir i = raw_final_dir t)) \<and>
   (distinct (map raw_hash raw) \<longrightarrow>
      set (decide_moves raw rules paths skip busy) =
        {i. \<exists>t \<in> set raw. settled t \<and> raw_hash t \<notin> skip \<union> busy \<and> intent_of rules paths t = Some i} \<and>
      mi_hash ` set (decide_moves raw rules paths skip busy) \<inter> set (homed_hashes raw rules paths) = {})"
proof (intro conjI impI)
  show "distinct (map mi_hash (decide_moves raw rules paths skip busy))"
    unfolding decide_moves_def
    by (rule distinct_map_filter [where h = raw_hash])
       (use intent_hash distinct_first_settled distinct_map_filter_rows in blast)+
  have mem: "\<exists>t \<in> set raw. settled t \<and> raw_hash t \<notin> skip \<union> busy \<and> intent_of rules paths t = Some i"
    if "i \<in> set (decide_moves raw rules paths skip busy)" for i
    using that first_settled_iff [of _ "{}" raw] by (auto simp: decide_moves_def set_map_filter)
  have dst: "mi_dst_dir i \<noteq> [] \<and> (rules = [] \<and> paths = [] \<longrightarrow> trim (raw_final_dir t) \<noteq> [] \<and> mi_dst_dir i = raw_final_dir t)"
    if "intent_of rules paths t = Some i" for t i
    using that by (auto simp: intent_of_def Let_def no_rules_no_dest split: if_splits option.splits)
  show "\<forall>i \<in> set (decide_moves raw rules paths skip busy). \<exists>t \<in> set raw.
      settled t \<and> raw_hash t \<notin> skip \<union> busy \<and> intent_of rules paths t = Some i \<and> mi_dst_dir i \<noteq> [] \<and>
      (rules = [] \<and> paths = [] \<longrightarrow> trim (raw_final_dir t) \<noteq> [] \<and> mi_dst_dir i = raw_final_dir t)"
    using mem dst by blast
  assume d: "distinct (map raw_hash raw)"
  show "set (decide_moves raw rules paths skip busy) =
      {i. \<exists>t \<in> set raw. settled t \<and> raw_hash t \<notin> skip \<union> busy \<and> intent_of rules paths t = Some i}"
    using mem first_settled_all [OF d, of _ "{}"] by (fastforce simp: decide_moves_def set_map_filter)
  show "mi_hash ` set (decide_moves raw rules paths skip busy) \<inter> set (homed_hashes raw rules paths) = {}"
    using mem d distinct_key_eq [OF d] by (force simp: homed_hashes_def settled_homed_not_planned dest: intent_hash)
qed

section \<open>What a move does, in order\<close>

definition is_act :: "trace_item \<Rightarrow> bool" where
  "is_act x = (case x of Called _ \<Rightarrow> True | MovedData \<Rightarrow> True | _ \<Rightarrow> False)"

definition acts :: "move_world \<Rightarrow> trace_item list" where
  "acts w = filter is_act (w_trace w)"

lemma acts_simps [simp]:
  "acts (persist w) = acts w"
  "acts (on_store f w) = acts w"
  "acts (on_journal g w) = acts w"
  "acts (trace (Emitted e) w) = acts w"
  "acts (trace (Called c) w) = acts w @ [Called c]"
  "acts (snd (call_daemon c w)) = acts w @ [Called c]"
  by (simp_all add: acts_def persist_def trace_def on_store_def on_journal_def call_daemon_def Let_def is_act_def)

lemma acts_mark [simp]: "acts (mark i st e now w) = acts w" "acts (finish i st e now w) = acts w"
  by (simp_all add: mark_def finish_def Let_def)

lemma acts_begin [simp]: "acts (begin_move task w) = acts w"
  by (simp add: begin_move_def)

lemma acts_resume [simp]:
  "acts (resume_torrent r h w) = acts w @ (if r then [Called (CallStart h)] else [])"
  by (simp add: resume_torrent_def)

lemma call_daemon_acts: "call_daemon c w = (r, w') \<Longrightarrow> acts w' = acts w @ [Called c]"
  using acts_simps(6) [of c w] by simp

lemma run_copy_acts:
  "run_copy task w = (r, w') \<Longrightarrow> acts w' = acts w @ (case r of Inl _ \<Rightarrow> [] | Inr _ \<Rightarrow> [MovedData])"
  by (auto simp: run_copy_def Let_def acts_def is_act_def filter_map o_def split: option.splits prod.splits)

lemma w_rows_keep [simp]: "w_rows (persist w) = w_rows w" "w_rows (on_store f w) = w_rows w"
  "w_rows (on_journal g w) = w_rows w" "w_rows (trace x w) = w_rows w"
  by (simp_all add: persist_def trace_def on_store_def on_journal_def Let_def)

lemma w_rows_begin [simp]: "w_rows (begin_move task w) = w_rows w"
  by (simp add: begin_move_def)

definition listing :: "move_intent \<Rightarrow> trace_item list" where
  "listing i = (if mi_was_active i then [] else [Called CallList])"

definition stopping :: "move_intent \<Rightarrow> move_world \<Rightarrow> trace_item list" where
  "stopping i w = (if fst (runs_now i w) then [Called (CallStop (mi_hash i))] else [])"

definition starting :: "move_intent \<Rightarrow> move_world \<Rightarrow> trace_item list" where
  "starting i w = (if fst (runs_now i w) then [Called (CallStart (mi_hash i))] else [])"

lemma runs_now_keep: "w_rows w' = w_rows w \<Longrightarrow> fst (runs_now i w') = fst (runs_now i w)"
  by (simp add: runs_now_def)

lemma acts_runs_now: "runs_now i w = (r, w') \<Longrightarrow> acts w' = acts w @ listing i \<and> r = fst (runs_now i w)"
  by (auto simp: runs_now_def listing_def split: if_splits)

lemma copy_and_point_acts:
  assumes "copy_and_point task resume w = (out, w')"
  shows "(let i = mt_intent task; start = (if resume then [Called (CallStart (mi_hash i))] else []);
      set_dir = Called (CallSetDirectory (mi_hash i) (mi_dst_dir i)); did = (\<lambda>xs. acts w' = acts w @ xs) in
    case out of
      MoveDone _ \<Rightarrow> did ([MovedData, set_dir, Called (CallClearFinalDir (mi_hash i))] @ start)
    | MoveCancelled \<Rightarrow> did (MovedData # start)
    | MoveFailed _ \<Rightarrow> did (MovedData # start) \<or> did start \<or> did [MovedData, set_dir]
    | MoveBusy \<Rightarrow> False)"
proof -
  let ?i = "mt_intent task"
  let ?w1 = "mark (op_id (planned_op task)) InProgress [] (mt_now task) w"
  obtain r w2 where rc: "run_copy task ?w1 = (r, w2)" by (cases "run_copy task ?w1")
  have a2: "acts w2 = acts w @ (case r of Inl _ \<Rightarrow> [] | Inr _ \<Rightarrow> [MovedData])"
    using run_copy_acts [OF rc] by simp
  show ?thesis
  proof (cases r)
    case (Inl e)
    with assms rc a2 show ?thesis by (auto simp: copy_and_point_def Let_def fail_move_def)
  next
    case (Inr r')
    show ?thesis
    proof (cases r')
      case (Inl e)
      with Inr assms rc a2 show ?thesis
        by (cases e) (auto simp: copy_and_point_def Let_def fail_move_def)
    next
      case (Inr target)
      obtain q w3 where sd: "call_daemon (CallSetDirectory (mi_hash ?i) (mi_dst_dir ?i)) w2 = (q, w3)"
        by (cases "call_daemon (CallSetDirectory (mi_hash ?i) (mi_dst_dir ?i)) w2")
      have a3: "acts w3 = acts w @ [MovedData, Called (CallSetDirectory (mi_hash ?i) (mi_dst_dir ?i))]"
        using call_daemon_acts [OF sd] a2 \<open>r = Inr r'\<close> by simp
      from assms rc Inr \<open>r = Inr r'\<close> sd a3 show ?thesis
        by (cases q) (auto simp: copy_and_point_def point_daemon_def Let_def fail_move_def)
    qed
  qed
qed

lemma stop_and_copy_acts:
  assumes "stop_and_copy task name w = (out, w')"
  shows "(let i = mt_intent task; pre = listing i @ stopping i w;
      set_dir = Called (CallSetDirectory (mi_hash i) (mi_dst_dir i)); did = (\<lambda>xs. acts w' = acts w @ xs) in
    case out of
      MoveDone _ \<Rightarrow> did (pre @ [MovedData, set_dir, Called (CallClearFinalDir (mi_hash i))] @ starting i w)
    | MoveCancelled \<Rightarrow> did (pre @ MovedData # starting i w)
    | MoveFailed _ \<Rightarrow> did pre \<or> did (pre @ MovedData # starting i w) \<or> did (pre @ starting i w) \<or>
                      did (pre @ [MovedData, set_dir])
    | MoveBusy \<Rightarrow> False)"
proof -
  let ?i = "mt_intent task"
  let ?w1 = "persist (on_journal (set_dst (op_id (planned_op task)) (dir_join (mi_dst_dir ?i) name) (mt_now task)) w)"
  obtain run w2 where r: "runs_now ?i ?w1 = (run, w2)" by (cases "runs_now ?i ?w1")
  have a2: "acts w2 = acts w @ listing ?i" "run = fst (runs_now ?i w)"
    using acts_runs_now [OF r] runs_now_keep [of ?w1 w ?i] by simp_all
  show ?thesis
  proof (cases run)
    case False
    with assms r have c: "copy_and_point task False w2 = (out, w')" by (simp add: stop_and_copy_def Let_def)
    show ?thesis using copy_and_point_acts [OF c] a2 False
      by (cases out) (auto simp: Let_def stopping_def starting_def)
  next
    case True
    obtain q w3 where st: "call_daemon (CallStop (mi_hash ?i)) w2 = (q, w3)"
      by (cases "call_daemon (CallStop (mi_hash ?i)) w2")
    have a3: "acts w3 = acts w @ listing ?i @ stopping ?i w"
      using call_daemon_acts [OF st] a2 True by (simp add: stopping_def)
    show ?thesis
    proof (cases q)
      case (Some e)
      with assms r True st a3 show ?thesis
        by (auto simp: stop_and_copy_def Let_def fail_move_def)
    next
      case None
      with assms r True st have c: "copy_and_point task True w3 = (out, w')"
        by (simp add: stop_and_copy_def Let_def)
      show ?thesis using copy_and_point_acts [OF c] a3 a2 True
        by (cases out) (auto simp: Let_def stopping_def starting_def)
    qed
  qed
qed

text \<open>The protocol of one move, on every branch. A busy torrent is left alone. Otherwise the
  daemon sees, in this order and nothing else: a live re-read when the intent says the torrent is idle, a
  stop when it runs, the data move, the directory write, the clearing of the recorded home, and a start
  exactly when it was stopped. A cancel restarts the torrent after the data move; a failure stops the
  sequence early and restarts it too, except when the stop itself failed and when the
  directory write failed: then the data is at its new place and the torrent stays stopped.\<close>

theorem execute_move_protocol:
  assumes "execute_move task w = (out, w')"
  shows "(let i = mt_intent task; pre = listing i @ stopping i w;
      set_dir = Called (CallSetDirectory (mi_hash i) (mi_dst_dir i)); did = (\<lambda>xs. acts w' = acts w @ xs) in
    (out = MoveBusy \<longleftrightarrow> is_busy (mi_hash i) (w_store w)) \<and>
    (case out of
       MoveBusy \<Rightarrow> w' = w
     | MoveDone _ \<Rightarrow> did (pre @ [MovedData, set_dir, Called (CallClearFinalDir (mi_hash i))] @ starting i w)
     | MoveCancelled \<Rightarrow> did (pre @ MovedData # starting i w)
     | MoveFailed _ \<Rightarrow> did [] \<or> did pre \<or> did (pre @ MovedData # starting i w) \<or> did (pre @ starting i w) \<or>
                       did (pre @ [MovedData, set_dir])))"
proof (cases "is_busy (mi_hash (mt_intent task)) (w_store w)")
  case True
  with assms show ?thesis by (simp add: execute_move_def Let_def)
next
  case False
  let ?i = "mt_intent task" and ?w1 = "begin_move task w"
  have keep: "stopping ?i ?w1 = stopping ?i w" "starting ?i ?w1 = starting ?i w"
    using runs_now_keep [of ?w1 w ?i] by (simp_all add: stopping_def starting_def)
  have fail: ?thesis if "fail_move task m ?w1 = (out, w')" for m
    using that False by (auto simp: fail_move_def Let_def)
  consider (fails) m where "fail_move task m ?w1 = (out, w')"
    | (goes) name where "stop_and_copy task name ?w1 = (out, w')"
    using assms False by (auto simp: execute_move_def Let_def split: preflight_result.splits sum.splits)
  then show ?thesis
  proof cases
    case (goes name)
    from stop_and_copy_acts [OF this] False keep show ?thesis
      by (cases out) (auto simp: Let_def)
  qed (rule fail)
qed

lemma execute_move_protocol_busy:
  "execute_move task w = (out, w') \<Longrightarrow> out = MoveBusy \<longleftrightarrow> is_busy (mi_hash (mt_intent task)) (w_store w)"
  using stop_and_copy_acts
  by (fastforce simp: execute_move_def Let_def fail_move_def split: preflight_result.splits sum.splits if_splits)

section \<open>The journal of a move\<close>

text \<open>\<open>owns\<close>: every save succeeds, and the journal is what it was with this move's entry at the end, in
  state \<open>st\<close>, on disk as in memory.\<close>

definition owns :: "move_task \<Rightarrow> journal \<Rightarrow> move_state \<Rightarrow> move_world \<Rightarrow> bool" where
  "owns task j0 st w =
     (w_saves w = [] \<and> ms_disk (w_store w) = ms_journal (w_store w) \<and>
      (\<exists>o'. ms_journal (w_store w) = j0 @ [o'] \<and> op_id o' = op_id (planned_op task) \<and>
            op_hash o' = mi_hash (mt_intent task) \<and> op_state o' = st))"

lemma journal_mark_last:
  "i \<notin> op_id ` set j \<Longrightarrow> op_id o' = i \<Longrightarrow>
   journal_mark i st e now (j @ [o']) = j @ [o'\<lparr>op_state := st, op_error := e, op_updated := now\<rparr>]"
  by (induction j) auto

lemma set_dst_last:
  "i \<notin> op_id ` set j \<Longrightarrow> op_id o' = i \<Longrightarrow>
   set_dst i d now (j @ [o']) = j @ [o'\<lparr>op_dst := d, op_updated := now\<rparr>]"
  by (induction j) auto

lemma persist_ok:
  "w_saves w = [] \<Longrightarrow> persist w =
     w\<lparr>w_store := (w_store w)\<lparr>ms_disk := ms_journal (w_store w)\<rparr>,
       w_trace := w_trace w @ [Saved (ms_journal (w_store w))]\<rparr>"
  by (simp add: persist_def store_save_def trace_def)

fun holds_now :: "string \<Rightarrow> bool \<times> bool \<Rightarrow> trace_item \<Rightarrow> bool \<times> bool" where
  "holds_now h (held, ok) (Saved j) = (list_ex (holds_hash h) j, ok)"
| "holds_now h (held, ok) (Called c) = (held, ok \<and> (c = CallList \<or> held))"
| "holds_now h (held, ok) MovedData = (held, ok \<and> held)"
| "holds_now h (held, ok) (Emitted e) = (held, ok)"

text \<open>\<open>write_ahead h tr\<close>: at every daemon write and data move of the trace, the journal last saved before
  it holds a resumable entry for \<open>h\<close>.\<close>

definition after_trace :: "string \<Rightarrow> move_world \<Rightarrow> bool \<times> bool" where
  "after_trace h w = foldl (holds_now h) (False, True) (w_trace w)"

definition write_ahead :: "string \<Rightarrow> move_world \<Rightarrow> bool" where
  "write_ahead h w = snd (after_trace h w)"

definition guarded :: "move_task \<Rightarrow> journal \<Rightarrow> move_state \<Rightarrow> move_world \<Rightarrow> bool" where
  "guarded task j0 st w =
     (owns task j0 st w \<and> write_ahead (mi_hash (mt_intent task)) w \<and>
      (resumable_state st \<longrightarrow> fst (after_trace (mi_hash (mt_intent task)) w)))"

abbreviation fresh_id :: "move_task \<Rightarrow> journal \<Rightarrow> bool" where
  "fresh_id task j0 \<equiv> op_id (planned_op task) \<notin> op_id ` set j0"

lemma after_trace_append: "after_trace h (w\<lparr>w_trace := w_trace w @ xs\<rparr>) = foldl (holds_now h) (after_trace h w) xs"
  by (simp add: after_trace_def)

lemma after_trace_eq: "w_trace w' = w_trace w @ xs \<Longrightarrow> after_trace h w' = foldl (holds_now h) (after_trace h w) xs"
  by (simp add: after_trace_def)

lemma planned_op_simps [simp]:
  "op_hash (planned_op task) = mi_hash (mt_intent task)" "op_state (planned_op task) = Pending"
  by (simp_all add: planned_op_def Let_def)

lemma guarded_mark:
  assumes "guarded task j0 st w" "fresh_id task j0"
  shows "guarded task j0 st' (mark (op_id (planned_op task)) st' e now w)"
proof -
  let ?h = "mi_hash (mt_intent task)" and ?w' = "mark (op_id (planned_op task)) st' e now w"
  from assms obtain o' where o': "w_saves w = []" "ms_journal (w_store w) = j0 @ [o']"
    "op_id o' = op_id (planned_op task)" "op_hash o' = ?h"
    by (auto simp: guarded_def owns_def)
  let ?o = "o'\<lparr>op_state := st', op_error := e, op_updated := now\<rparr>"
  have j: "ms_journal (w_store ?w') = j0 @ [?o]" "ms_disk (w_store ?w') = j0 @ [?o]" "w_saves ?w' = []"
    and t: "w_trace ?w' = w_trace w @ [Saved (j0 @ [?o]), Emitted StateChanged]"
    using o' assms(2)
    by (simp_all add: mark_def persist_ok on_journal_def on_store_def trace_def journal_mark_last)
  obtain b c where a: "after_trace ?h w = (b, c)" by (cases "after_trace ?h w")
  have "after_trace ?h ?w' = (list_ex (holds_hash ?h) (j0 @ [?o]), c)"
    unfolding after_trace_eq [OF t] a by simp
  with assms(1) a j o' show ?thesis
    by (auto simp: guarded_def owns_def write_ahead_def holds_hash_def)
qed

lemma guarded_call:
  assumes "guarded task j0 st w" "resumable_state st"
  shows "guarded task j0 st (snd (call_daemon c w))"
proof -
  let ?h = "mi_hash (mt_intent task)"
  have t: "w_trace (snd (call_daemon c w)) = w_trace w @ [Called c]"
    by (simp add: call_daemon_def trace_def)
  obtain b d where a: "after_trace ?h w = (b, d)" by (cases "after_trace ?h w")
  have "after_trace ?h (snd (call_daemon c w)) = (b, d \<and> (c = CallList \<or> b))"
    unfolding after_trace_eq [OF t] a by simp
  moreover have "w_store (snd (call_daemon c w)) = w_store w" "w_saves (snd (call_daemon c w)) = w_saves w"
    by (simp_all add: call_daemon_def trace_def)
  ultimately show ?thesis using assms a by (auto simp: guarded_def owns_def write_ahead_def)
qed

lemma guarded_resume:
  "guarded task j0 st w \<Longrightarrow> resumable_state st \<Longrightarrow> guarded task j0 st (resume_torrent r h w)"
  by (simp add: resume_torrent_def guarded_call)

lemma foldl_emitted: "foldl (holds_now h) s (map (\<lambda>(d, _). Emitted (Progress d sz)) xs) = s"
  by (induction xs arbitrary: s) (auto split: prod.splits)

lemma guarded_copy:
  assumes "guarded task j0 st w" "resumable_state st" "run_copy task w = (r, w')"
  shows "guarded task j0 st w'"
proof (cases "w_join w")
  case (Some e)
  with assms show ?thesis by (simp add: run_copy_def)
next
  case None
  let ?h = "mi_hash (mt_intent task)"
  obtain r0 fs' where mv: "move_with_progress (mt_local_src task) (mt_local_dst_dir task) (w_fs w) = (r0, fs')"
    by (cases "move_with_progress (mt_local_src task) (mt_local_dst_dir task) (w_fs w)")
  let ?xs = "drop (length (fs_reports (w_fs w))) (fs_reports fs')"
  have t: "w_trace w' = w_trace w @ MovedData #
      map (\<lambda>(d, _). Emitted (Progress d (nat (max 0 (mi_size (mt_intent task)))))) ?xs"
    and k: "w_store w' = w_store w" "w_saves w' = w_saves w"
    using None assms(3) mv by (auto simp: run_copy_def Let_def)
  obtain b d where a: "after_trace ?h w = (b, d)" by (cases "after_trace ?h w")
  have "after_trace ?h w' = (b, d \<and> b)"
    unfolding after_trace_eq [OF t] a by (simp add: foldl_emitted)
  with assms(1,2) a k show ?thesis by (auto simp: guarded_def owns_def write_ahead_def)
qed

lemma guarded_list: "guarded task j0 st w \<Longrightarrow> runs_now i w = (r, w') \<Longrightarrow> guarded task j0 st w'"
proof -
  assume g: "guarded task j0 st w" and r: "runs_now i w = (r, w')"
  let ?h = "mi_hash (mt_intent task)"
  obtain b d where a: "after_trace ?h w = (b, d)" by (cases "after_trace ?h w")
  have "after_trace ?h (trace (Called CallList) w) = (b, d)"
    using a by (simp add: after_trace_def trace_def)
  with g r a show ?thesis
    by (auto simp: runs_now_def guarded_def owns_def write_ahead_def trace_def split: if_splits)
qed

lemma guarded_finish:
  assumes "guarded task j0 st w" "fresh_id task j0"
  shows "guarded task j0 st' (finish (op_id (planned_op task)) st' e now w)"
proof -
  have k: "guarded task j0 st' w \<Longrightarrow> guarded task j0 st' (on_store (unregister i) w)" for w i
    by (auto simp: guarded_def owns_def on_store_def unregister_def write_ahead_def after_trace_def)
  show ?thesis using guarded_mark [OF assms] by (simp add: finish_def Let_def k)
qed

fun final_state :: "move_outcome \<Rightarrow> move_state" where
  "final_state (MoveDone _) = Done"
| "final_state MoveCancelled = Cancelled"
| "final_state (MoveFailed _) = Failed"
| "final_state MoveBusy = Pending"

lemma guarded_fail:
  "guarded task j0 st w \<Longrightarrow> fresh_id task j0 \<Longrightarrow> fail_move task m w = (out, w') \<Longrightarrow>
   guarded task j0 (final_state out) w'"
  by (auto simp: fail_move_def guarded_finish)

lemma guarded_call': "guarded task j0 st w \<Longrightarrow> resumable_state st \<Longrightarrow> call_daemon c w = (r, w') \<Longrightarrow> guarded task j0 st w'"
  using guarded_call [of task j0 st w c] by simp

lemma guarded_point:
  assumes g: "guarded task j0 InProgress w" "fresh_id task j0" and run: "point_daemon task resume target w = (out, w')"
  shows "guarded task j0 (final_state out) w'"
proof -
  let ?i = "mt_intent task"
  obtain q w1 where sd: "call_daemon (CallSetDirectory (mi_hash ?i) (mi_dst_dir ?i)) w = (q, w1)"
    by (cases "call_daemon (CallSetDirectory (mi_hash ?i) (mi_dst_dir ?i)) w")
  have g1: "guarded task j0 InProgress w1" using guarded_call' [OF g(1) _ sd] by simp
  show ?thesis
  proof (cases q)
    case (Some e)
    with run sd g1 g(2) show ?thesis
      by (auto simp: point_daemon_def Let_def fail_move_def guarded_finish)
  next
    case None
    let ?w2 = "snd (call_daemon (CallClearFinalDir (mi_hash ?i)) w1)"
    have "guarded task j0 InProgress (resume_torrent resume (mi_hash ?i) ?w2)"
      by (rule guarded_resume [OF guarded_call [OF g1]]) simp_all
    from guarded_finish [OF this g(2), of Done] run sd None show ?thesis
      by (auto simp: point_daemon_def Let_def)
  qed
qed

lemma guarded_copy_and_point:
  assumes g: "guarded task j0 st w" "fresh_id task j0" and run: "copy_and_point task resume w = (out, w')"
  shows "guarded task j0 (final_state out) w'"
proof -
  let ?w1 = "mark (op_id (planned_op task)) InProgress [] (mt_now task) w"
  obtain r w2 where rc: "run_copy task ?w1 = (r, w2)" by (cases "run_copy task ?w1")
  have g2: "guarded task j0 InProgress w2"
    using guarded_copy [OF guarded_mark [OF g] _ rc] by simp
  note gback = guarded_resume [OF g2, of resume "mi_hash (mt_intent task)"]
  consider (home) target where "point_daemon task resume target w2 = (out, w')"
    | (cancelled) "out = MoveCancelled" "w' = finish (op_id (planned_op task)) Cancelled ''move cancelled - resumed in place''
        (mt_now task) (resume_torrent resume (mi_hash (mt_intent task)) w2)"
    | (failed) m where "fail_move task m (resume_torrent resume (mi_hash (mt_intent task)) w2) = (out, w')"
  proof (cases r)
    case (Inl e)
    with run rc have "fail_move task (''move task failed for '' @ mi_name (mt_intent task) @ '': '' @ e)
        (resume_torrent resume (mi_hash (mt_intent task)) w2) = (out, w')"
      by (simp add: copy_and_point_def Let_def)
    then show thesis by (rule failed)
  next
    case (Inr q)
    show thesis
    proof (cases q)
      case (Inr target)
      with run rc \<open>r = Inr q\<close> have "point_daemon task resume target w2 = (out, w')"
        by (simp add: copy_and_point_def Let_def)
      then show thesis by (rule home)
    next
      case (Inl f)
      show thesis
      proof (cases f)
        case FsCancelled
        with run rc \<open>r = Inr q\<close> Inl cancelled show thesis by (simp add: copy_and_point_def Let_def)
      next
        case (FsFailed e)
        with run rc \<open>r = Inr q\<close> Inl have "fail_move task (''could not move '' @ mi_name (mt_intent task) @ '': '' @ e)
            (resume_torrent resume (mi_hash (mt_intent task)) w2) = (out, w')"
          by (simp add: copy_and_point_def Let_def)
        then show thesis by (rule failed)
      qed
    qed
  qed
  then show ?thesis
  proof cases
    case home
    then show ?thesis by (rule guarded_point [OF g2 g(2)])
  next
    case cancelled
    with guarded_finish [OF gback g(2)] show ?thesis by simp
  next
    case failed
    with guarded_fail [OF gback g(2)] show ?thesis by simp
  qed
qed

lemma guarded_stop_and_copy:
  assumes g: "guarded task j0 Pending w" "fresh_id task j0" and run: "stop_and_copy task name w = (out, w')"
  shows "guarded task j0 (final_state out) w'"
proof -
  let ?i = "mt_intent task" and ?h = "mi_hash (mt_intent task)"
  let ?w1 = "persist (on_journal (set_dst (op_id (planned_op task)) (dir_join (mi_dst_dir ?i) name) (mt_now task)) w)"
  from g(1) obtain o' where o': "w_saves w = []" "ms_journal (w_store w) = j0 @ [o']"
    "op_id o' = op_id (planned_op task)" "op_hash o' = ?h" "op_state o' = Pending" "write_ahead ?h w"
    by (auto simp: guarded_def owns_def)
  let ?o = "o'\<lparr>op_dst := dir_join (mi_dst_dir ?i) name, op_updated := mt_now task\<rparr>"
  have j: "ms_journal (w_store ?w1) = j0 @ [?o]" "ms_disk (w_store ?w1) = j0 @ [?o]" "w_saves ?w1 = []"
    and t: "w_trace ?w1 = w_trace w @ [Saved (j0 @ [?o])]"
    using o' g(2) by (simp_all add: persist_ok on_journal_def on_store_def set_dst_last)
  obtain b c where a: "after_trace ?h w = (b, c)" by (cases "after_trace ?h w")
  have g1: "guarded task j0 Pending ?w1"
    using j o' a by (auto simp: guarded_def owns_def write_ahead_def holds_hash_def after_trace_eq [OF t])
  obtain resume w2 where r: "runs_now ?i ?w1 = (resume, w2)" by (cases "runs_now ?i ?w1")
  have g2: "guarded task j0 Pending w2" using guarded_list [OF g1 r] .
  show ?thesis
  proof (cases resume)
    case False
    with run r have "copy_and_point task False w2 = (out, w')" by (simp add: stop_and_copy_def Let_def)
    then show ?thesis by (rule guarded_copy_and_point [OF g2 g(2)])
  next
    case True
    obtain q w3 where st: "call_daemon (CallStop ?h) w2 = (q, w3)" by (cases "call_daemon (CallStop ?h) w2")
    have g3: "guarded task j0 Pending w3" using guarded_call' [OF g2 _ st] by simp
    show ?thesis
    proof (cases q)
      case (Some e)
      with run r True st have "fail_move task (''could not stop '' @ mi_name ?i @ '' before moving: '' @ error_text e) w3 = (out, w')"
        by (simp add: stop_and_copy_def Let_def)
      then show ?thesis by (rule guarded_fail [OF g3 g(2)])
    next
      case None
      with run r True st have "copy_and_point task True w3 = (out, w')" by (simp add: stop_and_copy_def Let_def)
      then show ?thesis by (rule guarded_copy_and_point [OF g3 g(2)])
    qed
  qed
qed

lemma not_busy_find: "\<not> is_busy h st \<Longrightarrow> find (holds_hash h) (ms_journal st) = None"
  by (auto simp: is_busy_def resumable_def find_None_all list_ex_iff holds_hash_def)

lemma guarded_begin:
  assumes "\<not> is_busy (mi_hash (mt_intent task)) (w_store w)" "w_saves w = []" "w_trace w = []"
  shows "guarded task (ms_journal (w_store w)) Pending (begin_move task w)"
proof -
  have "snd (journal_add (planned_op task) (ms_journal (w_store w))) = ms_journal (w_store w) @ [planned_op task]"
    using not_busy_find [OF assms(1)] by (simp add: journal_add_def)
  with assms(2,3) show ?thesis
    by (simp add: guarded_def owns_def begin_move_def persist_ok on_journal_def on_store_def trace_def
        write_ahead_def after_trace_def holds_hash_def)
qed

lemma execute_move_ends:
  assumes "execute_move task w = (out, w')" "out \<noteq> MoveBusy"
    and "w_saves w = []" "w_trace w = []" "op_id (planned_op task) \<notin> op_id ` set (ms_journal (w_store w))"
  shows "guarded task (ms_journal (w_store w)) (final_state out) w'"
proof -
  have nb: "\<not> is_busy (mi_hash (mt_intent task)) (w_store w)"
    using assms(1,2) by (auto simp: execute_move_def Let_def)
  note g = guarded_begin [OF nb assms(3,4)]
  consider (fails) m where "fail_move task m (begin_move task w) = (out, w')"
    | (goes) name where "stop_and_copy task name (begin_move task w) = (out, w')"
    using assms(1) nb by (auto simp: execute_move_def Let_def split: preflight_result.splits sum.splits)
  then show ?thesis
  proof cases
    case fails
    then show ?thesis by (rule guarded_fail [OF g assms(5)])
  next
    case goes
    then show ?thesis by (rule guarded_stop_and_copy [OF g assms(5)])
  qed
qed


section \<open>The data of a move\<close>

lemma w_fs_keep [simp]:
  "w_fs (persist w) = w_fs w" "w_fs (on_store f w) = w_fs w" "w_fs (on_journal g w) = w_fs w"
  "w_fs (trace x w) = w_fs w" "w_fs (snd (call_daemon c w)) = w_fs w" "w_fs (mark i st e now w) = w_fs w"
  "w_fs (finish i st e now w) = w_fs w" "w_fs (begin_move task w) = w_fs w" "w_fs (resume_torrent r h w) = w_fs w"
  by (simp_all add: persist_def trace_def on_store_def on_journal_def call_daemon_def mark_def finish_def
      begin_move_def resume_torrent_def Let_def)

lemma call_daemon_fs: "call_daemon c w = (r, w') \<Longrightarrow> w_fs w' = w_fs w"
  using w_fs_keep(5) [of c w] by simp

lemma runs_now_fs: "runs_now i w = (r, w') \<Longrightarrow> w_fs w' = w_fs w"
  by (auto simp: runs_now_def split: if_splits)

definition copied :: "move_task \<Rightarrow> fs_state \<Rightarrow> move_outcome \<Rightarrow> fs_state \<Rightarrow> bool" where
  "copied task fs out fs' =
     ((fs' = fs \<and> (\<exists>m. out = MoveFailed m)) \<or>
      (\<exists>r. move_with_progress (mt_local_src task) (mt_local_dst_dir task) fs = (r, fs') \<and>
           (case out of
              MoveDone _ \<Rightarrow> \<exists>p. r = Inr p
            | MoveCancelled \<Rightarrow> r = Inl FsCancelled
            | MoveFailed _ \<Rightarrow> r \<noteq> Inl FsCancelled
            | MoveBusy \<Rightarrow> False)))"

lemma run_copy_fs:
  "run_copy task w = (r, w') \<Longrightarrow>
   (case r of Inl _ \<Rightarrow> w_fs w' = w_fs w
    | Inr q \<Rightarrow> move_with_progress (mt_local_src task) (mt_local_dst_dir task) (w_fs w) = (q, w_fs w'))"
  by (auto simp: run_copy_def Let_def split: option.splits prod.splits)

lemma copy_and_point_copied:
  assumes "copy_and_point task resume w = (out, w')"
  shows "copied task (w_fs w) out (w_fs w')"
proof -
  let ?i = "mt_intent task"
  let ?w1 = "mark (op_id (planned_op task)) InProgress [] (mt_now task) w"
  obtain r w2 where rc: "run_copy task ?w1 = (r, w2)" by (cases "run_copy task ?w1")
  note fs = run_copy_fs [OF rc]
  show ?thesis
  proof (cases r)
    case (Inl e)
    with assms rc fs show ?thesis by (auto simp: copy_and_point_def Let_def fail_move_def copied_def)
  next
    case (Inr q)
    show ?thesis
    proof (cases q)
      case (Inl e)
      with Inr assms rc fs show ?thesis
        by (cases e) (auto simp: copy_and_point_def Let_def fail_move_def copied_def)
    next
      case (Inr target)
      obtain d w3 where sd: "call_daemon (CallSetDirectory (mi_hash ?i) (mi_dst_dir ?i)) w2 = (d, w3)"
        by (cases "call_daemon (CallSetDirectory (mi_hash ?i) (mi_dst_dir ?i)) w2")
      from assms rc Inr \<open>r = Inr q\<close> sd fs call_daemon_fs [OF sd] show ?thesis
        by (cases d) (auto simp: copy_and_point_def point_daemon_def Let_def fail_move_def copied_def)
    qed
  qed
qed

lemma stop_and_copy_copied:
  assumes "stop_and_copy task name w = (out, w')"
  shows "copied task (w_fs w) out (w_fs w')"
proof -
  let ?i = "mt_intent task"
  let ?w1 = "persist (on_journal (set_dst (op_id (planned_op task)) (dir_join (mi_dst_dir ?i) name) (mt_now task)) w)"
  obtain run w2 where r: "runs_now ?i ?w1 = (run, w2)" by (cases "runs_now ?i ?w1")
  have f2: "w_fs w2 = w_fs w" using runs_now_fs [OF r] by simp
  show ?thesis
  proof (cases run)
    case False
    with assms r have "copy_and_point task False w2 = (out, w')" by (simp add: stop_and_copy_def Let_def)
    from copy_and_point_copied [OF this] f2 show ?thesis by simp
  next
    case True
    obtain q w3 where st: "call_daemon (CallStop (mi_hash ?i)) w2 = (q, w3)"
      by (cases "call_daemon (CallStop (mi_hash ?i)) w2")
    have f3: "w_fs w3 = w_fs w" using call_daemon_fs [OF st] f2 by simp
    show ?thesis
    proof (cases q)
      case (Some e)
      with assms r True st f3 show ?thesis
        by (auto simp: stop_and_copy_def Let_def fail_move_def copied_def)
    next
      case None
      with assms r True st have "copy_and_point task True w3 = (out, w')"
        by (simp add: stop_and_copy_def Let_def)
      from copy_and_point_copied [OF this] f3 show ?thesis by simp
    qed
  qed
qed

lemma execute_move_copied:
  assumes "execute_move task w = (out, w')" "out \<noteq> MoveBusy"
  shows "copied task (w_fs w) out (w_fs w')"
proof -
  have nb: "\<not> is_busy (mi_hash (mt_intent task)) (w_store w)"
    using assms by (auto simp: execute_move_def Let_def)
  consider (fails) m where "fail_move task m (begin_move task w) = (out, w')"
    | (goes) name where "stop_and_copy task name (begin_move task w) = (out, w')"
    using assms(1) nb by (auto simp: execute_move_def Let_def split: preflight_result.splits sum.splits)
  then show ?thesis
  proof cases
    case fails
    then show ?thesis by (auto simp: fail_move_def copied_def)
  next
    case goes
    from stop_and_copy_copied [OF this] show ?thesis by simp
  qed
qed

text \<open>Property C15. A move keeps the data and never overwrites. Whatever the daemon and the disk answer, after
  the move the source is intact or the target holds it; a finished move has it at the target, a cancelled
  one in its place. And when the data's own name is already taken in the destination, no collision policy
  gets the move through: it fails and the disk is untouched. AutoRename renames the journal's entry but
  not what the filesystem move writes to.\<close>

theorem execute_move_keeps_data:
  assumes "execute_move task w = (out, w')"
    and "mt_local_src task \<noteq> []" "look (fs_root (w_fs w)) (mt_local_src task) = Some n" "wf_node n"
    and "\<not> prefix (mt_local_src task) (mt_local_dst_dir task)"
  shows "(let src = mt_local_src task; target = mt_local_dst_dir task @ [last src];
      now = look (fs_root (w_fs w')); held = (\<lambda>p. now p \<in> {Some n, Some (regular n)}) in
    (now src = Some n \<or> held target) \<and>
    (\<forall>base. out = MoveDone base \<longrightarrow> held target) \<and>
    (out = MoveCancelled \<longrightarrow> now src = Some n) \<and>
    (src \<noteq> target \<and> exists_at (fs_root (w_fs w)) target \<longrightarrow>
       w_fs w' = w_fs w \<and> (out = MoveBusy \<or> (\<exists>m. out = MoveFailed m))))"
proof (cases "out = MoveBusy")
  case True
  with assms have "w' = w" by (auto simp: execute_move_def Let_def fail_move_def stop_and_copy_def copy_and_point_def
      point_daemon_def split: if_splits preflight_result.splits sum.splits prod.splits option.splits fs_move_error.splits)
  with True assms(3) show ?thesis by simp
next
  case False
  note c = execute_move_copied [OF assms(1) False]
  consider (same) m where "w_fs w' = w_fs w" "out = MoveFailed m"
    | (ran) r where "move_with_progress (mt_local_src task) (mt_local_dst_dir task) (w_fs w) = (r, w_fs w')"
        "case out of MoveDone _ \<Rightarrow> \<exists>p. r = Inr p | MoveCancelled \<Rightarrow> r = Inl FsCancelled
         | MoveFailed _ \<Rightarrow> r \<noteq> Inl FsCancelled | MoveBusy \<Rightarrow> False"
    using c by (auto simp: copied_def)
  then show ?thesis
  proof cases
    case same
    with assms(3) show ?thesis by simp
  next
    case (ran r)
    let ?t = "mt_local_dst_dir task @ [last (mt_local_src task)]"
    note core = move_core [OF ran(1) assms(2-5), unfolded Let_def]
    show ?thesis
    proof (cases r)
      case (Inl e)
      with core ran(2) show ?thesis by (cases e; cases out) (auto simp: Let_def)
    next
      case (Inr p)
      with core ran(2) assms(3) show ?thesis by (cases out) (auto simp: Let_def)
    qed
  qed
qed

section \<open>A host at work\<close>

text \<open>What a host does to its store: the operations of \<open>MoveStore\<close>, a move, the recovery, and a
  restart that loads what the file holds. Every save succeeds here, and every file read back is the
  last one written.\<close>

datatype host_op =
    HostMove move_task
  | HostSave
  | HostRetry string
  | HostPrune "string set"
  | HostPruneDone
  | HostCancel string
  | HostRegister active_move
  | HostUnregister string
  | HostUnregisterHash string
  | HostResume "string set" "string \<Rightarrow> bool" int
  | HostRestart

fun host_step :: "host_op \<Rightarrow> move_world \<Rightarrow> move_outcome option \<times> move_world" where
  "host_step (HostMove task) w = (let (out, w') = execute_move task (w\<lparr>w_trace := []\<rparr>) in (Some out, w'))"
| "host_step HostSave w = (None, persist w)"
| "host_step (HostRetry h) w = (None, on_store (\<lambda>st. snd (retry h st)) w)"
| "host_step (HostPrune live) w = (None, on_store (prune_unknown live) w)"
| "host_step HostPruneDone w = (None, on_store store_prune_done w)"
| "host_step (HostCancel i) w = (None, on_store (\<lambda>st. snd (cancel_move i st)) w)"
| "host_step (HostRegister a) w = (None, on_store (register a) w)"
| "host_step (HostUnregister i) w = (None, on_store (unregister i) w)"
| "host_step (HostUnregisterHash h) w = (None, on_store (unregister_hash h) w)"
| "host_step (HostResume live ex now) w = (None, resume_moves live ex now w)"
| "host_step HostRestart w = (None, on_store (\<lambda>st. store_load (Some (ms_disk st))) w)"

definition wf_journal :: "journal \<Rightarrow> bool" where
  "wf_journal j =
     (distinct (map op_id j) \<and>
      (\<forall>a \<in> set j. \<forall>b \<in> set j. resumable_state (op_state a) \<and> resumable_state (op_state b) \<and>
         eq_ic (op_hash a) (op_hash b) \<longrightarrow> a = b))"

definition wf_world :: "move_world \<Rightarrow> bool" where
  "wf_world w = (w_saves w = [] \<and> wf_journal (ms_journal (w_store w)) \<and> wf_journal (ms_disk (w_store w)))"

text \<open>A new id is one that no recorded entry has, in memory or on disk: ids carry the hash and the
  millisecond.\<close>

definition unique_id :: "move_world \<Rightarrow> host_op \<Rightarrow> bool" where
  "unique_id w op =
     (case op of HostMove task \<Rightarrow> op_id (planned_op task) \<notin> op_id ` set (ms_journal (w_store w)) | _ \<Rightarrow> True)"

lemma wf_journal_filter: "wf_journal j \<Longrightarrow> wf_journal (filter P j)"
  unfolding wf_journal_def by (auto simp: distinct_map_filter_rows)

lemma wf_journal_extend:
  assumes "wf_journal j" "op_id o' \<notin> op_id ` set j"
    and "resumable_state (op_state o') \<Longrightarrow> find (holds_hash (op_hash o')) j = None"
  shows "wf_journal (j @ [o'])"
proof -
  have "\<not> eq_ic (op_hash a) (op_hash o')"
    if "resumable_state (op_state o')" "a \<in> set j" "resumable_state (op_state a)" for a
    using assms(3) that by (auto simp: find_None_all holds_hash_def)
  with assms(1,2) show ?thesis unfolding wf_journal_def by (auto dest: eq_ic_sym)
qed

lemma mark_ids [simp]: "map op_id (journal_mark i st e now j) = map op_id j"
  by (induction j) auto

lemma mark_member:
  "distinct (map op_id j) \<Longrightarrow> x \<in> set (journal_mark i st e now j) \<longleftrightarrow>
   (x \<in> set j \<and> op_id x \<noteq> i) \<or> (\<exists>y \<in> set j. op_id y = i \<and> x = y\<lparr>op_state := st, op_error := e, op_updated := now\<rparr>)"
  by (induction j) (auto simp: image_iff)

lemma wf_journal_mark:
  assumes wf: "wf_journal j" and was: "\<forall>y \<in> set j. op_id y = i \<longrightarrow> resumable_state (op_state y)"
  shows "wf_journal (journal_mark i st e now j)"
proof -
  have d: "distinct (map op_id j)" using wf by (simp add: wf_journal_def)
  have origin: "\<exists>a' \<in> set j. op_id a' = op_id a \<and> op_hash a' = op_hash a \<and> resumable_state (op_state a') \<and>
      (if op_id a = i then a = a'\<lparr>op_state := st, op_error := e, op_updated := now\<rparr> else a = a')"
    if "a \<in> set (journal_mark i st e now j)" "resumable_state (op_state a)" for a
    using that was by (auto simp: mark_member [OF d])
  have "a = b"
    if ab: "a \<in> set (journal_mark i st e now j)" "b \<in> set (journal_mark i st e now j)"
      "resumable_state (op_state a)" "resumable_state (op_state b)" "eq_ic (op_hash a) (op_hash b)" for a b
  proof -
    from origin [OF ab(1,3)] obtain a' where a': "a' \<in> set j" "op_id a' = op_id a" "op_hash a' = op_hash a"
      "resumable_state (op_state a')" "if op_id a = i then a = a'\<lparr>op_state := st, op_error := e, op_updated := now\<rparr> else a = a'"
      by blast
    from origin [OF ab(2,4)] obtain b' where b': "b' \<in> set j" "op_id b' = op_id b" "op_hash b' = op_hash b"
      "resumable_state (op_state b')" "if op_id b = i then b = b'\<lparr>op_state := st, op_error := e, op_updated := now\<rparr> else b = b'"
      by blast
    have "a' = b'" using wf a' b' ab(5) by (simp add: wf_journal_def)
    with a' b' show "a = b" by (simp split: if_splits)
  qed
  with d show ?thesis unfolding wf_journal_def by auto
qed

lemma persist_journal [simp]: "ms_journal (w_store (persist w)) = ms_journal (w_store w)"
  by (simp add: persist_def store_save_def trace_def Let_def)

lemma persist_saves: "w_saves w = [] \<Longrightarrow> w_saves (persist w) = [] \<and> ms_disk (w_store (persist w)) = ms_journal (w_store w)"
  by (simp add: persist_ok)

lemma mark_journal:
  "w_saves w = [] \<Longrightarrow> w_saves (mark i st e now w) = [] \<and>
   ms_journal (w_store (mark i st e now w)) = journal_mark i st e now (ms_journal (w_store w)) \<and>
   ms_disk (w_store (mark i st e now w)) = journal_mark i st e now (ms_journal (w_store w))"
  by (simp add: mark_def persist_ok trace_def on_journal_def on_store_def)

lemma call_daemon_store [simp]:
  "w_store (snd (call_daemon c w)) = w_store w" "w_saves (snd (call_daemon c w)) = w_saves w"
  by (simp_all add: call_daemon_def trace_def)

lemma resume_op_effect:
  assumes "w_saves w = []"
  shows "(w_saves (resume_op live ex now o' w) = []) \<and>
    ((w_store (resume_op live ex now o' w) = w_store w) \<or>
     (\<exists>st e. op_state o' = InProgress \<and>
        ms_journal (w_store (resume_op live ex now o' w)) = journal_mark (op_id o') st e now (ms_journal (w_store w)) \<and>
        ms_disk (w_store (resume_op live ex now o' w)) = journal_mark (op_id o') st e now (ms_journal (w_store w))))"
proof -
  let ?c1 = "CallSetDirectory (op_hash o') (parent_dir (op_dst o'))" and ?c2 = "CallClearFinalDir (op_hash o')"
  obtain q w1 where c1: "call_daemon ?c1 w = (q, w1)" by (cases "call_daemon ?c1 w")
  obtain q' w2 where c2: "call_daemon ?c2 w1 = (q', w2)" by (cases "call_daemon ?c2 w1")
  have k1: "w_store w1 = w_store w" "w_saves w1 = []" using call_daemon_store [of ?c1 w] c1 assms by simp_all
  have k2: "w_store w2 = w_store w" "w_saves w2 = []" using call_daemon_store [of ?c2 w1] c2 k1 by simp_all
  have m: "w_saves (mark i st e now v) = []"
    "ms_journal (w_store (mark i st e now v)) = journal_mark i st e now (ms_journal (w_store w))"
    "ms_disk (w_store (mark i st e now v)) = journal_mark i st e now (ms_journal (w_store w))"
    if "w_store v = w_store w" "w_saves v = []" for v i st e
    using mark_journal [OF that(2)] that(1) by simp_all
  note mw = m [OF refl assms] note mw2 = m [OF k2]
  show ?thesis
    using k1 k2 assms mw mw2
    by (cases q; cases q') (auto simp: resume_op_def c1 c2)
qed

lemma resume_fold_wf:
  "distinct (map op_id ops) \<Longrightarrow> wf_world w \<Longrightarrow>
   \<forall>o' \<in> set ops. op_state o' = InProgress \<longrightarrow>
     (\<forall>y \<in> set (ms_journal (w_store w)). op_id y = op_id o' \<longrightarrow> resumable_state (op_state y)) \<Longrightarrow>
   wf_world (fold (resume_op live ex now) ops w)"
proof (induction ops arbitrary: w)
  case (Cons o' ops)
  let ?w1 = "resume_op live ex now o' w"
  have s: "w_saves w = []" and wf: "wf_journal (ms_journal (w_store w))" "wf_journal (ms_disk (w_store w))"
    using Cons.prems(2) by (simp_all add: wf_world_def)
  have d: "distinct (map op_id (ms_journal (w_store w)))" using wf(1) by (simp add: wf_journal_def)
  from resume_op_effect [OF s, of live ex now o']
  have "wf_world ?w1 \<and> (\<forall>x \<in> set ops. op_state x = InProgress \<longrightarrow>
     (\<forall>y \<in> set (ms_journal (w_store ?w1)). op_id y = op_id x \<longrightarrow> resumable_state (op_state y)))"
  proof (elim conjE disjE exE)
    assume "w_saves ?w1 = []" "w_store ?w1 = w_store w"
    with Cons.prems show ?thesis by (simp add: wf_world_def)
  next
    fix st e assume s1: "w_saves ?w1 = []" and ip: "op_state o' = InProgress"
      and j: "ms_journal (w_store ?w1) = journal_mark (op_id o') st e now (ms_journal (w_store w))"
        "ms_disk (w_store ?w1) = journal_mark (op_id o') st e now (ms_journal (w_store w))"
    have "wf_journal (journal_mark (op_id o') st e now (ms_journal (w_store w)))"
      using Cons.prems(3) ip by (intro wf_journal_mark wf(1)) simp
    moreover have "\<forall>x \<in> set ops. op_id x \<noteq> op_id o'" using Cons.prems(1) by (force simp: image_iff)
    moreover have "resumable_state (op_state y)"
      if x: "x \<in> set ops" "op_state x = InProgress" and y: "y \<in> set (ms_journal (w_store ?w1))" "op_id y = op_id x"
      for x y
    proof -
      have "op_id y \<noteq> op_id o'" using y(2) x(1) \<open>\<forall>x \<in> set ops. op_id x \<noteq> op_id o'\<close> by simp
      then have "y \<in> set (ms_journal (w_store w))" using y(1) j(1) by (auto simp: mark_member [OF d])
      with Cons.prems(3) x y(2) show ?thesis by simp
    qed
    ultimately show ?thesis using s1 j by (auto simp: wf_world_def)
  qed
  with Cons.IH [of ?w1] Cons.prems(1) show ?case by simp
qed simp

lemma wf_world_resume: "wf_world w \<Longrightarrow> wf_world (resume_moves live ex now w)"
proof -
  assume w: "wf_world w"
  let ?w1 = "persist (on_store (prune_unknown live) w)"
  have d: "distinct (map op_id (ms_journal (w_store w)))" using w by (simp add: wf_world_def wf_journal_def)
  have w1: "wf_world ?w1"
    using w persist_saves [of "on_store (prune_unknown live) w"]
    by (simp add: wf_world_def on_store_def prune_unknown_def wf_journal_filter)
  have "resumable_state (op_state y)"
    if "o' \<in> set (resumable (ms_journal (w_store w)))" "op_state o' = InProgress"
      "y \<in> set (ms_journal (w_store ?w1))" "op_id y = op_id o'" for o' y
  proof -
    from that have "y \<in> set (ms_journal (w_store w))" "o' \<in> set (ms_journal (w_store w))"
      by (auto simp: on_store_def prune_unknown_def resumable_def)
    with d that(2,4) have "y = o'" by (auto intro: distinct_key_eq)
    with that(2) show ?thesis by simp
  qed
  then show ?thesis unfolding resume_moves_def
    by (intro resume_fold_wf w1) (use d in \<open>auto simp: resumable_def distinct_map_filter_rows\<close>)
qed

lemma wf_world_move:
  assumes w: "wf_world w" and fresh: "op_id (planned_op task) \<notin> op_id ` set (ms_journal (w_store w))"
    and run: "execute_move task (w\<lparr>w_trace := []\<rparr>) = (out, w')"
  shows "wf_world w'"
proof (cases "out = MoveBusy")
  case True
  then have "is_busy (mi_hash (mt_intent task)) (w_store w)"
    using execute_move_copied [OF run] run guarded_begin by (auto simp: execute_move_def Let_def fail_move_def
      stop_and_copy_def copy_and_point_def point_daemon_def
      split: if_splits preflight_result.splits sum.splits prod.splits option.splits fs_move_error.splits)
  with run w show ?thesis by (auto simp: execute_move_def Let_def wf_world_def)
next
  case False
  let ?w = "w\<lparr>w_trace := []\<rparr>"
  have nb: "\<not> is_busy (mi_hash (mt_intent task)) (w_store ?w)"
    using run False by (auto simp: execute_move_def Let_def)
  have s: "w_saves ?w = []" "w_trace ?w = []" using w by (simp_all add: wf_world_def)
  from execute_move_ends [OF run False s] fresh obtain o' where
    j: "ms_journal (w_store w') = ms_journal (w_store w) @ [o']" "ms_disk (w_store w') = ms_journal (w_store w')"
      "op_id o' = op_id (planned_op task)" "op_hash o' = mi_hash (mt_intent task)" "w_saves w' = []"
    by (auto simp: guarded_def owns_def)
  have "wf_journal (ms_journal (w_store w) @ [o'])"
    using w fresh j not_busy_find [OF nb] by (intro wf_journal_extend) (simp_all add: wf_world_def)
  with j show ?thesis by (simp add: wf_world_def)
qed

interpretation store_wf: keeps_invariant host_step unique_id wf_world "\<lambda>_. True"
proof
  show "wf_world (snd (host_step op w))" if "unique_id w op" "wf_world w" for op w
  proof (cases op)
    case (HostMove task)
    with that wf_world_move [OF that(2)] show ?thesis
      by (auto simp: unique_id_def split: prod.splits)
  next
    case (HostResume live ex now)
    with that(2) show ?thesis by (simp add: wf_world_resume)
  next
    case HostSave
    with that(2) persist_saves [of w] show ?thesis by (simp add: wf_world_def)
  qed (use that(2) in \<open>auto simp: wf_world_def on_store_def retry_def prune_unknown_def store_prune_done_def
        journal_prune_done_def cancel_move_def register_def unregister_def unregister_hash_def store_load_def
        wf_journal_filter Let_def split: option.splits\<close>)
qed simp

text \<open>Property C23. Through any sequence of moves, retries, prunes, cancels, saves, recoveries and restarts, in
  any order, the journal keeps its invariant in memory and on disk: ids are unique, and no torrent has two
  unfinished entries, case of the hash aside; so no two recoverable moves ever compete for one torrent.\<close>

theorem one_unfinished_move_per_torrent:
  assumes "wf_world w" "admissible_run host_step unique_id w ops"
  shows "wf_world (snd (run_steps host_step w ops)) \<and>
    (\<forall>h. card {o' \<in> set (ms_journal (w_store (snd (run_steps host_step w ops)))). holds_hash h o'} \<le> 1)"
proof -
  have wf: "wf_world (snd (run_steps host_step w ops))" using store_wf.inv_run assms by blast
  have "card {o' \<in> set (ms_journal (w_store (snd (run_steps host_step w ops)))). holds_hash h o'} \<le> Suc 0" for h
  proof -
    have "a = b" if "a \<in> set (ms_journal (w_store (snd (run_steps host_step w ops))))" "holds_hash h a"
        "b \<in> set (ms_journal (w_store (snd (run_steps host_step w ops))))" "holds_hash h b" for a b
    proof -
      have "eq_ic (op_hash a) (op_hash b)" using that eq_ic_trans eq_ic_sym by (metis holds_hash_def)
      with that wf show ?thesis by (simp add: wf_world_def wf_journal_def holds_hash_def)
    qed
    then show ?thesis by (subst card_le_Suc0_iff_eq) auto
  qed
  with wf show ?thesis by simp
qed

section \<open>An interrupted move\<close>

definition pending_entry :: "string \<Rightarrow> string \<Rightarrow> journal \<Rightarrow> bool" where
  "pending_entry i h j = (\<exists>p \<in> set j. op_id p = i \<and> op_hash p = h \<and> op_state p = Pending)"

definition parked :: "string \<Rightarrow> string \<Rightarrow> move_world \<Rightarrow> bool" where
  "parked i h w =
     (wf_world w \<and> pending_entry i h (ms_journal (w_store w)) \<and> pending_entry i h (ms_disk (w_store w)))"

definition keeps_torrent :: "string \<Rightarrow> move_world \<Rightarrow> host_op \<Rightarrow> bool" where
  "keeps_torrent h w op =
     (unique_id w op \<and>
      (case op of HostPrune live \<Rightarrow> h \<in> live | HostResume live _ _ \<Rightarrow> h \<in> live | _ \<Rightarrow> True))"

lemma pending_filter:
  "pending_entry i h j \<Longrightarrow> (\<And>p. op_hash p = h \<Longrightarrow> op_state p = Pending \<Longrightarrow> P p) \<Longrightarrow> pending_entry i h (filter P j)"
  by (auto simp: pending_entry_def)

lemma pending_mark_other:
  "distinct (map op_id j) \<Longrightarrow> i \<noteq> k \<Longrightarrow> pending_entry i h j \<Longrightarrow> pending_entry i h (journal_mark k st e now j)"
  by (auto simp: pending_entry_def mark_member)

lemma resume_fold_pending:
  "w_saves w = [] \<Longrightarrow> distinct (map op_id (ms_journal (w_store w))) \<Longrightarrow>
   \<forall>o' \<in> set ops. op_state o' = InProgress \<longrightarrow> op_id o' \<noteq> i \<Longrightarrow>
   pending_entry i h (ms_journal (w_store w)) \<Longrightarrow> pending_entry i h (ms_disk (w_store w)) \<Longrightarrow>
   pending_entry i h (ms_journal (w_store (fold (resume_op live ex now) ops w))) \<and>
   pending_entry i h (ms_disk (w_store (fold (resume_op live ex now) ops w)))"
proof (induction ops arbitrary: w)
  case (Cons o' ops)
  let ?w1 = "resume_op live ex now o' w"
  from resume_op_effect [OF Cons.prems(1), of live ex now o']
  have "w_saves ?w1 = [] \<and> distinct (map op_id (ms_journal (w_store ?w1))) \<and>
    pending_entry i h (ms_journal (w_store ?w1)) \<and> pending_entry i h (ms_disk (w_store ?w1))"
  proof (elim conjE disjE exE)
    assume "w_saves ?w1 = []" "w_store ?w1 = w_store w"
    with Cons.prems show ?thesis by simp
  next
    fix st e assume s1: "w_saves ?w1 = []" and ip: "op_state o' = InProgress"
      and j: "ms_journal (w_store ?w1) = journal_mark (op_id o') st e now (ms_journal (w_store w))"
        "ms_disk (w_store ?w1) = journal_mark (op_id o') st e now (ms_journal (w_store w))"
    have "pending_entry i h (journal_mark (op_id o') st e now (ms_journal (w_store w)))"
      by (rule pending_mark_other) (use Cons.prems ip in auto)
    with s1 j Cons.prems(2) show ?thesis by simp
  qed
  with Cons.IH [of ?w1] Cons.prems(3) show ?case by simp
qed simp

lemma parked_resume:
  assumes "parked i h w" "h \<in> live"
  shows "parked i h (resume_moves live ex now w)"
proof -
  let ?w1 = "persist (on_store (prune_unknown live) w)"
  have wf: "wf_world w" using assms(1) by (simp add: parked_def)
  then have d: "distinct (map op_id (ms_journal (w_store w)))" and s: "w_saves w = []"
    by (simp_all add: wf_world_def wf_journal_def)
  have j1: "ms_journal (w_store ?w1) =
      filter (\<lambda>o'. op_state o' = InProgress \<or> op_state o' = Done \<or> op_hash o' \<in> live) (ms_journal (w_store w))"
    by (simp add: on_store_def prune_unknown_def)
  have p1: "pending_entry i h (ms_journal (w_store ?w1))"
    unfolding j1 using assms by (intro pending_filter) (auto simp: parked_def)
  have k: "w_saves ?w1 = [] \<and> ms_disk (w_store ?w1) = ms_journal (w_store ?w1)"
    using persist_saves [of "on_store (prune_unknown live) w"] s by (simp add: on_store_def)
  have other: "op_id o' \<noteq> i" if "o' \<in> set (resumable (ms_journal (w_store w)))" "op_state o' = InProgress" for o'
  proof
    assume e: "op_id o' = i"
    from assms(1) obtain p where p: "p \<in> set (ms_journal (w_store w))" "op_id p = i" "op_state p = Pending"
      by (auto simp: parked_def pending_entry_def)
    from that have "o' \<in> set (ms_journal (w_store w))" by (simp add: resumable_def)
    with p e d have "o' = p" by (auto intro: distinct_key_eq)
    with that(2) p(3) show False by simp
  qed
  have "distinct (map op_id (ms_journal (w_store ?w1)))" unfolding j1 using d by (rule distinct_map_filter_rows)
  with resume_fold_pending [of ?w1 "resumable (ms_journal (w_store w))" i h live ex now] k p1 other wf_world_resume [OF wf]
  show ?thesis by (simp add: parked_def resume_moves_def)
qed

lemma parked_busy:
  assumes "parked i h w"
  shows "h \<in> busy_hashes (w_store w) \<and> is_busy h (w_store w)"
  using assms by (force simp: parked_def pending_entry_def busy_hashes_def is_busy_def resumable_def list_ex_iff)

lemma eq_ic_holds: "eq_ic a b \<Longrightarrow> is_busy a st \<Longrightarrow> is_busy b st"
  by (auto simp: is_busy_def list_ex_iff intro: eq_ic_trans)

lemma parked_move:
  assumes p: "parked i h w" and fresh: "op_id (planned_op task) \<notin> op_id ` set (ms_journal (w_store w))"
    and run: "execute_move task (w\<lparr>w_trace := []\<rparr>) = (out, w')"
  shows "parked i h w'"
proof (cases "is_busy (mi_hash (mt_intent task)) (w_store w)")
  case True
  with run have "w' = w\<lparr>w_trace := []\<rparr>" by (simp add: execute_move_def Let_def)
  with p show ?thesis by (simp add: parked_def wf_world_def)
next
  case False
  let ?w = "w\<lparr>w_trace := []\<rparr>"
  have wf: "wf_world w" using p by (simp add: parked_def)
  have "out \<noteq> MoveBusy" using execute_move_protocol_busy [OF run] False by simp
  from execute_move_ends [OF run this] fresh wf obtain o' where
    "ms_journal (w_store w') = ms_journal (w_store w) @ [o']" "ms_disk (w_store w') = ms_journal (w_store w')"
    by (auto simp: guarded_def owns_def wf_world_def)
  with p wf_world_move [OF wf fresh run] show ?thesis by (auto simp: parked_def pending_entry_def)
qed

lemma resume_op_parks:
  assumes "w_saves w = []" "op_state o' = InProgress" "\<not> ex (op_dst o')"
  shows "ms_journal (w_store (resume_op live ex now o' w)) = journal_mark (op_id o') Pending [] now (ms_journal (w_store w)) \<and>
    ms_disk (w_store (resume_op live ex now o' w)) = journal_mark (op_id o') Pending [] now (ms_journal (w_store w)) \<and>
    w_saves (resume_op live ex now o' w) = []"
  using assms mark_journal [OF assms(1)] by (simp add: resume_op_def)

lemma resume_keeps_entries:
  "w_saves w = [] \<Longrightarrow> distinct (map op_id (ms_journal (w_store w))) \<Longrightarrow> o' \<in> set (ms_journal (w_store w)) \<Longrightarrow>
   op_id o' \<notin> op_id ` set ops \<Longrightarrow>
   o' \<in> set (ms_journal (w_store (fold (resume_op live ex now) ops w))) \<and>
   w_saves (fold (resume_op live ex now) ops w) = [] \<and>
   distinct (map op_id (ms_journal (w_store (fold (resume_op live ex now) ops w))))"
proof (induction ops arbitrary: w)
  case (Cons x ops)
  from resume_op_effect [OF Cons.prems(1), of live ex now x] Cons.prems
  have "w_saves (resume_op live ex now x w) = [] \<and> o' \<in> set (ms_journal (w_store (resume_op live ex now x w))) \<and>
    distinct (map op_id (ms_journal (w_store (resume_op live ex now x w))))"
    by (elim conjE disjE exE) (simp_all add: mark_member)
  with Cons show ?case by simp
qed simp

lemma parked_after_resume:
  assumes wf: "wf_world w" and o': "o' \<in> set (ms_journal (w_store w))" "op_state o' = InProgress"
    and gone: "\<not> ex (op_dst o')" and live: "op_hash o' \<in> live"
  shows "parked (op_id o') (op_hash o') (resume_moves live ex now w)"
proof -
  let ?w1 = "persist (on_store (prune_unknown live) w)"
  have d: "distinct (map op_id (ms_journal (w_store w)))" and s: "w_saves w = []"
    using wf by (simp_all add: wf_world_def wf_journal_def)
  have "o' \<in> set (resumable (ms_journal (w_store w)))" using o' by (simp add: resumable_def)
  then obtain xs ys where split: "resumable (ms_journal (w_store w)) = xs @ o' # ys" by (auto dest: split_list)
  have "distinct (map op_id (xs @ o' # ys))"
    using d unfolding split [symmetric] resumable_def by (rule distinct_map_filter_rows)
  then have ids: "op_id o' \<notin> op_id ` set xs" "op_id o' \<notin> op_id ` set ys" by auto
  have j1: "ms_journal (w_store ?w1) =
      filter (\<lambda>o'. op_state o' = InProgress \<or> op_state o' = Done \<or> op_hash o' \<in> live) (ms_journal (w_store w))"
    by (simp add: on_store_def prune_unknown_def)
  have w1: "w_saves ?w1 = []" "distinct (map op_id (ms_journal (w_store ?w1)))" "o' \<in> set (ms_journal (w_store ?w1))"
    using persist_saves [of "on_store (prune_unknown live) w"] s o' d
    by (simp_all add: j1 prune_unknown_def on_store_def distinct_map_filter_rows)
  let ?w2 = "fold (resume_op live ex now) xs ?w1"
  have w2: "o' \<in> set (ms_journal (w_store ?w2))" "w_saves ?w2 = []" "distinct (map op_id (ms_journal (w_store ?w2)))"
    using resume_keeps_entries [OF w1 ids(1)] by blast+
  let ?w3 = "resume_op live ex now o' ?w2"
  note w3 = resume_op_parks [where ex = ex and o' = o' and live = live and now = now, OF w2(2) o'(2) gone]
  have p: "pending_entry (op_id o') (op_hash o') (journal_mark (op_id o') Pending [] now (ms_journal (w_store ?w2)))"
    unfolding pending_entry_def
  proof (intro bexI conjI)
    show "o'\<lparr>op_state := Pending, op_error := [], op_updated := now\<rparr>
        \<in> set (journal_mark (op_id o') Pending [] now (ms_journal (w_store ?w2)))"
      using w2(1) unfolding mark_member [OF w2(3)] by blast
  qed simp_all
  have "pending_entry (op_id o') (op_hash o') (ms_journal (w_store (fold (resume_op live ex now) ys ?w3))) \<and>
        pending_entry (op_id o') (op_hash o') (ms_disk (w_store (fold (resume_op live ex now) ys ?w3)))"
    by (rule resume_fold_pending) (use w3 w2(3) p ids(2) in \<open>auto simp: image_iff\<close>)
  then show ?thesis using wf_world_resume [OF wf] by (simp add: parked_def resume_moves_def split)
qed

interpretation interrupted: keeps_invariant host_step "keeps_torrent h" "parked i h" "\<lambda>_. True" for i h
proof
  show "parked i h (snd (host_step op w))" if "keeps_torrent h w op" "parked i h w" for op w
  proof (cases op)
    case (HostMove task)
    with that parked_move [OF that(2)] show ?thesis
      by (auto simp: keeps_torrent_def unique_id_def split: prod.splits)
  next
    case (HostResume live ex now)
    with that show ?thesis by (simp add: parked_resume keeps_torrent_def)
  next
    case HostSave
    with that(2) store_wf.inv_step [of w HostSave] persist_saves [of w] show ?thesis
      by (simp add: parked_def unique_id_def wf_world_def)
  next
    case (HostRetry h')
    with that(2) store_wf.inv_step [of w op] show ?thesis
      by (auto simp: parked_def unique_id_def on_store_def retry_def Let_def retryable_def intro!: pending_filter)
  next
    case (HostPrune live)
    with that store_wf.inv_step [of w op] show ?thesis
      by (auto simp: parked_def unique_id_def on_store_def prune_unknown_def keeps_torrent_def intro!: pending_filter)
  next
    case HostPruneDone
    with that(2) store_wf.inv_step [of w op] show ?thesis
      by (auto simp: parked_def unique_id_def on_store_def store_prune_done_def journal_prune_done_def intro!: pending_filter)
  qed (use that(2) store_wf.inv_step [of w op] in \<open>auto simp: parked_def unique_id_def on_store_def cancel_move_def
        register_def unregister_def unregister_hash_def store_load_def Let_def split: option.splits\<close>)
qed simp


section \<open>Witnesses\<close>

definition sample_intent :: move_intent where
  "sample_intent = \<lparr>mi_hash = ''AB'', mi_name = ''Show'', mi_src_base = ''/dl/Show'', mi_dst_dir = ''/home'',
     mi_size = 3, mi_remaining = 0, mi_was_active = True\<rparr>"

definition sample_task :: move_task where
  "sample_task = \<lparr>mt_intent = sample_intent, mt_local_src = [''dl'', ''Show''], mt_local_dst_dir = [''home''],
     mt_free = None, mt_policy = CollisionError, mt_now = 7\<rparr>"

definition sample_world :: move_world where
  "sample_world = \<lparr>w_store = \<lparr>ms_journal = [], ms_disk = [], ms_active = []\<rparr>, w_saves = [],
     w_fs = \<lparr>fs_root = Dir [(''dl'', Dir [(''Show'', File ''abc'')]), (''home'', Dir [])],
       fs_io = [], fs_cancel = [], fs_copied = 0, fs_reports = [], fs_leftover = (\<lambda>n. n)\<rparr>,
     w_rows = None, w_replies = [], w_join = None, w_trace = []\<rparr>"

lemma sample_outcome: "fst (execute_move sample_task sample_world) = MoveDone ''/home/Show''"
  by code_simp

theorem execute_move_protocol_witness:
  "acts (snd (execute_move sample_task sample_world)) =
     [Called (CallStop ''AB''), MovedData, Called (CallSetDirectory ''AB'' ''/home''),
      Called (CallClearFinalDir ''AB''), Called (CallStart ''AB'')]"
proof -
  have "execute_move sample_task sample_world = (MoveDone ''/home/Show'', snd (execute_move sample_task sample_world))"
    using sample_outcome by (metis prod.collapse)
  from execute_move_protocol [OF this] show ?thesis
    by (simp add: Let_def listing_def stopping_def starting_def runs_now_def sample_task_def sample_intent_def
        sample_world_def acts_def)
qed


theorem execute_move_keeps_data_witness:
  "look (fs_root (w_fs (snd (execute_move sample_task sample_world)))) [''home'', ''Show''] = Some (File ''abc'')"
proof -
  have run: "execute_move sample_task sample_world = (MoveDone ''/home/Show'', snd (execute_move sample_task sample_world))"
    using sample_outcome by (metis prod.collapse)
  have n: "look (fs_root (w_fs sample_world)) (mt_local_src sample_task) = Some (File ''abc'')"
    by (simp add: sample_world_def sample_task_def)
  from execute_move_keeps_data [OF run _ n] show ?thesis
    by (simp add: Let_def sample_task_def)
qed

definition sample_op :: "move_state \<Rightarrow> move_op" where
  "sample_op st = \<lparr>op_id = ''AB-7'', op_hash = ''AB'', op_name = ''Show'', op_src = ''/dl/Show'', op_dst = ''/home/Show'',
     op_state = st, op_error = [], op_size = 3, op_created = 7, op_updated = 7\<rparr>"

definition crashed_world :: move_world where
  "crashed_world = sample_world\<lparr>w_store := \<lparr>ms_journal = [sample_op InProgress], ms_disk = [sample_op InProgress], ms_active = []\<rparr>\<rparr>"

lemma crashed_wf: "wf_world crashed_world"
  by (simp add: wf_world_def wf_journal_def crashed_world_def sample_world_def)

theorem one_unfinished_move_per_torrent_witness:
  "wf_world (snd (run_steps host_step crashed_world [HostResume {''AB''} (\<lambda>_. False) 9, HostRetry ''AB'', HostRestart]))"
proof -
  have "admissible_run host_step unique_id crashed_world [HostResume {''AB''} (\<lambda>_. False) 9, HostRetry ''AB'', HostRestart]"
    by (simp add: unique_id_def)
  from one_unfinished_move_per_torrent [OF crashed_wf this] show ?thesis by blast
qed


theorem decide_moves_explicit_witness:
  "decide_moves [raw_torrent_default\<lparr>raw_hash := ''AB'', raw_name := ''Show'', raw_complete := True,
      raw_base_path := ''/inc/Show'', raw_directory := ''/inc''\<rparr>] [] [] {} {} = []"
proof -
  let ?t = "raw_torrent_default\<lparr>raw_hash := ''AB'', raw_name := ''Show'', raw_complete := True,
      raw_base_path := ''/inc/Show'', raw_directory := ''/inc''\<rparr>"
  have "\<not> (\<exists>i. i \<in> set (decide_moves [?t] [] [] {} {}))"
    using decide_moves_explicit [of "[?t]" "[]" "[]" "{}" "{}"] by (fastforce simp: raw_torrent_default_def)
  then show ?thesis by (metis list.set_intros(1) neq_Nil_conv)
qed

end
