(* ===== verification/Schedule.thy ===== *)
theory Schedule
  imports Prelude "HOL-Library.Word" "HOL-Library.Product_Lexorder"
begin

text \<open>
  The weekly scheduler (\<open>crates/rtorrent/src/schedule.rs\<close>): window coverage, the evaluated state, the
  preview of the next change and the pause memory. Weekdays are \<open>u8\<close> words, so the
  preview's day arithmetic wraps as in the code; minutes and instants are integers (the \<open>i64\<close>
  range is not reached by clock values). A drained hash set is a set.
\<close>

type_synonym u8 = "8 word"

record sched_window =
  sw_days :: "u8 list"
  sw_start :: int
  sw_end :: int
  sw_pause :: bool
  sw_down_kb :: int
  sw_up_kb :: int

record temp_override =
  to_pause :: bool
  to_down_kb :: int
  to_up_kb :: int
  to_until_ms :: int

record schedule =
  sch_windows :: "sched_window list"
  sch_override :: "temp_override option"

datatype sched_state = SchedOpen | SchedLimited int int | SchedPaused

definition is_paused :: "sched_state \<Rightarrow> bool" where
  "is_paused s = (s = SchedPaused)"

definition turtle_active :: "sched_state \<Rightarrow> bool" where
  "turtle_active s = (s \<noteq> SchedOpen)"

record legacy_window =
  lw_enabled :: bool
  lw_start :: int
  lw_end :: int
  lw_days :: "u8 list"
  lw_down_kb :: int
  lw_up_kb :: int

definition import_legacy :: "legacy_window \<Rightarrow> sched_window list" where
  "import_legacy l =
     (if \<not> lw_enabled l \<or> lw_start l = lw_end l then []
      else [\<lparr>sw_days = lw_days l, sw_start = lw_start l, sw_end = lw_end l, sw_pause = False,
             sw_down_kb = lw_down_kb l, sw_up_kb = lw_up_kb l\<rparr>])"

definition window_covers :: "sched_window \<Rightarrow> u8 \<Rightarrow> int \<Rightarrow> bool" where
  "window_covers w weekday minute =
     (if sw_days w \<noteq> [] \<and> weekday \<notin> set (sw_days w) then False
      else if sw_start w = sw_end w then False
      else if sw_start w < sw_end w then minute \<ge> sw_start w \<and> minute < sw_end w
      else minute \<ge> sw_start w \<or> minute < sw_end w)"

definition live_override :: "temp_override option \<Rightarrow> int \<Rightarrow> temp_override option" where
  "live_override over now_ms =
     (case over of None \<Rightarrow> None | Some o' \<Rightarrow> if to_until_ms o' > now_ms then Some o' else None)"

definition evaluate ::
  "sched_window list \<Rightarrow> temp_override option \<Rightarrow> (int \<times> int) option \<Rightarrow> u8 \<Rightarrow> int \<Rightarrow> int \<Rightarrow> sched_state" where
  "evaluate windows over manual weekday minute now_ms =
     (case live_override over now_ms of
        Some o' \<Rightarrow> if to_pause o' then SchedPaused else SchedLimited (to_down_kb o') (to_up_kb o')
      | None \<Rightarrow>
          if list_ex (\<lambda>w. sw_pause w \<and> window_covers w weekday minute) windows then SchedPaused
          else case find (\<lambda>w. \<not> sw_pause w \<and> window_covers w weekday minute) windows of
                 Some w \<Rightarrow> SchedLimited (sw_down_kb w) (sw_up_kb w)
               | None \<Rightarrow> (case manual of Some (d, u) \<Rightarrow> SchedLimited d u | None \<Rightarrow> SchedOpen))"

datatype sched_kind = KindOpen | KindLimited | KindPaused

fun kind_of :: "sched_state \<Rightarrow> sched_kind" where
  "kind_of SchedOpen = KindOpen"
| "kind_of (SchedLimited _ _) = KindLimited"
| "kind_of SchedPaused = KindPaused"

record transition =
  tr_in_minutes :: int
  tr_weekday :: u8
  tr_minute :: int
  tr_to :: sched_kind

type_synonym event = "int \<times> u8 \<times> int"

definition window_events :: "u8 \<Rightarrow> u8 \<Rightarrow> sched_window \<Rightarrow> event list" where
  "window_events weekday offset w =
     (let day = (weekday + offset) mod 7; base = uint offset * 1440 in
      if sw_start w = sw_end w then []
      else if sw_days w \<noteq> [] \<and> day \<notin> set (sw_days w) then []
      else [(base + sw_start w, day, sw_start w),
            (if sw_end w \<le> sw_start w then base + 1440 + sw_end w else base + sw_end w,
             if sw_end w \<le> sw_start w then (day + 1) mod 7 else day, sw_end w)])"

definition override_events :: "temp_override option \<Rightarrow> u8 \<Rightarrow> int \<Rightarrow> int \<Rightarrow> event list" where
  "override_events over weekday minute now_ms =
     (case live_override over now_ms of
        None \<Rightarrow> []
      | Some o' \<Rightarrow>
          (let in_minutes = (to_until_ms o' - now_ms) div 60000; total = minute + in_minutes
           in [(total, (weekday + word_of_int (total div 1440)) mod 7, total mod 1440)]))"

definition all_events ::
  "sched_window list \<Rightarrow> temp_override option \<Rightarrow> u8 \<Rightarrow> int \<Rightarrow> int \<Rightarrow> event list" where
  "all_events windows over weekday minute now_ms =
     remdups_adj (sort
       (concat (map (\<lambda>offset. concat (map (window_events weekday offset) windows)) [0, 1, 2, 3, 4, 5, 6, 7])
        @ override_events over weekday minute now_ms))"

definition just_past :: "u8 \<Rightarrow> int \<Rightarrow> u8 \<times> int" where
  "just_past day mn = (if mn + 1 \<ge> 1440 then ((day + 1) mod 7, 0) else (day, mn + 1))"

definition kind_past ::
  "sched_window list \<Rightarrow> temp_override option \<Rightarrow> (int \<times> int) option \<Rightarrow> int \<Rightarrow> int \<Rightarrow> event \<Rightarrow> sched_kind" where
  "kind_past windows over manual minute now_ms e =
     (let (abs_min, day, mn) = e; (pday, pmin) = just_past day mn
      in kind_of (evaluate windows over manual pday pmin (now_ms + (abs_min - minute) * 60000)))"

definition next_change ::
  "sched_window list \<Rightarrow> temp_override option \<Rightarrow> (int \<times> int) option \<Rightarrow> u8 \<Rightarrow> int \<Rightarrow> int \<Rightarrow> transition option" where
  "next_change windows over manual weekday minute now_ms =
     (let current = kind_of (evaluate windows over manual weekday minute now_ms) in
      case find (\<lambda>e. fst e > minute \<and> kind_past windows over manual minute now_ms e \<noteq> current)
             (all_events windows over weekday minute now_ms) of
        None \<Rightarrow> None
      | Some e \<Rightarrow> Some \<lparr>tr_in_minutes = fst e - minute, tr_weekday = fst (snd e), tr_minute = snd (snd e),
                        tr_to = kind_past windows over manual minute now_ms e\<rparr>)"

section \<open>Pause memory\<close>

record sched_memory =
  sm_was_paused :: bool
  sm_held :: "string set"

record transition_actions =
  ta_pause :: "string list"
  ta_release :: "string set"

definition sched_memory_default :: sched_memory where
  "sched_memory_default = \<lparr>sm_was_paused = False, sm_held = {}\<rparr>"

definition pause_transition :: "bool \<Rightarrow> string list \<Rightarrow> sched_memory \<Rightarrow> transition_actions \<times> sched_memory" where
  "pause_transition paused_now active m =
     (if paused_now \<and> \<not> sm_was_paused m
      then (\<lparr>ta_pause = active, ta_release = {}\<rparr>,
            m\<lparr>sm_was_paused := paused_now, sm_held := sm_held m \<union> set active\<rparr>)
      else if \<not> paused_now \<and> sm_was_paused m
      then (\<lparr>ta_pause = [], ta_release = sm_held m\<rparr>, m\<lparr>sm_was_paused := paused_now, sm_held := {}\<rparr>)
      else (\<lparr>ta_pause = [], ta_release = {}\<rparr>, m\<lparr>sm_was_paused := paused_now\<rparr>))"

definition user_resumed :: "string \<Rightarrow> sched_memory \<Rightarrow> sched_memory" where
  "user_resumed h m = m\<lparr>sm_held := sm_held m - {h}\<rparr>"

definition sched_memory_reset :: "sched_memory \<Rightarrow> sched_memory" where
  "sched_memory_reset m = m\<lparr>sm_was_paused := False, sm_held := {}\<rparr>"

section \<open>Evaluation\<close>

text \<open>The precedence of the schedule. A live override decides alone; an expired one counts as
  absent. Below it the schedule is paused exactly when some covering window pauses, wherever it stands
  in the list; else the first covering limit window sets the rates; else the manual toggle; else open.
  A zero-length window never covers, and a window and its reverse split every covered day between
  them.\<close>

theorem schedule_precedence:
  "(case live_override over now_ms of
      Some o' \<Rightarrow> evaluate ws over manual wd m now_ms =
        (if to_pause o' then SchedPaused else SchedLimited (to_down_kb o') (to_up_kb o'))
    | None \<Rightarrow> evaluate ws over manual wd m now_ms = evaluate ws None manual wd m now_ms) \<and>
   (evaluate ws None manual wd m now_ms = SchedPaused \<longleftrightarrow> (\<exists>w \<in> set ws. sw_pause w \<and> window_covers w wd m)) \<and>
   (evaluate ws None manual wd m now_ms = SchedOpen \<longleftrightarrow> (\<forall>w \<in> set ws. \<not> window_covers w wd m) \<and> manual = None) \<and>
   (\<forall>us v vs. ws = us @ v # vs \<and> (\<forall>w \<in> set ws. sw_pause w \<longrightarrow> \<not> window_covers w wd m) \<and>
      (\<forall>w \<in> set us. \<not> window_covers w wd m) \<and> window_covers v wd m \<longrightarrow>
      evaluate ws None manual wd m now_ms = SchedLimited (sw_down_kb v) (sw_up_kb v)) \<and>
   (\<forall>w. (sw_start w = sw_end w \<longrightarrow> \<not> window_covers w wd m) \<and>
        (sw_start w \<noteq> sw_end w \<and> (sw_days w = [] \<or> wd \<in> set (sw_days w)) \<longrightarrow>
           window_covers (w\<lparr>sw_start := sw_end w, sw_end := sw_start w\<rparr>) wd m \<longleftrightarrow> \<not> window_covers w wd m))"
proof (intro conjI allI impI)
  show "case live_override over now_ms of
      Some o' \<Rightarrow> evaluate ws over manual wd m now_ms =
        (if to_pause o' then SchedPaused else SchedLimited (to_down_kb o') (to_up_kb o'))
    | None \<Rightarrow> evaluate ws over manual wd m now_ms = evaluate ws None manual wd m now_ms"
    by (auto simp: evaluate_def live_override_def split: option.splits)
  have n: "live_override None now_ms = None" by (simp add: live_override_def)
  show "evaluate ws None manual wd m now_ms = SchedPaused \<longleftrightarrow> (\<exists>w \<in> set ws. sw_pause w \<and> window_covers w wd m)"
    by (auto simp: evaluate_def n list_ex_iff split: option.splits)
  show "evaluate ws None manual wd m now_ms = SchedOpen \<longleftrightarrow> (\<forall>w \<in> set ws. \<not> window_covers w wd m) \<and> manual = None"
    by (auto simp: evaluate_def n list_ex_iff find_None_all split: option.splits dest: find_Some_set)
  fix us v vs
  assume a: "ws = us @ v # vs \<and> (\<forall>w \<in> set ws. sw_pause w \<longrightarrow> \<not> window_covers w wd m) \<and>
      (\<forall>w \<in> set us. \<not> window_covers w wd m) \<and> window_covers v wd m"
  then have "find (\<lambda>w. \<not> sw_pause w \<and> window_covers w wd m) us = None" by (simp add: find_None_all)
  then have "find (\<lambda>w. \<not> sw_pause w \<and> window_covers w wd m) ws = Some v"
    using a by (induction us arbitrary: ws) auto
  with a show "evaluate ws None manual wd m now_ms = SchedLimited (sw_down_kb v) (sw_up_kb v)"
    by (auto simp: evaluate_def n list_ex_iff)
qed (auto simp: window_covers_def)

definition limit_window :: "int \<Rightarrow> int \<Rightarrow> sched_window" where
  "limit_window s e = \<lparr>sw_days = [], sw_start = s, sw_end = e, sw_pause = False, sw_down_kb = 100, sw_up_kb = 50\<rparr>"

theorem schedule_precedence_witness:
  "evaluate [limit_window 1320 360, limit_window 0 600] None None 3 1380 0 = SchedLimited 100 50"
proof -
  have c: "window_covers (limit_window 1320 360) 3 1380" "\<not> sw_pause (limit_window a b)" for a b
    by (simp_all add: window_covers_def limit_window_def)
  have "[limit_window 1320 360, limit_window 0 600] = [] @ limit_window 1320 360 # [limit_window 0 600] \<and>
      (\<forall>w \<in> set [limit_window 1320 360, limit_window 0 600]. sw_pause w \<longrightarrow> \<not> window_covers w 3 1380) \<and>
      (\<forall>w \<in> set []. \<not> window_covers w 3 1380) \<and> window_covers (limit_window 1320 360) 3 1380"
    using c by simp
  with schedule_precedence [where over = None and now_ms = 0 and manual = None and wd = 3 and m = 1380
      and ws = "[limit_window 1320 360, limit_window 0 600]"]
  have "evaluate [limit_window 1320 360, limit_window 0 600] None None 3 1380 0 =
      SchedLimited (sw_down_kb (limit_window 1320 360)) (sw_up_kb (limit_window 1320 360))"
    by blast
  then show ?thesis by (simp add: limit_window_def)
qed

section \<open>The preview\<close>

text \<open>Windows on every day, inside one day. For these the state depends on the minute of the day alone.\<close>

definition daily :: "sched_window \<Rightarrow> bool" where
  "daily w = (sw_days w = [] \<and> 0 \<le> sw_start w \<and> sw_start w < sw_end w \<and> sw_end w < 1440)"

definition bounds :: "sched_window list \<Rightarrow> int set" where
  "bounds ws = sw_start ` set ws \<union> sw_end ` set ws"

definition kind_at :: "sched_window list \<Rightarrow> (int \<times> int) option \<Rightarrow> int \<Rightarrow> sched_kind" where
  "kind_at ws manual t = kind_of (evaluate ws None manual 0 (t mod 1440) 0)"

lemma covers_daily: "daily w \<Longrightarrow> window_covers w wd m \<longleftrightarrow> sw_start w \<le> m \<and> m < sw_end w"
  by (simp add: window_covers_def daily_def)

lemma find_cong_set: "(\<And>x. x \<in> set xs \<Longrightarrow> P x = Q x) \<Longrightarrow> find P xs = find Q xs"
  by (induction xs) auto

lemma evaluate_cong:
  "(\<And>w. w \<in> set ws \<Longrightarrow> window_covers w wd m = window_covers w wd' m') \<Longrightarrow>
   evaluate ws None manual wd m n = evaluate ws None manual wd' m' n'"
  unfolding evaluate_def live_override_def
  by (simp add: list_ex_iff cong: find_cong_set conj_cong bex_cong)

lemma evaluate_daily: "\<forall>w \<in> set ws. daily w \<Longrightarrow> kind_of (evaluate ws None manual wd m n) =
    kind_of (evaluate ws None manual wd' m n')"
  by (subst evaluate_cong [of ws wd m wd' m manual n n']) (auto simp: covers_daily)

lemma mod_succ: "(t + 1) mod 1440 = (if t mod 1440 = 1439 then 0 else t mod 1440 + 1 :: int)"
proof -
  have "(t + 1) mod 1440 = (t mod 1440 + 1) mod 1440" by (simp only: mod_add_left_eq)
  moreover have "0 \<le> t mod 1440" "t mod 1440 < 1440" by simp_all
  ultimately show ?thesis by (cases "t mod 1440 = 1439") (simp_all del: mod_add_left_eq)
qed

lemma kind_at_step:
  assumes d: "\<forall>w \<in> set ws. daily w" and b: "(t + 1) mod 1440 \<notin> bounds ws"
  shows "kind_at ws manual (t + 1) = kind_at ws manual t"
proof -
  have "window_covers w 0 ((t + 1) mod 1440) = window_covers w 0 (t mod 1440)" if "w \<in> set ws" for w
  proof -
    have dw: "daily w" using d that by blast
    have nb: "(t + 1) mod 1440 \<noteq> sw_start w" "(t + 1) mod 1440 \<noteq> sw_end w"
      using b that by (auto simp: bounds_def)
    have r: "0 \<le> t mod 1440" "t mod 1440 < 1440" by simp_all
    have succ: "(t + 1) mod 1440 = (if t mod 1440 = 1439 then 0 else t mod 1440 + 1)"
      by (rule mod_succ)
    have ds: "0 \<le> sw_start w" "sw_start w < sw_end w" "sw_end w < 1440" using dw by (simp_all add: daily_def)
    show ?thesis unfolding covers_daily [OF dw]
    proof (cases "t mod 1440 = 1439")
      case True
      with succ nb have "sw_start w \<noteq> 0" by simp
      with True succ ds show "(sw_start w \<le> (t + 1) mod 1440 \<and> (t + 1) mod 1440 < sw_end w) =
          (sw_start w \<le> t mod 1440 \<and> t mod 1440 < sw_end w)" by simp
    next
      case False
      with succ have e: "(t + 1) mod 1440 = t mod 1440 + 1" by simp
      from nb show "(sw_start w \<le> (t + 1) mod 1440 \<and> (t + 1) mod 1440 < sw_end w) =
          (sw_start w \<le> t mod 1440 \<and> t mod 1440 < sw_end w)" unfolding e by linarith
    qed
  qed
  then show ?thesis unfolding kind_at_def by (subst evaluate_cong) simp_all
qed

lemma window_events_daily:
  "daily w \<Longrightarrow> window_events wd o' w =
     [(uint o' * 1440 + sw_start w, (wd + o') mod 7, sw_start w), (uint o' * 1440 + sw_end w, (wd + o') mod 7, sw_end w)]"
  by (simp add: window_events_def daily_def Let_def)

lemma mem_events:
  "e \<in> set (all_events ws None wd minute now_ms) \<longleftrightarrow>
   (\<exists>o' \<in> set [0, 1, 2, 3, 4, 5, 6, 7]. \<exists>w \<in> set ws. e \<in> set (window_events wd o' w))"
proof -
  have "override_events None wd minute now_ms = []" by (simp add: override_events_def live_override_def)
  moreover have "e \<in> set (concat (map (\<lambda>o'. concat (map (window_events wd o') ws)) os)) \<longleftrightarrow>
      (\<exists>o' \<in> set os. \<exists>w \<in> set ws. e \<in> set (window_events wd o' w))" for os
    by auto
  ultimately show ?thesis unfolding all_events_def by (simp only: append_Nil2 remdups_adj_set set_sort)
qed

lemma offsets_uint: "o' \<in> set [0, 1, 2, 3, 4, 5, 6, 7 :: u8] \<Longrightarrow> 0 \<le> uint o' \<and> uint o' \<le> 7"
  by auto

lemma offset_exists: "0 \<le> n \<Longrightarrow> n \<le> 7 \<Longrightarrow> \<exists>o' \<in> set [0, 1, 2, 3, 4, 5, 6, 7 :: u8]. uint o' = n"
proof -
  assume "0 \<le> n" "n \<le> 7"
  then consider "n = 0" | "n = 1" | "n = 2" | "n = 3" | "n = 4" | "n = 5" | "n = 6" | "n = 7" by linarith
  then show ?thesis by cases simp_all
qed

lemma daily_events:
  assumes d: "\<forall>w \<in> set ws. daily w"
  shows "(\<exists>day. (t, day, mn) \<in> set (all_events ws None wd minute now_ms)) \<longleftrightarrow>
    0 \<le> t \<and> t < 8 * 1440 \<and> mn = t mod 1440 \<and> mn \<in> bounds ws"
proof
  assume "\<exists>day. (t, day, mn) \<in> set (all_events ws None wd minute now_ms)"
  then obtain day o' w where o': "o' \<in> set [0, 1, 2, 3, 4, 5, 6, 7 :: u8]" and w: "w \<in> set ws"
    and e: "(t, day, mn) \<in> set (window_events wd o' w)" unfolding mem_events by blast
  have dw: "daily w" using d w by blast
  from e have "t = uint o' * 1440 + mn" "mn = sw_start w \<or> mn = sw_end w"
    by (auto simp: window_events_daily [OF dw])
  moreover from this(2) have "0 \<le> mn" "mn < 1440" "mn \<in> bounds ws" using dw w by (auto simp: daily_def bounds_def)
  ultimately show "0 \<le> t \<and> t < 8 * 1440 \<and> mn = t mod 1440 \<and> mn \<in> bounds ws"
    using offsets_uint [OF o'] by simp
next
  assume t: "0 \<le> t \<and> t < 8 * 1440 \<and> mn = t mod 1440 \<and> mn \<in> bounds ws"
  then obtain w where w: "w \<in> set ws" "mn = sw_start w \<or> mn = sw_end w" by (auto simp: bounds_def)
  have "0 \<le> t div 1440" "t div 1440 \<le> 7" using t by linarith+
  then obtain o' :: u8 where o': "o' \<in> set [0, 1, 2, 3, 4, 5, 6, 7]" "uint o' = t div 1440"
    using offset_exists by blast
  have tt: "t = uint o' * 1440 + mn" using t o'(2) by simp
  have dw: "daily w" using d w(1) by blast
  have "(t, (wd + o') mod 7, mn) \<in> set (window_events wd o' w)"
    unfolding window_events_daily [OF dw] using w(2) tt by auto
  with w(1) o'(1) show "\<exists>day. (t, day, mn) \<in> set (all_events ws None wd minute now_ms)"
    unfolding mem_events by blast
qed

lemma just_past_kind:
  assumes d: "\<forall>w \<in> set ws. daily w" and m: "0 \<le> mn" "mn < 1440" "mn = t mod 1440"
  shows "kind_past ws None manual minute now_ms (t, day, mn) = kind_at ws manual (t + 1)"
proof -
  obtain pd pm where p: "just_past day mn = (pd, pm)" by (cases "just_past day mn")
  have "pm = (t + 1) mod 1440" using p m mod_succ [of t] by (auto simp: just_past_def split: if_splits)
  then have "kind_of (evaluate ws None manual pd pm n) = kind_at ws manual (t + 1)" for n
    unfolding kind_at_def by (subst evaluate_cong) (use d in \<open>auto simp: covers_daily\<close>)
  then show ?thesis by (simp add: kind_past_def p)
qed

lemma all_events_sorted: "sorted (all_events ws over wd minute now_ms)"
  unfolding all_events_def by (simp add: sorted_remdups_adj)

text \<open>\<open>spread\<close>: no boundary lies one minute after another, so the minute the preview evaluates,
  one past a boundary, is in the state the boundary starts.\<close>

definition spread :: "sched_window list \<Rightarrow> bool" where
  "spread ws = (\<forall>x \<in> bounds ws. \<forall>y \<in> bounds ws. (x + 1) mod 1440 \<noteq> y)"

lemma kind_after_bound:
  assumes "\<forall>w \<in> set ws. daily w" "spread ws" "t mod 1440 \<in> bounds ws"
  shows "kind_at ws manual (t + 1) = kind_at ws manual t"
proof (rule kind_at_step [OF assms(1)])
  have "(t mod 1440 + 1) mod 1440 \<notin> bounds ws" using assms(2,3) unfolding spread_def by blast
  then show "(t + 1) mod 1440 \<notin> bounds ws" by (simp only: mod_add_left_eq not_False_eq_True)
qed

lemma kind_until:
  assumes d: "\<forall>w \<in> set ws. daily w"
    and none: "\<And>t. minute < t \<Longrightarrow> t < stop_at \<Longrightarrow> t mod 1440 \<in> bounds ws \<Longrightarrow> kind_at ws manual t = kind_at ws manual minute"
  shows "minute + int k < stop_at \<Longrightarrow> kind_at ws manual (minute + int k) = kind_at ws manual minute"
proof (induction k)
  case (Suc k)
  let ?t = "minute + int k"
  have s: "minute + int (Suc k) = ?t + 1" by simp
  have "kind_at ws manual (?t + 1) = kind_at ws manual minute"
  proof (cases "(?t + 1) mod 1440 \<in> bounds ws")
    case True
    with none [of "?t + 1"] Suc.prems s show ?thesis by linarith
  next
    case False
    from kind_at_step [OF d this, of manual] Suc s show ?thesis by simp
  qed
  then show ?case by (simp only: s)
qed simp

lemma preview_sound:
  assumes d: "\<forall>w \<in> set ws. daily w" and sp: "spread ws" and m: "0 \<le> minute" "minute < 1440"
    and tr: "next_change ws None manual wd minute now_ms = Some tr"
  shows "0 < tr_in_minutes tr \<and> tr_to tr \<noteq> kind_at ws manual minute \<and>
    kind_at ws manual (minute + tr_in_minutes tr) = tr_to tr \<and> tr_minute tr = (minute + tr_in_minutes tr) mod 1440 \<and>
    (\<forall>k. 0 \<le> k \<and> k < tr_in_minutes tr \<longrightarrow> kind_at ws manual (minute + k) = kind_at ws manual minute)"
proof -
  let ?evs = "all_events ws None wd minute now_ms"
  let ?cur = "kind_of (evaluate ws None manual wd minute now_ms)"
  let ?P = "\<lambda>e. fst e > minute \<and> kind_past ws None manual minute now_ms e \<noteq> ?cur"
  have mm: "minute mod 1440 = minute" using m by simp
  have cur: "?cur = kind_at ws manual minute" unfolding kind_at_def mm by (rule evaluate_daily [OF d])
  from tr obtain e where e: "find ?P ?evs = Some e"
    and tr': "tr = \<lparr>tr_in_minutes = fst e - minute, tr_weekday = fst (snd e), tr_minute = snd (snd e),
                    tr_to = kind_past ws None manual minute now_ms e\<rparr>"
    by (auto simp: next_change_def Let_def split: option.splits)
  obtain t day mn where ev: "e = (t, day, mn)" by (cases e)
  have mem: "e \<in> set ?evs" "?P e" using find_Some_set [OF e] by auto
  have at: "0 \<le> t" "t < 8 * 1440" "mn = t mod 1440" "mn \<in> bounds ws"
    using daily_events [OF d, of t mn wd minute now_ms] mem(1) ev by blast+
  have kp: "kind_past ws None manual minute now_ms (u, dy, u mod 1440) = kind_at ws manual u"
    if "u mod 1440 \<in> bounds ws" for u dy
    using just_past_kind [OF d, of "u mod 1440" u] kind_after_bound [OF d sp that] by simp
  have to: "tr_to tr = kind_at ws manual t" using kp [of t day] at ev tr' by simp
  have before: "kind_at ws manual u = kind_at ws manual minute" if "minute < u" "u < t" "u mod 1440 \<in> bounds ws" for u
  proof -
    have "0 \<le> u \<and> u < 8 * 1440 \<and> u mod 1440 = u mod 1440 \<and> u mod 1440 \<in> bounds ws" using that m at by simp
    then obtain dy where dy: "(u, dy, u mod 1440) \<in> set ?evs" using daily_events [OF d] by blast
    from e obtain i where i: "i < length ?evs" "?evs ! i = e" "\<forall>j < i. \<not> ?P (?evs ! j)"
      by (auto simp: find_Some_iff)
    from dy obtain j where j: "j < length ?evs" "?evs ! j = (u, dy, u mod 1440)" by (auto simp: in_set_conv_nth)
    have "j < i"
    proof (rule ccontr)
      assume "\<not> j < i"
      then have "?evs ! i \<le> ?evs ! j" using all_events_sorted j(1) by (intro sorted_nth_mono) auto
      with i(2) j(2) ev that(2) show False by (auto simp: less_eq_prod_def)
    qed
    with i(3) j(2) that(1) have "kind_past ws None manual minute now_ms (u, dy, u mod 1440) = ?cur" by auto
    with kp [OF that(3)] cur show ?thesis by simp
  qed
  have gap: "kind_at ws manual (minute + k) = kind_at ws manual minute" if "0 \<le> k" "k < t - minute" for k
    using kind_until [OF d before, of t "nat k"] that by simp
  show ?thesis using mem(2) ev tr' to cur gap at by simp
qed

lemma preview_complete:
  assumes d: "\<forall>w \<in> set ws. daily w" and sp: "spread ws" and m: "0 \<le> minute" "minute < 1440"
    and none: "next_change ws None manual wd minute now_ms = None"
  shows "kind_at ws manual (minute + int k) = kind_at ws manual minute"
proof -
  let ?evs = "all_events ws None wd minute now_ms"
  let ?cur = "kind_of (evaluate ws None manual wd minute now_ms)"
  have mm: "minute mod 1440 = minute" using m by simp
  have cur: "?cur = kind_at ws manual minute" unfolding kind_at_def mm by (rule evaluate_daily [OF d])
  have all: "\<forall>e \<in> set ?evs. fst e > minute \<longrightarrow> kind_past ws None manual minute now_ms e = ?cur"
    using none by (auto simp: next_change_def Let_def find_None_all split: option.splits)
  have same: "kind_at ws manual u = kind_at ws manual minute"
    if "minute < u" "u < minute + 1441" "u mod 1440 \<in> bounds ws" for u
  proof -
    have "0 \<le> u \<and> u < 8 * 1440 \<and> u mod 1440 = u mod 1440 \<and> u mod 1440 \<in> bounds ws" using that m by simp
    then obtain dy where dy: "(u, dy, u mod 1440) \<in> set ?evs" using daily_events [OF d] by blast
    with all that(1) have "kind_past ws None manual minute now_ms (u, dy, u mod 1440) = ?cur" by fastforce
    moreover have "kind_past ws None manual minute now_ms (u, dy, u mod 1440) = kind_at ws manual u"
      using just_past_kind [OF d, of "u mod 1440" u] kind_after_bound [OF d sp that(3)] by simp
    ultimately show ?thesis using cur by simp
  qed
  have day: "kind_at ws manual (minute + int j) = kind_at ws manual minute" if "j < 1441" for j
    using kind_until [OF d same, of "minute + 1441" j] that by simp
  have "(minute + int k) mod 1440 = (minute + int (k mod 1440)) mod 1440" by (simp add: zmod_int mod_simps)
  then have "kind_at ws manual (minute + int k) = kind_at ws manual (minute + int (k mod 1440))"
    by (simp add: kind_at_def)
  also have "\<dots> = kind_at ws manual minute"
    by (rule day) (use mod_less_divisor [of 1440 k] in linarith)
  finally show ?thesis .
qed

text \<open>The preview is exact for schedules of same-day windows on every day whose boundaries are
  not one minute apart: when it names a change, the state's kind stays what it is until that minute and
  is the named one there; when it names none, the kind never changes again.\<close>

theorem preview_exact:
  assumes "\<forall>w \<in> set ws. daily w" "spread ws" "0 \<le> minute" "minute < 1440"
  shows "(case next_change ws None manual wd minute now_ms of
      Some tr \<Rightarrow> 0 < tr_in_minutes tr \<and> tr_minute tr = (minute + tr_in_minutes tr) mod 1440 \<and>
        kind_at ws manual (minute + tr_in_minutes tr) = tr_to tr \<and> tr_to tr \<noteq> kind_at ws manual minute \<and>
        (\<forall>k. 0 \<le> k \<and> k < tr_in_minutes tr \<longrightarrow> kind_at ws manual (minute + k) = kind_at ws manual minute)
    | None \<Rightarrow> \<forall>k. kind_at ws manual (minute + int k) = kind_at ws manual minute)"
proof (cases "next_change ws None manual wd minute now_ms")
  case None
  with preview_complete [OF assms None] show ?thesis by simp
next
  case (Some tr)
  with preview_sound [OF assms Some] show ?thesis by simp
qed

theorem preview_exact_witness:
  "case next_change [limit_window 540 600] None None 3 720 0 of
      Some tr \<Rightarrow> 0 < tr_in_minutes tr \<and> kind_at [limit_window 540 600] None (720 + tr_in_minutes tr) = tr_to tr
    | None \<Rightarrow> \<forall>k. kind_at [limit_window 540 600] None (720 + int k) = kind_at [limit_window 540 600] None 720"
proof -
  have "\<forall>w \<in> set [limit_window 540 600]. daily w" by (simp add: daily_def limit_window_def)
  moreover have "spread [limit_window 540 600]" by (simp add: spread_def bounds_def limit_window_def)
  ultimately have "case next_change [limit_window 540 600] None None 3 720 0 of
      Some tr \<Rightarrow> 0 < tr_in_minutes tr \<and> tr_minute tr = (720 + tr_in_minutes tr) mod 1440 \<and>
        kind_at [limit_window 540 600] None (720 + tr_in_minutes tr) = tr_to tr \<and>
        tr_to tr \<noteq> kind_at [limit_window 540 600] None 720 \<and>
        (\<forall>k. 0 \<le> k \<and> k < tr_in_minutes tr \<longrightarrow>
           kind_at [limit_window 540 600] None (720 + k) = kind_at [limit_window 540 600] None 720)
    | None \<Rightarrow> \<forall>k. kind_at [limit_window 540 600] None (720 + int k) = kind_at [limit_window 540 600] None 720"
    by (rule preview_exact) simp_all
  then show ?thesis by (simp split: option.splits)
qed

text \<open>The preview misses the end of an overnight window already running: at 03:00 inside a
  nightly 22:00 to 06:00 limit the limit ends at 06:00 the same day, 180 minutes ahead, but the preview
  names 06:00 of the next day, 1620 minutes ahead; and it misses a one-minute window altogether.\<close>

theorem preview_misses_changes:
  "kind_of (evaluate [limit_window 1320 360] None None 3 180 0) = KindLimited \<and>
   kind_of (evaluate [limit_window 1320 360] None None 3 360 (180 * 60000)) = KindOpen \<and>
   next_change [limit_window 1320 360] None None 3 180 0 =
     Some \<lparr>tr_in_minutes = 1620, tr_weekday = 4, tr_minute = 360, tr_to = KindOpen\<rparr> \<and>
   kind_of (evaluate [limit_window 600 601] None None 3 600 0) = KindLimited \<and>
   next_change [limit_window 600 601] None None 3 540 0 = None"
proof (intro conjI)
  show "kind_of (evaluate [limit_window 1320 360] None None 3 180 0) = KindLimited"
    "kind_of (evaluate [limit_window 1320 360] None None 3 360 (180 * 60000)) = KindOpen"
    "kind_of (evaluate [limit_window 600 601] None None 3 600 0) = KindLimited"
    by (simp_all add: evaluate_def live_override_def window_covers_def limit_window_def)
  show "next_change [limit_window 1320 360] None None 3 180 0 =
     Some \<lparr>tr_in_minutes = 1620, tr_weekday = 4, tr_minute = 360, tr_to = KindOpen\<rparr>"
    "next_change [limit_window 600 601] None None 3 540 0 = None"
    by code_simp+
qed

section \<open>The pause memory over a window\<close>

datatype sched_op = SchedTick bool "string list" | SchedResumed string | SchedReset

fun sched_step :: "sched_op \<Rightarrow> sched_memory \<Rightarrow> transition_actions \<times> sched_memory" where
  "sched_step (SchedTick paused active) m = pause_transition paused active m"
| "sched_step (SchedResumed h) m = (\<lparr>ta_pause = [], ta_release = {}\<rparr>, user_resumed h m)"
| "sched_step SchedReset m = (\<lparr>ta_pause = [], ta_release = {}\<rparr>, sched_memory_reset m)"

fun inside_window :: "sched_op \<Rightarrow> bool" where
  "inside_window (SchedTick paused _) = paused"
| "inside_window (SchedResumed _) = True"
| "inside_window SchedReset = False"

definition resumed_in :: "sched_op list \<Rightarrow> string set" where
  "resumed_in ops = {h. SchedResumed h \<in> set ops}"

interpretation pause_memory: keeps_invariant sched_step "\<lambda>_ _. True"
    "\<lambda>m. sm_was_paused m \<or> sm_held m = {}" "\<lambda>a. ta_pause a = [] \<or> ta_release a = {}"
proof
  show "sm_was_paused (snd (sched_step op m)) \<or> sm_held (snd (sched_step op m)) = {}"
    if "sm_was_paused m \<or> sm_held m = {}" for m op
    using that by (cases op) (auto simp: pause_transition_def user_resumed_def sched_memory_reset_def)
  show "ta_pause (fst (sched_step op m)) = [] \<or> ta_release (fst (sched_step op m)) = {}" for m op
    by (cases op) (auto simp: pause_transition_def)
qed

lemma inside_run:
  "sm_was_paused m \<Longrightarrow> \<forall>op \<in> set ops. inside_window op \<Longrightarrow>
   sm_was_paused (snd (run_steps sched_step m ops)) \<and>
   sm_held (snd (run_steps sched_step m ops)) = sm_held m - resumed_in ops \<and>
   (\<forall>a \<in> set (fst (run_steps sched_step m ops)). ta_pause a = [] \<and> ta_release a = {})"
proof (induction ops arbitrary: m)
  case (Cons op ops)
  let ?m1 = "snd (sched_step op m)"
  have "sm_was_paused ?m1 \<and> sm_held ?m1 = sm_held m - resumed_in [op] \<and>
      ta_pause (fst (sched_step op m)) = [] \<and> ta_release (fst (sched_step op m)) = {}"
    using Cons.prems by (cases op) (auto simp: pause_transition_def user_resumed_def resumed_in_def)
  moreover have "resumed_in (op # ops) = resumed_in [op] \<union> resumed_in ops" by (auto simp: resumed_in_def)
  ultimately show ?case using Cons.IH [of ?m1] Cons.prems(2) by (auto simp: split_def Let_def)
qed (simp add: resumed_in_def)

text \<open>A pause window releases exactly what it paused. From any history, entering a window
  pauses the torrents active then; whatever ticks and manual resumes happen inside it pause and release
  nothing more; and leaving it releases those torrents except the ones the user resumed, after which
  nothing is held.\<close>

theorem window_releases_what_it_paused:
  assumes "m = snd (run_steps sched_step sched_memory_default before)" "\<not> sm_was_paused m"
    and "\<forall>op \<in> set during. inside_window op"
  shows "(let (enter, m1) = pause_transition True active m;
      (mid, m2) = run_steps sched_step m1 during;
      (leave, m3) = pause_transition False others m2 in
    ta_pause enter = active \<and> ta_release enter = {} \<and>
    (\<forall>a \<in> set mid. ta_pause a = [] \<and> ta_release a = {}) \<and>
    ta_pause leave = [] \<and> ta_release leave = set active - resumed_in during \<and> sm_held m3 = {})"
proof -
  have "sm_was_paused m \<or> sm_held m = {}"
    using pause_memory.inv_run [of sched_memory_default before] assms(1)
    by (simp add: admissible_run_uniform sched_memory_default_def)
  then have held: "sm_held m = {}" using assms(2) by simp
  let ?m1 = "m\<lparr>sm_was_paused := True, sm_held := set active\<rparr>"
  have enter: "pause_transition True active m = (\<lparr>ta_pause = active, ta_release = {}\<rparr>, ?m1)"
    using assms(2) held by (simp add: pause_transition_def)
  obtain mid m2 where run: "run_steps sched_step ?m1 during = (mid, m2)" by (cases "run_steps sched_step ?m1 during")
  have "sm_was_paused m2" "sm_held m2 = set active - resumed_in during"
    "\<forall>a \<in> set mid. ta_pause a = [] \<and> ta_release a = {}"
    using inside_run [OF _ assms(3), of ?m1] run by auto
  moreover have "pause_transition False others m2 =
      (\<lparr>ta_pause = [], ta_release = sm_held m2\<rparr>, m2\<lparr>sm_was_paused := False, sm_held := {}\<rparr>)"
    using calculation(1) by (simp add: pause_transition_def)
  ultimately show ?thesis unfolding enter Let_def prod.case run by simp
qed

theorem window_releases_what_it_paused_witness:
  "ta_release (fst (pause_transition False []
     (snd (run_steps sched_step (snd (pause_transition True [''A'', ''B''] sched_memory_default)) [SchedResumed ''A''])))) = {''B''}"
proof -
  have "sched_memory_default = snd (run_steps sched_step sched_memory_default [])" by simp
  from window_releases_what_it_paused [OF this, of "[SchedResumed ''A'']" "[''A'', ''B'']" "[]"]
  have "ta_release (fst (pause_transition False []
     (snd (run_steps sched_step (snd (pause_transition True [''A'', ''B''] sched_memory_default)) [SchedResumed ''A'']))))
     = set [''A'', ''B''] - resumed_in [SchedResumed ''A'']"
    by (simp add: sched_memory_default_def split_def Let_def)
  then show ?thesis by (auto simp: resumed_in_def)
qed

end
