(* ===== verification/Bandwidth.thy ===== *)
theory Bandwidth
  imports Complete
begin

text \<open>
  Bandwidth rules (\<open>crates/rtorrent/src/bandwidth.rs\<close>): which rule owns a torrent, the deterministic
  throttle names, the display precedence, one planning tick and the session memory. What the host does
  with an action is \<open>carry_out_bandwidth\<close>, from the actions' own documentation.
\<close>

record bandwidth_rule =
  br_id :: string
  br_tag :: "string option"
  br_label :: "string option"
  br_down_kb :: int
  br_up_kb :: int
  br_peers_max :: int
  br_peers_min :: int
  br_uploads_max :: int

definition bw_tag_rule :: "string \<Rightarrow> string \<Rightarrow> int \<Rightarrow> int \<Rightarrow> bandwidth_rule" where
  "bw_tag_rule i tag down_kb up_kb =
     \<lparr>br_id = trim i, br_tag = Some (to_lower (trim tag)), br_label = None, br_down_kb = down_kb, br_up_kb = up_kb,
      br_peers_max = 0, br_peers_min = 0, br_uploads_max = 0\<rparr>"

definition bw_label_rule :: "string \<Rightarrow> string \<Rightarrow> int \<Rightarrow> int \<Rightarrow> bandwidth_rule" where
  "bw_label_rule i label down_kb up_kb =
     \<lparr>br_id = trim i, br_tag = None, br_label = Some (to_lower (trim label)), br_down_kb = down_kb, br_up_kb = up_kb,
      br_peers_max = 0, br_peers_min = 0, br_uploads_max = 0\<rparr>"

definition throttle_char :: "char \<Rightarrow> bool" where
  "throttle_char c = (is_alpha c \<or> is_digit c \<or> c = CHR ''_'' \<or> c = CHR ''-'')"

definition throttle_name :: "bandwidth_rule \<Rightarrow> string" where
  "throttle_name r =
     (let sanitised = map (\<lambda>c. if throttle_char c then c else CHR ''_'') (to_lower (trim (br_id r)));
          named = (if sanitised = [] then ''rule'' else sanitised)
      in ''rule_'' @ take 32 named)"

definition nonblank :: "string option \<Rightarrow> string option" where
  "nonblank o' = (case o' of None \<Rightarrow> None | Some s \<Rightarrow> if trim s = [] then None else Some (trim s))"

definition quoted :: "string \<Rightarrow> string" where
  "quoted s = CHR 0x22 # s @ [CHR 0x22]"

definition describe :: "bandwidth_rule \<Rightarrow> string" where
  "describe r =
     (case nonblank (br_tag r) of
        Some tag \<Rightarrow> ''tag '' @ quoted tag
      | None \<Rightarrow> (case nonblank (br_label r) of
                   Some label \<Rightarrow> ''label '' @ quoted label
                 | None \<Rightarrow> ''untargeted''))"

definition bw_tag_hit :: "string list \<Rightarrow> bandwidth_rule \<Rightarrow> bool" where
  "bw_tag_hit tags r =
     (trim (br_id r) \<noteq> [] \<and>
      (case nonblank (br_tag r) of None \<Rightarrow> False | Some tag \<Rightarrow> to_lower tag \<in> set (map to_lower tags)))"

definition bw_label_hit :: "string \<Rightarrow> bandwidth_rule \<Rightarrow> bool" where
  "bw_label_hit key r =
     (trim (br_id r) \<noteq> [] \<and> br_tag r = None \<and>
      (case br_label r of None \<Rightarrow> False | Some l \<Rightarrow> to_lower (trim l) = key))"

definition rule_for :: "string \<Rightarrow> string list \<Rightarrow> bandwidth_rule list \<Rightarrow> bandwidth_rule option" where
  "rule_for label tags rules =
     (case find (bw_tag_hit tags) rules of
        Some r \<Rightarrow> Some r
      | None \<Rightarrow>
          (let key = to_lower (trim label) in
           if key = [] then None else find (bw_label_hit key) rules))"

datatype limit_source = SourceManual | SourceRule string | SourceTurtle | SourceGlobal

fun source_word :: "limit_source \<Rightarrow> string" where
  "source_word SourceManual = ''torrent override''"
| "source_word (SourceRule desc) = ''rule '' @ desc"
| "source_word SourceTurtle = ''turtle''"
| "source_word SourceGlobal = ''global''"

definition limit_source_of ::
  "string \<Rightarrow> string \<Rightarrow> bool \<Rightarrow> bandwidth_rule option \<Rightarrow> bool \<Rightarrow> limit_source" where
  "limit_source_of throttle marker has_own rule turtle =
     (if trim marker = [] \<and> (has_own \<or> trim throttle \<noteq> []) then SourceManual
      else case rule of
             Some r \<Rightarrow> SourceRule (describe r)
           | None \<Rightarrow> if turtle then SourceTurtle else SourceGlobal)"

datatype bandwidth_action = Adopt string bandwidth_rule | Release string

record bandwidth_state =
  bs_defined :: "string set"
  bs_warned :: "string set"

definition bandwidth_reset :: "bandwidth_state \<Rightarrow> bandwidth_state" where
  "bandwidth_reset s = s\<lparr>bs_defined := {}, bs_warned := {}\<rparr>"

definition needs_define :: "string \<Rightarrow> bandwidth_state \<Rightarrow> bool \<times> bandwidth_state" where
  "needs_define name s = (name \<notin> bs_defined s, s\<lparr>bs_defined := insert name (bs_defined s)\<rparr>)"

definition should_warn :: "string \<Rightarrow> bandwidth_state \<Rightarrow> bool \<times> bandwidth_state" where
  "should_warn i s = (i \<notin> bs_warned s, s\<lparr>bs_warned := insert i (bs_warned s)\<rparr>)"

definition clear_warned :: "string \<Rightarrow> bandwidth_state \<Rightarrow> bandwidth_state" where
  "clear_warned i s = s\<lparr>bs_warned := bs_warned s - {i}\<rparr>"

definition caps_default :: "raw_torrent \<Rightarrow> bool" where
  "caps_default t = (raw_peers_max t = 0 \<and> raw_peers_min t = 0 \<and> raw_uploads_max t = 0)"

definition verdict :: "bandwidth_rule list \<Rightarrow> raw_torrent \<Rightarrow> bandwidth_action option" where
  "verdict rules t =
     (let marker = trim (raw_throttle_rule t) in
      case rule_for (raw_label t) (raw_tags t) rules of
        Some r \<Rightarrow>
          if marker \<noteq> br_id r
          then (if marker = [] \<and> trim (raw_throttle_name t) = [] \<and> caps_default t then Some (Adopt (raw_hash t) r)
                else if marker \<noteq> [] then Some (Adopt (raw_hash t) r) else None)
          else None
      | None \<Rightarrow> if marker \<noteq> [] then Some (Release (raw_hash t)) else None)"

fun plan_from :: "string set \<Rightarrow> bandwidth_rule list \<Rightarrow> raw_torrent list \<Rightarrow> bandwidth_action list" where
  "plan_from seen rules [] = []"
| "plan_from seen rules (t # ts) =
     (if raw_hash t \<in> seen then plan_from seen rules ts
      else (case verdict rules t of None \<Rightarrow> [] | Some a \<Rightarrow> [a]) @ plan_from (insert (raw_hash t) seen) rules ts)"

definition plan_bandwidth :: "raw_torrent list \<Rightarrow> bandwidth_rule list \<Rightarrow> bandwidth_action list" where
  "plan_bandwidth raw rules = plan_from {} rules raw"

definition rule_throttles :: "bandwidth_rule list \<Rightarrow> (string \<rightharpoonup> int \<times> int)" where
  "rule_throttles rules =
     fold (\<lambda>r m. if trim (br_id r) = [] then m else m(throttle_name r \<mapsto> (br_down_kb r, br_up_kb r))) rules Map.empty"

definition profile_differs :: "bandwidth_rule \<Rightarrow> bandwidth_rule \<Rightarrow> bool" where
  "profile_differs o' n =
     (br_down_kb o' \<noteq> br_down_kb n \<or> br_up_kb o' \<noteq> br_up_kb n \<or> br_peers_max o' \<noteq> br_peers_max n \<or>
      br_peers_min o' \<noteq> br_peers_min n \<or> br_uploads_max o' \<noteq> br_uploads_max n \<or> br_tag o' \<noteq> br_tag n \<or>
      br_label o' \<noteq> br_label n)"

definition changed_rule_ids :: "bandwidth_rule list \<Rightarrow> bandwidth_rule list \<Rightarrow> string list" where
  "changed_rule_ids old new =
     map br_id (filter (\<lambda>n. trim (br_id n) \<noteq> [] \<and>
       (case find (\<lambda>o'. br_id o' = br_id n) old of None \<Rightarrow> False | Some o' \<Rightarrow> profile_differs o' n)) new)"

text \<open>The daemon's next rows once the host has executed the actions: adopt assigns the throttle, pushes the
  caps and records the marker; release unassigns, resets and clears.\<close>

fun action_hash :: "bandwidth_action \<Rightarrow> string" where
  "action_hash (Adopt h r) = h"
| "action_hash (Release h) = h"

fun act_on :: "bandwidth_action \<Rightarrow> raw_torrent \<Rightarrow> raw_torrent" where
  "act_on (Adopt h r) t =
     t\<lparr>raw_throttle_name := throttle_name r, raw_peers_max := br_peers_max r, raw_peers_min := br_peers_min r,
       raw_uploads_max := br_uploads_max r, raw_throttle_rule := br_id r\<rparr>"
| "act_on (Release h) t =
     t\<lparr>raw_throttle_name := [], raw_peers_max := 0, raw_peers_min := 0, raw_uploads_max := 0, raw_throttle_rule := []\<rparr>"

definition carry_out_bandwidth :: "bandwidth_action list \<Rightarrow> raw_torrent list \<Rightarrow> raw_torrent list" where
  "carry_out_bandwidth acts raw =
     map (\<lambda>t. case find (\<lambda>a. action_hash a = raw_hash t) acts of None \<Rightarrow> t | Some a \<Rightarrow> act_on a t) raw"

section \<open>Planning\<close>

lemma verdict_hash: "verdict rules t = Some a \<Longrightarrow> action_hash a = raw_hash t"
  by (auto simp: verdict_def Let_def split: option.splits if_splits)

lemma plan_from_skips: "a \<in> set (plan_from seen rules ts) \<Longrightarrow> action_hash a \<notin> seen"
proof (induction ts arbitrary: seen)
  case (Cons t ts)
  then show ?case using verdict_hash [of rules t a] by (auto split: if_splits option.splits)
qed simp

lemma plan_from_find:
  "distinct (map raw_hash ts) \<Longrightarrow> t \<in> set ts \<Longrightarrow> raw_hash t \<notin> seen \<Longrightarrow>
   find (\<lambda>a. action_hash a = raw_hash t) (plan_from seen rules ts) = verdict rules t"
proof (induction ts arbitrary: seen)
  case (Cons u us)
  show ?case
  proof (cases "t = u")
    case True
    have rest: "find (\<lambda>a. action_hash a = raw_hash u) (plan_from (insert (raw_hash u) seen) rules us) = None"
      using plan_from_skips by (fastforce simp: find_None_all)
    with True Cons.prems show ?thesis by (auto simp: verdict_hash split: option.splits)
  next
    case False
    with Cons.prems have "raw_hash t \<noteq> raw_hash u" by (auto simp: image_iff)
    with False Cons show ?thesis by (auto dest: verdict_hash split: option.splits)
  qed
qed simp

lemma set_plan:
  "distinct (map raw_hash raw) \<Longrightarrow> set (plan_bandwidth raw rules) = {a. \<exists>t \<in> set raw. verdict rules t = Some a}"
proof -
  have "distinct (map raw_hash ts) \<Longrightarrow> raw_hash ` set ts \<inter> seen = {} \<Longrightarrow>
      set (plan_from seen rules ts) = {a. \<exists>t \<in> set ts. verdict rules t = Some a}" for seen ts
  proof (induction ts arbitrary: seen)
    case (Cons t ts)
    then have "raw_hash ` set ts \<inter> insert (raw_hash t) seen = {}" by auto
    with Cons show ?case by (auto split: option.splits)
  qed simp
  then show "distinct (map raw_hash raw) \<Longrightarrow> set (plan_bandwidth raw rules) = {a. \<exists>t \<in> set raw. verdict rules t = Some a}"
    by (simp add: plan_bandwidth_def)
qed

lemma rule_for_id: "rule_for label tags rules = Some r \<Longrightarrow> r \<in> set rules \<and> trim (br_id r) \<noteq> []"
  by (auto simp: rule_for_def Let_def bw_tag_hit_def bw_label_hit_def split: option.splits if_splits dest: find_Some_set)

lemma verdict_settles:
  assumes "\<forall>r \<in> set rules. trim (br_id r) = br_id r" "verdict rules t = Some a"
  shows "verdict rules (act_on a t) = None"
proof (cases "rule_for (raw_label t) (raw_tags t) rules")
  case None
  with assms(2) show ?thesis by (auto simp: verdict_def Let_def split: if_splits)
next
  case (Some r)
  with assms(2) have "a = Adopt (raw_hash t) r" by (auto simp: verdict_def Let_def split: if_splits)
  with Some assms(1) rule_for_id [OF Some] show ?thesis by (simp add: verdict_def Let_def)
qed

text \<open>Bandwidth planning keeps its hands off and settles. It never acts on a torrent with a
  throttle or caps of its own and no marker, nor on one its matching rule already marks, nor on an unmarked
  one no rule matches; and once its actions are carried out the next tick plans nothing, provided the rules'
  ids carry no outer blanks: the tick compares the trimmed marker with the id as written, so a rule
  whose id has blanks around it is adopted again at every tick.\<close>

theorem bandwidth_settles:
  assumes "distinct (map raw_hash raw)"
  shows "(\<forall>t \<in> set raw.
      trim (raw_throttle_rule t) = [] \<and> (trim (raw_throttle_name t) \<noteq> [] \<or> \<not> caps_default t \<or>
         rule_for (raw_label t) (raw_tags t) rules = None) \<longrightarrow>
      raw_hash t \<notin> action_hash ` set (plan_bandwidth raw rules)) \<and>
    ((\<forall>r \<in> set rules. trim (br_id r) = br_id r) \<longrightarrow>
      plan_bandwidth (carry_out_bandwidth (plan_bandwidth raw rules) raw) rules = []) \<and>
    (\<forall>t r. raw = [t] \<and> rule_for (raw_label t) (raw_tags t) rules = Some r \<and> trim (br_id r) \<noteq> br_id r \<and>
       trim (raw_throttle_rule t) = trim (br_id r) \<longrightarrow>
       plan_bandwidth raw rules = [Adopt (raw_hash t) r] \<and>
       plan_bandwidth (carry_out_bandwidth (plan_bandwidth raw rules) raw) rules = [Adopt (raw_hash t) r])"
proof (intro conjI ballI impI allI)
  fix t assume t: "t \<in> set raw" and m: "trim (raw_throttle_rule t) = [] \<and> (trim (raw_throttle_name t) \<noteq> [] \<or> \<not> caps_default t \<or>
         rule_for (raw_label t) (raw_tags t) rules = None)"
  then have "verdict rules t = None"
    using rule_for_id by (fastforce simp: verdict_def Let_def split: option.splits)
  moreover have "t' = t" if "t' \<in> set raw" "raw_hash t' = raw_hash t" for t'
    using assms that t by (auto intro: distinct_key_eq)
  ultimately show "raw_hash t \<notin> action_hash ` set (plan_bandwidth raw rules)"
    unfolding set_plan [OF assms] using verdict_hash [of rules] by fastforce
next
  assume ids: "\<forall>r \<in> set rules. trim (br_id r) = br_id r"
  let ?next = "carry_out_bandwidth (plan_bandwidth raw rules) raw"
  have hash: "raw_hash (act_on a t) = raw_hash t" for a t by (cases a) simp_all
  have row: "u \<in> set ?next \<Longrightarrow> verdict rules u = None" for u
    using plan_from_find [OF assms, of _ "{}" rules] verdict_settles [OF ids]
    by (auto simp: carry_out_bandwidth_def plan_bandwidth_def split: option.splits)
  have "map raw_hash ?next = map raw_hash raw"
    by (simp add: carry_out_bandwidth_def hash split: option.splits)
  then have "set (plan_bandwidth ?next rules) = {}" using set_plan [of ?next rules] assms row by auto
  then show "plan_bandwidth ?next rules = []" by simp
next
  fix t r
  assume a: "raw = [t] \<and> rule_for (raw_label t) (raw_tags t) rules = Some r \<and> trim (br_id r) \<noteq> br_id r \<and>
       trim (raw_throttle_rule t) = trim (br_id r)"
  then have ne: "trim (br_id r) \<noteq> []" using rule_for_id by blast
  with a show one: "plan_bandwidth raw rules = [Adopt (raw_hash t) r]"
    by (simp add: plan_bandwidth_def verdict_def Let_def)
  show "plan_bandwidth (carry_out_bandwidth (plan_bandwidth raw rules) raw) rules = [Adopt (raw_hash t) r]"
    using a ne unfolding one by (simp add: carry_out_bandwidth_def plan_bandwidth_def verdict_def Let_def)
qed

theorem bandwidth_settles_witness:
  "plan_bandwidth (carry_out_bandwidth
      (plan_bandwidth [raw_torrent_default\<lparr>raw_hash := ''A'', raw_label := ''tv''\<rparr>] [bw_label_rule ''slow'' ''TV'' 100 50])
      [raw_torrent_default\<lparr>raw_hash := ''A'', raw_label := ''tv''\<rparr>]) [bw_label_rule ''slow'' ''TV'' 100 50] = []"
proof -
  let ?raw = "[raw_torrent_default\<lparr>raw_hash := ''A'', raw_label := ''tv''\<rparr>]"
  have "distinct (map raw_hash ?raw)" by simp
  from bandwidth_settles [OF this, of "[bw_label_rule ''slow'' ''TV'' 100 50]"]
  show ?thesis by (simp add: bw_label_rule_def)
qed

section \<open>Throttle names\<close>

lemma list_all_take: "list_all P xs \<Longrightarrow> list_all P (take n xs)"
  by (auto simp: list_all_iff dest: in_set_takeD)

lemma throttle_char_no_ws: "throttle_char c \<Longrightarrow> \<not> is_ws c"
  by (auto simp: throttle_char_def is_alpha_def is_digit_def is_ws_nat char_le_iff char_eq_nat)

lemma throttle_name_plain:
  "list_all throttle_char (br_id r) \<Longrightarrow> to_lower (br_id r) = br_id r \<Longrightarrow> br_id r \<noteq> [] \<Longrightarrow> length (br_id r) \<le> 32 \<Longrightarrow>
   throttle_name r = ''rule_'' @ br_id r"
proof -
  assume a: "list_all throttle_char (br_id r)" "to_lower (br_id r) = br_id r" "br_id r \<noteq> []" "length (br_id r) \<le> 32"
  then have "trim (br_id r) = br_id r" by (intro trim_no_ws) (auto simp: list_all_iff throttle_char_no_ws)
  with a show ?thesis by (simp add: throttle_name_def Let_def map_idI list_all_iff)
qed

text \<open>Throttle names are safe daemon identifiers: the prefix, then one to thirty-two characters
  out of letters, digits, underscore and hyphen. Rules whose ids are written in those characters, in
  lower case and no longer, get different names for different ids; others can collide, as a blank and an
  underscore do, and then only the later rule's rates are defined.\<close>

theorem throttle_names:
  "(\<exists>n. throttle_name r = ''rule_'' @ n \<and> 1 \<le> length n \<and> length n \<le> 32 \<and> list_all throttle_char n) \<and>
   (\<forall>r'. (\<forall>x \<in> {r, r'}. br_id x \<noteq> [] \<and> length (br_id x) \<le> 32 \<and> list_all throttle_char (br_id x) \<and>
        to_lower (br_id x) = br_id x) \<and> throttle_name r = throttle_name r' \<longrightarrow> br_id r = br_id r') \<and>
   throttle_name (bw_label_rule ''a b'' l1 d1 u1) = throttle_name (bw_label_rule ''a_b'' l2 d2 u2) \<and>
   rule_throttles [bw_label_rule ''a b'' l1 d1 u1, bw_label_rule ''a_b'' l2 d2 u2] = [''rule_a_b'' \<mapsto> (d2, u2)]"
proof (intro conjI allI impI)
  let ?s = "map (\<lambda>c. if throttle_char c then c else CHR ''_'') (to_lower (trim (br_id r)))"
  let ?n = "take 32 (if ?s = [] then ''rule'' else ?s)"
  have u: "throttle_char (CHR ''_'')" by (simp add: throttle_char_def)
  have "list_all throttle_char ''rule''" by code_simp
  then have "list_all throttle_char (if ?s = [] then ''rule'' else ?s)" using u by (auto simp: list_all_iff)
  then have "list_all throttle_char ?n" by (rule list_all_take)
  moreover have "1 \<le> length ?n" "length ?n \<le> 32" by (cases ?s; simp)+
  ultimately show "\<exists>n. throttle_name r = ''rule_'' @ n \<and> 1 \<le> length n \<and> length n \<le> 32 \<and> list_all throttle_char n"
    unfolding throttle_name_def Let_def by blast
  fix r' assume "(\<forall>x \<in> {r, r'}. br_id x \<noteq> [] \<and> length (br_id x) \<le> 32 \<and> list_all throttle_char (br_id x) \<and>
        to_lower (br_id x) = br_id x) \<and> throttle_name r = throttle_name r'"
  then show "br_id r = br_id r'" using throttle_name_plain [of r] throttle_name_plain [of r'] by simp
next
  have n: "throttle_name (bw_label_rule ''a b'' l d u) = ''rule_a_b''"
    "throttle_name (bw_label_rule ''a_b'' l d u) = ''rule_a_b''" for l d u
    unfolding throttle_name_def bw_label_rule_def bandwidth_rule.simps by code_simp+
  have t: "trim (br_id (bw_label_rule ''a b'' l d u)) \<noteq> []" "trim (br_id (bw_label_rule ''a_b'' l d u)) \<noteq> []" for l d u
    unfolding bw_label_rule_def bandwidth_rule.simps by code_simp+
  show "throttle_name (bw_label_rule ''a b'' l1 d1 u1) = throttle_name (bw_label_rule ''a_b'' l2 d2 u2)" by (simp add: n)
  show "rule_throttles [bw_label_rule ''a b'' l1 d1 u1, bw_label_rule ''a_b'' l2 d2 u2] = [''rule_a_b'' \<mapsto> (d2, u2)]"
    using t n by (simp add: rule_throttles_def) (simp add: bw_label_rule_def)
qed

theorem throttle_names_witness:
  "throttle_name (bw_label_rule ''slow'' ''tv'' 1 1) \<noteq> throttle_name (bw_label_rule ''fast'' ''tv'' 1 1)"
proof
  let ?a = "bw_label_rule ''slow'' ''tv'' 1 1" and ?b = "bw_label_rule ''fast'' ''tv'' 1 1"
  assume eq: "throttle_name ?a = throttle_name ?b"
  have i: "br_id ?a = ''slow''" "br_id ?b = ''fast''" by code_simp+
  have c: "list_all throttle_char ''slow''" "list_all throttle_char ''fast''"
    "to_lower ''slow'' = ''slow''" "to_lower ''fast'' = ''fast''" by code_simp+
  have "\<forall>x \<in> {?a, ?b}. br_id x \<noteq> [] \<and> length (br_id x) \<le> 32 \<and> list_all throttle_char (br_id x) \<and>
      to_lower (br_id x) = br_id x"
    using i c by simp
  with eq throttle_names [of ?a] have "br_id ?a = br_id ?b" by blast
  then show False by (simp add: i)
qed

end
