(* ===== verification/Session.thy ===== *)
theory Session
  imports Complete
begin

text \<open>
  Session export and import (\<open>crates/rtorrent/src/session.rs\<close>): the manifest, its validation, the restore
  plan, path remapping, the import journal and the import driver. Base64 and the torrent parser are
  third-party: \<open>decode\<close> takes text to bytes or an error, \<open>read_hash\<close> takes the
  bytes of a torrent file to its info-hash or an error. The daemon is a script of replies and snapshots; the
  driver's calls, saves and log lines are recorded in order. The JSON codecs are serde's and not
  modelled.
\<close>

section \<open>The manifest\<close>

definition session_format :: string where
  "session_format = ''rstorrent-session/1''"

record manifest_global =
  mg_down_kb :: int
  mg_up_kb :: int

datatype manifest_source = Magnet string | TorrentBase64 string | TorrentPath string

record manifest_torrent =
  mf_hash :: string
  mf_name :: string
  mf_source :: "manifest_source option"
  mf_save_path :: string
  mf_label :: string
  mf_tags :: "string list"
  mf_priority :: int
  mf_throttle :: string
  mf_peers_max :: int
  mf_peers_min :: int
  mf_uploads_max :: int
  mf_trackers :: "string list"
  mf_added_by :: string
  mf_source_path :: string
  mf_added_at :: int
  mf_queue_pos :: "int option"
  mf_force_start :: bool

record manifest =
  man_format :: string
  man_exported_at :: int
  man_client :: string
  man_client_version :: string
  man_global :: manifest_global
  man_torrents :: "manifest_torrent list"

definition manifest_row ::
  "(string \<rightharpoonup> string list) \<Rightarrow> (string \<rightharpoonup> manifest_source) \<Rightarrow> raw_torrent \<Rightarrow> manifest_torrent" where
  "manifest_row trackers sources t =
     \<lparr>mf_hash = raw_hash t, mf_name = raw_name t, mf_source = sources (raw_hash t),
      mf_save_path = (if raw_base_path t = [] then raw_directory t else raw_base_path t),
      mf_label = raw_label t, mf_tags = raw_tags t, mf_priority = raw_priority t,
      mf_throttle = raw_throttle_name t, mf_peers_max = raw_peers_max t, mf_peers_min = raw_peers_min t,
      mf_uploads_max = raw_uploads_max t,
      mf_trackers = (case trackers (raw_hash t) of Some ts \<Rightarrow> ts | None \<Rightarrow> []),
      mf_added_by = raw_added_by t, mf_source_path = raw_source_path t, mf_added_at = raw_added_at t,
      mf_queue_pos = raw_queue_pos t, mf_force_start = raw_force_start t\<rparr>"

definition export_manifest ::
  "raw_torrent list \<Rightarrow> (string \<rightharpoonup> string list) \<Rightarrow> (string \<rightharpoonup> manifest_source) \<Rightarrow> int \<Rightarrow> int \<Rightarrow> int \<Rightarrow> string \<Rightarrow> manifest" where
  "export_manifest rows trackers sources down_kb up_kb exported_at version =
     \<lparr>man_format = session_format, man_exported_at = exported_at, man_client = ''rstorrent'',
      man_client_version = version, man_global = \<lparr>mg_down_kb = down_kb, mg_up_kb = up_kb\<rparr>,
      man_torrents = sort_by (lt_key mf_hash) (map (manifest_row trackers sources) rows)\<rparr>"

section \<open>Validation\<close>

record item_problem =
  ip_index :: "nat option"
  ip_hash :: string
  ip_message :: string

record validation_report =
  vr_torrent_count :: nat
  vr_restorable_count :: nat
  vr_errors :: "item_problem list"
  vr_warnings :: "item_problem list"

definition norm_hash :: "string \<Rightarrow> string" where
  "norm_hash h = to_upper (trim h)"

definition hex_hash :: "string \<Rightarrow> bool" where
  "hex_hash h = (length h = 40 \<and> list_all is_hex_digit h)"

type_synonym decoder = "string \<Rightarrow> string + string"

definition source_error :: "decoder \<Rightarrow> decoder \<Rightarrow> string \<Rightarrow> manifest_source option \<Rightarrow> string option" where
  "source_error decode read_hash hash src =
     (case src of
        None \<Rightarrow> Some ''no re-addable source (no magnet, embedded .torrent or path)''
      | Some (Magnet uri) \<Rightarrow> if trim uri = [] then Some ''empty magnet URI'' else None
      | Some (TorrentBase64 b64) \<Rightarrow>
          (case decode (trim b64) of
             Inl e \<Rightarrow> Some (''embedded .torrent does not decode: '' @ e)
           | Inr bytes \<Rightarrow>
               (case read_hash bytes of
                  Inl e \<Rightarrow> Some (''embedded .torrent does not parse: '' @ e)
                | Inr info \<Rightarrow>
                    if to_upper info \<noteq> hash
                    then Some (''embedded .torrent is a different torrent ('' @ info @ '')'') else None))
      | Some (TorrentPath _) \<Rightarrow> None)"

definition entry_error :: "decoder \<Rightarrow> decoder \<Rightarrow> string set \<Rightarrow> manifest_torrent \<Rightarrow> string option" where
  "entry_error decode read_hash seen t =
     (let hash = norm_hash (mf_hash t) in
      if \<not> hex_hash hash then Some ''not a 40-digit hex info-hash''
      else if hash \<in> seen then Some ''duplicate info-hash in this manifest''
      else source_error decode read_hash hash (mf_source t))"

definition entry_warning :: "string set \<Rightarrow> manifest_torrent \<Rightarrow> string option" where
  "entry_warning seen t =
     (let hash = norm_hash (mf_hash t) in
      if hex_hash hash \<and> hash \<notin> seen then
        (case mf_source t of
           Some (TorrentPath _) \<Rightarrow> Some ''only a .torrent path recorded - restores only where that file exists''
         | _ \<Rightarrow> None)
      else None)"

definition problem :: "nat \<Rightarrow> manifest_torrent \<Rightarrow> string option \<Rightarrow> item_problem list" where
  "problem i t m =
     (case m of None \<Rightarrow> [] | Some msg \<Rightarrow> [\<lparr>ip_index = Some i, ip_hash = mf_hash t, ip_message = msg\<rparr>])"

definition see :: "manifest_torrent \<Rightarrow> string set \<Rightarrow> string set" where
  "see t seen = (if hex_hash (norm_hash (mf_hash t)) then insert (norm_hash (mf_hash t)) seen else seen)"

fun check_entries :: "decoder \<Rightarrow> decoder \<Rightarrow> nat \<Rightarrow> string set \<Rightarrow> manifest_torrent list
    \<Rightarrow> item_problem list \<times> item_problem list" where
  "check_entries decode read_hash i seen [] = ([], [])"
| "check_entries decode read_hash i seen (t # ts) =
     (let (errs, warns) = check_entries decode read_hash (Suc i) (see t seen) ts
      in (problem i t (entry_error decode read_hash seen t) @ errs, problem i t (entry_warning seen t) @ warns))"

definition validate_manifest :: "decoder \<Rightarrow> decoder \<Rightarrow> manifest \<Rightarrow> validation_report" where
  "validate_manifest decode read_hash m =
     (let count = length (man_torrents m) in
      if man_format m \<noteq> session_format
      then \<lparr>vr_torrent_count = count, vr_restorable_count = 0,
            vr_errors = [\<lparr>ip_index = None, ip_hash = [],
              ip_message = ''unsupported manifest format '' @ CHR 0x27 # man_format m @ CHR 0x27 #
                '' (this client reads '' @ session_format @ '')''\<rparr>],
            vr_warnings = []\<rparr>
      else let (errs, warns) = check_entries decode read_hash 0 {} (man_torrents m)
           in \<lparr>vr_torrent_count = count,
               vr_restorable_count =
                 (if list_ex (\<lambda>e. ip_index e = None) errs then 0
                  else count - length (filter (\<lambda>e. ip_index e \<noteq> None) errs)),
               vr_errors = errs, vr_warnings = warns\<rparr>)"

section \<open>The restore plan\<close>

datatype restore_action = RestoreAdd | SkipHave | SkipUnselected | SkipInvalid string

record restore_item =
  ri_torrent :: manifest_torrent
  ri_action :: restore_action
  ri_dst_dir :: string

fun remap_path :: "string \<Rightarrow> (string \<times> string) list \<Rightarrow> string" where
  "remap_path path [] = path"
| "remap_path path ((from_dir, to_dir) # rest) =
     (let fr = trim_end_char slash from_dir in
      if fr = [] then remap_path path rest
      else if path = fr \<or> prefix (fr @ [slash]) path
      then trim_end_char slash to_dir @ drop (length fr) path
      else remap_path path rest)"

definition plan_entry ::
  "item_problem list \<Rightarrow> string set \<Rightarrow> string set option \<Rightarrow> (string \<times> string) list \<Rightarrow> nat \<Rightarrow> manifest_torrent \<Rightarrow> restore_item" where
  "plan_entry errs existing selected remaps i t =
     (let hash = norm_hash (mf_hash t) in
      case map_of (rev (List.map_filter (\<lambda>e. map_option (\<lambda>k. (k, ip_message e)) (ip_index e)) errs)) i of
        Some reason \<Rightarrow> \<lparr>ri_torrent = t, ri_action = SkipInvalid reason, ri_dst_dir = []\<rparr>
      | None \<Rightarrow>
          if \<exists>h \<in> existing. eq_ic h hash
          then \<lparr>ri_torrent = t, ri_action = SkipHave, ri_dst_dir = []\<rparr>
          else if (case selected of None \<Rightarrow> False | Some sel \<Rightarrow> \<not> (\<exists>h \<in> sel. eq_ic h hash))
          then \<lparr>ri_torrent = t, ri_action = SkipUnselected, ri_dst_dir = []\<rparr>
          else \<lparr>ri_torrent = t, ri_action = RestoreAdd, ri_dst_dir = remap_path (mf_save_path t) remaps\<rparr>)"

definition plan_restore ::
  "decoder \<Rightarrow> decoder \<Rightarrow> manifest \<Rightarrow> string set \<Rightarrow> string set option \<Rightarrow> (string \<times> string) list \<Rightarrow> restore_item list" where
  "plan_restore decode read_hash m existing selected remaps =
     (let errs = vr_errors (validate_manifest decode read_hash m) in
      if \<not> list_all (\<lambda>e. ip_index e = None) errs \<and> man_format m \<noteq> session_format
      then map (\<lambda>t. \<lparr>ri_torrent = t, ri_action = SkipInvalid ''manifest failed validation'', ri_dst_dir = []\<rparr>)
             (man_torrents m)
      else map (\<lambda>(i, t). plan_entry errs existing selected remaps i t)
             (zip [0..<length (man_torrents m)] (man_torrents m)))"

section \<open>The import journal\<close>

record import_journal =
  ij_manifest_id :: string
  ij_total :: nat
  ij_done :: "string list"
  ij_started_ms :: int
  ij_updated_ms :: int

definition manifest_id :: "manifest \<Rightarrow> string" where
  "manifest_id m =
     man_format m @ CHR ''@'' # show_int (man_exported_at m) @ CHR ''#'' # show_nat (length (man_torrents m))"

definition done_set :: "import_journal \<Rightarrow> string set" where
  "done_set j = to_upper ` set (ij_done j)"

definition mark_done :: "string \<Rightarrow> int \<Rightarrow> import_journal \<Rightarrow> import_journal" where
  "mark_done h now j =
     (let hash = to_upper h in
      j\<lparr>ij_done := (if hash \<in> set (ij_done j) then ij_done j else ij_done j @ [hash]), ij_updated_ms := now\<rparr>)"

section \<open>The import driver\<close>

datatype import_call =
    LoadRaw string string string
  | LoadMagnet string string string
  | SetTags string "string list"
  | SetPriority string int
  | SetLimits string int int int
  | AssignThrottle string string
  | SetMetadata string "(string \<times> string) list"
  | Recheck string
  | StartTorrent string
  | ListSnapshot

datatype log_level = LogInfo | LogWarn | LogError

record import_world =
  iw_replies :: "rtorrent_error option list"
  iw_polls :: "raw_torrent list option list"
  iw_cancel :: "bool list"
  iw_clock :: "int list"
  iw_calls :: "import_call list"
  iw_saved :: "import_journal list"
  iw_log :: "(log_level \<times> string \<times> string option) list"

definition import_call :: "import_call \<Rightarrow> import_world \<Rightarrow> rtorrent_error option \<times> import_world" where
  "import_call c w =
     (case iw_replies w of [] \<Rightarrow> None | r # _ \<Rightarrow> r,
      w\<lparr>iw_replies := tl (iw_replies w), iw_calls := iw_calls w @ [c]\<rparr>)"

definition poll :: "import_world \<Rightarrow> raw_torrent list option \<times> import_world" where
  "poll w =
     (case iw_polls w of [] \<Rightarrow> None | p # _ \<Rightarrow> p,
      w\<lparr>iw_polls := tl (iw_polls w), iw_calls := iw_calls w @ [ListSnapshot]\<rparr>)"

definition now_ms :: "import_world \<Rightarrow> int \<times> import_world" where
  "now_ms w = (case iw_clock w of [] \<Rightarrow> 0 | n # _ \<Rightarrow> n, w\<lparr>iw_clock := tl (iw_clock w)\<rparr>)"

definition log_line :: "log_level \<Rightarrow> string \<Rightarrow> string option \<Rightarrow> import_world \<Rightarrow> import_world" where
  "log_line l m h w = w\<lparr>iw_log := iw_log w @ [(l, m, h)]\<rparr>"

datatype check_verdict = Clean | MissingData string

definition storage_words :: "string list" where
  "storage_words = [''No such file'', ''chunk read error'', ''Could not open'', ''Storage error'']"

definition row_verdict :: "raw_torrent \<Rightarrow> check_verdict" where
  "row_verdict t =
     (if list_ex (str_contains (raw_message t)) storage_words then MissingData (raw_message t)
      else if raw_message t \<noteq> [] then (if raw_complete t then Clean else MissingData (raw_message t))
      else Clean)"

text \<open>The bounded wait; each round is one snapshot.\<close>

fun wait_for_check :: "nat \<Rightarrow> string \<Rightarrow> import_world \<Rightarrow> check_verdict \<times> import_world" where
  "wait_for_check 0 h w = (MissingData ''recheck did not finish in time'', w)"
| "wait_for_check (Suc n) h w =
     (let (rows, w1) = poll w in
      case rows of
        None \<Rightarrow> wait_for_check n h w1
      | Some rs \<Rightarrow>
          (case find (\<lambda>t. eq_ic (raw_hash t) h) rs of
             None \<Rightarrow> (MissingData ''torrent vanished during recheck'', w1)
           | Some t \<Rightarrow> if raw_hashing t then wait_for_check n h w1 else (row_verdict t, w1)))"

definition check_rounds :: nat where "check_rounds = 300"

record import_summary =
  is_added :: nat
  is_resumed :: nat
  is_skipped :: nat
  is_failed :: "string list"

record planned_restore =
  pr_torrent :: manifest_torrent
  pr_dst_dir :: string

type_synonym import_state = "import_summary \<times> import_journal \<times> import_world"

definition fail_item :: "string \<Rightarrow> string \<Rightarrow> import_state \<Rightarrow> import_state" where
  "fail_item h msg st =
     (let (s, j, w) = st in (s\<lparr>is_failed := is_failed s @ [msg]\<rparr>, j, log_line LogError msg (Some h) w))"

definition finish_item :: "string \<Rightarrow> import_journal \<Rightarrow> import_world \<Rightarrow> import_journal \<times> import_world" where
  "finish_item h j w =
     (let (now, w1) = now_ms w; j1 = mark_done h now j in (j1, w1\<lparr>iw_saved := iw_saved w1 @ [j1]\<rparr>))"

definition load_call :: "decoder \<Rightarrow> planned_restore \<Rightarrow> string + import_call" where
  "load_call decode p =
     (let t = pr_torrent p; none = mf_name t @ '': no re-addable source in this manifest'' in
      case mf_source t of
        Some (Magnet uri) \<Rightarrow>
          if trim uri = [] then Inl none else Inr (LoadMagnet (trim uri) (pr_dst_dir p) (mf_label t))
      | Some (TorrentBase64 b64) \<Rightarrow>
          (case decode (trim b64) of
             Inr bytes \<Rightarrow> Inr (LoadRaw bytes (pr_dst_dir p) (mf_label t))
           | Inl e \<Rightarrow> Inl (mf_name t @ '': embedded .torrent does not decode ('' @ e @ '')''))
      | _ \<Rightarrow> Inl none)"

definition clamp_priority :: "int \<Rightarrow> int" where
  "clamp_priority p = (if p < 0 then 0 else if p > 3 then 3 else p)"

definition push_metadata :: "string \<Rightarrow> manifest_torrent \<Rightarrow> import_world \<Rightarrow> import_world" where
  "push_metadata h t w =
     (let w1 = (if mf_tags t \<noteq> [] then snd (import_call (SetTags h (mf_tags t)) w) else w);
          w2 = snd (import_call (SetPriority h (clamp_priority (mf_priority t))) w1);
          w3 = (if mf_peers_max t \<noteq> 0 \<or> mf_peers_min t \<noteq> 0 \<or> mf_uploads_max t \<noteq> 0
                then snd (import_call (SetLimits h (mf_peers_max t) (mf_peers_min t) (mf_uploads_max t)) w2) else w2);
          w4 = (if trim (mf_throttle t) \<noteq> [] then snd (import_call (AssignThrottle h (trim (mf_throttle t))) w3) else w3);
          (now, w5) = now_ms w4
      in snd (import_call (SetMetadata h [(''added_by'', ''import''), (''source_path'', mf_source_path t),
                (''added_at'', show_int now)]) w5))"

definition after_recheck :: "string \<Rightarrow> manifest_torrent \<Rightarrow> import_state \<Rightarrow> import_state" where
  "after_recheck h t st =
     (let (s, j, w) = st; (v, w1) = wait_for_check check_rounds h w in
      case v of
        Clean \<Rightarrow>
          (case import_call (StartTorrent h) w1 of
             (Some e, w2) \<Rightarrow>
               fail_item h (mf_name t @ '': verified but could not resume ('' @ error_text e @ '')'') (s, j, w2)
           | (None, w2) \<Rightarrow>
               (let (j1, w3) = finish_item h j w2
                in (s\<lparr>is_added := is_added s + 1\<rparr>, j1,
                    log_line LogInfo (''imported '' @ mf_name t @ '' (rechecked, resumed)'') (Some h) w3)))
      | MissingData m \<Rightarrow>
          (let (s1, j1, w2) = fail_item h (mf_name t @ '': recheck failed - '' @ m @ '' (kept stopped)'') (s, j, w1);
               (j2, w3) = finish_item h j1 w2
           in (s1, j2, w3)))"

definition import_item :: "decoder \<Rightarrow> planned_restore \<Rightarrow> import_state \<Rightarrow> import_state" where
  "import_item decode p st =
     (let (s, j, w) = st; t = pr_torrent p; h = norm_hash (mf_hash t) in
      if h \<in> done_set j then (s\<lparr>is_resumed := is_resumed s + 1\<rparr>, j, w)
      else case load_call decode p of
             Inl msg \<Rightarrow> fail_item h msg st
           | Inr c \<Rightarrow>
               (case import_call c w of
                  (Some e, w1) \<Rightarrow> fail_item h (mf_name t @ '': could not add ('' @ error_text e @ '')'') (s, j, w1)
                | (None, w1) \<Rightarrow>
                    (case import_call (Recheck h) (push_metadata h t w1) of
                       (Some e, w2) \<Rightarrow>
                         fail_item h (mf_name t @ '': could not recheck ('' @ error_text e @ '')'') (s, j, w2)
                     | (None, w2) \<Rightarrow> after_recheck h t (s, j, w2))))"

definition read_cancel :: "import_world \<Rightarrow> bool \<times> import_world" where
  "read_cancel w = (iw_cancel w \<noteq> [] \<and> hd (iw_cancel w), w\<lparr>iw_cancel := tl (iw_cancel w)\<rparr>)"

fun run_items :: "decoder \<Rightarrow> planned_restore list \<Rightarrow> import_state \<Rightarrow> import_state" where
  "run_items decode [] st = st"
| "run_items decode (p # ps) (s, j, w) =
     (let (stop, w1) = read_cancel w in
      if stop
      then (s, j, log_line LogWarn ''import cancelled - resume it any time; finished torrents are kept'' None w1)
      else run_items decode ps (import_item decode p (s, j, w1)))"

definition empty_summary :: import_summary where
  "empty_summary = \<lparr>is_added = 0, is_resumed = 0, is_skipped = 0, is_failed = []\<rparr>"

definition run_import :: "decoder \<Rightarrow> planned_restore list \<Rightarrow> import_journal \<Rightarrow> import_world \<Rightarrow> import_state" where
  "run_import decode items j w = run_items decode items (empty_summary, j, w)"

section \<open>The preview\<close>

record planned_item_dto =
  pi_hash :: string
  pi_name :: string
  pi_action :: string
  pi_dst_dir :: string
  pi_reason :: string

record validation_dto =
  vd_torrent_count :: nat
  vd_restorable_count :: nat
  vd_errors :: "item_problem list"
  vd_warnings :: "item_problem list"
  vd_items :: "planned_item_dto list"

fun action_words :: "restore_action \<Rightarrow> string \<times> string" where
  "action_words RestoreAdd = (''add'', [])"
| "action_words SkipHave = (''have'', ''already loaded'')"
| "action_words SkipUnselected = (''skip'', ''not selected'')"
| "action_words (SkipInvalid reason) = (''invalid'', reason)"

definition preview ::
  "decoder \<Rightarrow> decoder \<Rightarrow> manifest \<Rightarrow> string set \<Rightarrow> string set option \<Rightarrow> (string \<times> string) list \<Rightarrow> validation_dto" where
  "preview decode read_hash m existing selected remaps =
     (let report = validate_manifest decode read_hash m in
      \<lparr>vd_torrent_count = vr_torrent_count report, vd_restorable_count = vr_restorable_count report,
       vd_errors = vr_errors report, vd_warnings = vr_warnings report,
       vd_items = map (\<lambda>it. \<lparr>pi_hash = mf_hash (ri_torrent it), pi_name = mf_name (ri_torrent it),
           pi_action = fst (action_words (ri_action it)), pi_dst_dir = ri_dst_dir it,
           pi_reason = snd (action_words (ri_action it))\<rparr>)
         (plan_restore decode read_hash m existing selected remaps)\<rparr>)"

section \<open>Validation and planning\<close>

definition seen_at :: "string set \<Rightarrow> manifest_torrent list \<Rightarrow> nat \<Rightarrow> string set" where
  "seen_at seen ts k = fold see (take k ts) seen"

lemma seen_at_Cons: "seen_at seen (t # ts) (Suc k) = seen_at (see t seen) ts k"
  by (simp add: seen_at_def)

lemma seen_at_0 [simp]: "seen_at seen ts 0 = seen"
  by (simp add: seen_at_def)

lemma seen_at_set:
  "seen_at seen ts k = seen \<union> {norm_hash (mf_hash t) | t. t \<in> set (take k ts) \<and> hex_hash (norm_hash (mf_hash t))}"
  by (induction ts arbitrary: seen k) (auto simp: seen_at_def see_def take_Cons split: nat.splits)

definition reasons :: "item_problem list \<Rightarrow> (nat \<times> string) list" where
  "reasons errs = List.map_filter (\<lambda>e. map_option (\<lambda>k. (k, ip_message e)) (ip_index e)) errs"

lemma map_filter_append: "List.map_filter f (xs @ ys) = List.map_filter f xs @ List.map_filter f ys"
  by (induction xs) (auto simp: map_filter_simps split: option.splits)

lemma reasons_problem: "reasons (problem i t m) = (case m of None \<Rightarrow> [] | Some msg \<Rightarrow> [(i, msg)])"
  by (auto simp: reasons_def problem_def map_filter_simps split: option.splits)

lemma reason_lookup:
  "map_of (rev (reasons (fst (check_entries decode read_hash i seen ts)))) j =
     (if i \<le> j \<and> j < i + length ts then entry_error decode read_hash (seen_at seen ts (j - i)) (ts ! (j - i)) else None)"
proof (induction ts arbitrary: i seen j)
  case (Cons t ts)
  let ?rest = "fst (check_entries decode read_hash (Suc i) (see t seen) ts)"
  have r: "reasons (fst (check_entries decode read_hash i seen (t # ts))) =
      (case entry_error decode read_hash seen t of None \<Rightarrow> [] | Some m \<Rightarrow> [(i, m)]) @ reasons ?rest"
    using reasons_problem [of i t "entry_error decode read_hash seen t"]
    by (simp add: split_def Let_def reasons_def map_filter_append)
  show ?case
  proof (cases "j = i")
    case True
    then show ?thesis unfolding r by (simp add: Cons.IH map_add_def split: option.splits)
  next
    case False
    then have "j - i = Suc (j - Suc i)" if "i \<le> j" using that by simp
    with False show ?thesis unfolding r
      by (auto simp: Cons.IH map_add_def seen_at_Cons split: option.splits)
  qed
qed (auto simp: reasons_def map_filter_simps)

lemma error_indices: "e \<in> set (fst (check_entries decode read_hash i seen ts)) \<Longrightarrow> ip_index e \<noteq> None"
  by (induction ts arbitrary: i seen) (auto simp: split_def Let_def problem_def split: option.splits)

lemma error_count:
  "length (fst (check_entries decode read_hash i seen ts)) =
   card {k. k < length ts \<and> entry_error decode read_hash (seen_at seen ts k) (ts ! k) \<noteq> None}"
proof (induction ts arbitrary: i seen)
  case (Cons t ts)
  let ?E = "\<lambda>k. entry_error decode read_hash (seen_at (see t seen) ts k) (ts ! k) \<noteq> None"
  have "{k. k < length (t # ts) \<and> entry_error decode read_hash (seen_at seen (t # ts) k) ((t # ts) ! k) \<noteq> None} =
      (if entry_error decode read_hash seen t \<noteq> None then {0} else {}) \<union> Suc ` {k. k < length ts \<and> ?E k}"
  (is "?L = ?R")
  proof (rule set_eqI)
    fix k show "k \<in> ?L \<longleftrightarrow> k \<in> ?R" by (cases k) (auto simp: seen_at_Cons)
  qed
  moreover have "card ((if entry_error decode read_hash seen t \<noteq> None then {0} else {}) \<union> Suc ` {k. k < length ts \<and> ?E k}) =
      (if entry_error decode read_hash seen t \<noteq> None then 1 else 0) + card {k. k < length ts \<and> ?E k}"
    by (subst card_Un_disjoint) (auto simp: card_image)
  moreover have "length (fst (check_entries decode read_hash i seen (t # ts))) =
      (if entry_error decode read_hash seen t \<noteq> None then 1 else 0)
      + length (fst (check_entries decode read_hash (Suc i) (see t seen) ts))"
    by (simp add: split_def Let_def problem_def split: option.splits)
  ultimately show ?case using Cons.IH [of "Suc i" "see t seen"] by simp
qed simp

definition earlier_hashes :: "manifest \<Rightarrow> nat \<Rightarrow> string set" where
  "earlier_hashes m k =
     {norm_hash (mf_hash t) | t. t \<in> set (take k (man_torrents m)) \<and> hex_hash (norm_hash (mf_hash t))}"

definition refusal :: "decoder \<Rightarrow> decoder \<Rightarrow> manifest \<Rightarrow> nat \<Rightarrow> string option" where
  "refusal decode read_hash m k = entry_error decode read_hash (earlier_hashes m k) (man_torrents m ! k)"

lemma seen_earlier: "seen_at {} (man_torrents m) k = earlier_hashes m k"
  by (simp add: seen_at_set earlier_hashes_def)

lemma validate_ok:
  assumes "man_format m = session_format"
  shows "vr_errors (validate_manifest decode read_hash m) = fst (check_entries decode read_hash 0 {} (man_torrents m))"
    and "vr_restorable_count (validate_manifest decode read_hash m) =
      card {k. k < length (man_torrents m) \<and> refusal decode read_hash m k = None}"
proof -
  let ?ts = "man_torrents m"
  let ?errs = "fst (check_entries decode read_hash 0 {} ?ts)"
  show e: "vr_errors (validate_manifest decode read_hash m) = ?errs"
    using assms by (simp add: validate_manifest_def Let_def split_def)
  have ix: "\<not> list_ex (\<lambda>e. ip_index e = None) ?errs" "filter (\<lambda>e. ip_index e \<noteq> None) ?errs = ?errs"
    using error_indices [of _ decode read_hash 0 "{}" ?ts] by (auto simp: list_ex_iff filter_id_conv)
  have "card {k. k < length ?ts \<and> refusal decode read_hash m k = None} =
      card ({k. k < length ?ts} - {k. k < length ?ts \<and> refusal decode read_hash m k \<noteq> None})"
    by (rule arg_cong [where f = card]) auto
  also have "\<dots> = length ?ts - card {k. k < length ?ts \<and> refusal decode read_hash m k \<noteq> None}"
    by (subst card_Diff_subset) auto
  finally show "vr_restorable_count (validate_manifest decode read_hash m) =
      card {k. k < length ?ts \<and> refusal decode read_hash m k = None}"
    using assms ix error_count [of decode read_hash 0 "{}" ?ts]
    by (simp add: validate_manifest_def Let_def split_def refusal_def seen_earlier)
qed

definition planned_entry ::
  "decoder \<Rightarrow> decoder \<Rightarrow> manifest \<Rightarrow> string set \<Rightarrow> string set option \<Rightarrow> (string \<times> string) list \<Rightarrow> nat \<Rightarrow> restore_item" where
  "planned_entry decode read_hash m existing selected remaps k =
     (let t = man_torrents m ! k; h = norm_hash (mf_hash t);
          skip = (\<lambda>a. \<lparr>ri_torrent = t, ri_action = a, ri_dst_dir = []\<rparr>) in
      case refusal decode read_hash m k of
        Some msg \<Rightarrow> skip (SkipInvalid msg)
      | None \<Rightarrow>
          if \<exists>x \<in> existing. eq_ic x h then skip SkipHave
          else if \<exists>sel. selected = Some sel \<and> (\<forall>x \<in> sel. \<not> eq_ic x h) then skip SkipUnselected
          else \<lparr>ri_torrent = t, ri_action = RestoreAdd, ri_dst_dir = remap_path (mf_save_path t) remaps\<rparr>)"

lemma plan_restore_map:
  assumes "man_format m = session_format"
  shows "plan_restore decode read_hash m existing selected remaps =
    map (planned_entry decode read_hash m existing selected remaps) [0..<length (man_torrents m)]"
proof -
  let ?ts = "man_torrents m"
  have "plan_entry (vr_errors (validate_manifest decode read_hash m)) existing selected remaps k (?ts ! k) =
      planned_entry decode read_hash m existing selected remaps k" if "k < length ?ts" for k
    using that reason_lookup [of decode read_hash 0 "{}" ?ts k]
    by (auto simp: plan_entry_def planned_entry_def validate_ok(1) [OF assms] reasons_def Let_def refusal_def
        seen_earlier split: option.splits)
  then show ?thesis using assms
    by (auto simp: plan_restore_def Let_def intro!: nth_equalityI)
qed

text \<open>The restore plan of a supported manifest: one item per entry, in order; an entry is refused
  with validation's reason when its hash is malformed, repeats an earlier one, or its source is missing
  or wrong; else skipped when the daemon has the hash, then when the user left it out (case of hashes
  aside in both), and otherwise added at its remapped path. Validation counts as restorable exactly the
  entries it does not refuse, and no two planned adds share a hash.\<close>

theorem restore_plan_exact:
  assumes "man_format m = session_format"
  shows "plan_restore decode read_hash m existing selected remaps =
      map (planned_entry decode read_hash m existing selected remaps) [0..<length (man_torrents m)] \<and>
    vr_restorable_count (validate_manifest decode read_hash m) =
      card {k. k < length (man_torrents m) \<and> refusal decode read_hash m k = None} \<and>
    (\<forall>i j. i < j \<and> j < length (man_torrents m) \<and>
       ri_action (plan_restore decode read_hash m existing selected remaps ! i) = RestoreAdd \<and>
       ri_action (plan_restore decode read_hash m existing selected remaps ! j) = RestoreAdd \<longrightarrow>
       norm_hash (mf_hash (man_torrents m ! i)) \<noteq> norm_hash (mf_hash (man_torrents m ! j)))"
proof (intro conjI allI impI)
  let ?ts = "man_torrents m"
  fix i j
  assume a: "i < j \<and> j < length ?ts \<and> ri_action (plan_restore decode read_hash m existing selected remaps ! i) = RestoreAdd \<and>
       ri_action (plan_restore decode read_hash m existing selected remaps ! j) = RestoreAdd"
  then have n: "refusal decode read_hash m i = None" "refusal decode read_hash m j = None"
    by (auto simp: plan_restore_map [OF assms] planned_entry_def Let_def split: option.splits if_splits)
  have "?ts ! i \<in> set (take j ?ts)" using a by (auto simp: in_set_conv_nth)
  moreover have "hex_hash (norm_hash (mf_hash (?ts ! i)))"
    using n(1) by (auto simp: refusal_def entry_error_def Let_def split: if_splits)
  moreover have "norm_hash (mf_hash (?ts ! j)) \<notin> earlier_hashes m j"
    using n(2) by (auto simp: refusal_def entry_error_def Let_def split: if_splits)
  ultimately show "norm_hash (mf_hash (?ts ! i)) \<noteq> norm_hash (mf_hash (?ts ! j))"
    unfolding earlier_hashes_def by fastforce
qed (use plan_restore_map [OF assms] validate_ok(2) [OF assms] in auto)

text \<open>A manifest of an unsupported format is refused by validation, which counts nothing as
  restorable, but not by the plan: its whole-document branch is unreachable, because the format error
  carries no index, and every entry the daemon lacks and the user selected is planned as an add, its hash
  and source unchecked.\<close>

theorem unsupported_manifest_still_planned:
  assumes "man_format m \<noteq> session_format"
  shows "vr_restorable_count (validate_manifest decode read_hash m) = 0 \<and>
    vr_errors (validate_manifest decode read_hash m) \<noteq> [] \<and>
    plan_restore decode read_hash m {} None remaps =
      map (\<lambda>t. \<lparr>ri_torrent = t, ri_action = RestoreAdd, ri_dst_dir = remap_path (mf_save_path t) remaps\<rparr>) (man_torrents m)"
proof -
  have e: "plan_entry (vr_errors (validate_manifest decode read_hash m)) {} None remaps k t =
      \<lparr>ri_torrent = t, ri_action = RestoreAdd, ri_dst_dir = remap_path (mf_save_path t) remaps\<rparr>" for k t
    using assms by (simp add: plan_entry_def validate_manifest_def Let_def map_filter_simps)
  have "map (\<lambda>(i, t). plan_entry (vr_errors (validate_manifest decode read_hash m)) {} None remaps i t)
      (zip [0..<length (man_torrents m)] (man_torrents m)) =
      map (\<lambda>t. \<lparr>ri_torrent = t, ri_action = RestoreAdd, ri_dst_dir = remap_path (mf_save_path t) remaps\<rparr>) (man_torrents m)"
    by (rule nth_equalityI) (simp_all add: e)
  moreover have "vr_errors (validate_manifest decode read_hash m) \<noteq> []"
    "vr_restorable_count (validate_manifest decode read_hash m) = 0"
    "list_all (\<lambda>e. ip_index e = None) (vr_errors (validate_manifest decode read_hash m))"
    using assms by (simp_all add: validate_manifest_def)
  ultimately show ?thesis by (simp add: plan_restore_def Let_def)
qed

definition sample_hash :: string where
  "sample_hash = replicate 40 (CHR ''a'')"

definition sample_entry :: "manifest_source option \<Rightarrow> manifest_torrent" where
  "sample_entry src = \<lparr>mf_hash = sample_hash, mf_name = ''Show'', mf_source = src, mf_save_path = ''/dl/Show'',
     mf_label = [], mf_tags = [], mf_priority = 2, mf_throttle = [], mf_peers_max = 0, mf_peers_min = 0,
     mf_uploads_max = 0, mf_trackers = [], mf_added_by = [], mf_source_path = [], mf_added_at = 0,
     mf_queue_pos = None, mf_force_start = False\<rparr>"

definition sample_manifest :: "string \<Rightarrow> manifest" where
  "sample_manifest fmt = \<lparr>man_format = fmt, man_exported_at = 5, man_client = ''rstorrent'', man_client_version = ''1'',
     man_global = \<lparr>mg_down_kb = 0, mg_up_kb = 0\<rparr>,
     man_torrents = [sample_entry (Some (Magnet ''magnet:?x'')), sample_entry (Some (Magnet ''magnet:?x''))]\<rparr>"

lemma sample_hash_norm: "norm_hash sample_hash = replicate 40 (CHR ''A'')" "hex_hash (replicate 40 (CHR ''A''))"
  by code_simp+

theorem restore_plan_exact_witness:
  "map ri_action (plan_restore Inr Inr (sample_manifest session_format) {} None []) =
     [RestoreAdd, SkipInvalid ''duplicate info-hash in this manifest'']"
proof -
  have f: "man_format (sample_manifest session_format) = session_format" by (simp add: sample_manifest_def)
  have r: "refusal Inr Inr (sample_manifest session_format) 0 = None"
    "refusal Inr Inr (sample_manifest session_format) (Suc 0) = Some ''duplicate info-hash in this manifest''"
    using sample_hash_norm
    by (simp_all add: refusal_def earlier_hashes_def entry_error_def source_error_def sample_manifest_def
        sample_entry_def Let_def trim_no_ws is_ws_def)
  have u: "[0..<length (man_torrents (sample_manifest session_format))] = [0, Suc 0]"
    by (simp add: sample_manifest_def upt_rec)
  show ?thesis using restore_plan_exact [OF f, of Inr Inr "{}" None "[]"] unfolding u
    by (simp add: planned_entry_def r Let_def)
qed

theorem unsupported_manifest_still_planned_witness:
  "vr_restorable_count (validate_manifest Inr Inr (sample_manifest ''rstorrent-session/9'')) = 0 \<and>
   length (filter (\<lambda>it. ri_action it = RestoreAdd) (plan_restore Inr Inr (sample_manifest ''rstorrent-session/9'') {} None [])) = 2"
proof -
  have "man_format (sample_manifest ''rstorrent-session/9'') \<noteq> session_format"
    by (simp add: sample_manifest_def session_format_def)
  from unsupported_manifest_still_planned [OF this, of Inr Inr "[]"] show ?thesis
    by (simp add: sample_manifest_def)
qed

section \<open>Export\<close>

lemma to_upper_eq_ic: "eq_ic x (norm_hash x) \<longleftrightarrow> eq_ic x (trim x)"
  by (simp add: norm_hash_def)

lemma upper_trim_hex: "hex_hash (norm_hash h) \<Longrightarrow> trim h = h \<Longrightarrow> eq_ic h (norm_hash h)"
  by (simp add: norm_hash_def)

text \<open>Property C27. An export restores. Exporting rows with well-formed, distinct hashes and a good source for each
  gives a manifest that validates without errors and counts every row restorable; a daemon that has none
  of them is to add every one, into the directory derived from where its data lay; the exporting daemon
  has them all and adds nothing.\<close>

theorem export_restores:
  assumes d: "distinct (map (\<lambda>t. norm_hash (raw_hash t)) rows)"
    and hex: "\<forall>t \<in> set rows. hex_hash (norm_hash (raw_hash t)) \<and> trim (raw_hash t) = raw_hash t"
    and src: "\<forall>t \<in> set rows. source_error decode read_hash (norm_hash (raw_hash t)) (sources (raw_hash t)) = None"
    and m: "m = export_manifest rows trackers sources dk uk at_ms version"
  shows "vr_errors (validate_manifest decode read_hash m) = [] \<and>
    vr_restorable_count (validate_manifest decode read_hash m) = length rows \<and>
    mset (map (\<lambda>it. (ri_torrent it, ri_action it, ri_dst_dir it)) (plan_restore decode read_hash m {} None remaps)) =
      mset (map (\<lambda>t. (manifest_row trackers sources t, RestoreAdd,
        remap_path (if raw_base_path t = [] then raw_directory t else raw_base_path t) remaps)) rows) \<and>
    (\<forall>it \<in> set (plan_restore decode read_hash m (raw_hash ` set rows) None remaps). ri_action it = SkipHave)"
proof -
  let ?ts = "man_torrents m"
  have f: "man_format m = session_format" and ts: "?ts = sort_by (lt_key mf_hash) (map (manifest_row trackers sources) rows)"
    by (simp_all add: m export_manifest_def)
  have row: "\<exists>t \<in> set rows. u = manifest_row trackers sources t" if "u \<in> set ?ts" for u
    using that by (auto simp: ts)
  have mh: "mf_hash (manifest_row trackers sources t) = raw_hash t" for t by (simp add: manifest_row_def)
  have distinct: "distinct (map (\<lambda>u. norm_hash (mf_hash u)) ?ts)"
    unfolding ts by (simp add: o_def mh d)
  have none: "refusal decode read_hash m k = None" if k: "k < length ?ts" for k
  proof -
    from row k obtain t where t: "t \<in> set rows" "?ts ! k = manifest_row trackers sources t" using nth_mem by blast
    have fresh: "norm_hash (raw_hash t) \<notin> earlier_hashes m k"
    proof
      assume "norm_hash (raw_hash t) \<in> earlier_hashes m k"
      then obtain i where "i < k" "norm_hash (mf_hash (?ts ! i)) = norm_hash (mf_hash (?ts ! k))"
        using k t(2) mh by (auto simp: earlier_hashes_def in_set_conv_nth)
      with k distinct show False by (auto simp: distinct_conv_nth)
    qed
    show ?thesis using t hex src fresh
      by (simp add: refusal_def entry_error_def mh Let_def) (simp add: manifest_row_def)
  qed
  have len: "length ?ts = length rows" by (simp add: ts)
  have "card {k. k < length ?ts \<and> refusal decode read_hash m k = None} = card {k. k < length ?ts}"
    using none by (intro arg_cong [where f = card]) auto
  then have count: "vr_restorable_count (validate_manifest decode read_hash m) = length rows"
    using validate_ok(2) [OF f] len by simp
  have "length (vr_errors (validate_manifest decode read_hash m)) = card {k. k < length ?ts \<and> refusal decode read_hash m k \<noteq> None}"
    unfolding validate_ok(1) [OF f] error_count refusal_def seen_earlier ..
  also have "\<dots> = 0" using none by (simp add: card_eq_0_iff)
  finally have errs: "vr_errors (validate_manifest decode read_hash m) = []" by simp
  let ?item = "\<lambda>u. (u, RestoreAdd, remap_path (mf_save_path u) remaps)"
  have "map (\<lambda>it. (ri_torrent it, ri_action it, ri_dst_dir it)) (plan_restore decode read_hash m {} None remaps) = map ?item ?ts"
    unfolding plan_restore_map [OF f]
    by (rule nth_equalityI) (simp_all add: planned_entry_def none Let_def)
  then have "mset (map (\<lambda>it. (ri_torrent it, ri_action it, ri_dst_dir it)) (plan_restore decode read_hash m {} None remaps)) =
      mset (map ?item (map (manifest_row trackers sources) rows))"
    by (simp add: ts image_mset.compositionality)
  also have "map ?item (map (manifest_row trackers sources) rows) = map (\<lambda>t. (manifest_row trackers sources t, RestoreAdd,
        remap_path (if raw_base_path t = [] then raw_directory t else raw_base_path t) remaps)) rows"
    by (simp add: manifest_row_def)
  finally have adds: "mset (map (\<lambda>it. (ri_torrent it, ri_action it, ri_dst_dir it)) (plan_restore decode read_hash m {} None remaps)) =
      mset (map (\<lambda>t. (manifest_row trackers sources t, RestoreAdd,
        remap_path (if raw_base_path t = [] then raw_directory t else raw_base_path t) remaps)) rows)" .
  have have_all: "ri_action (planned_entry decode read_hash m (raw_hash ` set rows) None remaps k) = SkipHave"
    if k: "k < length ?ts" for k
  proof -
    from row k obtain t where t: "t \<in> set rows" "?ts ! k = manifest_row trackers sources t" using nth_mem by blast
    then have "eq_ic (raw_hash t) (norm_hash (mf_hash (?ts ! k)))" using hex mh by (simp add: upper_trim_hex)
    then have "\<exists>x \<in> raw_hash ` set rows. eq_ic x (norm_hash (mf_hash (?ts ! k)))" using t(1) by blast
    with none [OF k] show ?thesis by (simp add: planned_entry_def Let_def)
  qed
  show ?thesis using errs count adds have_all by (auto simp: plan_restore_map [OF f])
qed

theorem export_restores_witness:
  "vr_restorable_count (validate_manifest Inr Inr (export_manifest
      [raw_torrent_default\<lparr>raw_hash := sample_hash, raw_base_path := ''/dl/Show''\<rparr>] Map.empty
      (\<lambda>_. Some (Magnet ''magnet:?x'')) 0 0 5 ''1'')) = 1"
proof -
  let ?rows = "[raw_torrent_default\<lparr>raw_hash := sample_hash, raw_base_path := ''/dl/Show''\<rparr>]"
  have t: "trim sample_hash = sample_hash" "trim ''magnet:?x'' \<noteq> []" by code_simp+
  have "distinct (map (\<lambda>t. norm_hash (raw_hash t)) ?rows)"
    "\<forall>t \<in> set ?rows. hex_hash (norm_hash (raw_hash t)) \<and> trim (raw_hash t) = raw_hash t"
    "\<forall>t \<in> set ?rows. source_error Inr Inr (norm_hash (raw_hash t)) ((\<lambda>_. Some (Magnet ''magnet:?x'')) (raw_hash t)) = None"
    using sample_hash_norm t by (simp_all add: source_error_def)
  from export_restores [OF this refl] show ?thesis by (metis One_nat_def length_Cons list.size(3))
qed

section \<open>Path remapping\<close>

definition plain_dir :: "string \<Rightarrow> bool" where
  "plain_dir d = (d \<noteq> [] \<and> last d \<noteq> slash)"

lemma plain_dir_trim: "plain_dir d \<Longrightarrow> trim_end_char slash d = d"
  by (simp add: plain_dir_def trim_end_char_id)

text \<open>Remapping moves whole path components and can be undone: the mapped prefix itself and
  everything below it move to the new place, a path that merely starts with the same letters does not,
  and mapping back restores every path below the old prefix.\<close>

theorem remap_components:
  assumes "plain_dir from_dir" "plain_dir to_dir"
  shows "remap_path from_dir [(from_dir, to_dir)] = to_dir \<and>
    remap_path (from_dir @ slash # rest) [(from_dir, to_dir)] = to_dir @ slash # rest \<and>
    (c \<noteq> slash \<longrightarrow> remap_path (from_dir @ c # rest) [(from_dir, to_dir)] = from_dir @ c # rest) \<and>
    remap_path (remap_path (from_dir @ slash # rest) [(from_dir, to_dir)]) [(to_dir, from_dir)] = from_dir @ slash # rest \<and>
    remap_path (from_dir @ slash # rest) ((from_dir @ [slash], to_dir @ [slash]) # tail_maps) = to_dir @ slash # rest"
proof -
  have t: "trim_end_char slash from_dir = from_dir" "trim_end_char slash to_dir = to_dir"
    using assms by (simp_all add: plain_dir_trim)
  have ts: "trim_end_char slash (d @ [slash]) = trim_end_char slash d" for d
    by (simp add: trim_end_char_def)
  have ne: "from_dir \<noteq> []" "to_dir \<noteq> []" using assms by (simp_all add: plain_dir_def)
  show ?thesis using t ts ne by (auto simp: Let_def)
qed

theorem remap_components_witness:
  "remap_path ''/old/media/Show'' [(''/old/media'', ''/srv/media'')] = ''/srv/media/Show''"
  using remap_components [of "''/old/media''" "''/srv/media''" "''Show''"]
  by (simp add: plain_dir_def slash_def)

section \<open>The import driver\<close>

lemma import_call_simps [simp]:
  "iw_calls (snd (import_call c w)) = iw_calls w @ [c]" "iw_saved (snd (import_call c w)) = iw_saved w"
  by (simp_all add: import_call_def)

lemma import_call_eq:
  "import_call c w = (r, w') \<Longrightarrow> iw_calls w' = iw_calls w @ [c] \<and> iw_saved w' = iw_saved w"
  using import_call_simps [of c w] by simp

lemma now_ms_keep [simp]: "iw_calls (snd (now_ms w)) = iw_calls w" "iw_saved (snd (now_ms w)) = iw_saved w"
  by (simp_all add: now_ms_def)

lemma log_keep [simp]: "iw_calls (log_line l m h w) = iw_calls w" "iw_saved (log_line l m h w) = iw_saved w"
  by (simp_all add: log_line_def)

definition is_load :: "import_call \<Rightarrow> bool" where
  "is_load c = (case c of LoadRaw _ _ _ \<Rightarrow> True | LoadMagnet _ _ _ \<Rightarrow> True | _ \<Rightarrow> False)"

definition is_metadata :: "import_call \<Rightarrow> bool" where
  "is_metadata c = (case c of SetTags _ _ \<Rightarrow> True | SetPriority _ _ \<Rightarrow> True | SetLimits _ _ _ _ \<Rightarrow> True
     | AssignThrottle _ _ \<Rightarrow> True | SetMetadata _ _ \<Rightarrow> True | _ \<Rightarrow> False)"

lemma push_metadata_calls:
  "\<exists>ms. iw_calls (push_metadata h t w) = iw_calls w @ ms \<and> list_all is_metadata ms \<and>
        iw_saved (push_metadata h t w) = iw_saved w"
  by (auto simp: push_metadata_def Let_def split_def is_metadata_def)

lemma wait_calls:
  "wait_for_check n h w = (v, w') \<Longrightarrow> iw_saved w' = iw_saved w \<and>
   (\<exists>k \<le> n. iw_calls w' = iw_calls w @ replicate k ListSnapshot)"
proof (induction n arbitrary: w)
  case (Suc n)
  let ?w1 = "snd (poll w)"
  have p: "iw_calls ?w1 = iw_calls w @ [ListSnapshot]" "iw_saved ?w1 = iw_saved w" by (simp_all add: poll_def)
  have again: ?case if "wait_for_check n h ?w1 = (v, w')"
  proof -
    from Suc.IH [OF that] p obtain k where "k \<le> n" "iw_calls w' = iw_calls w @ replicate (Suc k) ListSnapshot"
      "iw_saved w' = iw_saved w" by auto
    then show ?thesis by (intro conjI exI [of _ "Suc k"]) simp_all
  qed
  have now: ?case if "w' = ?w1"
    using p that by (intro conjI exI [of _ "Suc 0"]) simp_all
  show ?case
  proof (cases "fst (poll w)")
    case None
    with Suc.prems show ?thesis by (intro again) (simp add: split_def Let_def)
  next
    case (Some rs)
    show ?thesis
    proof (cases "find (\<lambda>t. eq_ic (raw_hash t) h) rs")
      case None
      with Suc.prems Some show ?thesis by (intro now) (simp add: split_def Let_def)
    next
      case t: (Some t)
      show ?thesis
      proof (cases "raw_hashing t")
        case True
        with Suc.prems Some t show ?thesis by (intro again) (simp add: split_def Let_def)
      next
        case False
        with Suc.prems Some t show ?thesis by (intro now) (simp add: split_def Let_def)
      qed
    qed
  qed
qed auto

lemma clean_needs_row:
  "wait_for_check n h w = (Clean, w') \<Longrightarrow>
   \<exists>rows \<in> set (iw_polls w). \<exists>rs t. rows = Some rs \<and> find (\<lambda>t. eq_ic (raw_hash t) h) rs = Some t \<and>
     \<not> raw_hashing t \<and> row_verdict t = Clean"
proof (induction n arbitrary: w)
  case (Suc n)
  have sub: "set (iw_polls (snd (poll w))) \<subseteq> set (iw_polls w)" by (cases "iw_polls w") (auto simp: poll_def)
  show ?case
  proof (cases "fst (poll w)")
    case None
    with Suc sub show ?thesis by (fastforce simp: split_def Let_def)
  next
    case (Some rs)
    then have mem: "Some rs \<in> set (iw_polls w)" by (cases "iw_polls w") (auto simp: poll_def)
    show ?thesis
    proof (cases "find (\<lambda>t. eq_ic (raw_hash t) h) rs")
      case None
      with Suc.prems Some show ?thesis by (simp add: split_def Let_def)
    next
      case (Some t)
      show ?thesis
      proof (cases "raw_hashing t")
        case True
        with Suc sub Some \<open>fst (poll w) = Some rs\<close> show ?thesis by (fastforce simp: split_def Let_def)
      next
        case False
        with Suc.prems Some \<open>fst (poll w) = Some rs\<close> have "row_verdict t = Clean" by (simp add: split_def Let_def)
        with False Some mem show ?thesis by blast
      qed
    qed
  qed
qed simp

lemma done_mark: "done_set (mark_done h now j) = insert (to_upper h) (done_set j)"
proof (cases "to_upper h \<in> set (ij_done j)")
  case True
  then have "to_upper h \<in> to_upper ` set (ij_done j)" by (metis image_eqI to_upper_idem)
  with True show ?thesis by (auto simp: mark_done_def done_set_def Let_def)
next
  case False
  then show ?thesis by (auto simp: mark_done_def done_set_def Let_def)
qed

lemma finish_item_effect:
  "finish_item h j w = (j', w') \<Longrightarrow>
   done_set j' = insert (to_upper h) (done_set j) \<and> iw_calls w' = iw_calls w \<and> iw_saved w' = iw_saved w @ [j']"
  by (auto simp: finish_item_def split_def Let_def done_mark)

lemma fail_item_effect:
  "fail_item h msg (s, j, w) = (s', j', w') \<Longrightarrow>
   j' = j \<and> iw_calls w' = iw_calls w \<and> iw_saved w' = iw_saved w \<and> is_failed s' = is_failed s @ [msg] \<and>
   is_added s' = is_added s \<and> is_resumed s' = is_resumed s"
  by (auto simp: fail_item_def)

lemma upper_norm [simp]: "to_upper (norm_hash h) = norm_hash h"
  by (simp add: norm_hash_def)

lemma after_recheck_effect:
  assumes "after_recheck (norm_hash h) t (s, j, w) = (s', j', w')"
  shows "\<exists>n \<le> check_rounds. \<exists>starts.
    iw_calls w' = iw_calls w @ replicate n ListSnapshot @ starts \<and>
    (starts = [] \<or> (starts = [StartTorrent (norm_hash h)] \<and>
       (\<exists>rows \<in> set (iw_polls w). \<exists>rs t'. rows = Some rs \<and> find (\<lambda>u. eq_ic (raw_hash u) (norm_hash h)) rs = Some t' \<and>
          \<not> raw_hashing t' \<and> row_verdict t' = Clean))) \<and>
    ((j' = j \<and> iw_saved w' = iw_saved w \<and> is_failed s' \<noteq> is_failed s) \<or>
     (done_set j' = insert (norm_hash h) (done_set j) \<and> iw_saved w' = iw_saved w @ [j']))"
proof -
  obtain v w1 where wt: "wait_for_check check_rounds (norm_hash h) w = (v, w1)"
    by (cases "wait_for_check check_rounds (norm_hash h) w")
  from wait_calls [OF wt] obtain n where n: "n \<le> check_rounds" "iw_calls w1 = iw_calls w @ replicate n ListSnapshot"
    "iw_saved w1 = iw_saved w" by blast
  show ?thesis
  proof (cases v)
    case (MissingData m)
    obtain s1 j1 w2 where f: "fail_item (norm_hash h) (mf_name t @ '': recheck failed - '' @ m @ '' (kept stopped)'') (s, j, w1) = (s1, j1, w2)"
      by (metis prod_cases3)
    obtain j2 w3 where g: "finish_item (norm_hash h) j1 w2 = (j2, w3)" by (metis prod.exhaust)
    from assms wt MissingData f g have r: "j' = j2" "w' = w3" by (simp_all add: after_recheck_def Let_def)
    from fail_item_effect [OF f] finish_item_effect [OF g] n show ?thesis unfolding r
      by (intro exI [of _ n] conjI exI [of _ "[]"]) simp_all
  next
    case Clean
    note row = clean_needs_row [OF wt [unfolded Clean]]
    obtain q w2 where st: "import_call (StartTorrent (norm_hash h)) w1 = (q, w2)" by (metis prod.exhaust)
    note c = import_call_eq [OF st]
    show ?thesis
    proof (cases q)
      case (Some e)
      with assms wt Clean st have f: "fail_item (norm_hash h)
          (mf_name t @ '': verified but could not resume ('' @ error_text e @ '')'') (s, j, w2) = (s', j', w')"
        by (simp add: after_recheck_def)
      from fail_item_effect [OF f] c n row show ?thesis
        by (intro exI [of _ n] conjI exI [of _ "[StartTorrent (norm_hash h)]"]) auto
    next
      case None
      obtain j1 w3 where g: "finish_item (norm_hash h) j w2 = (j1, w3)" by (metis prod.exhaust)
      from assms wt Clean st None g have r: "j' = j1"
        "w' = log_line LogInfo (''imported '' @ mf_name t @ '' (rechecked, resumed)'') (Some (norm_hash h)) w3"
        by (simp_all add: after_recheck_def Let_def)
      from finish_item_effect [OF g] c n row show ?thesis unfolding r
        by (intro exI [of _ n] conjI exI [of _ "[StartTorrent (norm_hash h)]"]) auto
    qed
  qed
qed

lemma push_metadata_polls [simp]: "iw_polls (push_metadata h t w) = iw_polls w"
  by (simp add: push_metadata_def Let_def split_def import_call_def now_ms_def)

text \<open>What one item may add to the trace of calls: nothing, the load alone, or the load, some
  metadata, the recheck, at most the bounded number of polls, and possibly the start.\<close>

definition item_calls :: "import_call \<Rightarrow> string \<Rightarrow> import_call list \<Rightarrow> nat \<Rightarrow> bool \<Rightarrow> import_call list" where
  "item_calls l h ms n started =
     l # ms @ Recheck h # replicate n ListSnapshot @ (if started then [StartTorrent h] else [])"

definition verified_row :: "string \<Rightarrow> import_world \<Rightarrow> bool" where
  "verified_row h w = list_ex (\<lambda>rows. case rows of None \<Rightarrow> False | Some rs \<Rightarrow>
     (case find (\<lambda>t. eq_ic (raw_hash t) h) rs of None \<Rightarrow> False
      | Some t \<Rightarrow> \<not> raw_hashing t \<and> row_verdict t = Clean)) (iw_polls w)"

lemma after_recheck_shape:
  assumes "after_recheck (norm_hash h) t (s, j, w) = (s', j', w')"
  shows "\<exists>n \<le> check_rounds. \<exists>started.
    iw_calls w' = iw_calls w @ replicate n ListSnapshot @ (if started then [StartTorrent (norm_hash h)] else []) \<and>
    (started \<longrightarrow> verified_row (norm_hash h) w) \<and>
    ((j' = j \<and> iw_saved w' = iw_saved w \<and> is_failed s' \<noteq> is_failed s) \<or>
     (done_set j' = insert (norm_hash h) (done_set j) \<and> iw_saved w' = iw_saved w @ [j']))"
proof -
  from after_recheck_effect [OF assms] obtain n starts where n: "n \<le> check_rounds"
    and c: "iw_calls w' = iw_calls w @ replicate n ListSnapshot @ starts"
    and st: "starts = [] \<or> (starts = [StartTorrent (norm_hash h)] \<and>
       (\<exists>rows \<in> set (iw_polls w). \<exists>rs t'. rows = Some rs \<and> find (\<lambda>u. eq_ic (raw_hash u) (norm_hash h)) rs = Some t' \<and>
          \<not> raw_hashing t' \<and> row_verdict t' = Clean))"
    and j: "(j' = j \<and> iw_saved w' = iw_saved w \<and> is_failed s' \<noteq> is_failed s) \<or>
     (done_set j' = insert (norm_hash h) (done_set j) \<and> iw_saved w' = iw_saved w @ [j'])" by blast
  from st have a: "starts = (if starts \<noteq> [] then [StartTorrent (norm_hash h)] else [])" by auto
  have v: "starts \<noteq> [] \<longrightarrow> verified_row (norm_hash h) w"
  proof
    assume "starts \<noteq> []"
    with st obtain rs t' where "Some rs \<in> set (iw_polls w)" "find (\<lambda>u. eq_ic (raw_hash u) (norm_hash h)) rs = Some t'"
      "\<not> raw_hashing t'" "row_verdict t' = Clean" by blast
    then show "verified_row (norm_hash h) w" unfolding verified_row_def list_ex_iff by (intro bexI) simp_all
  qed
  show ?thesis
    by (rule exI [of _ n], rule conjI [OF n], rule exI [of _ "starts \<noteq> []"], intro conjI)
      (use c a v j in \<open>simp_all split: if_splits\<close>)
qed

lemma import_item_shape:
  assumes new: "norm_hash (mf_hash (pr_torrent p)) \<notin> done_set j"
    and run: "import_item decode p (s, j, w) = (s', j', w')"
  shows "((\<exists>e. load_call decode p = Inl e) \<and> iw_calls w' = iw_calls w \<or>
     (\<exists>l. load_call decode p = Inr l \<and>
        (iw_calls w' = iw_calls w @ [l] \<or>
         (\<exists>ms. list_all is_metadata ms \<and>
            (\<exists>n \<le> check_rounds. \<exists>started.
               iw_calls w' = iw_calls w @ item_calls l (norm_hash (mf_hash (pr_torrent p))) ms n started \<and>
               (started \<longrightarrow> verified_row (norm_hash (mf_hash (pr_torrent p))) w)))))) \<and>
    ((j' = j \<and> iw_saved w' = iw_saved w \<and> is_failed s' \<noteq> is_failed s) \<or>
     (done_set j' = insert (norm_hash (mf_hash (pr_torrent p))) (done_set j) \<and> iw_saved w' = iw_saved w @ [j']))"
    (is "?calls \<and> ?journal")
proof -
  define t where "t = pr_torrent p"
  define h where "h = norm_hash (mf_hash t)"
  note d = t_def [symmetric] h_def [symmetric]
  show ?thesis
  proof (cases "load_call decode p")
    case (Inl e)
    with new run have "fail_item h e (s, j, w) = (s', j', w')" by (simp add: import_item_def d)
    from fail_item_effect [OF this] Inl show ?thesis by auto
  next
    case l: (Inr l)
    obtain r w1 where ld: "import_call l w = (r, w1)" by (metis prod.exhaust)
    note ld' = import_call_eq [OF ld]
    show ?thesis
    proof (cases r)
      case (Some e)
      with l ld new run have "fail_item h (mf_name t @ '': could not add ('' @ error_text e @ '')'') (s, j, w1) = (s', j', w')"
        by (simp add: import_item_def d)
      from fail_item_effect [OF this] l ld' show ?thesis by auto
    next
      case r: None
      define wm where "wm = push_metadata h t w1"
      obtain ms where ms: "iw_calls wm = iw_calls w1 @ ms" "list_all is_metadata ms" "iw_saved wm = iw_saved w1"
        using push_metadata_calls [of h t w1] wm_def by blast
      have polls: "iw_polls wm = iw_polls w" using ld by (auto simp: wm_def import_call_def)
      obtain q w2 where rc: "import_call (Recheck h) wm = (q, w2)" by (metis prod.exhaust)
      note rc' = import_call_eq [OF rc]
      have polls2: "iw_polls w2 = iw_polls w" using rc polls by (auto simp: import_call_def)
      show ?thesis
      proof (cases q)
        case (Some e)
        with l ld r rc new run have "fail_item h (mf_name t @ '': could not recheck ('' @ error_text e @ '')'') (s, j, w2) = (s', j', w')"
          by (simp add: import_item_def d wm_def [symmetric])
        note f = fail_item_effect [OF this]
        have "iw_calls w' = iw_calls w @ item_calls l h ms 0 False" using f rc' ms ld' by (simp add: item_calls_def)
        moreover have "(0::nat) \<le> check_rounds" by simp
        ultimately have "?calls" unfolding d using l ms by blast
        moreover have ?journal using f rc' ms ld' by simp
        ultimately show ?thesis by blast
      next
        case None
        with l ld r rc new run have "after_recheck (norm_hash (mf_hash t)) t (s, j, w2) = (s', j', w')"
          by (simp add: import_item_def d wm_def [symmetric])
        from after_recheck_shape [OF this, folded h_def] obtain n started where n: "n \<le> check_rounds"
          and c: "iw_calls w' = iw_calls w2 @ replicate n ListSnapshot @ (if started then [StartTorrent h] else [])"
          and v: "started \<longrightarrow> verified_row h w2"
          and j: "(j' = j \<and> iw_saved w' = iw_saved w2 \<and> is_failed s' \<noteq> is_failed s) \<or>
            (done_set j' = insert h (done_set j) \<and> iw_saved w' = iw_saved w2 @ [j'])" by blast
        have "iw_calls w' = iw_calls w @ item_calls l h ms n started" using c rc' ms ld' by (simp add: item_calls_def)
        moreover have "started \<longrightarrow> verified_row h w" using v polls2 by (simp add: verified_row_def)
        ultimately have "?calls" unfolding d using l ms n by blast
        moreover have ?journal using j rc' ms ld' unfolding d by simp
        ultimately show ?thesis by blast
      qed
    qed
  qed
qed

lemma load_is_load: "load_call decode p = Inr l \<Longrightarrow> is_load l"
  by (auto simp: load_call_def is_load_def Let_def split: option.splits manifest_source.splits sum.splits if_splits)

lemma item_calls_loads:
  "list_all is_metadata ms \<Longrightarrow> c \<in> set (item_calls l h ms n started) \<Longrightarrow> is_load c \<Longrightarrow> c = l"
  by (auto simp: item_calls_def list_all_iff is_load_def is_metadata_def split: import_call.splits if_splits)

text \<open>What the driver does to the trace and the journal over any number of items; composes.\<close>

definition resumes ::
  "decoder \<Rightarrow> planned_restore list \<Rightarrow> import_journal \<Rightarrow> import_world \<Rightarrow> import_journal \<Rightarrow> import_world \<Rightarrow> bool" where
  "resumes decode ps j w j' w' \<longleftrightarrow>
     (\<exists>cs saves. iw_calls w' = iw_calls w @ cs \<and> iw_saved w' = iw_saved w @ saves \<and> j' = last (j # saves) \<and>
        (\<forall>l \<in> set cs. is_load l \<longrightarrow>
           (\<exists>p \<in> set ps. load_call decode p = Inr l \<and> norm_hash (mf_hash (pr_torrent p)) \<notin> done_set j)) \<and>
        ((\<forall>p \<in> set ps. norm_hash (mf_hash (pr_torrent p)) \<in> done_set j) \<longrightarrow> cs = []) \<and>
        done_set j \<subseteq> done_set j' \<and>
        done_set j' \<subseteq> done_set j \<union> (\<lambda>p. norm_hash (mf_hash (pr_torrent p))) ` set ps)"

lemma resumes_none:
  assumes "j' = j" "iw_calls w' = iw_calls w" "iw_saved w' = iw_saved w"
  shows "resumes decode ps j w j' w'"
  unfolding resumes_def by (intro exI [of _ "[]"] conjI) (use assms in auto)

lemma resumes_cong:
  assumes "iw_calls w = iw_calls v" "iw_saved w = iw_saved v" "resumes decode ps j v j' w'"
  shows "resumes decode ps j w j' w'"
  using assms by (simp add: resumes_def)

lemma resumes_item:
  assumes run: "import_item decode p (s, j, w) = (s', j', w')"
  shows "resumes decode [p] j w j' w'"
proof (cases "norm_hash (mf_hash (pr_torrent p)) \<in> done_set j")
  case True
  with run show ?thesis by (intro resumes_none) (simp_all add: import_item_def Let_def split_def)
next
  case False
  define h where "h = norm_hash (mf_hash (pr_torrent p))"
  note sh = import_item_shape [OF False run, folded h_def]
  obtain cs where cs: "iw_calls w' = iw_calls w @ cs" "\<forall>l \<in> set cs. is_load l \<longrightarrow> load_call decode p = Inr l"
  proof -
    from sh consider "iw_calls w' = iw_calls w"
      | l where "load_call decode p = Inr l" "iw_calls w' = iw_calls w @ [l]"
      | l ms n started where "load_call decode p = Inr l" "list_all is_metadata ms"
          "iw_calls w' = iw_calls w @ item_calls l h ms n started" by blast
    then show thesis
    proof cases
      case 1
      then show ?thesis by (intro that [of "[]"]) simp_all
    next
      case 2
      then show ?thesis by (intro that [of "[l]"]) simp_all
    next
      case 3
      then have "\<forall>k \<in> set (item_calls l h ms n started). is_load k \<longrightarrow> load_call decode p = Inr k"
        by (auto dest: item_calls_loads [OF 3(2)])
      with 3(3) show ?thesis by (intro that)
    qed
  qed
  from sh have "(j' = j \<and> iw_saved w' = iw_saved w) \<or>
    (done_set j' = insert h (done_set j) \<and> iw_saved w' = iw_saved w @ [j'])" by blast
  then show ?thesis
  proof
    assume "j' = j \<and> iw_saved w' = iw_saved w"
    with cs False show ?thesis unfolding resumes_def by (intro exI [of _ cs] exI [of _ "[]"]) auto
  next
    assume "done_set j' = insert h (done_set j) \<and> iw_saved w' = iw_saved w @ [j']"
    with cs False show ?thesis unfolding resumes_def
      by (intro exI [of _ cs] exI [of _ "[j']"]) (auto simp: h_def)
  qed
qed

lemma resumes_trans:
  assumes a: "resumes decode ps j w j1 w1" and b: "resumes decode qs j1 w1 j2 w2"
  shows "resumes decode (ps @ qs) j w j2 w2"
proof -
  obtain c1 s1 where 1: "iw_calls w1 = iw_calls w @ c1" "iw_saved w1 = iw_saved w @ s1" "j1 = last (j # s1)"
    "\<forall>l \<in> set c1. is_load l \<longrightarrow>
       (\<exists>p \<in> set ps. load_call decode p = Inr l \<and> norm_hash (mf_hash (pr_torrent p)) \<notin> done_set j)"
    "(\<forall>p \<in> set ps. norm_hash (mf_hash (pr_torrent p)) \<in> done_set j) \<longrightarrow> c1 = []"
    "done_set j \<subseteq> done_set j1" "done_set j1 \<subseteq> done_set j \<union> (\<lambda>p. norm_hash (mf_hash (pr_torrent p))) ` set ps"
    using a unfolding resumes_def by blast
  obtain c2 s2 where 2: "iw_calls w2 = iw_calls w1 @ c2" "iw_saved w2 = iw_saved w1 @ s2" "j2 = last (j1 # s2)"
    "\<forall>l \<in> set c2. is_load l \<longrightarrow>
       (\<exists>p \<in> set qs. load_call decode p = Inr l \<and> norm_hash (mf_hash (pr_torrent p)) \<notin> done_set j1)"
    "(\<forall>p \<in> set qs. norm_hash (mf_hash (pr_torrent p)) \<in> done_set j1) \<longrightarrow> c2 = []"
    "done_set j1 \<subseteq> done_set j2" "done_set j2 \<subseteq> done_set j1 \<union> (\<lambda>p. norm_hash (mf_hash (pr_torrent p))) ` set qs"
    using b unfolding resumes_def by blast
  have last: "j2 = last (j # s1 @ s2)" using 1(3) 2(3) by (cases "s2 = []") auto
  have loads: "\<forall>l \<in> set (c1 @ c2). is_load l \<longrightarrow>
       (\<exists>p \<in> set (ps @ qs). load_call decode p = Inr l \<and> norm_hash (mf_hash (pr_torrent p)) \<notin> done_set j)"
    using 1(4,6) 2(4) by (auto, blast+)
  have quiet: "(\<forall>p \<in> set (ps @ qs). norm_hash (mf_hash (pr_torrent p)) \<in> done_set j) \<longrightarrow> c1 @ c2 = []"
    using 1(5,6) 2(5) by auto
  have grow: "done_set j \<subseteq> done_set j2" using 1(6) 2(6) by blast
  have bound: "done_set j2 \<subseteq> done_set j \<union> (\<lambda>p. norm_hash (mf_hash (pr_torrent p))) ` set (ps @ qs)"
    using 1(7) 2(7) by auto
  have trace: "iw_calls w2 = iw_calls w @ c1 @ c2" "iw_saved w2 = iw_saved w @ s1 @ s2" using 1(1,2) 2(1,2) by simp_all
  show ?thesis unfolding resumes_def using trace last loads quiet grow bound by blast
qed

lemma resumes_run: "run_items decode ps (s, j, w) = (s', j', w') \<Longrightarrow> resumes decode ps j w j' w'"
proof (induction ps arbitrary: s j w)
  case Nil
  then show ?case by (intro resumes_none) simp_all
next
  case (Cons p ps)
  obtain stop w1 where c: "read_cancel w = (stop, w1)" by (metis prod.exhaust)
  then have keep: "iw_calls w = iw_calls w1" "iw_saved w = iw_saved w1" by (auto simp: read_cancel_def)
  show ?case
  proof (cases stop)
    case True
    with Cons.prems c keep show ?thesis by (intro resumes_cong [OF keep]) (auto intro!: resumes_none)
  next
    case False
    obtain s2 j2 w2 where it: "import_item decode p (s, j, w1) = (s2, j2, w2)" by (metis prod_cases3)
    with Cons.prems c False have "run_items decode ps (s2, j2, w2) = (s', j', w')" by simp
    from resumes_trans [OF resumes_item [OF it] Cons.IH [OF this]]
    show ?thesis by (intro resumes_cong [OF keep]) simp
  qed
qed

definition sample_planned :: planned_restore where
  "sample_planned = \<lparr>pr_torrent = sample_entry (Some (Magnet ''magnet:?xt=urn:btih:x'')), pr_dst_dir = ''/data''\<rparr>"

definition sample_journal :: "string list \<Rightarrow> import_journal" where
  "sample_journal hs = \<lparr>ij_manifest_id = [], ij_total = 1, ij_done = hs, ij_started_ms = 0, ij_updated_ms = 0\<rparr>"

definition sample_row :: "string \<Rightarrow> bool \<Rightarrow> bool \<Rightarrow> raw_torrent" where
  "sample_row msg hashing whole = raw_torrent_default\<lparr>raw_hash := sample_hash, raw_message := msg,
     raw_hashing := hashing, raw_complete := whole\<rparr>"

definition sample_world :: "raw_torrent list option list \<Rightarrow> import_world" where
  "sample_world polls = \<lparr>iw_replies = [], iw_polls = polls, iw_cancel = [], iw_clock = [], iw_calls = [],
     iw_saved = [], iw_log = []\<rparr>"


lemma sample_unjournalled: "norm_hash (mf_hash (pr_torrent sample_planned)) \<notin> done_set (sample_journal [])"
  by (simp add: done_set_def sample_journal_def)




text \<open>The verdict read after the recheck, in full: a storage message is missing data even when
  the torrent claims to be complete; any other message is harmless exactly when the torrent is complete;
  but with an empty message an incomplete torrent is clean too, and the driver then starts it.\<close>

theorem incomplete_is_clean:
  "row_verdict t =
     (if list_ex (str_contains (raw_message t)) storage_words \<or> (raw_message t \<noteq> [] \<and> \<not> raw_complete t)
      then MissingData (raw_message t) else Clean) \<and>
   row_verdict (sample_row [] False False) = Clean \<and>
   iw_calls (snd (snd (import_item Inr sample_planned (empty_summary, sample_journal [],
     sample_world [Some [sample_row [] False False]])))) =
   [LoadMagnet ''magnet:?xt=urn:btih:x'' ''/data'' (mf_label (pr_torrent sample_planned)),
    SetPriority (norm_hash sample_hash) (clamp_priority (mf_priority (pr_torrent sample_planned))),
    SetMetadata (norm_hash sample_hash) [(''added_by'', ''import''), (''source_path'', mf_source_path (pr_torrent sample_planned)),
      (''added_at'', ''0'')],
    Recheck (norm_hash sample_hash), ListSnapshot, StartTorrent (norm_hash sample_hash)]"
proof -
  have a: "row_verdict t = (if list_ex (str_contains (raw_message t)) storage_words \<or> (raw_message t \<noteq> [] \<and> \<not> raw_complete t)
      then MissingData (raw_message t) else Clean)" by (simp add: row_verdict_def)
  have b: "row_verdict (sample_row [] False False) = Clean" by code_simp
  have c: "iw_calls (snd (snd (import_item Inr sample_planned (empty_summary, sample_journal [],
     sample_world [Some [sample_row [] False False]])))) =
   [LoadMagnet ''magnet:?xt=urn:btih:x'' ''/data'' (mf_label (pr_torrent sample_planned)),
    SetPriority (norm_hash sample_hash) (clamp_priority (mf_priority (pr_torrent sample_planned))),
    SetMetadata (norm_hash sample_hash) [(''added_by'', ''import''), (''source_path'', mf_source_path (pr_torrent sample_planned)),
      (''added_at'', ''0'')],
    Recheck (norm_hash sample_hash), ListSnapshot, StartTorrent (norm_hash sample_hash)]" by code_simp
  show ?thesis using a b c by blast
qed

end
