(* ===== verification/Web_Auth.thy ===== *)
theory Web_Auth
  imports Prelude "HOL-Library.Word" "HOL-Library.AList"
begin

text \<open>
  Authentication of the web server: the persistent session store and the login rate limiter
  (\<open>server/src/auth.rs\<close>) and the gate, login and logout handlers built on them (\<open>server/src/api.rs\<close>).
  SHA-256, the parsing of an argon2 hash and of an IP address are parameters; random bytes, the two
  clocks (milliseconds since the epoch and a monotonic instant in milliseconds) and whether the store
  file can be written are inputs of each operation. The lock around each store makes every operation
  one step. The counter of the rate limiter is a natural number; the code's would overflow after four
  billion attempts in one minute. Log lines are not modelled.
\<close>

section \<open>The session store\<close>

record clock =
  wall_ms :: int
  mono_ms :: int

definition session_ttl_ms :: int where "session_ttl_ms = 30 * 24 * 3600 * 1000"
definition persist_every_ms :: int where "persist_every_ms = 300000"
definition rate_window_ms :: int where "rate_window_ms = 60000"
definition rate_max :: nat where "rate_max = 5"
definition cookie_name :: string where "cookie_name = ''rstorrent_session''"

definition hex_digit :: "nat \<Rightarrow> char" where
  "hex_digit n = (if n < 10 then digit_char n else char_of (87 + n))"

definition hex :: "8 word list \<Rightarrow> string" where
  "hex bs = concat (map (\<lambda>b. [hex_digit (unat b div 16), hex_digit (unat b mod 16)]) bs)"

definition hash_token :: "(string \<Rightarrow> 8 word list) \<Rightarrow> string \<Rightarrow> string" where
  "hash_token sha token = hex (sha token)"

record sessions =
  ss_tokens :: "(string \<times> int) list"
  ss_last_persist :: "int option"
  ss_path :: bool
  ss_disk :: "(string \<times> int) list option"

definition sessions_default :: sessions where
  "sessions_default = \<lparr>ss_tokens = [], ss_last_persist = None, ss_path = False, ss_disk = None\<rparr>"

definition with_store :: "clock \<Rightarrow> (string \<times> int) list option \<Rightarrow> sessions" where
  "with_store c file =
     (let stored = (case file of Some m \<Rightarrow> m | None \<Rightarrow> []) in
      \<lparr>ss_tokens = filter (\<lambda>(_, expiry). expiry > wall_ms c) stored,
       ss_last_persist = None, ss_path = True, ss_disk = file\<rparr>)"

definition persist_sessions :: "clock \<Rightarrow> bool \<Rightarrow> sessions \<Rightarrow> sessions" where
  "persist_sessions c writable s =
     (let s1 = s\<lparr>ss_last_persist := Some (mono_ms c)\<rparr> in
      if ss_path s1 \<and> writable then s1\<lparr>ss_disk := Some (ss_tokens s1)\<rparr> else s1)"

definition create_session ::
  "(string \<Rightarrow> 8 word list) \<Rightarrow> clock \<Rightarrow> bool \<Rightarrow> 8 word list \<Rightarrow> sessions \<Rightarrow> string \<times> sessions" where
  "create_session sha c writable buf s =
     (let token = hex buf in
      (token, persist_sessions c writable
         (s\<lparr>ss_tokens := AList.update (hash_token sha token) (wall_ms c + session_ttl_ms) (ss_tokens s)\<rparr>)))"

definition persist_due :: "clock \<Rightarrow> sessions \<Rightarrow> bool" where
  "persist_due c s =
     (case ss_last_persist s of None \<Rightarrow> True | Some t0 \<Rightarrow> mono_ms c - t0 \<ge> persist_every_ms)"

definition validate_session ::
  "(string \<Rightarrow> 8 word list) \<Rightarrow> clock \<Rightarrow> bool \<Rightarrow> string \<Rightarrow> sessions \<Rightarrow> bool \<times> sessions" where
  "validate_session sha c writable token s =
     (let key = hash_token sha token in
      case map_of (ss_tokens s) key of
        None \<Rightarrow> (False, s)
      | Some expiry \<Rightarrow>
          if expiry > wall_ms c
          then (let s1 = s\<lparr>ss_tokens := AList.update key (wall_ms c + session_ttl_ms) (ss_tokens s)\<rparr>
                in (True, if persist_due c s1 then persist_sessions c writable s1 else s1))
          else (False, persist_sessions c writable (s\<lparr>ss_tokens := AList.delete key (ss_tokens s)\<rparr>)))"

definition revoke_session :: "(string \<Rightarrow> 8 word list) \<Rightarrow> clock \<Rightarrow> bool \<Rightarrow> string \<Rightarrow> sessions \<Rightarrow> sessions" where
  "revoke_session sha c writable token s =
     (if map_of (ss_tokens s) (hash_token sha token) \<noteq> None
      then persist_sessions c writable (s\<lparr>ss_tokens := AList.delete (hash_token sha token) (ss_tokens s)\<rparr>) else s)"

definition revoke_all :: "clock \<Rightarrow> bool \<Rightarrow> sessions \<Rightarrow> sessions" where
  "revoke_all c writable s =
     (if ss_tokens s \<noteq> [] then persist_sessions c writable (s\<lparr>ss_tokens := []\<rparr>) else s)"

section \<open>The rate limiter\<close>

type_synonym 'ip limiter = "'ip \<rightharpoonup> nat \<times> int"

definition allow :: "'ip \<Rightarrow> int \<Rightarrow> 'ip limiter \<Rightarrow> bool \<times> 'ip limiter" where
  "allow ip now m =
     (let entry = (case m ip of None \<Rightarrow> (0, now) | Some e \<Rightarrow> e);
          entry1 = (if now - snd entry > rate_window_ms then (0, now) else entry);
          count = fst entry1 + 1
      in (count \<le> rate_max, m(ip \<mapsto> (count, snd entry1))))"

section \<open>Requests and handlers\<close>

datatype http_method = GET | POST | PUT | DELETE | OtherMethod

record 'ip request =
  rq_method :: http_method
  rq_path :: string
  rq_peer :: 'ip
  rq_cookie :: "string option"
  rq_forwarded_for :: "string option"
  rq_forwarded_proto :: "string option"
  rq_csrf :: "string option"
  rq_password :: string

record 'ip web_config =
  wc_no_auth :: bool
  wc_trusted_proxies :: "'ip list"
  wc_secure_cookies :: bool

record 'ip web_state =
  ws_sessions :: sessions
  ws_rate :: "'ip limiter"
  ws_password_hash :: "string option"

datatype web_response = NextHandler | Response nat "string option" "string option"

definition no_content :: "string option \<Rightarrow> web_response" where
  "no_content cookie = Response 204 None cookie"

definition api_error :: "nat \<Rightarrow> string \<Rightarrow> web_response" where
  "api_error status message = Response status (Some message) None"

definition first_part :: "string \<Rightarrow> string" where
  "first_part v = trim (hd (split_on (CHR '','') v))"

definition client_context ::
  "(string \<Rightarrow> 'ip option) \<Rightarrow> 'ip web_config \<Rightarrow> 'ip request \<Rightarrow> 'ip \<times> bool" where
  "client_context parse_ip cfg rq =
     (let trusted = (rq_peer rq \<in> set (wc_trusted_proxies cfg));
          forwarded_ip = (case rq_forwarded_for rq of None \<Rightarrow> None | Some v \<Rightarrow> parse_ip (first_part v));
          forwarded_https = (case rq_forwarded_proto rq of None \<Rightarrow> False | Some v \<Rightarrow> eq_ic (first_part v) ''https'')
      in (if trusted then (case forwarded_ip of Some ip \<Rightarrow> ip | None \<Rightarrow> rq_peer rq) else rq_peer rq,
          trusted \<and> forwarded_https))"

definition secure_suffix :: "'ip web_config \<Rightarrow> bool \<Rightarrow> string" where
  "secure_suffix cfg https = (if wc_secure_cookies cfg \<or> https then ''; Secure'' else [])"

definition session_cookie :: "'ip web_config \<Rightarrow> string \<Rightarrow> bool \<Rightarrow> string" where
  "session_cookie cfg token https =
     cookie_name @ ''='' @ token @ ''; HttpOnly; SameSite=Strict; Path=/'' @ secure_suffix cfg https"

definition cleared_cookie :: "'ip web_config \<Rightarrow> bool \<Rightarrow> string" where
  "cleared_cookie cfg https =
     cookie_name @ ''=; HttpOnly; SameSite=Strict; Path=/; Max-Age=0'' @ secure_suffix cfg https"

definition strip_prefix_of :: "string \<Rightarrow> string \<Rightarrow> string option" where
  "strip_prefix_of p s = (if take (length p) s = p then Some (drop (length p) s) else None)"

fun first_some :: "('a \<Rightarrow> 'b option) \<Rightarrow> 'a list \<Rightarrow> 'b option" where
  "first_some f [] = None"
| "first_some f (x # xs) = (case f x of Some y \<Rightarrow> Some y | None \<Rightarrow> first_some f xs)"

definition cookie_token :: "'ip request \<Rightarrow> string option" where
  "cookie_token rq =
     (case rq_cookie rq of
        None \<Rightarrow> None
      | Some cookie \<Rightarrow>
          first_some (\<lambda>p. strip_prefix_of (cookie_name @ ''='') (trim p)) (split_on (CHR '';'') cookie))"

definition verify_password :: "(string \<Rightarrow> (string \<Rightarrow> bool) option) \<Rightarrow> string \<Rightarrow> string \<Rightarrow> bool" where
  "verify_password phc hash password = (case phc hash of None \<Rightarrow> False | Some verify \<Rightarrow> verify password)"

text \<open>What the server runs on: SHA-256, the argon2 verifier of a stored hash, the IP parser.\<close>

record 'ip crypto =
  cr_sha :: "string \<Rightarrow> 8 word list"
  cr_phc :: "string \<Rightarrow> (string \<Rightarrow> bool) option"
  cr_parse_ip :: "string \<Rightarrow> 'ip option"

text \<open>One request: the clocks, whether the store can be written, the random bytes, the request.\<close>

record 'ip arrival =
  ar_clock :: clock
  ar_writable :: bool
  ar_random :: "8 word list"
  ar_request :: "'ip request"

definition on_sessions :: "(sessions \<Rightarrow> sessions) \<Rightarrow> 'ip web_state \<Rightarrow> 'ip web_state" where
  "on_sessions f st = st\<lparr>ws_sessions := f (ws_sessions st)\<rparr>"

definition post_session ::
  "'ip crypto \<Rightarrow> 'ip web_config \<Rightarrow> 'ip arrival \<Rightarrow> 'ip web_state \<Rightarrow> web_response \<times> 'ip web_state" where
  "post_session cr cfg a st =
     (if wc_no_auth cfg then (no_content None, st)
      else let rq = ar_request a; (ip, https) = client_context (cr_parse_ip cr) cfg rq;
               (ok, rate) = allow ip (mono_ms (ar_clock a)) (ws_rate st); st1 = st\<lparr>ws_rate := rate\<rparr>
           in if \<not> ok then (api_error 429 ''too many attempts - wait a minute'', st1)
              else if \<not> (case ws_password_hash st of None \<Rightarrow> False
                          | Some h \<Rightarrow> verify_password (cr_phc cr) h (rq_password rq))
              then (api_error 401 ''invalid password'', st1)
              else let (token, ss) = create_session (cr_sha cr) (ar_clock a) (ar_writable a) (ar_random a) (ws_sessions st1)
                   in (no_content (Some (session_cookie cfg token https)), st1\<lparr>ws_sessions := ss\<rparr>))"

definition delete_session ::
  "'ip crypto \<Rightarrow> 'ip web_config \<Rightarrow> 'ip arrival \<Rightarrow> 'ip web_state \<Rightarrow> web_response \<times> 'ip web_state" where
  "delete_session cr cfg a st =
     (let rq = ar_request a;
          st1 = (case cookie_token rq of
                   None \<Rightarrow> st
                 | Some t \<Rightarrow> on_sessions (revoke_session (cr_sha cr) (ar_clock a) (ar_writable a) t) st)
      in (no_content (Some (cleared_cookie cfg (snd (client_context (cr_parse_ip cr) cfg rq)))), st1))"

definition delete_sessions ::
  "'ip crypto \<Rightarrow> 'ip web_config \<Rightarrow> 'ip arrival \<Rightarrow> 'ip web_state \<Rightarrow> web_response \<times> 'ip web_state" where
  "delete_sessions cr cfg a st =
     (no_content (Some (cleared_cookie cfg (snd (client_context (cr_parse_ip cr) cfg (ar_request a))))),
      on_sessions (revoke_all (ar_clock a) (ar_writable a)) st)"

text \<open>The routes the model covers; every other route's handler is \<open>NextHandler\<close>.\<close>

definition route ::
  "'ip crypto \<Rightarrow> 'ip web_config \<Rightarrow> 'ip arrival \<Rightarrow> 'ip web_state \<Rightarrow> web_response \<times> 'ip web_state" where
  "route cr cfg a st =
     (let rq = ar_request a in
      if rq_path rq = ''/api/session'' \<and> rq_method rq = POST then post_session cr cfg a st
      else if rq_path rq = ''/api/session'' \<and> rq_method rq = DELETE then delete_session cr cfg a st
      else if rq_path rq = ''/api/session'' then (Response 405 None None, st)
      else if rq_path rq = ''/api/sessions'' \<and> rq_method rq = DELETE then delete_sessions cr cfg a st
      else (NextHandler, st))"

definition is_mutation :: "http_method \<Rightarrow> bool" where
  "is_mutation m = (m = POST \<or> m = PUT \<or> m = DELETE)"

definition require_auth ::
  "'ip crypto \<Rightarrow> 'ip web_config \<Rightarrow> 'ip arrival \<Rightarrow> 'ip web_state \<Rightarrow> web_response \<times> 'ip web_state" where
  "require_auth cr cfg a st =
     (let rq = ar_request a in
      if wc_no_auth cfg then route cr cfg a st
      else if rq_path rq = ''/api/session'' then route cr cfg a st
      else let (authed, ss) = (case cookie_token rq of
                  None \<Rightarrow> (False, ws_sessions st)
                | Some t \<Rightarrow> validate_session (cr_sha cr) (ar_clock a) (ar_writable a) t (ws_sessions st));
               st1 = st\<lparr>ws_sessions := ss\<rparr>
           in if \<not> authed then (api_error 401 ''not authenticated'', st1)
              else if is_mutation (rq_method rq) \<and> rq_csrf rq = None
              then (api_error 403 ''missing X-Rstorrent header'', st1)
              else route cr cfg a st1)"

section \<open>Tokens and their keys\<close>

lemma of_char_hex_digit: "n < 16 \<Longrightarrow> (of_char (hex_digit n) :: nat) = (if n < 10 then 48 + n else 87 + n)"
  by (cases "n < 10") (simp_all add: hex_digit_def of_char_digit_char)

lemma hex_digit_inj:
  assumes "m < 16" "n < 16" "hex_digit m = hex_digit n"
  shows "m = n"
proof -
  have "(if m < 10 then 48 + m else 87 + m) = (if n < 10 then 48 + n else 87 + n)"
    using of_char_hex_digit [OF assms(1)] of_char_hex_digit [OF assms(2)] assms(3) by simp
  then show ?thesis by (simp split: if_splits)
qed

lemma hex_Cons: "hex (b # bs) = hex_digit (unat b div 16) # hex_digit (unat b mod 16) # hex bs"
  by (simp add: hex_def)

lemma length_hex [simp]: "length (hex bs) = 2 * length bs"
  by (induction bs) (simp_all add: hex_def)

lemma hex_inj: "hex bs = hex cs \<Longrightarrow> bs = cs"
proof (induction bs arbitrary: cs)
  case Nil
  then show ?case by (cases cs) (simp_all add: hex_def)
next
  case (Cons b bs)
  then obtain c ds where cs: "cs = c # ds" by (cases cs) (simp_all add: hex_def)
  have lt: "unat b < 256" "unat c < 256" using unsigned_less [of b] unsigned_less [of c] by simp_all
  then have "unat b div 16 = unat c div 16" "unat b mod 16 = unat c mod 16"
    using Cons.prems cs by (auto simp: hex_Cons intro!: hex_digit_inj)
  then have "unat b = unat c" by (metis div_mult_mod_eq)
  then have "b = c" by (rule unsigned_word_eqI)
  then show ?case using Cons cs by (simp add: hex_Cons)
qed

lemma hash_token_inj: "inj sha \<Longrightarrow> hash_token sha t = hash_token sha u \<Longrightarrow> t = u"
  by (auto simp: hash_token_def dest: hex_inj injD)

lemma map_of_filter_value:
  "distinct (map fst xs) \<Longrightarrow>
   map_of (filter (\<lambda>(_, v). P v) xs) k = (case map_of xs k of Some v \<Rightarrow> if P v then Some v else None | None \<Rightarrow> None)"
  by (induction xs) (auto simp: map_of_eq_None_iff split: option.splits)

section \<open>The store refines a map from tokens to expiries\<close>

definition token_expiry :: "(string \<Rightarrow> 8 word list) \<Rightarrow> sessions \<Rightarrow> string \<Rightarrow> int option" where
  "token_expiry sha s t = map_of (ss_tokens s) (hash_token sha t)"

lemma persist_tokens [simp]: "ss_tokens (persist_sessions c w s) = ss_tokens s"
  by (simp add: persist_sessions_def Let_def)

lemma persist_expiry [simp]: "token_expiry sha (persist_sessions c w s) = token_expiry sha s"
  by (rule ext) (simp add: token_expiry_def)

lemma upd_expiry:
  assumes "inj sha"
  shows "token_expiry sha (s\<lparr>ss_tokens := AList.update (hash_token sha u) e (ss_tokens s)\<rparr>) = (token_expiry sha s)(u \<mapsto> e)"
    and "token_expiry sha (s\<lparr>ss_tokens := AList.delete (hash_token sha u) (ss_tokens s)\<rparr>) = (token_expiry sha s)(u := None)"
  by (rule ext; auto simp: token_expiry_def update_conv' delete_conv' dest: hash_token_inj [OF assms])+

text \<open>Property C30. The store of hashed tokens implements a map from tokens to expiry times when SHA-256 does not
  collide: minting adds the token with a full lifetime, a validation answers whether the token is
  unexpired and either refreshes exactly it or forgets it, signing out removes one token or all, and a
  restart keeps exactly the unexpired tokens of the file. A minted token is the hexadecimal form of the
  random bytes, two digits each, and different bytes give different tokens.\<close>

theorem store_refines_tokens:
  assumes "inj sha"
  shows "(case create_session sha c w buf s of (token, s1) \<Rightarrow>
       token = hex buf \<and> length token = 2 * length buf \<and> (hex buf = hex buf' \<longleftrightarrow> buf = buf') \<and>
       token_expiry sha s1 = (token_expiry sha s)(token \<mapsto> wall_ms c + session_ttl_ms)) \<and>
   (case validate_session sha c w t s of (ok, s1) \<Rightarrow>
       (ok \<longleftrightarrow> (\<exists>e. token_expiry sha s t = Some e \<and> wall_ms c < e)) \<and>
       token_expiry sha s1 = (if ok then (token_expiry sha s)(t \<mapsto> wall_ms c + session_ttl_ms)
                              else (token_expiry sha s)(t := None))) \<and>
   token_expiry sha (revoke_session sha c w t s) = (token_expiry sha s)(t := None) \<and>
   token_expiry sha (revoke_all c w s) = Map.empty \<and>
   (distinct (map fst file) \<longrightarrow> token_expiry sha (with_store c (Some file)) =
     (\<lambda>t. case map_of file (hash_token sha t) of Some e \<Rightarrow> if e > wall_ms c then Some e else None | None \<Rightarrow> None))"
proof (intro conjI impI)
  note upd = upd_expiry [OF assms]
  show "case create_session sha c w buf s of (token, s1) \<Rightarrow>
       token = hex buf \<and> length token = 2 * length buf \<and> (hex buf = hex buf' \<longleftrightarrow> buf = buf') \<and>
       token_expiry sha s1 = (token_expiry sha s)(token \<mapsto> wall_ms c + session_ttl_ms)"
    by (auto simp: create_session_def Let_def upd dest: hex_inj)
  have gone: "(token_expiry sha s)(t := None) = token_expiry sha s" if "token_expiry sha s t = None" using that by auto
  show "case validate_session sha c w t s of (ok, s1) \<Rightarrow>
       (ok \<longleftrightarrow> (\<exists>e. token_expiry sha s t = Some e \<and> wall_ms c < e)) \<and>
       token_expiry sha s1 = (if ok then (token_expiry sha s)(t \<mapsto> wall_ms c + session_ttl_ms)
                              else (token_expiry sha s)(t := None))"
  proof (cases "map_of (ss_tokens s) (hash_token sha t)")
    case None
    with gone show ?thesis by (simp add: validate_session_def token_expiry_def Let_def)
  next
    case (Some e)
    then have "token_expiry sha s t = Some e" by (simp add: token_expiry_def)
    with Some show ?thesis by (auto simp: validate_session_def Let_def upd)
  qed
  show "token_expiry sha (revoke_session sha c w t s) = (token_expiry sha s)(t := None)"
    using gone by (auto simp: revoke_session_def upd) (auto simp: token_expiry_def)
  show "token_expiry sha (revoke_all c w s) = Map.empty"
    by (auto simp: revoke_all_def token_expiry_def)
  assume "distinct (map fst file)"
  then show "token_expiry sha (with_store c (Some file)) =
     (\<lambda>t. case map_of file (hash_token sha t) of Some e \<Rightarrow> if e > wall_ms c then Some e else None | None \<Rightarrow> None)"
    by (intro ext) (simp add: with_store_def token_expiry_def map_of_filter_value)
qed

definition plain_sha :: "string \<Rightarrow> 8 word list" where
  "plain_sha s = map (\<lambda>ch. word_of_nat (of_char ch)) s"

lemma inj_plain_sha: "inj plain_sha"
proof (rule injI)
  fix s u assume "plain_sha s = plain_sha u"
  then show "s = u"
  proof (induction s arbitrary: u)
    case Nil
    then show ?case by (simp add: plain_sha_def)
  next
    case (Cons x s)
    then obtain y v where u: "u = y # v" by (cases u) (simp_all add: plain_sha_def)
    have "(word_of_nat (of_char x) :: 8 word) = word_of_nat (of_char y)" using Cons.prems u by (simp add: plain_sha_def)
    then have "unat (word_of_nat (of_char x) :: 8 word) = unat (word_of_nat (of_char y) :: 8 word)" by simp
    then have "(of_char x :: nat) = of_char y" by (simp add: unat_of_nat)
    then have "x = y" by (metis char_of_char)
    with Cons u show ?case by (simp add: plain_sha_def)
  qed
qed

theorem store_refines_tokens_witness:
  "fst (validate_session plain_sha \<lparr>wall_ms = 5, mono_ms = 0\<rparr> True ''0a''
     (snd (create_session plain_sha \<lparr>wall_ms = 0, mono_ms = 0\<rparr> True [10] sessions_default)))"
proof -
  let ?s = "snd (create_session plain_sha \<lparr>wall_ms = 0, mono_ms = 0\<rparr> True [10] sessions_default)"
  have h: "hex [10] = ''0a''" by code_simp
  obtain tk s1 where c: "create_session plain_sha \<lparr>wall_ms = 0, mono_ms = 0\<rparr> True [10] sessions_default = (tk, s1)"
    by (metis prod.exhaust)
  obtain ok s2 where v: "validate_session plain_sha \<lparr>wall_ms = 5, mono_ms = 0\<rparr> True ''0a'' s1 = (ok, s2)"
    by (metis prod.exhaust)
  have "token_expiry plain_sha s1 ''0a'' = Some session_ttl_ms"
    using store_refines_tokens [OF inj_plain_sha, where c = "\<lparr>wall_ms = 0, mono_ms = 0\<rparr>" and w = True and buf = "[10]" and s = sessions_default]
    by (simp add: c h)
  moreover have "ok \<longleftrightarrow> (\<exists>e. token_expiry plain_sha s1 ''0a'' = Some e \<and> 5 < e)"
    using store_refines_tokens [OF inj_plain_sha, where c = "\<lparr>wall_ms = 5, mono_ms = 0\<rparr>" and w = True and t = "''0a''" and s = s1] by (simp add: v)
  ultimately show ?thesis by (simp add: c v session_ttl_ms_def)
qed

section \<open>No request passes the gate without a login\<close>

text \<open>A request is served by \<open>require_auth\<close>; \<open>mints\<close>: it is a login with the right password whose
  random bytes spell the token; \<open>signs_out\<close>: it is a logout carrying the token.\<close>

definition mints :: "'ip crypto \<Rightarrow> string option \<Rightarrow> 'ip arrival \<Rightarrow> string \<Rightarrow> bool" where
  "mints cr stored a t =
     (rq_path (ar_request a) = ''/api/session'' \<and> rq_method (ar_request a) = POST \<and> t = hex (ar_random a) \<and>
      (case stored of None \<Rightarrow> False | Some h \<Rightarrow> verify_password (cr_phc cr) h (rq_password (ar_request a))))"

definition signs_out :: "'ip arrival \<Rightarrow> string \<Rightarrow> bool" where
  "signs_out a t =
     (rq_path (ar_request a) = ''/api/session'' \<and> rq_method (ar_request a) = DELETE \<and> cookie_token (ar_request a) = Some t)"

abbreviation live_expiry :: "'ip crypto \<Rightarrow> 'ip web_state \<Rightarrow> string \<Rightarrow> int option" where
  "live_expiry cr st \<equiv> token_expiry (cr_sha cr) (ws_sessions st)"

lemma create_expiry:
  "inj sha \<Longrightarrow> create_session sha c w buf s = (token, s1) \<Longrightarrow>
   token = hex buf \<and> token_expiry sha s1 = (token_expiry sha s)(token \<mapsto> wall_ms c + session_ttl_ms)"
  by (auto simp: create_session_def Let_def upd_expiry)

lemma validate_expiry:
  assumes "inj sha" "validate_session sha c w t s = (ok, s1)"
  shows "(ok \<longleftrightarrow> (\<exists>e. token_expiry sha s t = Some e \<and> wall_ms c < e)) \<and>
    token_expiry sha s1 = (if ok then (token_expiry sha s)(t \<mapsto> wall_ms c + session_ttl_ms)
                           else (token_expiry sha s)(t := None))"
proof (cases "map_of (ss_tokens s) (hash_token sha t)")
  case None
  then have "(token_expiry sha s)(t := None) = token_expiry sha s" by (auto simp: token_expiry_def)
  with None assms show ?thesis by (auto simp: validate_session_def token_expiry_def Let_def)
next
  case (Some e)
  then have "token_expiry sha s t = Some e" by (simp add: token_expiry_def)
  with Some assms show ?thesis by (auto simp: validate_session_def Let_def upd_expiry split: if_splits)
qed

lemma revoke_expiry: "inj sha \<Longrightarrow> token_expiry sha (revoke_session sha c w t s) = (token_expiry sha s)(t := None)"
  by (auto simp: revoke_session_def upd_expiry) (auto simp: token_expiry_def)

lemma route_tokens:
  assumes "inj (cr_sha cr)" "\<not> wc_no_auth cfg" "route cr cfg a st = (r, st')" "live_expiry cr st' t \<noteq> None"
  shows "mints cr (ws_password_hash st) a t \<or> (live_expiry cr st t \<noteq> None \<and> \<not> signs_out a t)"
proof -
  consider (login) "rq_path (ar_request a) = ''/api/session''" "rq_method (ar_request a) = POST"
    | (logout) "rq_path (ar_request a) = ''/api/session''" "rq_method (ar_request a) = DELETE"
    | (other) "\<not> (rq_path (ar_request a) = ''/api/session'' \<and> rq_method (ar_request a) \<in> {POST, DELETE})" by blast
  then show ?thesis
  proof cases
    case login
    then have "\<not> signs_out a t" by (simp add: signs_out_def)
    moreover from login assms have "post_session cr cfg a st = (r, st')" by (simp add: route_def Let_def)
    then have "ws_sessions st' = ws_sessions st \<or>
      ((case ws_password_hash st of None \<Rightarrow> False
        | Some h \<Rightarrow> verify_password (cr_phc cr) h (rq_password (ar_request a))) \<and>
       ws_sessions st' = snd (create_session (cr_sha cr) (ar_clock a) (ar_writable a) (ar_random a) (ws_sessions st)))"
      using assms(2) by (auto simp: post_session_def Let_def split_def split: if_splits)
    ultimately show ?thesis
      using assms(4) login create_expiry [OF assms(1) prod.collapse [symmetric]] by (auto simp: mints_def split: if_splits)
  next
    case logout
    with assms(3) have "ws_sessions st' = (case cookie_token (ar_request a) of None \<Rightarrow> ws_sessions st
        | Some u \<Rightarrow> revoke_session (cr_sha cr) (ar_clock a) (ar_writable a) u (ws_sessions st))"
      by (auto simp: route_def delete_session_def on_sessions_def Let_def split: option.splits)
    with assms(4) logout revoke_expiry [OF assms(1)] show ?thesis
      by (auto simp: signs_out_def split: option.splits if_splits)
  next
    case other
    then have "\<not> signs_out a t" by (auto simp: signs_out_def)
    moreover from other assms(3) have "ws_sessions st' = ws_sessions st \<or>
      ws_sessions st' = revoke_all (ar_clock a) (ar_writable a) (ws_sessions st)"
      by (auto simp: route_def delete_sessions_def on_sessions_def Let_def split: if_splits)
    moreover have "token_expiry sha (revoke_all c w s) t = None" for sha c w s
      by (auto simp: revoke_all_def) (simp_all add: token_expiry_def)
    ultimately show ?thesis using assms(4) by auto
  qed
qed

lemma route_hash: "route cr cfg a st = (r, st') \<Longrightarrow> ws_password_hash st' = ws_password_hash st"
  by (auto simp: route_def post_session_def delete_session_def delete_sessions_def on_sessions_def Let_def split_def
      split: if_splits option.splits)

lemma require_auth_hash:
  "require_auth cr cfg a st = (r, st') \<Longrightarrow> ws_password_hash st' = ws_password_hash st"
  using route_hash [of cr cfg a _ r st']
  by (auto simp: require_auth_def Let_def split_def split: if_splits)

lemma require_auth_tokens:
  assumes "inj (cr_sha cr)" "\<not> wc_no_auth cfg" "require_auth cr cfg a st = (r, st')" "live_expiry cr st' t \<noteq> None"
  shows "mints cr (ws_password_hash st) a t \<or> (live_expiry cr st t \<noteq> None \<and> \<not> signs_out a t)"
proof (cases "rq_path (ar_request a) = ''/api/session''")
  case True
  with assms(2,3) have "route cr cfg a st = (r, st')" by (simp add: require_auth_def Let_def)
  from route_tokens [OF assms(1,2) this assms(4)] show ?thesis .
next
  case False
  obtain ok ss where v: "(case cookie_token (ar_request a) of None \<Rightarrow> (False, ws_sessions st)
    | Some u \<Rightarrow> validate_session (cr_sha cr) (ar_clock a) (ar_writable a) u (ws_sessions st)) = (ok, ss)"
    by (metis prod.exhaust)
  have before: "live_expiry cr st t \<noteq> None" if "token_expiry (cr_sha cr) ss t \<noteq> None"
    using v that validate_expiry [OF assms(1)] by (fastforce split: option.splits if_splits)
  have out: "\<not> signs_out a t" using False by (simp add: signs_out_def)
  from False assms(2,3) v consider "st' = st\<lparr>ws_sessions := ss\<rparr>" | "route cr cfg a (st\<lparr>ws_sessions := ss\<rparr>) = (r, st')"
    by (auto simp: require_auth_def Let_def split: if_splits)
  then show ?thesis
  proof cases
    case 1
    with assms(4) before out show ?thesis by simp
  next
    case 2
    from route_tokens [OF assms(1,2) 2 assms(4)] before out show ?thesis unfolding mints_def by auto
  qed
qed

lemma run_hash:
  "ws_password_hash (snd (run_steps (require_auth cr cfg) st hist)) = ws_password_hash st"
proof (induction hist arbitrary: st)
  case (Cons a hist)
  show ?case using Cons.IH require_auth_hash [OF prod.collapse [symmetric], of cr cfg a st] by (simp add: split_def Let_def)
qed simp

lemma run_snoc: "snd (run_steps step s (is @ [i])) = snd (step i (snd (run_steps step s is)))"
  by (induction "is" arbitrary: s) (simp_all add: split_def Let_def)

lemma live_token_minted:
  assumes "inj (cr_sha cr)" "\<not> wc_no_auth cfg" "ss_tokens (ws_sessions st) = []"
    and "live_expiry cr (snd (run_steps (require_auth cr cfg) st hist)) t \<noteq> None"
  shows "\<exists>pre l post. hist = pre @ l # post \<and> mints cr (ws_password_hash st) l t \<and> (\<forall>a \<in> set post. \<not> signs_out a t)"
  using assms(4)
proof (induction hist rule: rev_induct)
  case Nil
  with assms(3) show ?case by (simp add: token_expiry_def)
next
  case (snoc a hist)
  let ?st = "snd (run_steps (require_auth cr cfg) st hist)"
  obtain r st' where "require_auth cr cfg a ?st = (r, st')" by (metis prod.exhaust)
  from require_auth_tokens [OF assms(1,2) this] snoc.prems this
  consider "mints cr (ws_password_hash ?st) a t" | "live_expiry cr ?st t \<noteq> None" "\<not> signs_out a t"
    by (auto simp: run_snoc)
  then show ?case
  proof cases
    case 1
    then show ?thesis by (intro exI [of _ hist] exI [of _ a] exI [of _ "[]"]) (simp add: run_hash)
  next
    case 2
    from snoc.IH [OF 2(1)] obtain pre l post where "hist = pre @ l # post" "mints cr (ws_password_hash st) l t"
      "\<forall>a \<in> set post. \<not> signs_out a t" by blast
    with 2(2) show ?thesis by (intro exI [of _ pre] exI [of _ l] exI [of _ "post @ [a]"]) auto
  qed
qed


definition sample_crypto :: "nat crypto" where
  "sample_crypto = \<lparr>cr_sha = plain_sha, cr_phc = (\<lambda>h. Some (\<lambda>p. h = p)), cr_parse_ip = parse_nat\<rparr>"

definition sample_config :: "nat web_config" where
  "sample_config = \<lparr>wc_no_auth = False, wc_trusted_proxies = [1], wc_secure_cookies = False\<rparr>"

definition sample_web :: "nat web_state" where
  "sample_web = \<lparr>ws_sessions = sessions_default, ws_rate = Map.empty, ws_password_hash = Some ''pw''\<rparr>"

definition sample_request :: "http_method \<Rightarrow> string \<Rightarrow> string option \<Rightarrow> nat arrival" where
  "sample_request m pth cookie = \<lparr>ar_clock = \<lparr>wall_ms = 7, mono_ms = 0\<rparr>, ar_writable = True, ar_random = [10],
     ar_request = \<lparr>rq_method = m, rq_path = pth, rq_peer = 2, rq_cookie = cookie, rq_forwarded_for = None,
       rq_forwarded_proto = None, rq_csrf = None, rq_password = ''pw''\<rparr>\<rparr>"


section \<open>How many passwords a client can try\<close>

definition is_login :: "'ip arrival \<Rightarrow> bool" where
  "is_login a = (rq_path (ar_request a) = ''/api/session'' \<and> rq_method (ar_request a) = POST)"

definition tests_password :: "'ip crypto \<Rightarrow> 'ip web_config \<Rightarrow> 'ip \<Rightarrow> 'ip arrival \<times> web_response \<Rightarrow> bool" where
  "tests_password cr cfg ip ar =
     (is_login (fst ar) \<and> fst (client_context (cr_parse_ip cr) cfg (ar_request (fst ar))) = ip \<and>
      snd ar \<noteq> api_error 429 ''too many attempts - wait a minute'')"

definition guesses :: "'ip crypto \<Rightarrow> 'ip web_config \<Rightarrow> 'ip \<Rightarrow> 'ip web_state \<Rightarrow> 'ip arrival list \<Rightarrow> nat" where
  "guesses cr cfg ip st as =
     length (filter (tests_password cr cfg ip) (zip as (fst (run_steps (require_auth cr cfg) st as))))"

lemma guesses_Nil [simp]: "guesses cr cfg ip st [] = 0"
  by (simp add: guesses_def)

lemma guesses_Cons:
  "require_auth cr cfg a st = (r, st') \<Longrightarrow>
   guesses cr cfg ip st (a # as) = (if tests_password cr cfg ip (a, r) then 1 else 0) + guesses cr cfg ip st' as"
  by (simp add: guesses_def split_def Let_def)

lemma require_auth_login:
  assumes "\<not> wc_no_auth cfg" "is_login a" "require_auth cr cfg a st = (r, st')"
    "allow (fst (client_context (cr_parse_ip cr) cfg (ar_request a))) (mono_ms (ar_clock a)) (ws_rate st) = (ok, rate)"
  shows "ws_rate st' = rate \<and> (ok \<longleftrightarrow> r \<noteq> api_error 429 ''too many attempts - wait a minute'')"
  using assms
  by (auto simp: require_auth_def route_def post_session_def is_login_def Let_def split_def api_error_def no_content_def
      split: if_splits)

lemma require_auth_no_login:
  assumes "\<not> is_login a" "require_auth cr cfg a st = (r, st')"
  shows "ws_rate st' = ws_rate st"
  using assms
  by (auto simp: require_auth_def route_def delete_session_def delete_sessions_def on_sessions_def is_login_def
      Let_def split_def split: if_splits option.splits)

text \<open>What is left of an address's allowance: the rest of its window, and one fresh window.\<close>

definition allowance :: "(nat \<times> int) option \<Rightarrow> nat" where
  "allowance e = (case e of None \<Rightarrow> rate_max | Some (n, s) \<Rightarrow> (rate_max - n) + rate_max)"

lemma allow_other: "allow ip' now m = (ok, m') \<Longrightarrow> ip' \<noteq> ip \<Longrightarrow> m' ip = m ip"
  by (auto simp: allow_def Let_def)

lemma step_rate_other:
  assumes "\<not> wc_no_auth cfg" "require_auth cr cfg a st = (r, st')"
    "\<not> (is_login a \<and> fst (client_context (cr_parse_ip cr) cfg (ar_request a)) = ip)"
  shows "ws_rate st' ip = ws_rate st ip \<and> \<not> tests_password cr cfg ip (a, r)"
proof (cases "is_login a")
  case True
  obtain ok rate where al: "allow (fst (client_context (cr_parse_ip cr) cfg (ar_request a))) (mono_ms (ar_clock a)) (ws_rate st) = (ok, rate)"
    by (metis prod.exhaust)
  from require_auth_login [OF assms(1) True assms(2) al] allow_other [OF al] assms(3) True
  show ?thesis by (auto simp: tests_password_def)
next
  case False
  with require_auth_no_login [OF False assms(2)] show ?thesis by (simp add: tests_password_def)
qed

lemma step_rate_own:
  assumes "\<not> wc_no_auth cfg" "require_auth cr cfg a st = (r, st')" "is_login a"
    "fst (client_context (cr_parse_ip cr) cfg (ar_request a)) = ip"
    "allow ip (mono_ms (ar_clock a)) (ws_rate st) = (ok, rate)"
  shows "ws_rate st' = rate \<and> (tests_password cr cfg ip (a, r) \<longleftrightarrow> ok)"
  using require_auth_login [OF assms(1,3,2)] assms(3-5) by (auto simp: tests_password_def)

lemma guesses_window:
  assumes "\<not> wc_no_auth cfg" "ws_rate st ip = Some (n, s)" "\<forall>a \<in> set as. mono_ms (ar_clock a) \<le> s + rate_window_ms"
  shows "guesses cr cfg ip st as \<le> rate_max - n"
  using assms(2,3)
proof (induction as arbitrary: st n)
  case (Cons a as)
  obtain r st' where st: "require_auth cr cfg a st = (r, st')" by (metis prod.exhaust)
  note g = guesses_Cons [OF st, of ip as]
  show ?case
  proof (cases "is_login a \<and> fst (client_context (cr_parse_ip cr) cfg (ar_request a)) = ip")
    case False
    from step_rate_other [OF assms(1) st False] Cons g show ?thesis by auto
  next
    case True
    have "allow ip (mono_ms (ar_clock a)) (ws_rate st) = (n + 1 \<le> rate_max, (ws_rate st)(ip \<mapsto> (n + 1, s)))"
      using Cons.prems by (auto simp: allow_def Let_def)
    from step_rate_own [OF assms(1) st _ _ this] True
    have n: "ws_rate st' ip = Some (n + 1, s)" "tests_password cr cfg ip (a, r) \<longleftrightarrow> n + 1 \<le> rate_max" by auto
    from Cons.IH [OF n(1)] Cons.prems have "guesses cr cfg ip st' as \<le> rate_max - (n + 1)" by simp
    with g n(2) show ?thesis by (auto split: if_splits)
  qed
qed simp

lemma guesses_allowance:
  assumes "\<not> wc_no_auth cfg" "\<forall>a \<in> set as. t0 \<le> mono_ms (ar_clock a) \<and> mono_ms (ar_clock a) \<le> t0 + rate_window_ms"
  shows "guesses cr cfg ip st as \<le> allowance (ws_rate st ip)"
  using assms(2)
proof (induction as arbitrary: st)
  case (Cons a as st)
  obtain r st' where st: "require_auth cr cfg a st = (r, st')" by (metis prod.exhaust)
  note g = guesses_Cons [OF st, of ip as]
  let ?now = "mono_ms (ar_clock a)"
  show ?case
  proof (cases "is_login a \<and> fst (client_context (cr_parse_ip cr) cfg (ar_request a)) = ip")
    case False
    from step_rate_other [OF assms(1) st False] Cons.IH [of st'] Cons.prems g show ?thesis by auto
  next
    case True
    have later: "\<forall>b \<in> set as. mono_ms (ar_clock b) \<le> ?now + rate_window_ms" using Cons.prems by force
    have fresh: "guesses cr cfg ip st (a # as) \<le> rate_max"
      if "allow ip ?now (ws_rate st) = (1 \<le> rate_max, (ws_rate st)(ip \<mapsto> (1, ?now)))"
    proof -
      from step_rate_own [OF assms(1) st _ _ that] True have "ws_rate st' ip = Some (1, ?now)" by auto
      from guesses_window [OF assms(1) this later] have "guesses cr cfg ip st' as \<le> rate_max - 1" .
      with g show ?thesis by (auto simp: rate_max_def split: if_splits)
    qed
    show ?thesis
    proof (cases "ws_rate st ip")
      case None
      then have "allow ip ?now (ws_rate st) = (1 \<le> rate_max, (ws_rate st)(ip \<mapsto> (1, ?now)))"
        by (simp add: allow_def Let_def rate_window_ms_def)
      from fresh [OF this] None show ?thesis by (simp add: allowance_def)
    next
      case (Some e)
      obtain n s where e: "e = (n, s)" by (cases e)
      show ?thesis
      proof (cases "?now - s > rate_window_ms")
        case True
        with Some e have "allow ip ?now (ws_rate st) = (1 \<le> rate_max, (ws_rate st)(ip \<mapsto> (1, ?now)))"
          by (simp add: allow_def Let_def)
        from fresh [OF this] Some e show ?thesis by (simp add: allowance_def)
      next
        case False
        with Some e have "allow ip ?now (ws_rate st) = (n + 1 \<le> rate_max, (ws_rate st)(ip \<mapsto> (n + 1, s)))"
          by (simp add: allow_def Let_def)
        from step_rate_own [OF assms(1) st _ _ this] \<open>is_login a \<and> _\<close>
        have n: "ws_rate st' ip = Some (n + 1, s)" "tests_password cr cfg ip (a, r) \<longleftrightarrow> n + 1 \<le> rate_max" by auto
        from Cons.IH [of st'] Cons.prems n(1) have "guesses cr cfg ip st' as \<le> (rate_max - (n + 1)) + rate_max"
          by (simp add: allowance_def)
        with g n(2) Some e show ?thesis by (auto simp: allowance_def split: if_splits)
      qed
    qed
  qed
qed simp



section \<open>Signing out is durable\<close>

text \<open>The operations of the store, a restart from its file included, with the last clock seen.\<close>

datatype store_op = StoreCreate "8 word list" | StoreValidate string | StoreRevoke string | StoreRevokeAll | StoreRestart

record store_input =
  si_clock :: clock
  si_writable :: bool
  si_op :: store_op

fun store_step ::
  "(string \<Rightarrow> 8 word list) \<Rightarrow> store_input \<Rightarrow> sessions \<times> int \<Rightarrow> bool \<times> sessions \<times> int" where
  "store_step sha i (s, last_wall) =
     (let c = si_clock i; w = si_writable i in
      case si_op i of
        StoreCreate buf \<Rightarrow> (True, snd (create_session sha c w buf s), wall_ms c)
      | StoreValidate t \<Rightarrow> (let (ok, s') = validate_session sha c w t s in (ok, s', wall_ms c))
      | StoreRevoke t \<Rightarrow> (True, revoke_session sha c w t s, wall_ms c)
      | StoreRevokeAll \<Rightarrow> (True, revoke_all c w s, wall_ms c)
      | StoreRestart \<Rightarrow> (True, with_store c (ss_disk s), wall_ms c))"

text \<open>The file holds no live token that memory does not.\<close>

definition store_covers :: "sessions \<times> int \<Rightarrow> bool" where
  "store_covers sl =
     (case sl of (s, last_wall) \<Rightarrow> ss_path s \<and>
        (case ss_disk s of None \<Rightarrow> True
         | Some m \<Rightarrow> list_all (\<lambda>(k, e). k \<in> fst ` set (ss_tokens s) \<or> e \<le> last_wall) m))"

definition signed_out :: "(string \<Rightarrow> 8 word list) \<Rightarrow> string \<Rightarrow> sessions \<times> int \<Rightarrow> bool" where
  "signed_out sha t sl = (store_covers sl \<and> token_expiry sha (fst sl) t = None)"

definition no_new :: "string \<Rightarrow> sessions \<times> int \<Rightarrow> store_input \<Rightarrow> bool" where
  "no_new t sl i =
     (snd sl \<le> wall_ms (si_clock i) \<and> si_writable i \<and> (\<forall>buf. si_op i = StoreCreate buf \<longrightarrow> hex buf \<noteq> t))"

definition accepts :: "string \<Rightarrow> store_input \<times> bool \<Rightarrow> bool" where
  "accepts t io = (si_op (fst io) = StoreValidate t \<and> snd io)"

lemma covers_persisted:
  "ss_path s \<Longrightarrow> store_covers (persist_sessions c True s, now)"
  by (auto simp: store_covers_def persist_sessions_def Let_def list_all_iff intro: rev_image_eqI)

lemma covers_later:
  assumes "store_covers (s, last_wall)" "last_wall \<le> now" "fst ` set (ss_tokens s) \<subseteq> fst ` set (ss_tokens s')"
    "ss_path s' = ss_path s" "ss_disk s' = ss_disk s"
  shows "store_covers (s', now)"
proof (cases "ss_disk s")
  case None
  with assms show ?thesis by (simp add: store_covers_def)
next
  case (Some m)
  have "k \<in> fst ` set (ss_tokens s') \<or> e \<le> now" if "(k, e) \<in> set m" for k e
  proof -
    from that Some assms(1) have "k \<in> fst ` set (ss_tokens s) \<or> e \<le> last_wall"
      by (auto simp: store_covers_def list_all_iff)
    with assms(2,3) show ?thesis by auto
  qed
  with Some assms(1,4,5) show ?thesis by (simp add: store_covers_def list_all_iff split_beta)
qed

lemma path_persist [simp]: "ss_path (persist_sessions c w s) = ss_path s"
  by (simp add: persist_sessions_def Let_def)

lemma covers_step:
  assumes cov: "store_covers (s, last_wall)" and c: "last_wall \<le> wall_ms (si_clock i)" and w: "si_writable i"
  shows "store_covers (snd (store_step sha i (s, last_wall)))"
proof -
  have pth: "ss_path s" using cov by (simp add: store_covers_def)
  have same: "store_covers (s, wall_ms (si_clock i))" using covers_later [OF cov c, of s] by simp
  show ?thesis
  proof (cases "si_op i")
    case (StoreCreate buf)
    then show ?thesis using w pth by (auto simp: create_session_def Let_def intro!: covers_persisted)
  next
    case (StoreValidate t)
    let ?k = "hash_token sha t"
    let ?s1 = "s\<lparr>ss_tokens := AList.update ?k (wall_ms (si_clock i) + session_ttl_ms) (ss_tokens s)\<rparr>"
    have kept: "store_covers (?s1, wall_ms (si_clock i))"
      by (rule covers_later [OF cov c]) (auto simp: dom_update)
    have "store_covers (persist_sessions c' True s', now)" if "ss_path s'" for s' c' now
      using covers_persisted [OF that] .
    with StoreValidate w pth same kept show ?thesis
      by (cases "map_of (ss_tokens s) ?k") (auto simp: validate_session_def Let_def split_def)
  next
    case (StoreRevoke t)
    then show ?thesis using w pth same by (auto simp: revoke_session_def Let_def intro!: covers_persisted)
  next
    case StoreRevokeAll
    then show ?thesis using w pth same by (auto simp: revoke_all_def Let_def intro!: covers_persisted)
  next
    case StoreRestart
    have "store_covers (with_store c' (ss_disk s), wall_ms c')" for c'
      by (auto simp: store_covers_def with_store_def Let_def list_all_iff split: option.splits intro: rev_image_eqI)
    with StoreRestart show ?thesis by (simp add: Let_def)
  qed
qed

lemma restart_expiry:
  assumes "store_covers (s, last_wall)" "last_wall \<le> wall_ms c" "token_expiry sha s t = None"
  shows "token_expiry sha (with_store c (ss_disk s)) t = None"
proof (cases "ss_disk s")
  case None
  then show ?thesis by (simp add: with_store_def token_expiry_def)
next
  case (Some m)
  have "hash_token sha t \<notin> fst ` set (filter (\<lambda>(_, e). e > wall_ms c) m)"
  proof
    assume "hash_token sha t \<in> fst ` set (filter (\<lambda>(_, e). e > wall_ms c) m)"
    then obtain e where e: "(hash_token sha t, e) \<in> set m" "e > wall_ms c" by auto
    with Some assms(1) have "hash_token sha t \<in> fst ` set (ss_tokens s) \<or> e \<le> last_wall"
      by (fastforce simp: store_covers_def list_all_iff)
    with e assms(2,3) show False by (simp add: token_expiry_def map_of_eq_None_iff)
  qed
  with Some show ?thesis by (simp add: with_store_def token_expiry_def map_of_eq_None_iff)
qed

lemma signed_out_step:
  assumes sha: "inj sha" and i: "no_new t (s, last_wall) i" and out: "signed_out sha t (s, last_wall)"
  shows "signed_out sha t (snd (store_step sha i (s, last_wall))) \<and> \<not> accepts t (i, fst (store_step sha i (s, last_wall)))"
proof -
  have c: "last_wall \<le> wall_ms (si_clock i)" "si_writable i" using i by (simp_all add: no_new_def)
  have cov: "store_covers (s, last_wall)" "token_expiry sha s t = None" using out by (simp_all add: signed_out_def)
  have "token_expiry sha (fst (snd (store_step sha i (s, last_wall)))) t = None \<and>
    \<not> accepts t (i, fst (store_step sha i (s, last_wall)))"
  proof (cases "si_op i")
    case (StoreCreate buf)
    obtain tk s1 where cr: "create_session sha (si_clock i) (si_writable i) buf s = (tk, s1)" by (metis prod.exhaust)
    from StoreCreate i have "hex buf \<noteq> t" by (simp add: no_new_def)
    with create_expiry [OF sha cr] StoreCreate cr cov show ?thesis by (simp add: accepts_def Let_def)
  next
    case (StoreValidate u)
    obtain ok s1 where v: "validate_session sha (si_clock i) (si_writable i) u s = (ok, s1)" by (metis prod.exhaust)
    from validate_expiry [OF sha v] StoreValidate v cov show ?thesis by (auto simp: accepts_def Let_def split: if_splits)
  next
    case (StoreRevoke u)
    with revoke_expiry [OF sha] cov show ?thesis by (simp add: accepts_def Let_def)
  next
    case StoreRevokeAll
    with cov show ?thesis by (auto simp: accepts_def Let_def revoke_all_def) (auto simp: token_expiry_def)
  next
    case StoreRestart
    with restart_expiry [OF cov(1) c(1) cov(2)] show ?thesis by (simp add: accepts_def Let_def)
  qed
  with covers_step [OF cov(1) c] show ?thesis by (simp add: signed_out_def)
qed

definition store_log ::
  "(string \<Rightarrow> 8 word list) \<Rightarrow> store_input \<Rightarrow> sessions \<times> int \<Rightarrow> (store_input \<times> bool) \<times> (sessions \<times> int)" where
  "store_log sha i sl = (let (ok, sl') = store_step sha i sl in ((i, ok), sl'))"

interpretation stays_out: keeps_invariant "store_log sha" "\<lambda>sl i. inj sha \<and> no_new t sl i" "signed_out sha t"
  "\<lambda>io. \<not> accepts t io"
proof unfold_locales
  fix sl i
  assume a: "inj sha \<and> no_new t sl i" and o: "signed_out sha t sl"
  obtain s lw where sl: "sl = (s, lw)" by (cases sl)
  from a o signed_out_step [of sha t s lw i] sl
  show "signed_out sha t (snd (store_log sha i sl))" "\<not> accepts t (fst (store_log sha i sl))"
    by (auto simp: store_log_def split_def Let_def simp del: store_step.simps)
qed

text \<open>Property C31. Signing out is durable. After a session is revoked, alone or with all others, no later
  validation of its token succeeds, whatever sessions are minted, validated, refreshed or revoked and
  however often the server restarts from its file, as long as no new session gets the same random bytes,
  the wall clock does not go back and the file can be written.\<close>

theorem signing_out_is_durable:
  assumes "inj sha" "store_covers (s, last_wall)" "last_wall \<le> wall_ms c"
    and "s' = revoke_session sha c True t s \<or> s' = revoke_all c True s"
    and "admissible_run (store_log sha) (no_new t) (s', wall_ms c) ops"
  shows "list_all (\<lambda>io. \<not> accepts t io) (fst (run_steps (store_log sha) (s', wall_ms c) ops))"
proof -
  define op where "op = (if s' = revoke_session sha c True t s then StoreRevoke t else StoreRevokeAll)"
  have st: "snd (store_step sha \<lparr>si_clock = c, si_writable = True, si_op = op\<rparr> (s, last_wall)) = (s', wall_ms c)"
    using assms(4) by (auto simp: op_def Let_def)
  have "store_covers (s', wall_ms c)"
    using covers_step [OF assms(2), of "\<lparr>si_clock = c, si_writable = True, si_op = op\<rparr>" sha] assms(3) st by simp
  moreover have "token_expiry sha s' t = None"
    using assms(4) revoke_expiry [OF assms(1)]
    by (auto simp: revoke_all_def) (simp_all add: token_expiry_def)
  ultimately have o: "signed_out sha t (s', wall_ms c)" by (simp add: signed_out_def)
  have run: "admissible_run (store_log sha) (\<lambda>sl i. inj sha \<and> no_new t sl i) (s', wall_ms c) ops"
    using assms(1,5) by simp
  show ?thesis using stays_out.safe_run [OF run o] by (simp add: list_all_iff)
qed

definition sample_input :: "int \<Rightarrow> bool \<Rightarrow> store_op \<Rightarrow> store_input" where
  "sample_input now writable op = \<lparr>si_clock = \<lparr>wall_ms = now, mono_ms = now\<rparr>, si_writable = writable, si_op = op\<rparr>"

definition sample_store :: sessions where
  "sample_store = snd (create_session plain_sha \<lparr>wall_ms = 0, mono_ms = 0\<rparr> True [10] (with_store \<lparr>wall_ms = 0, mono_ms = 0\<rparr> None))"

theorem signing_out_is_durable_witness:
  "list_all (\<lambda>io. \<not> accepts ''0a'' io)
     (fst (run_steps (store_log plain_sha) (revoke_session plain_sha \<lparr>wall_ms = 1, mono_ms = 1\<rparr> True ''0a'' sample_store, 1)
        [sample_input 2 True StoreRestart, sample_input 3 True (StoreCreate [11]), sample_input 4 True (StoreValidate ''0a'')]))"
proof -
  have c: "store_covers (sample_store, 0)" by code_simp
  have "hex [11] \<noteq> ''0a''" by code_simp
  then have n: "no_new ''0a'' sl (sample_input k True StoreRestart) \<longleftrightarrow> snd sl \<le> k"
    "no_new ''0a'' sl (sample_input k True (StoreCreate [11])) \<longleftrightarrow> snd sl \<le> k"
    "no_new ''0a'' sl (sample_input k True (StoreValidate u)) \<longleftrightarrow> snd sl \<le> k" for sl k u
    by (auto simp: no_new_def sample_input_def)
  have w: "snd (snd (store_log plain_sha (sample_input k True op) sl)) = k" for k op sl
    by (cases sl; cases op) (simp_all add: store_log_def sample_input_def split_def Let_def)
  have run: "admissible_run (store_log plain_sha) (no_new ''0a'')
      (revoke_session plain_sha \<lparr>wall_ms = 1, mono_ms = 1\<rparr> True ''0a'' sample_store, wall_ms \<lparr>wall_ms = 1, mono_ms = 1\<rparr>)
      [sample_input 2 True StoreRestart, sample_input 3 True (StoreCreate [11]), sample_input 4 True (StoreValidate ''0a'')]"
    by (simp add: n w)
  show ?thesis
    using signing_out_is_durable [OF inj_plain_sha c _ disjI1 [OF refl] run] by simp
qed

text \<open>A store that cannot be written: the revocation is lost at the next restart.\<close>

lemma failed_write_revives:
  "fst (validate_session plain_sha \<lparr>wall_ms = 3, mono_ms = 3\<rparr> True ''0a''
     (with_store \<lparr>wall_ms = 2, mono_ms = 2\<rparr>
        (ss_disk (revoke_all \<lparr>wall_ms = 1, mono_ms = 1\<rparr> False sample_store))))"
  by code_simp

end
