(* ===== verification/Import_Job.thy ===== *)
theory Import_Job
  imports Session
begin

text \<open>
  Session export and import on the web server (\<open>server/src/session.rs\<close>) over the driver of
  \<open>Session\<close>: picking a source for an exported torrent, reading the dialog's arguments, starting the
  one detached import job, and the job itself with its journal file. The parser of manifest text (serde)
  and the two decoders of embedded torrents are parameters. What a file read returns, the daemon's replies,
  the polls and whether each journal write succeeds are inputs; a failed write leaves the file as it was.
  The cancel request is what each of the driver's reads of the flag sees. Log lines of the job are not
  modelled.
\<close>

section \<open>Export sources and dialog arguments\<close>

definition starts_with :: "string \<Rightarrow> string \<Rightarrow> bool" where
  "starts_with p s = (take (length p) s = p)"

definition source_for :: "(string \<Rightarrow> string option) \<Rightarrow> (string \<Rightarrow> string) \<Rightarrow> string \<Rightarrow> manifest_source option" where
  "source_for read_file encode source_path =
     (let trimmed = trim source_path in
      if trimmed = [] then None
      else if starts_with ''magnet:'' trimmed \<or> starts_with ''http://'' trimmed \<or> starts_with ''https://'' trimmed
      then Some (Magnet trimmed)
      else case read_file trimmed of
             Some bytes \<Rightarrow> Some (TorrentBase64 (encode bytes))
           | None \<Rightarrow> Some (TorrentPath trimmed))"

record import_args =
  ia_manifest_text :: "string option"
  ia_remap_from :: "string option"
  ia_remap_to :: "string option"
  ia_selected :: "string list option"
  ia_resume :: "bool option"

definition or_empty :: "string option \<Rightarrow> string" where
  "or_empty o' = (case o' of None \<Rightarrow> [] | Some s \<Rightarrow> s)"

definition remaps_of :: "import_args \<Rightarrow> (string \<times> string) list" where
  "remaps_of a =
     (let fr = or_empty (ia_remap_from a); to_dir = or_empty (ia_remap_to a) in
      if trim fr = [] then [] else [(fr, to_dir)])"

definition selected_of :: "import_args \<Rightarrow> string set option" where
  "selected_of a = map_option set (ia_selected a)"

definition load_manifest :: "(string \<Rightarrow> string + manifest) \<Rightarrow> string option \<Rightarrow> string + manifest" where
  "load_manifest parse txt =
     (case txt of Some s \<Rightarrow> parse s | None \<Rightarrow> Inl ''no manifest given - upload a manifest file'')"

definition args_manifest :: "(string \<Rightarrow> string + manifest) \<Rightarrow> import_args \<Rightarrow> string + manifest" where
  "args_manifest parse a =
     (let txt = or_empty (ia_manifest_text a) in load_manifest parse (if txt = [] then None else Some txt))"

definition live_hashes :: "raw_torrent list \<Rightarrow> string set" where
  "live_hashes rows = set (map raw_hash rows)"

definition server_preview ::
  "(string \<Rightarrow> string + manifest) \<Rightarrow> decoder \<Rightarrow> decoder \<Rightarrow> (rtorrent_error + raw_torrent list) \<Rightarrow> import_args
   \<Rightarrow> string + validation_dto" where
  "server_preview parse decode read_hash rows a =
     (case args_manifest parse a of
        Inl e \<Rightarrow> Inl e
      | Inr m \<Rightarrow>
          (case rows of
             Inl e \<Rightarrow> Inl (error_text e)
           | Inr rs \<Rightarrow> Inr (preview decode read_hash m (live_hashes rs) (selected_of a) (remaps_of a))))"

text \<open>What the export collects per row: its trackers when the daemon answers, and its source.\<close>

definition export_rows ::
  "(string \<Rightarrow> rtorrent_error + string list) \<Rightarrow> (string \<Rightarrow> string option) \<Rightarrow> (string \<Rightarrow> string) \<Rightarrow> raw_torrent list
   \<Rightarrow> (string \<rightharpoonup> string list) \<times> (string \<rightharpoonup> manifest_source)" where
  "export_rows fetch read_file encode rows =
     fold (\<lambda>row (trackers, sources).
        (case fetch (raw_hash row) of Inr urls \<Rightarrow> trackers(raw_hash row \<mapsto> urls) | Inl _ \<Rightarrow> trackers,
         case source_for read_file encode (raw_source_path row) of
           Some src \<Rightarrow> sources(raw_hash row \<mapsto> src) | None \<Rightarrow> sources))
       rows (Map.empty, Map.empty)"

definition export_session ::
  "(string \<Rightarrow> rtorrent_error + string list) \<Rightarrow> (string \<Rightarrow> string option) \<Rightarrow> (string \<Rightarrow> string)
   \<Rightarrow> (rtorrent_error + raw_torrent list) \<Rightarrow> int \<Rightarrow> string \<Rightarrow> string + manifest" where
  "export_session fetch read_file encode rows now version =
     (case rows of
        Inl e \<Rightarrow> Inl (error_text e)
      | Inr rs \<Rightarrow>
          (let (trackers, sources) = export_rows fetch read_file encode rs
           in Inr (export_manifest rs trackers sources 0 0 now version)))"

section \<open>Starting the job\<close>

record import_status =
  st_running :: bool
  st_added :: nat
  st_resumed :: nat
  st_skipped :: nat
  st_failed :: "string list"
  st_done :: bool

definition import_status_default :: import_status where
  "import_status_default =
     \<lparr>st_running = False, st_added = 0, st_resumed = 0, st_skipped = 0, st_failed = [], st_done = False\<rparr>"

record import_job =
  job_manifest :: manifest
  job_selected :: "string set option"
  job_remaps :: "(string \<times> string) list"
  job_resume :: bool

definition start_import ::
  "(string \<Rightarrow> string + manifest) \<Rightarrow> import_args \<Rightarrow> import_status \<Rightarrow> (string + import_job) \<times> import_status" where
  "start_import parse a st =
     (if st_running st then (Inl ''an import is already running'', st)
      else let st1 = import_status_default\<lparr>st_running := True\<rparr> in
           case args_manifest parse a of
             Inl e \<Rightarrow> (Inl e, st1)
           | Inr m \<Rightarrow>
               (Inr \<lparr>job_manifest = m, job_selected = selected_of a, job_remaps = remaps_of a,
                     job_resume = (case ia_resume a of Some b \<Rightarrow> b | None \<Rightarrow> False)\<rparr>, st1))"

definition finish_import :: "string + import_summary \<Rightarrow> import_status \<Rightarrow> import_status" where
  "finish_import outcome st =
     (let st1 = st\<lparr>st_running := False, st_done := True\<rparr> in
      case outcome of
        Inr s \<Rightarrow> st1\<lparr>st_added := is_added s, st_resumed := is_resumed s, st_skipped := is_skipped s, st_failed := is_failed s\<rparr>
      | Inl e \<Rightarrow> st1\<lparr>st_failed := [e]\<rparr>)"

section \<open>The job\<close>

definition empty_journal :: import_journal where
  "empty_journal = \<lparr>ij_manifest_id = [], ij_total = 0, ij_done = [], ij_started_ms = 0, ij_updated_ms = 0\<rparr>"

definition load_import_journal :: "import_journal option \<Rightarrow> import_journal" where
  "load_import_journal file = (case file of Some j \<Rightarrow> j | None \<Rightarrow> empty_journal)"

definition job_journal :: "import_job \<Rightarrow> int \<Rightarrow> import_journal option \<Rightarrow> import_journal" where
  "job_journal job now file =
     (let j = load_import_journal file; i = manifest_id (job_manifest job) in
      if \<not> job_resume job \<or> ij_manifest_id j \<noteq> i
      then empty_journal\<lparr>ij_manifest_id := i, ij_total := length (man_torrents (job_manifest job)), ij_started_ms := now\<rparr>
      else j)"

definition planned_items :: "restore_item list \<Rightarrow> planned_restore list" where
  "planned_items its =
     map (\<lambda>it. \<lparr>pr_torrent = ri_torrent it, pr_dst_dir = ri_dst_dir it\<rparr>) (filter (\<lambda>it. ri_action it = RestoreAdd) its)"

fun write_all :: "(import_journal \<times> bool) list \<Rightarrow> import_journal option \<Rightarrow> import_journal option" where
  "write_all [] file = file"
| "write_all ((j, ok) # js) file = write_all js (if ok then Some j else file)"

definition run_import_job ::
  "decoder \<Rightarrow> decoder \<Rightarrow> import_job \<Rightarrow> (rtorrent_error + raw_torrent list) \<Rightarrow> int \<Rightarrow> bool list \<Rightarrow> bool
   \<Rightarrow> import_journal option \<Rightarrow> import_world \<Rightarrow> (string + import_summary) \<times> import_journal option \<times> import_world" where
  "run_import_job decode read_hash job rows now writes cancelled file w =
     (let j = job_journal job now file in
      case rows of
        Inl e \<Rightarrow> (Inl (error_text e), file, w)
      | Inr rs \<Rightarrow>
          (let planned = plan_restore decode read_hash (job_manifest job) (live_hashes rs) (job_selected job) (job_remaps job);
               items = planned_items planned;
               skipped = length (filter (\<lambda>it. ri_action it \<noteq> RestoreAdd) planned);
               (s, j', w') = run_import decode items j w;
               saves = drop (length (iw_saved w)) (iw_saved w');
               file1 = write_all (zip saves (writes @ replicate (length saves) True)) file;
               s1 = s\<lparr>is_skipped := skipped\<rparr>
           in (Inr s1, if is_failed s1 = [] \<and> \<not> cancelled then None else file1, w')))"

section \<open>One job at a time\<close>

text \<open>A started import holds the one job slot: until it finishes every further start is refused and
  changes nothing, and finishing frees the slot and reports the job's counts. A start whose manifest
  text does not parse takes the slot too, although no job runs that could free it: every later start,
  whatever its manifest, is refused from then on.\<close>

theorem one_import_at_a_time:
  assumes "\<not> st_running st"
  shows "(\<forall>m. args_manifest parse a = Inr m \<longrightarrow>
      (\<exists>job st1. start_import parse a st = (Inr job, st1) \<and> job_manifest job = m \<and> st_running st1 \<and>
         run_steps (start_import parse) st1 later = (map (\<lambda>_. Inl ''an import is already running'') later, st1) \<and>
         \<not> st_running (finish_import outcome st1) \<and>
         st_failed (finish_import outcome st1) = (case outcome of Inl e \<Rightarrow> [e] | Inr s \<Rightarrow> is_failed s))) \<and>
   (\<forall>e. args_manifest parse a = Inl e \<longrightarrow>
      (\<exists>st1. start_import parse a st = (Inl e, st1) \<and>
         run_steps (start_import parse) st1 later = (map (\<lambda>_. Inl ''an import is already running'') later, st1)))"
proof -
  have blocked: "run_steps (start_import parse) st1 later = (map (\<lambda>_. Inl ''an import is already running'') later, st1)"
    if "st_running st1" for st1
    using that by (induction later) (simp_all add: start_import_def Let_def)
  show ?thesis using assms blocked
    by (auto simp: start_import_def finish_import_def import_status_default_def Let_def split: sum.splits)
qed

section \<open>What a job touches\<close>

fun call_hash :: "import_call \<Rightarrow> string option" where
  "call_hash (SetTags h _) = Some h"
| "call_hash (SetPriority h _) = Some h"
| "call_hash (SetLimits h _ _ _) = Some h"
| "call_hash (AssignThrottle h _) = Some h"
| "call_hash (SetMetadata h _) = Some h"
| "call_hash (Recheck h) = Some h"
| "call_hash (StartTorrent h) = Some h"
| "call_hash _ = None"

definition only_about :: "string set \<Rightarrow> import_world \<Rightarrow> import_world \<Rightarrow> bool" where
  "only_about hs w w' \<longleftrightarrow>
     (\<exists>cs. iw_calls w' = iw_calls w @ cs \<and> (\<forall>c \<in> set cs. \<forall>h. call_hash c = Some h \<longrightarrow> h \<in> hs))"

lemma about_refl: "iw_calls w' = iw_calls w \<Longrightarrow> only_about hs w w'"
  by (simp add: only_about_def)

lemma about_trans: "only_about hs w w1 \<Longrightarrow> only_about hs w1 w2 \<Longrightarrow> only_about hs w w2"
  unfolding only_about_def by (metis (no_types, lifting) append.assoc Un_iff set_append)

lemma about_mono: "only_about hs w w' \<Longrightarrow> hs \<subseteq> hs' \<Longrightarrow> only_about hs' w w'"
  unfolding only_about_def by blast

lemma about_call: "(\<And>h. call_hash c = Some h \<Longrightarrow> h \<in> hs) \<Longrightarrow> only_about hs w (snd (import_call c w))"
  by (simp add: only_about_def)

lemma about_call_eq:
  "import_call c w = (r, w') \<Longrightarrow> (\<And>h. call_hash c = Some h \<Longrightarrow> h \<in> hs) \<Longrightarrow> only_about hs w w'"
  using about_call [of c hs w] by simp

lemma about_metadata: "only_about {h} w (push_metadata h t w)"
  by (auto simp: only_about_def push_metadata_def Let_def split_def)

lemma about_wait:
  assumes "wait_for_check n h w = (v, w')"
  shows "only_about hs w w'"
proof -
  from wait_calls [OF assms] obtain k where "iw_calls w' = iw_calls w @ replicate k ListSnapshot" by blast
  then show ?thesis unfolding only_about_def by (intro exI [of _ "replicate k ListSnapshot"]) auto
qed

lemma fail_calls: "fail_item h m (s, j, w) = (s', j', w') \<Longrightarrow> iw_calls w' = iw_calls w"
  using fail_item_effect by blast

lemma finish_calls: "finish_item h j w = (j', w') \<Longrightarrow> iw_calls w' = iw_calls w"
  using finish_item_effect by blast

lemma about_recheck:
  assumes "after_recheck h t (s, j, w) = (s', j', w')"
  shows "only_about {h} w w'"
proof -
  obtain v w1 where wt: "wait_for_check check_rounds h w = (v, w1)" by (metis prod.exhaust)
  note a = about_wait [OF wt, of "{h}"]
  have "only_about {h} w1 w'"
  proof (cases v)
    case (MissingData m)
    obtain s1 j1 w2 where f: "fail_item h (mf_name t @ '': recheck failed - '' @ m @ '' (kept stopped)'') (s, j, w1) = (s1, j1, w2)"
      by (metis prod_cases3)
    obtain j2 w3 where g: "finish_item h j1 w2 = (j2, w3)" by (metis prod.exhaust)
    from assms wt MissingData f g have "w' = w3" by (simp add: after_recheck_def Let_def)
    with fail_calls [OF f] finish_calls [OF g] show ?thesis by (simp add: about_refl)
  next
    case Clean
    obtain q w2 where st: "import_call (StartTorrent h) w1 = (q, w2)" by (metis prod.exhaust)
    have b: "only_about {h} w1 w2" by (rule about_call_eq [OF st]) simp
    have "iw_calls w' = iw_calls w2"
    proof (cases q)
      case (Some e)
      with assms wt Clean st have "fail_item h
          (mf_name t @ '': verified but could not resume ('' @ error_text e @ '')'') (s, j, w2) = (s', j', w')"
        by (simp add: after_recheck_def)
      then show ?thesis by (rule fail_calls)
    next
      case None
      obtain j1 w3 where g: "finish_item h j w2 = (j1, w3)" by (metis prod.exhaust)
      from assms wt Clean st None g have
        "w' = log_line LogInfo (''imported '' @ mf_name t @ '' (rechecked, resumed)'') (Some h) w3"
        by (simp add: after_recheck_def Let_def)
      with finish_calls [OF g] show ?thesis by simp
    qed
    then show ?thesis by (rule about_trans [OF b about_refl])
  qed
  with a show ?thesis by (rule about_trans)
qed

lemma load_call_hash: "load_call decode p = Inr l \<Longrightarrow> call_hash l = None"
  by (auto simp: load_call_def Let_def split: option.splits manifest_source.splits sum.splits if_splits)

lemma about_item:
  assumes "import_item decode p (s, j, w) = (s', j', w')"
  shows "only_about ({norm_hash (mf_hash (pr_torrent p))} - done_set j) w w'"
proof -
  define t where "t = pr_torrent p"
  define h where "h = norm_hash (mf_hash t)"
  note d = t_def [symmetric] h_def [symmetric]
  show ?thesis
  proof (cases "h \<in> done_set j")
    case True
    with assms show ?thesis by (auto simp: import_item_def d intro: about_refl)
  next
    case new: False
    then have hs: "{norm_hash (mf_hash (pr_torrent p))} - done_set j = {h}" by (auto simp: d)
    show ?thesis unfolding hs
    proof (cases "load_call decode p")
      case (Inl e)
      with new assms have "fail_item h e (s, j, w) = (s', j', w')" by (simp add: import_item_def d)
      from fail_calls [OF this] show "only_about {h} w w'" by (rule about_refl)
    next
      case l: (Inr l)
      obtain r w1 where ld: "import_call l w = (r, w1)" by (metis prod.exhaust)
      have a1: "only_about {h} w w1" by (rule about_call_eq [OF ld]) (simp add: load_call_hash [OF l])
      show "only_about {h} w w'"
      proof (cases r)
        case (Some e)
        with l ld new assms have "fail_item h (mf_name t @ '': could not add ('' @ error_text e @ '')'') (s, j, w1) = (s', j', w')"
          by (simp add: import_item_def d)
        from about_trans [OF a1 about_refl [OF fail_calls [OF this]]] show ?thesis .
      next
        case r: None
        obtain q w2 where rc: "import_call (Recheck h) (push_metadata h t w1) = (q, w2)" by (metis prod.exhaust)
        have a2: "only_about {h} w w2"
          by (rule about_trans [OF a1 about_trans [OF about_metadata about_call_eq [OF rc]]]) simp
        show ?thesis
        proof (cases q)
          case (Some e)
          with l ld r rc new assms have
            "fail_item h (mf_name t @ '': could not recheck ('' @ error_text e @ '')'') (s, j, w2) = (s', j', w')"
            by (simp add: import_item_def d)
          from about_trans [OF a2 about_refl [OF fail_calls [OF this]]] show ?thesis .
        next
          case None
          with l ld r rc new assms have "after_recheck h t (s, j, w2) = (s', j', w')" by (simp add: import_item_def d)
          from about_trans [OF a2 about_recheck [OF this]] show ?thesis .
        qed
      qed
    qed
  qed
qed

lemma about_run:
  "run_items decode ps (s, j, w) = (s', j', w') \<Longrightarrow>
   only_about ((\<lambda>p. norm_hash (mf_hash (pr_torrent p))) ` set ps - done_set j) w w'"
proof (induction ps arbitrary: s j w)
  case Nil
  then show ?case by (auto intro: about_refl)
next
  case (Cons p ps)
  let ?hs = "(\<lambda>p. norm_hash (mf_hash (pr_torrent p))) ` set (p # ps) - done_set j"
  obtain stop w1 where c: "read_cancel w = (stop, w1)" by (metis prod.exhaust)
  then have a: "only_about ?hs w w1" by (intro about_refl) (auto simp: read_cancel_def)
  show ?case
  proof (cases stop)
    case True
    with Cons.prems c have "iw_calls w' = iw_calls w1" by auto
    from about_trans [OF a about_refl [OF this]] show ?thesis .
  next
    case False
    obtain s2 j2 w2 where it: "import_item decode p (s, j, w1) = (s2, j2, w2)" by (metis prod_cases3)
    with Cons.prems c False have rest: "run_items decode ps (s2, j2, w2) = (s', j', w')" by simp
    have "done_set j \<subseteq> done_set j2" using resumes_item [OF it] by (auto simp: resumes_def)
    then have "only_about ?hs w2 w'" by (intro about_mono [OF Cons.IH [OF rest]]) auto
    moreover have "only_about ?hs w1 w2" by (rule about_mono [OF about_item [OF it]]) auto
    ultimately show ?thesis using a about_trans by blast
  qed
qed

lemma planned_entry_add:
  assumes "ri_action (planned_entry decode read_hash m existing selected remaps k) = RestoreAdd"
  shows "ri_torrent (planned_entry decode read_hash m existing selected remaps k) = man_torrents m ! k \<and>
    refusal decode read_hash m k = None \<and> (\<forall>x \<in> existing. \<not> eq_ic x (norm_hash (mf_hash (man_torrents m ! k)))) \<and>
    (\<forall>sel. selected = Some sel \<longrightarrow> (\<exists>x \<in> sel. eq_ic x (norm_hash (mf_hash (man_torrents m ! k)))))"
  using assms by (auto simp: planned_entry_def Let_def split: option.splits if_splits)

lemma planned_items_entries:
  assumes "man_format m = session_format"
    and "p \<in> set (planned_items (plan_restore decode read_hash m existing selected remaps))"
  shows "\<exists>k < length (man_torrents m). pr_torrent p = man_torrents m ! k \<and> refusal decode read_hash m k = None \<and>
    (\<forall>x \<in> existing. \<not> eq_ic x (norm_hash (mf_hash (man_torrents m ! k)))) \<and>
    (\<forall>sel. selected = Some sel \<longrightarrow> (\<exists>x \<in> sel. eq_ic x (norm_hash (mf_hash (man_torrents m ! k)))))"
proof -
  from assms(2) obtain it where it: "it \<in> set (plan_restore decode read_hash m existing selected remaps)"
    "ri_action it = RestoreAdd" "pr_torrent p = ri_torrent it" by (auto simp: planned_items_def)
  from it(1) obtain k where "k < length (man_torrents m)" "it = planned_entry decode read_hash m existing selected remaps k"
    by (auto simp: plan_restore_map [OF assms(1)])
  with it planned_entry_add [of decode read_hash m existing selected remaps k] show ?thesis by auto
qed

text \<open>The job over a supported manifest acts only on entries that validation accepts, that the user
  selected, that the daemon does not have and that the journal it resumes does not list as finished; it
  counts every other planned entry as skipped, and it deletes its journal file exactly when nothing
  failed and nobody cancelled. So a torrent that a killed run had loaded but not finished is one the
  daemon has: the resumed job neither checks nor starts it, and calls it skipped.\<close>

theorem import_job_scope:
  assumes "man_format (job_manifest job) = session_format"
    and "run_import_job decode read_hash job (Inr rows) now writes cancelled file w = (Inr s, file', w')"
  shows "\<exists>cs. iw_calls w' = iw_calls w @ cs \<and>
    (\<forall>c \<in> set cs. \<forall>h. call_hash c = Some h \<longrightarrow>
       (\<exists>k < length (man_torrents (job_manifest job)).
          h = norm_hash (mf_hash (man_torrents (job_manifest job) ! k)) \<and>
          refusal decode read_hash (job_manifest job) k = None) \<and>
       (\<forall>sel. job_selected job = Some sel \<longrightarrow> (\<exists>x \<in> sel. eq_ic x h)) \<and>
       (\<forall>t \<in> set rows. \<not> eq_ic (raw_hash t) h) \<and>
       h \<notin> done_set (job_journal job now file)) \<and>
    is_skipped s + length (planned_items (plan_restore decode read_hash (job_manifest job) (live_hashes rows)
       (job_selected job) (job_remaps job))) = length (man_torrents (job_manifest job)) \<and>
    (is_failed s = [] \<and> \<not> cancelled \<longrightarrow> file' = None)"
proof -
  let ?m = "job_manifest job" and ?j = "job_journal job now file"
  let ?plan = "plan_restore decode read_hash ?m (live_hashes rows) (job_selected job) (job_remaps job)"
  obtain s0 j' where r: "run_import decode (planned_items ?plan) ?j w = (s0, j', w')"
    and s: "s = s0\<lparr>is_skipped := length (filter (\<lambda>it. ri_action it \<noteq> RestoreAdd) ?plan)\<rparr>"
    and f: "is_failed s = [] \<and> \<not> cancelled \<longrightarrow> file' = None"
    using assms(2) by (auto simp: run_import_job_def Let_def split: prod.splits)
  have "length (filter (\<lambda>it. ri_action it \<noteq> RestoreAdd) ?plan) + length (filter (\<lambda>it. ri_action it = RestoreAdd) ?plan)
      = length ?plan"
    using sum_length_filter_compl [of "\<lambda>it. ri_action it \<noteq> RestoreAdd" ?plan] by simp
  then have count: "is_skipped s + length (planned_items ?plan) = length (man_torrents ?m)"
    using s assms(1) by (simp add: planned_items_def plan_restore_map)
  from about_run [of decode "planned_items ?plan" empty_summary ?j w s0 j' w'] r
  obtain cs where cs: "iw_calls w' = iw_calls w @ cs"
    "\<forall>c \<in> set cs. \<forall>h. call_hash c = Some h \<longrightarrow>
       h \<in> (\<lambda>p. norm_hash (mf_hash (pr_torrent p))) ` set (planned_items ?plan) - done_set ?j"
    unfolding run_import_def only_about_def by blast
  have entry: "(\<exists>k < length (man_torrents ?m). h = norm_hash (mf_hash (man_torrents ?m ! k)) \<and> refusal decode read_hash ?m k = None) \<and>
      (\<forall>sel. job_selected job = Some sel \<longrightarrow> (\<exists>x \<in> sel. eq_ic x h)) \<and> (\<forall>t \<in> set rows. \<not> eq_ic (raw_hash t) h)"
    if "h \<in> (\<lambda>p. norm_hash (mf_hash (pr_torrent p))) ` set (planned_items ?plan)" for h
  proof -
    from that obtain p where "p \<in> set (planned_items ?plan)" "h = norm_hash (mf_hash (pr_torrent p))" by blast
    with planned_items_entries [OF assms(1), of p decode read_hash "live_hashes rows" "job_selected job" "job_remaps job"]
    show ?thesis by (auto simp: live_hashes_def)
  qed
  show ?thesis using cs entry count f by (intro exI [of _ cs]) auto
qed

definition sample_job :: import_job where
  "sample_job = \<lparr>job_manifest = sample_manifest session_format, job_selected = None, job_remaps = [], job_resume = True\<rparr>"

theorem import_job_scope_witness:
  "\<exists>s file' w'. run_import_job Inr Inr sample_job (Inr [sample_row [] False False]) 0 [] False None (sample_world []) =
       (Inr s, file', w') \<and>
     list_all (\<lambda>c. call_hash c \<noteq> Some (norm_hash sample_hash)) (iw_calls w') \<and> is_skipped s \<le> 2"
proof -
  obtain r file' w' where r: "run_import_job Inr Inr sample_job (Inr [sample_row [] False False]) 0 [] False None (sample_world []) =
      (r, file', w')" by (metis prod_cases3)
  then obtain s where s: "r = Inr s" by (auto simp: run_import_job_def Let_def split: prod.splits)
  have f: "man_format (job_manifest sample_job) = session_format" by (simp add: sample_job_def sample_manifest_def)
  note c = import_job_scope [OF f r [unfolded s]]
  have "eq_ic (raw_hash (sample_row [] False False)) (norm_hash sample_hash)" by code_simp
  moreover have "iw_calls (sample_world []) = []" by (simp add: sample_world_def)
  ultimately have "list_all (\<lambda>c. call_hash c \<noteq> Some (norm_hash sample_hash)) (iw_calls w')"
    using c by (auto simp: list_all_iff)
  moreover have "is_skipped s \<le> 2" using c by (auto simp: sample_job_def sample_manifest_def)
  ultimately show ?thesis using r s by auto
qed

theorem one_import_at_a_time_witness:
  "fst (run_steps (start_import (\<lambda>_. Inl ''not a session manifest'')) (snd (start_import (\<lambda>_. Inl ''not a session manifest'')
      \<lparr>ia_manifest_text = Some ''x'', ia_remap_from = None, ia_remap_to = None, ia_selected = None, ia_resume = None\<rparr>
      import_status_default))
    [\<lparr>ia_manifest_text = Some ''y'', ia_remap_from = None, ia_remap_to = None, ia_selected = None, ia_resume = None\<rparr>]) =
   [Inl ''an import is already running'']"
proof -
  let ?p = "\<lambda>_. Inl ''not a session manifest'' :: string + manifest"
  let ?a = "\<lambda>t. \<lparr>ia_manifest_text = Some t, ia_remap_from = None, ia_remap_to = None, ia_selected = None, ia_resume = None\<rparr>"
  have e: "args_manifest ?p (?a ''x'') = Inl ''not a session manifest''"
    by (simp add: args_manifest_def load_manifest_def or_empty_def)
  have n: "\<not> st_running import_status_default" by (simp add: import_status_default_def)
  from one_import_at_a_time [OF n, of ?p "?a ''x''" "[?a ''y'']"] e show ?thesis by auto
qed

end
