(* ===== verification/Xmlrpc.thy ===== *)
theory Xmlrpc
  imports Types
begin

text \<open>
  The XML-RPC codec (\<open>crates/rtorrent/src/rtorrent/xmlrpc.rs\<close>). The XML reader (quick-xml, with
  \<open>trim_text\<close>) is not in the repository: the decoder is a function of the list of events it yields,
  where \<open>Bad\<close> is an error of the reader and the end of the list is its end of input. A text event carries
  the unescaped text or the reader's refusal to unescape it, CDATA its bytes or the refusal to read
  them as UTF-8. The printing and parsing of doubles and the base64 codec are parameters (\<open>codec\<close>).
  The decoder's nested loops are functions with fuel: one unit per step; \<open>parsing_total\<close> shows that
  one more than the number of events always suffices.
\<close>

section \<open>Values\<close>

datatype 'd xvalue =
    VInt int
  | VBool bool
  | VStr string
  | VDouble 'd
  | VBytes string
  | VArray "'d xvalue list"
  | VStruct "(string \<times> 'd xvalue) list"

fun as_i64 :: "'d xvalue \<Rightarrow> int option" where
  "as_i64 (VInt n) = Some n"
| "as_i64 (VBool b) = Some (if b then 1 else 0)"
| "as_i64 _ = None"

fun as_bool :: "'d xvalue \<Rightarrow> bool option" where
  "as_bool (VBool b) = Some b"
| "as_bool (VInt n) = Some (n \<noteq> 0)"
| "as_bool _ = None"

fun xv_str :: "'d xvalue \<Rightarrow> string option" where
  "xv_str (VStr s) = Some s"
| "xv_str _ = None"

fun as_array :: "'d xvalue \<Rightarrow> 'd xvalue list option" where
  "as_array (VArray vs) = Some vs"
| "as_array _ = None"

fun get_member :: "string \<Rightarrow> 'd xvalue \<Rightarrow> 'd xvalue option" where
  "get_member key (VStruct members) = map_of members key"
| "get_member key _ = None"

record 'd codec =
  cd_show :: "'d \<Rightarrow> string"
  cd_parse :: "string \<Rightarrow> 'd option"
  cd_encode :: "string \<Rightarrow> string"
  cd_decode :: "string \<Rightarrow> string + string"

section \<open>Encoding\<close>

fun escape_char :: "char \<Rightarrow> string" where
  "escape_char c =
     (if c = CHR ''&'' then ''&amp;'' else if c = CHR ''<'' then ''&lt;'' else if c = CHR ''>'' then ''&gt;'' else [c])"

definition escape :: "string \<Rightarrow> string" where
  "escape s = concat (map escape_char s)"

fun encode_value :: "'d codec \<Rightarrow> 'd xvalue \<Rightarrow> string" where
  "encode_value cd (VInt n) = ''<i8>'' @ show_int n @ ''</i8>''"
| "encode_value cd (VBool b) = ''<boolean>'' @ (if b then ''1'' else ''0'') @ ''</boolean>''"
| "encode_value cd (VStr s) = ''<string>'' @ escape s @ ''</string>''"
| "encode_value cd (VDouble d) = ''<double>'' @ cd_show cd d @ ''</double>''"
| "encode_value cd (VBytes b) = ''<base64>'' @ cd_encode cd b @ ''</base64>''"
| "encode_value cd (VArray items) =
     ''<array><data>'' @ concat (map (\<lambda>v. ''<value>'' @ encode_value cd v @ ''</value>'') items) @ ''</data></array>''"
| "encode_value cd (VStruct members) =
     ''<struct>'' @ concat (map (\<lambda>(k, v). ''<member><name>'' @ escape k @ ''</name><value>'' @ encode_value cd v
       @ ''</value></member>'') members) @ ''</struct>''"

definition method_call :: "'d codec \<Rightarrow> string \<Rightarrow> 'd xvalue list \<Rightarrow> string" where
  "method_call cd name params =
     ''<?xml version='' @ CHR 0x22 # ''1.0'' @ CHR 0x22 # ''?><methodCall><methodName>'' @ escape name @
     ''</methodName><params>'' @
     concat (map (\<lambda>p. ''<param><value>'' @ encode_value cd p @ ''</value></param>'') params) @
     ''</params></methodCall>''"

section \<open>Decoding\<close>

datatype xml_event =
    Start string
  | End string
  | Empty string
  | Text "string + string"
  | CData "string + string"
  | OtherEvent
  | Bad string

type_synonym 'a reads = "(rtorrent_error + 'a \<times> xml_event list) option"

definition parse_error :: "string \<Rightarrow> 'a reads" where
  "parse_error e = Some (Inl (Parse e))"

text \<open>A step that ran out of fuel or failed ends the whole read.\<close>

definition then_read :: "'a reads \<Rightarrow> ('a \<Rightarrow> xml_event list \<Rightarrow> 'b reads) \<Rightarrow> 'b reads" where
  "then_read r f =
     (case r of None \<Rightarrow> None | Some (Inl e) \<Rightarrow> Some (Inl e) | Some (Inr (x, es)) \<Rightarrow> f x es)"

fun read_text :: "string \<Rightarrow> string \<Rightarrow> xml_event list \<Rightarrow> string reads" where
  "read_text tag acc [] = parse_error ''eof reading text''"
| "read_text tag acc (ev # es) =
     (case ev of
        Bad e \<Rightarrow> parse_error e
      | Text (Inl e) \<Rightarrow> parse_error e
      | Text (Inr s) \<Rightarrow> read_text tag (acc @ s) es
      | CData (Inl e) \<Rightarrow> parse_error e
      | CData (Inr s) \<Rightarrow> read_text tag (acc @ s) es
      | End t \<Rightarrow> if t = tag then Some (Inr (acc, es)) else read_text tag acc es
      | _ \<Rightarrow> read_text tag acc es)"

fun skip_to_end :: "string \<Rightarrow> xml_event list \<Rightarrow> unit reads" where
  "skip_to_end tag [] = parse_error ''eof skipping to end''"
| "skip_to_end tag (ev # es) =
     (case ev of
        Bad e \<Rightarrow> parse_error e
      | End t \<Rightarrow> if t = tag then Some (Inr ((), es)) else skip_to_end tag es
      | _ \<Rightarrow> skip_to_end tag es)"

fun to_data :: "xml_event list \<Rightarrow> bool reads" where
  "to_data [] = parse_error ''eof in <array>''"
| "to_data (ev # es) =
     (case ev of
        Bad e \<Rightarrow> parse_error e
      | Start t \<Rightarrow> if t = ''data'' then Some (Inr (True, es)) else to_data es
      | End t \<Rightarrow> if t = ''array'' then Some (Inr (False, es)) else to_data es
      | _ \<Rightarrow> to_data es)"

definition quote_str :: "string \<Rightarrow> string" where
  "quote_str s = CHR 0x27 # s @ [CHR 0x27]"

definition int_value :: "string \<Rightarrow> rtorrent_error + 'd xvalue" where
  "int_value t = (case parse_i64 (trim t) of Some n \<Rightarrow> Inr (VInt n) | None \<Rightarrow> Inl (Parse (''bad int '' @ quote_str t)))"

definition double_value :: "'d codec \<Rightarrow> string \<Rightarrow> rtorrent_error + 'd xvalue" where
  "double_value cd t =
     (case cd_parse cd (trim t) of Some d \<Rightarrow> Inr (VDouble d) | None \<Rightarrow> Inl (Parse (''bad double '' @ quote_str t)))"

definition bytes_value :: "'d codec \<Rightarrow> string \<Rightarrow> rtorrent_error + 'd xvalue" where
  "bytes_value cd t = (case cd_decode cd (trim t) of Inr b \<Rightarrow> Inr (VBytes b) | Inl e \<Rightarrow> Inl (Parse e))"

definition simple_value :: "'d codec \<Rightarrow> string \<Rightarrow> (string \<Rightarrow> rtorrent_error + 'd xvalue) option" where
  "simple_value cd tag =
     (if tag = ''i4'' \<or> tag = ''int'' \<or> tag = ''i8'' then Some int_value
      else if tag = ''boolean'' then Some (\<lambda>t. Inr (VBool (trim t = ''1'')))
      else if tag = ''string'' then Some (\<lambda>t. Inr (VStr t))
      else if tag = ''double'' then Some (double_value cd)
      else if tag = ''base64'' then Some (bytes_value cd)
      else None)"

definition lift_value :: "(rtorrent_error + 'd xvalue) \<Rightarrow> xml_event list \<Rightarrow> 'd xvalue reads" where
  "lift_value r es = Some (case r of Inl e \<Rightarrow> Inl e | Inr v \<Rightarrow> Inr (v, es))"

text \<open>
  The four readers call each other with less fuel: each step is a function of the readers one level down, and \<open>readers\<close>
  builds the four of a level from those below.
\<close>

type_synonym 'd value_reader = "xml_event list \<Rightarrow> 'd xvalue reads"
type_synonym 'd items_reader = "xml_event list \<Rightarrow> 'd xvalue list reads"
type_synonym 'd struct_reader = "xml_event list \<Rightarrow> (string \<times> 'd xvalue) list reads"
type_synonym 'd member_reader = "string \<Rightarrow> 'd xvalue \<Rightarrow> xml_event list \<Rightarrow> (string \<times> 'd xvalue) reads"

definition value_event ::
  "'d codec \<Rightarrow> 'd value_reader \<Rightarrow> 'd items_reader \<Rightarrow> 'd struct_reader \<Rightarrow> xml_event \<Rightarrow> xml_event list \<Rightarrow> 'd xvalue reads" where
  "value_event cd rv ri rs ev es =
     (case ev of
        Bad e \<Rightarrow> parse_error e
      | Start tag \<Rightarrow>
          then_read
            (case simple_value cd tag of
               Some f \<Rightarrow> then_read (read_text tag [] es) (\<lambda>t. lift_value (f t))
             | None \<Rightarrow>
                 if tag = ''array''
                 then then_read (to_data es) (\<lambda>has_data es1.
                        if has_data
                        then then_read (ri es1) (\<lambda>vs es2.
                               then_read (skip_to_end ''array'' es2) (\<lambda>_ es3. Some (Inr (VArray vs, es3))))
                        else Some (Inr (VArray [], es1)))
                 else if tag = ''struct''
                 then then_read (rs es) (\<lambda>ms es1. Some (Inr (VStruct ms, es1)))
                 else then_read (skip_to_end tag es) (\<lambda>_ es1. Some (Inr (VStr [], es1))))
            (\<lambda>v es1. then_read (skip_to_end ''value'' es1) (\<lambda>_ es2. Some (Inr (v, es2))))
      | Text (Inl e) \<Rightarrow> parse_error e
      | Text (Inr s) \<Rightarrow> then_read (skip_to_end ''value'' es) (\<lambda>_ es1. Some (Inr (VStr s, es1)))
      | End t \<Rightarrow> if t = ''value'' then Some (Inr (VStr [], es)) else rv es
      | _ \<Rightarrow> rv es)"

definition items_event :: "'d value_reader \<Rightarrow> 'd items_reader \<Rightarrow> xml_event \<Rightarrow> xml_event list \<Rightarrow> 'd xvalue list reads" where
  "items_event rv ri ev es =
     (case ev of
        Bad e \<Rightarrow> parse_error e
      | Start t \<Rightarrow>
          if t = ''value''
          then then_read (rv es) (\<lambda>v es1. then_read (ri es1) (\<lambda>vs es2. Some (Inr (v # vs, es2))))
          else ri es
      | End t \<Rightarrow> if t = ''data'' then Some (Inr ([], es)) else ri es
      | _ \<Rightarrow> ri es)"

definition struct_event :: "'d struct_reader \<Rightarrow> 'd member_reader \<Rightarrow> xml_event \<Rightarrow> xml_event list \<Rightarrow> (string \<times> 'd xvalue) list reads" where
  "struct_event rs rm ev es =
     (case ev of
        Bad e \<Rightarrow> parse_error e
      | Start t \<Rightarrow>
          if t = ''member''
          then then_read (rm [] (VStr []) es) (\<lambda>m es1.
                 then_read (rs es1) (\<lambda>ms es2. Some (Inr (m # ms, es2))))
          else rs es
      | End t \<Rightarrow> if t = ''struct'' then Some (Inr ([], es)) else rs es
      | _ \<Rightarrow> rs es)"

definition member_event ::
  "'d value_reader \<Rightarrow> 'd member_reader \<Rightarrow> string \<Rightarrow> 'd xvalue \<Rightarrow> xml_event \<Rightarrow> xml_event list \<Rightarrow> (string \<times> 'd xvalue) reads" where
  "member_event rv rm name v ev es =
     (case ev of
        Bad e \<Rightarrow> parse_error e
      | Start t \<Rightarrow>
          if t = ''name'' then then_read (read_text ''name'' [] es) (\<lambda>nm es1. rm nm v es1)
          else if t = ''value'' then then_read (rv es) (\<lambda>v1 es1. rm name v1 es1)
          else rm name v es
      | End t \<Rightarrow> if t = ''member'' then Some (Inr ((name, v), es)) else rm name v es
      | _ \<Rightarrow> rm name v es)"

primrec readers :: "'d codec \<Rightarrow> nat \<Rightarrow> 'd value_reader \<times> 'd items_reader \<times> 'd struct_reader \<times> 'd member_reader" where
  "readers cd 0 = (\<lambda>es. None, \<lambda>es. None, \<lambda>es. None, \<lambda>name v es. None)"
| "readers cd (Suc n) =
     (let (rv, ri, rs, rm) = readers cd n in
      (\<lambda>es. case es of [] \<Rightarrow> parse_error ''eof inside <value>'' | ev # es \<Rightarrow> value_event cd rv ri rs ev es,
       \<lambda>es. case es of [] \<Rightarrow> parse_error ''eof in <data>'' | ev # es \<Rightarrow> items_event rv ri ev es,
       \<lambda>es. case es of [] \<Rightarrow> parse_error ''eof in <struct>'' | ev # es \<Rightarrow> struct_event rs rm ev es,
       \<lambda>name v es. case es of [] \<Rightarrow> parse_error ''eof in <member>'' | ev # es \<Rightarrow> member_event rv rm name v ev es))"

definition read_value :: "'d codec \<Rightarrow> nat \<Rightarrow> 'd value_reader" where
  "read_value cd n = fst (readers cd n)"

definition read_items :: "'d codec \<Rightarrow> nat \<Rightarrow> 'd items_reader" where
  "read_items cd n = fst (snd (readers cd n))"

definition read_struct :: "'d codec \<Rightarrow> nat \<Rightarrow> 'd struct_reader" where
  "read_struct cd n = fst (snd (snd (readers cd n)))"

definition read_member :: "'d codec \<Rightarrow> nat \<Rightarrow> 'd member_reader" where
  "read_member cd n = snd (snd (snd (readers cd n)))"

lemmas reader_defs = read_value_def read_items_def read_struct_def read_member_def

lemma read_value_simps [simp, code]:
  "read_value cd 0 es = None"
  "read_value cd (Suc n) [] = parse_error ''eof inside <value>''"
  "read_value cd (Suc n) (ev # es) =
     (case ev of
        Bad e \<Rightarrow> parse_error e
      | Start tag \<Rightarrow>
          then_read
            (case simple_value cd tag of
               Some f \<Rightarrow> then_read (read_text tag [] es) (\<lambda>t. lift_value (f t))
             | None \<Rightarrow>
                 if tag = ''array''
                 then then_read (to_data es) (\<lambda>has_data es1.
                        if has_data
                        then then_read (read_items cd n es1) (\<lambda>vs es2.
                               then_read (skip_to_end ''array'' es2) (\<lambda>_ es3. Some (Inr (VArray vs, es3))))
                        else Some (Inr (VArray [], es1)))
                 else if tag = ''struct''
                 then then_read (read_struct cd n es) (\<lambda>ms es1. Some (Inr (VStruct ms, es1)))
                 else then_read (skip_to_end tag es) (\<lambda>_ es1. Some (Inr (VStr [], es1))))
            (\<lambda>v es1. then_read (skip_to_end ''value'' es1) (\<lambda>_ es2. Some (Inr (v, es2))))
      | Text (Inl e) \<Rightarrow> parse_error e
      | Text (Inr s) \<Rightarrow> then_read (skip_to_end ''value'' es) (\<lambda>_ es1. Some (Inr (VStr s, es1)))
      | End t \<Rightarrow> if t = ''value'' then Some (Inr (VStr [], es)) else read_value cd n es
      | _ \<Rightarrow> read_value cd n es)"
  unfolding reader_defs value_event_def by (simp_all add: split_def Let_def value_event_def)

lemma read_items_simps [simp, code]:
  "read_items cd 0 es = None"
  "read_items cd (Suc n) [] = parse_error ''eof in <data>''"
  "read_items cd (Suc n) (ev # es) =
     (case ev of
        Bad e \<Rightarrow> parse_error e
      | Start t \<Rightarrow>
          if t = ''value''
          then then_read (read_value cd n es) (\<lambda>v es1. then_read (read_items cd n es1) (\<lambda>vs es2. Some (Inr (v # vs, es2))))
          else read_items cd n es
      | End t \<Rightarrow> if t = ''data'' then Some (Inr ([], es)) else read_items cd n es
      | _ \<Rightarrow> read_items cd n es)"
  unfolding reader_defs items_event_def by (simp_all add: split_def Let_def items_event_def)

lemma read_struct_simps [simp, code]:
  "read_struct cd 0 es = None"
  "read_struct cd (Suc n) [] = parse_error ''eof in <struct>''"
  "read_struct cd (Suc n) (ev # es) =
     (case ev of
        Bad e \<Rightarrow> parse_error e
      | Start t \<Rightarrow>
          if t = ''member''
          then then_read (read_member cd n [] (VStr []) es) (\<lambda>m es1.
                 then_read (read_struct cd n es1) (\<lambda>ms es2. Some (Inr (m # ms, es2))))
          else read_struct cd n es
      | End t \<Rightarrow> if t = ''struct'' then Some (Inr ([], es)) else read_struct cd n es
      | _ \<Rightarrow> read_struct cd n es)"
  unfolding reader_defs struct_event_def by (simp_all add: split_def Let_def struct_event_def)

lemma read_member_simps [simp, code]:
  "read_member cd 0 name v es = None"
  "read_member cd (Suc n) name v [] = parse_error ''eof in <member>''"
  "read_member cd (Suc n) name v (ev # es) =
     (case ev of
        Bad e \<Rightarrow> parse_error e
      | Start t \<Rightarrow>
          if t = ''name'' then then_read (read_text ''name'' [] es) (\<lambda>nm es1. read_member cd n nm v es1)
          else if t = ''value'' then then_read (read_value cd n es) (\<lambda>v1 es1. read_member cd n name v1 es1)
          else read_member cd n name v es
      | End t \<Rightarrow> if t = ''member'' then Some (Inr ((name, v), es)) else read_member cd n name v es
      | _ \<Rightarrow> read_member cd n name v es)"
  unfolding reader_defs member_event_def by (simp_all add: split_def Let_def member_event_def)

definition fault_from :: "'d xvalue \<Rightarrow> rtorrent_error" where
  "fault_from v =
     Fault (case get_member ''faultCode'' v of None \<Rightarrow> -1 | Some c \<Rightarrow> (case as_i64 c of None \<Rightarrow> -1 | Some n \<Rightarrow> n))
       (case get_member ''faultString'' v of
          None \<Rightarrow> ''unknown fault''
        | Some m \<Rightarrow> (case xv_str m of None \<Rightarrow> ''unknown fault'' | Some s \<Rightarrow> s))"

fun parse_from :: "'d codec \<Rightarrow> bool \<Rightarrow> xml_event list \<Rightarrow> (rtorrent_error + 'd xvalue) option" where
  "parse_from cd in_fault [] = Some (Inl (Parse ''no <value> in response''))"
| "parse_from cd in_fault (ev # es) =
     (case ev of
        Bad e \<Rightarrow> Some (Inl (Parse e))
      | Start t \<Rightarrow>
          if t = ''fault'' then parse_from cd True es
          else if t = ''value''
          then (case read_value cd (Suc (length es)) es of
                  None \<Rightarrow> None
                | Some (Inl e) \<Rightarrow> Some (Inl e)
                | Some (Inr (v, _)) \<Rightarrow> Some (if in_fault then Inl (fault_from v) else Inr v))
          else parse_from cd in_fault es
      | _ \<Rightarrow> parse_from cd in_fault es)"

definition parse_response :: "'d codec \<Rightarrow> xml_event list \<Rightarrow> (rtorrent_error + 'd xvalue) option" where
  "parse_response cd es = parse_from cd False es"

section \<open>Reading ends\<close>

text \<open>\<open>reads_ok n r es\<close>: with fuel above the number of events the read is not cut short, and what it
  leaves is no longer than what it got.\<close>

definition reads_ok :: "nat \<Rightarrow> 'a reads \<Rightarrow> xml_event list \<Rightarrow> bool" where
  "reads_ok n r es \<longleftrightarrow> (length es < n \<longrightarrow> r \<noteq> None) \<and> (\<forall>x es'. r = Some (Inr (x, es')) \<longrightarrow> length es' \<le> length es)"

lemma then_read_simps [simp]:
  "then_read None f = None" "then_read (Some (Inl e)) f = Some (Inl e)" "then_read (Some (Inr (x, es))) f = f x es"
  by (simp_all add: then_read_def)

lemma ok_error [intro]: "reads_ok n (parse_error e) es"
  by (simp add: reads_ok_def parse_error_def)

lemma ok_done [intro]: "length es' \<le> length es \<Longrightarrow> reads_ok n (Some (Inr (x, es'))) es"
  by (simp add: reads_ok_def)

lemma ok_lift [intro]: "reads_ok n (lift_value r es) es"
  by (auto simp: reads_ok_def lift_value_def split: sum.splits)

lemma ok_shorter: "reads_ok n r es \<Longrightarrow> length es \<le> length es1 \<Longrightarrow> reads_ok n r es1"
  by (fastforce simp: reads_ok_def)

lemma ok_then:
  assumes "reads_ok n r es" "\<And>x es1. length es1 \<le> length es \<Longrightarrow> reads_ok n (f x es1) es1"
  shows "reads_ok n (then_read r f) es"
proof (cases r)
  case (Some y)
  show ?thesis
  proof (cases y)
    case (Inr p)
    obtain x es1 where p: "p = (x, es1)" by (cases p)
    with assms(1) Some Inr have le: "length es1 \<le> length es" by (simp add: reads_ok_def)
    from ok_shorter [OF assms(2) [OF le, of x] le] Some Inr p show ?thesis by simp
  qed (simp add: Some reads_ok_def)
qed (use assms(1) in \<open>simp add: reads_ok_def\<close>)

lemma ok_next: "reads_ok n r es \<Longrightarrow> reads_ok (Suc n) r (ev # es)"
  by (fastforce simp: reads_ok_def)

lemma read_text_total: "read_text tag acc es \<noteq> None"
  by (induction tag acc es rule: read_text.induct) (auto simp: parse_error_def split: xml_event.splits sum.splits)

lemma read_text_shrinks: "read_text tag acc es = Some (Inr (x, es')) \<Longrightarrow> length es' < length es"
  by (induction tag acc es rule: read_text.induct)
     (auto simp: parse_error_def split: xml_event.splits sum.splits if_splits intro: less_SucI)

lemma skip_total: "skip_to_end tag es \<noteq> None"
  by (induction tag es rule: skip_to_end.induct) (auto simp: parse_error_def split: xml_event.splits)

lemma skip_shrinks: "skip_to_end tag es = Some (Inr (x, es')) \<Longrightarrow> length es' < length es"
  by (induction tag es rule: skip_to_end.induct)
     (auto simp: parse_error_def split: xml_event.splits if_splits intro: less_SucI)

lemma to_data_total: "to_data es \<noteq> None"
  by (induction es rule: to_data.induct) (auto simp: parse_error_def split: xml_event.splits)

lemma to_data_shrinks: "to_data es = Some (Inr (x, es')) \<Longrightarrow> length es' < length es"
  by (induction es rule: to_data.induct)
     (auto simp: parse_error_def split: xml_event.splits if_splits intro: less_SucI)

lemma ok_text: "reads_ok n (read_text tag acc es) es"
  unfolding reads_ok_def using read_text_total [of tag acc es] read_text_shrinks [of tag acc es] less_imp_le by blast

lemma ok_skip: "reads_ok n (skip_to_end tag es) es"
  unfolding reads_ok_def using skip_total [of tag es] skip_shrinks [of tag es] less_imp_le by blast

lemma ok_data: "reads_ok n (to_data es) es"
  unfolding reads_ok_def using to_data_total [of es] to_data_shrinks [of es] less_imp_le by blast

lemma ok_if: "(b \<Longrightarrow> reads_ok n r es) \<Longrightarrow> (\<not> b \<Longrightarrow> reads_ok n r' es) \<Longrightarrow> reads_ok n (if b then r else r') es"
  by simp

lemma ok_option: "reads_ok n r es \<Longrightarrow> (\<And>f. x = Some f \<Longrightarrow> reads_ok n (r' f) es) \<Longrightarrow> reads_ok n (case x of None \<Rightarrow> r | Some f \<Rightarrow> r' f) es"
  by (cases x) simp_all

lemma ok_sum: "(\<And>e. x = Inl e \<Longrightarrow> reads_ok n (r e) es) \<Longrightarrow> (\<And>y. x = Inr y \<Longrightarrow> reads_ok n (r' y) es) \<Longrightarrow>
    reads_ok n (case x of Inl e \<Rightarrow> r e | Inr y \<Rightarrow> r' y) es"
  by (cases x) simp_all

lemma ok_here: "reads_ok n (Some (Inr (x, es))) es"
  by (simp add: reads_ok_def)

lemmas ok_intros = ok_then ok_if ok_option ok_sum ok_here ok_error ok_lift ok_text ok_skip ok_data

definition all_ok :: "'d codec \<Rightarrow> nat \<Rightarrow> bool" where
  "all_ok cd n \<longleftrightarrow> (\<forall>es. reads_ok n (read_value cd n es) es) \<and> (\<forall>es. reads_ok n (read_items cd n es) es) \<and>
     (\<forall>es. reads_ok n (read_struct cd n es) es) \<and> (\<forall>nm v es. reads_ok n (read_member cd n nm v es) es)"

lemma all_okD:
  assumes "all_ok cd n"
  shows "reads_ok n (read_value cd n es) es" "reads_ok n (read_items cd n es) es"
    "reads_ok n (read_struct cd n es) es" "reads_ok n (read_member cd n nm v es) es"
  using assms by (simp_all add: all_ok_def)

lemma value_step: "all_ok cd n \<Longrightarrow> reads_ok (Suc n) (read_value cd (Suc n) es) es"
proof (cases es)
  case (Cons ev rest)
  assume a: "all_ok cd n"
  show ?thesis unfolding Cons
    by (rule ok_next, cases ev; simp only: read_value_simps xml_event.case; intro ok_intros all_okD [OF a])
qed (simp add: ok_error)

lemma items_step: "all_ok cd n \<Longrightarrow> reads_ok (Suc n) (read_items cd (Suc n) es) es"
proof (cases es)
  case (Cons ev rest)
  assume a: "all_ok cd n"
  show ?thesis unfolding Cons
    by (rule ok_next, cases ev; simp only: read_items_simps xml_event.case; intro ok_intros all_okD [OF a])
qed (simp add: ok_error)

lemma struct_step: "all_ok cd n \<Longrightarrow> reads_ok (Suc n) (read_struct cd (Suc n) es) es"
proof (cases es)
  case (Cons ev rest)
  assume a: "all_ok cd n"
  show ?thesis unfolding Cons
    by (rule ok_next, cases ev; simp only: read_struct_simps xml_event.case; intro ok_intros all_okD [OF a])
qed (simp add: ok_error)

lemma member_step: "all_ok cd n \<Longrightarrow> reads_ok (Suc n) (read_member cd (Suc n) nm w es) es"
proof (cases es)
  case (Cons ev rest)
  assume a: "all_ok cd n"
  show ?thesis unfolding Cons
    by (rule ok_next, cases ev; simp only: read_member_simps xml_event.case; intro ok_intros all_okD [OF a])
qed (simp add: ok_error)

lemma all_ok: "all_ok cd n"
proof (induction n)
  case 0
  then show ?case by (simp add: all_ok_def reads_ok_def)
next
  case (Suc n)
  then show ?case
    using value_step [OF Suc.IH] items_step [OF Suc.IH] struct_step [OF Suc.IH] member_step [OF Suc.IH]
    unfolding all_ok_def by blast
qed

lemma parse_from_total: "parse_from cd b es \<noteq> None"
proof (induction cd b es rule: parse_from.induct)
  case (2 cd b ev es)
  have "read_value cd (Suc (length es)) es \<noteq> None"
    using all_ok [of cd "Suc (length es)"] by (auto simp: all_ok_def reads_ok_def)
  with 2 show ?case by (cases ev) (auto split: option.split sum.split)
qed simp

text \<open>Property C33. Decoding always ends with an answer. Reading a value needs no more fuel than one unit above the
  number of events left, whatever the events are, and never leaves more events than it got; so parsing
  a response returns a value or an error on every input.\<close>

theorem parsing_total:
  "\<exists>r. parse_response cd es = Some r"
  using parse_from_total [of cd False es] by (auto simp: parse_response_def)

section \<open>What is encoded is read back\<close>

text \<open>\<open>value_events\<close> lists the tags and texts of an encoded value in order, an empty text being no event at
  all; \<open>render\<close> writes one of them out. A value is \<open>sound\<close> when its integers fit 64 bits, its strings have no
  surrounding blanks (the reader trims them), and its doubles and byte strings are ones the codec reads back.\<close>

definition text_events :: "string \<Rightarrow> xml_event list" where
  "text_events s = (if s = [] then [] else [Text (Inr s)])"

fun value_events :: "'d codec \<Rightarrow> 'd xvalue \<Rightarrow> xml_event list" where
  "value_events cd (VInt n) = Start ''i8'' # text_events (show_int n) @ [End ''i8'']"
| "value_events cd (VBool b) = Start ''boolean'' # text_events (if b then ''1'' else ''0'') @ [End ''boolean'']"
| "value_events cd (VStr s) = Start ''string'' # text_events s @ [End ''string'']"
| "value_events cd (VDouble d) = Start ''double'' # text_events (cd_show cd d) @ [End ''double'']"
| "value_events cd (VBytes b) = Start ''base64'' # text_events (cd_encode cd b) @ [End ''base64'']"
| "value_events cd (VArray vs) =
     [Start ''array'', Start ''data''] @ concat (map (\<lambda>v. Start ''value'' # value_events cd v @ [End ''value'']) vs)
       @ [End ''data'', End ''array'']"
| "value_events cd (VStruct ms) =
     Start ''struct'' # concat (map (\<lambda>(k, v). [Start ''member'', Start ''name''] @ text_events k @ [End ''name'', Start ''value'']
       @ value_events cd v @ [End ''value'', End ''member'']) ms) @ [End ''struct'']"

fun render :: "xml_event \<Rightarrow> string" where
  "render (Start t) = ''<'' @ t @ ''>''"
| "render (End t) = ''</'' @ t @ ''>''"
| "render (Text (Inr s)) = escape s"
| "render _ = []"

fun sound :: "'d codec \<Rightarrow> 'd xvalue \<Rightarrow> bool" where
  "sound cd (VInt n) = i64_ok n"
| "sound cd (VBool b) = True"
| "sound cd (VStr s) = (trim s = s)"
| "sound cd (VDouble d) = (trim (cd_show cd d) = cd_show cd d \<and> escape (cd_show cd d) = cd_show cd d \<and>
     cd_parse cd (cd_show cd d) = Some d)"
| "sound cd (VBytes b) = (trim (cd_encode cd b) = cd_encode cd b \<and> escape (cd_encode cd b) = cd_encode cd b \<and>
     cd_decode cd (cd_encode cd b) = Inr b)"
| "sound cd (VArray vs) = list_all (sound cd) vs"
| "sound cd (VStruct ms) = list_all (\<lambda>(k, v). trim k = k \<and> sound cd v) ms"

lemma render_text [simp]: "concat (map render (text_events s)) = escape s"
  by (simp add: text_events_def escape_def)

lemma read_text_events [simp]: "read_text t [] (text_events s @ End t # rest) = Some (Inr (s, rest))"
  by (simp add: text_events_def)

lemma escape_plain: "list_all (\<lambda>c. c \<notin> {CHR ''&'', CHR ''<'', CHR ''>''}) s \<Longrightarrow> escape s = s"
  by (induction s) (simp_all add: escape_def)

lemma skip_here [simp]: "skip_to_end t (End t # rest) = Some (Inr ((), rest))"
  by simp

lemma digit_plain: "is_digit c \<Longrightarrow> escape_char c = [c]"
  by (auto simp: is_digit_def)

lemma escape_digits: "list_all is_digit s \<Longrightarrow> escape s = s"
  by (induction s) (simp_all add: escape_def digit_plain del: escape_char.simps)

lemma escape_show_int [simp]: "escape (show_int n) = show_int n"
  using escape_digits [OF show_nat_digits] by (auto simp: show_int_def escape_def)

lemma escape_bool [simp]: "escape ''1'' = ''1''" "escape ''0'' = ''0''"
  by (simp_all add: escape_def)

lemma int_value_show: "i64_ok n \<Longrightarrow> int_value (show_int n) = Inr (VInt n)"
  by (simp add: int_value_def)

lemma trim_bool [simp]: "trim ''1'' = ''1''" "trim ''0'' = ''0''"
  by code_simp+

subsection \<open>The text is that of the events\<close>

lemma render_concat: "concat (map render (concat (map f xs))) = concat (map (\<lambda>x. concat (map render (f x))) xs)"
  by (induction xs) simp_all

lemma encode_renders: "sound cd v \<Longrightarrow> encode_value cd v = concat (map render (value_events cd v))"
proof (induction cd v rule: encode_value.induct)
  case (6 cd vs)
  have "map (\<lambda>v. ''<value>'' @ encode_value cd v @ ''</value>'') vs =
      map (\<lambda>v. concat (map render (Start ''value'' # value_events cd v @ [End ''value'']))) vs"
    using 6 by (intro map_cong) (auto simp: list_all_iff)
  from arg_cong [OF this, of concat] show ?case by (simp add: render_concat)
next
  case (7 cd ms)
  have "map (\<lambda>(k, v). ''<member><name>'' @ escape k @ ''</name><value>'' @ encode_value cd v @ ''</value></member>'') ms =
      map (\<lambda>(k, v). concat (map render ([Start ''member'', Start ''name''] @ text_events k @ [End ''name'', Start ''value'']
       @ value_events cd v @ [End ''value'', End ''member'']))) ms"
    using 7 by (intro map_cong) (auto simp: list_all_iff)
  from arg_cong [OF this, of concat] show ?case by (simp add: render_concat case_prod_unfold)
qed simp_all

subsection \<open>The decoder takes the events back\<close>

definition item_events :: "'d codec \<Rightarrow> 'd xvalue \<Rightarrow> xml_event list" where
  "item_events cd v = Start ''value'' # value_events cd v @ [End ''value'']"

definition member_events :: "'d codec \<Rightarrow> string \<times> 'd xvalue \<Rightarrow> xml_event list" where
  "member_events cd m =
     [Start ''member'', Start ''name''] @ text_events (fst m) @ End ''name'' # item_events cd (snd m) @ [End ''member'']"

lemma length_item: "length (item_events cd v) = length (value_events cd v) + 2"
  by (simp add: item_events_def)

lemma length_member: "length (member_events cd m) \<ge> length (value_events cd (snd m)) + 6"
  by (simp add: member_events_def item_events_def)

text \<open>A value is read back whatever follows it, given fuel above the length of its events.\<close>

definition reads_back :: "'d codec \<Rightarrow> 'd xvalue \<Rightarrow> bool" where
  "reads_back cd v \<longleftrightarrow> (\<forall>n rest. length (value_events cd v) < n \<longrightarrow>
     read_value cd n (value_events cd v @ End ''value'' # rest) = Some (Inr (v, rest)))"

lemma reads_backD:
  "reads_back cd v \<Longrightarrow> length (value_events cd v) < n \<Longrightarrow>
     read_value cd n (value_events cd v @ End ''value'' # rest) = Some (Inr (v, rest))"
  by (simp add: reads_back_def)

lemma reads_back_simple:
  assumes "value_events cd v = Start tag # text_events s @ [End tag]" "simple_value cd tag = Some f" "f s = Inr v"
  shows "reads_back cd v"
  unfolding reads_back_def
proof (intro allI impI)
  fix n rest assume "length (value_events cd v) < n"
  then obtain m where n: "n = Suc m" by (cases n) auto
  show "read_value cd n (value_events cd v @ End ''value'' # rest) = Some (Inr (v, rest))"
    by (simp add: n assms lift_value_def)
qed

lemma items_back:
  assumes "\<forall>v \<in> set vs. reads_back cd v" "length (concat (map (item_events cd) vs)) < n"
  shows "read_items cd n (concat (map (item_events cd) vs) @ End ''data'' # rest) = Some (Inr (vs, rest))"
  using assms
proof (induction vs arbitrary: n)
  case Nil
  then show ?case by (cases n) simp_all
next
  case (Cons v vs)
  then obtain m where n: "n = Suc m" by (cases n) auto
  from Cons.prems n have "length (value_events cd v) < m" "length (concat (map (item_events cd) vs)) < m"
    by (simp_all add: length_item)
  with Cons show ?case by (simp add: n item_events_def reads_backD)
qed

lemma member_back:
  assumes "reads_back cd v" "length (value_events cd v) + 3 < n"
  shows "read_member cd n [] (VStr []) (Start ''name'' # text_events k @ End ''name'' # Start ''value'' # value_events cd v
     @ End ''value'' # End ''member'' # rest) = Some (Inr ((k, v), rest))"
proof -
  obtain m where n: "n = Suc (Suc (Suc m))" using assms(2) that [of "n - 3"] by simp
  with assms(2) have "length (value_events cd v) < Suc m" by simp
  from reads_backD [OF assms(1) this] show ?thesis by (simp add: n)
qed

lemma members_back:
  assumes "\<forall>m \<in> set ms. reads_back cd (snd m)" "length (concat (map (member_events cd) ms)) < n"
  shows "read_struct cd n (concat (map (member_events cd) ms) @ End ''struct'' # rest) = Some (Inr (ms, rest))"
  using assms
proof (induction ms arbitrary: n)
  case Nil
  then show ?case by (cases n) simp_all
next
  case (Cons m ms)
  obtain k v where m: "m = (k, v)" by (cases m)
  from Cons.prems obtain j where n: "n = Suc j" by (cases n) auto
  from Cons.prems n m have le: "length (value_events cd v) + 3 < j" "length (concat (map (member_events cd) ms)) < j"
    using length_member [of cd m] by simp_all
  from Cons m le(2) have "read_struct cd j (concat (map (member_events cd) ms) @ End ''struct'' # rest) = Some (Inr (ms, rest))"
    by simp
  moreover have "member_events cd (k, v) @ es = Start ''member'' # Start ''name'' # text_events k @ End ''name'' #
      Start ''value'' # value_events cd v @ End ''value'' # End ''member'' # es" for es
    by (simp add: member_events_def item_events_def)
  ultimately show ?case using Cons.prems(1) m member_back [OF _ le(1)] by (simp add: n)
qed

lemma value_back: "sound cd v \<Longrightarrow> reads_back cd v"
proof (induction cd v rule: sound.induct)
  case (6 cd vs)
  then have "\<forall>v \<in> set vs. reads_back cd v" by (auto simp: list_all_iff)
  note items = items_back [OF this]
  show ?case unfolding reads_back_def
  proof (intro allI impI)
    fix n rest assume "length (value_events cd (VArray vs)) < n"
    then obtain m where "n = Suc m" "length (concat (map (item_events cd) vs)) < m"
      by (cases n) (auto simp: item_events_def [abs_def])
    with items [of m] show "read_value cd n (value_events cd (VArray vs) @ End ''value'' # rest) = Some (Inr (VArray vs, rest))"
      by (simp add: simple_value_def item_events_def [abs_def])
  qed
next
  case (7 cd ms)
  then have "\<forall>m \<in> set ms. reads_back cd (snd m)" by (auto simp: list_all_iff)
  note members = members_back [OF this]
  have ev: "value_events cd (VStruct ms) = Start ''struct'' # concat (map (member_events cd) ms) @ [End ''struct'']"
    by (simp add: member_events_def [abs_def] item_events_def case_prod_unfold)
  show ?case unfolding reads_back_def ev
  proof (intro allI impI)
    fix n rest assume "length (Start ''struct'' # concat (map (member_events cd) ms) @ [End ''struct'']) < n"
    then obtain m where "n = Suc m" "length (concat (map (member_events cd) ms)) < m" by (cases n) auto
    with members [of m] show "read_value cd n ((Start ''struct'' # concat (map (member_events cd) ms) @ [End ''struct''])
        @ End ''value'' # rest) = Some (Inr (VStruct ms, rest))"
      by (simp add: simple_value_def)
  qed
qed (rule reads_back_simple, simp, simp add: simple_value_def,
     simp add: int_value_show double_value_def bytes_value_def)+

definition response :: "'d codec \<Rightarrow> string \<Rightarrow> 'd xvalue \<Rightarrow> xml_event list" where
  "response cd part v = [OtherEvent, Start ''methodResponse''] @ map Start (if part = ''fault'' then [''fault''] else [part, ''param''])
     @ item_events cd v @ map End (if part = ''fault'' then [''fault''] else [''param'', part]) @ [End ''methodResponse'']"

definition param_events :: "'d codec \<Rightarrow> 'd xvalue \<Rightarrow> xml_event list" where
  "param_events cd v = Start ''param'' # item_events cd v @ [End ''param'']"

definition call_events :: "'d codec \<Rightarrow> string \<Rightarrow> 'd xvalue list \<Rightarrow> xml_event list" where
  "call_events cd name params =
     [Start ''methodCall'', Start ''methodName''] @ text_events name @ [End ''methodName'', Start ''params'']
       @ concat (map (param_events cd) params) @ [End ''params'', End ''methodCall'']"

lemma parse_item:
  assumes "sound cd v"
  shows "parse_from cd b (item_events cd v @ rest) = Some (if b then Inl (fault_from v) else Inr v)"
  using reads_backD [OF value_back [OF assms], of "Suc (length (value_events cd v @ End ''value'' # rest))" rest]
  by (simp add: item_events_def)

lemma call_renders:
  assumes "list_all (sound cd) params"
  shows "method_call cd name params = ''<?xml version='' @ CHR 0x22 # ''1.0'' @ CHR 0x22 # ''?>'' @
    concat (map render (call_events cd name params))"
proof -
  have "map (\<lambda>p. ''<param><value>'' @ encode_value cd p @ ''</value></param>'') params =
      map (\<lambda>p. concat (map render (param_events cd p))) params"
    using assms by (intro map_cong) (auto simp: list_all_iff encode_renders param_events_def item_events_def)
  from arg_cong [OF this, of concat] show ?thesis
    by (simp add: method_call_def call_events_def render_concat)
qed

text \<open>The reader's side of the escaping: the three predefined entities the encoder uses.\<close>

definition entity :: "string \<Rightarrow> (char \<times> nat) option" where
  "entity s =
     (if take 5 s = ''&amp;'' then Some (CHR ''&'', 5)
      else if take 4 s = ''&lt;'' then Some (CHR ''<'', 4)
      else if take 4 s = ''&gt;'' then Some (CHR ''>'', 4)
      else None)"

function unescape :: "string \<Rightarrow> string" where
  "unescape s =
     (case s of [] \<Rightarrow> []
      | c # cs \<Rightarrow> (case entity s of Some (e, k) \<Rightarrow> e # unescape (drop k s) | None \<Rightarrow> c # unescape cs))"
  by pat_completeness auto
termination
  by (relation "measure length") (auto simp: entity_def split: if_splits)

declare unescape.simps [simp del]

lemma unescape_step: "unescape (escape_char c @ s) = c # unescape s"
  by (subst unescape.simps) (auto simp: entity_def)

lemma unescape_escape: "unescape (escape s) = s"
proof (induction s)
  case Nil
  show ?case by (subst unescape.simps) (simp add: escape_def)
next
  case (Cons c s)
  then show ?case using unescape_step [of c "escape s"] by (simp add: escape_def del: escape_char.simps)
qed

lemma escape_no_markup: "list_all (\<lambda>c. c \<noteq> CHR ''<'' \<and> c \<noteq> CHR ''>'') (escape s)"
  by (induction s) (simp_all add: escape_def)

definition plain_codec :: "string codec" where
  "plain_codec = \<lparr>cd_show = id, cd_parse = Some, cd_encode = (\<lambda>b. if b = ''abc'' then ''YWJj'' else []),
     cd_decode = (\<lambda>t. if t = ''YWJj'' then Inr ''abc'' else Inl ''bad'')\<rparr>"

definition sample :: "string xvalue" where
  "sample = VStruct [(''name'', VStr ''a<b & c''), (''size'', VInt (-42)),
     (''files'', VArray [VStruct [], VBool True, VBytes ''abc'', VDouble ''0.5'', VStr []])]"

text \<open>Property C32. What the codec writes, it reads. For a value whose integers fit 64 bits, whose strings
  have no blanks at the ends and whose doubles and byte strings the external codecs read back, the text of
  a call is the rendering of its tags and escaped texts in order, where an escaped text holds no markup
  and unescapes to the text it was made of; and a response carrying the value, in any
  nesting of arrays and structs, is decoded to that very value, while one carrying it as a fault is
  the error made of its code and message.\<close>

theorem codec_roundtrip:
  assumes "sound cd v"
  shows "method_call cd name [v] = ''<?xml version='' @ CHR 0x22 # ''1.0'' @ CHR 0x22 # ''?>'' @
      concat (map render (call_events cd name [v])) \<and>
    list_all (\<lambda>c. c \<noteq> CHR ''<'' \<and> c \<noteq> CHR ''>'') (escape t) \<and> unescape (escape t) = t \<and>
    parse_response cd (response cd ''params'' v) = Some (Inr v) \<and>
    parse_response cd (response cd ''fault'' v) = Some (Inl (fault_from v))"
  using assms parse_item [OF assms] by (simp add: call_renders parse_response_def response_def escape_no_markup unescape_escape)

theorem codec_roundtrip_witness:
  "parse_response plain_codec (response plain_codec ''params'' sample) = Some (Inr sample) \<and>
   parse_response plain_codec (response plain_codec ''fault'' sample) = Some (Inl (Fault (-1) ''unknown fault''))"
proof -
  have "sound plain_codec sample" by code_simp
  moreover have "fault_from sample = Fault (-1) ''unknown fault''" by code_simp
  ultimately show ?thesis using codec_roundtrip [of plain_codec sample] by simp
qed

text \<open>Beyond what the codec itself writes: integers under any of the three tags read alike, and an element
  written as one self-closing \<open>value\<close> tag is dropped from an array, unlike the same element with its end tag.\<close>

lemma int_tags_alike: "t \<in> {''i4'', ''int'', ''i8''} \<Longrightarrow> simple_value cd t = Some int_value"
  by (auto simp: simple_value_def)

lemma self_closing_item_dropped:
  "parse_response plain_codec [Start ''value'', Start ''array'', Start ''data'', Empty ''value'', End ''data'', End ''array'', End ''value'']
     = Some (Inr (VArray []))"
  "parse_response plain_codec [Start ''value'', Start ''array'', Start ''data'', Start ''value'', End ''value'', End ''data'', End ''array'',
     End ''value''] = Some (Inr (VArray [VStr []]))"
  by code_simp+

end
