(* ===== verification/Tags.thy ===== *)
theory Tags
  imports Types
begin

text \<open>
  Torrent tags (\<open>crates/rtorrent/src/tags.rs\<close>): a set of names per torrent, kept by the daemon as one
  comma-separated string.
\<close>

definition tags_key :: string where "tags_key = ''tags''"

definition max_tag_len :: nat where "max_tag_len = 64"

definition clean_tag :: "string \<Rightarrow> string option" where
  "clean_tag raw =
     (let cleaned = trim (filter (\<lambda>c. c \<noteq> CHR '','') raw) in
      if cleaned = [] then None
      else let short = trim_end (take max_tag_len cleaned) in if short = [] then None else Some short)"

definition add_tag :: "string list \<Rightarrow> string \<Rightarrow> string list" where
  "add_tag out raw =
     (case clean_tag raw of
        None \<Rightarrow> out
      | Some t \<Rightarrow> if list_ex (\<lambda>existing. to_lower existing = to_lower t) out then out else out @ [t])"

definition normalise_tags :: "string list \<Rightarrow> string list" where
  "normalise_tags raws = foldl add_tag [] raws"

definition encode_tags :: "string list \<Rightarrow> string" where
  "encode_tags tags = join_with '','' tags"

definition parse_tags :: "string \<Rightarrow> string list" where
  "parse_tags raw = normalise_tags (split_on (CHR '','') raw)"

section \<open>Normal tag lists\<close>

definition tag_ok :: "string \<Rightarrow> bool" where
  "tag_ok t \<longleftrightarrow> t \<noteq> [] \<and> trim t = t \<and> CHR '','' \<notin> set t \<and> length t \<le> max_tag_len"

definition normal_tags :: "string list \<Rightarrow> bool" where
  "normal_tags ts \<longleftrightarrow> list_all tag_ok ts \<and> distinct (map to_lower ts)"

lemma clean_tag_ok: "clean_tag raw = Some t \<Longrightarrow> tag_ok t"
proof -
  assume a: "clean_tag raw = Some t"
  define c where "c = trim (filter (\<lambda>c. c \<noteq> CHR '','') raw)"
  from a have t: "t = trim_end (take max_tag_len c)" "t \<noteq> []"
    by (auto simp: clean_tag_def c_def Let_def split: if_splits)
  have "trim_start c = c" by (simp add: c_def)
  then have "trim_start t = t" unfolding t by (intro trim_start_trim_end trim_start_take)
  then have "trim t = t" by (simp add: trim_def t(1))
  moreover have "set t \<subseteq> set c"
    using set_trim_end [of "take max_tag_len c"] set_take_subset [of max_tag_len c] by (auto simp: t(1))
  moreover have "CHR '','' \<notin> set c" using set_trim [of "filter (\<lambda>c. c \<noteq> CHR '','') raw"] by (auto simp: c_def)
  moreover have "length t \<le> max_tag_len" using length_trim_end [of "take max_tag_len c"] by (simp add: t(1))
  ultimately show "tag_ok t" using t(2) by (auto simp: tag_ok_def)
qed

lemma clean_tag_id: "tag_ok t \<Longrightarrow> clean_tag t = Some t"
proof -
  assume a: "tag_ok t"
  then have "filter (\<lambda>c. c \<noteq> CHR '','') t = t" by (intro filter_True) (auto simp: tag_ok_def)
  moreover from a have "trim_end t = t" by (metis tag_ok_def trim_end_trim)
  ultimately show ?thesis using a by (simp add: clean_tag_def tag_ok_def)
qed

lemma add_tag_normal: "normal_tags out \<Longrightarrow> normal_tags (add_tag out raw)"
  by (auto simp: add_tag_def normal_tags_def list_ex_iff dest: clean_tag_ok split: option.split)

lemma normalise_fold_normal: "normal_tags out \<Longrightarrow> normal_tags (foldl add_tag out raws)"
  by (induction raws arbitrary: out) (simp_all add: add_tag_normal)

lemma normalise_normal: "normal_tags (normalise_tags raws)"
  using normalise_fold_normal [of "[]" raws] by (simp add: normalise_tags_def normal_tags_def)

lemma fold_id: "normal_tags (out @ ts) \<Longrightarrow> foldl add_tag out ts = out @ ts"
proof (induction ts arbitrary: out)
  case (Cons t ts)
  from Cons.prems have "add_tag out t = out @ [t]"
    by (simp add: add_tag_def normal_tags_def clean_tag_id list_ex_iff image_iff) metis
  with Cons show ?case by simp
qed simp

lemma normalise_id: "normal_tags ts \<Longrightarrow> normalise_tags ts = ts"
  using fold_id [of "[]" ts] by (simp add: normalise_tags_def)

lemma parse_encode_normal: "normal_tags ts \<Longrightarrow> parse_tags (encode_tags ts) = ts"
proof (cases ts)
  case Nil
  then show ?thesis by (simp add: parse_tags_def encode_tags_def normalise_tags_def add_tag_def clean_tag_def)
next
  case Cons
  assume a: "normal_tags ts"
  then have "\<forall>t \<in> set ts. CHR '','' \<notin> set t" by (auto simp: normal_tags_def list_all_iff tag_ok_def)
  with Cons have "split_on (CHR '','') (join_with '','' ts) = ts" by (intro split_join) simp_all
  with a show ?thesis by (simp add: parse_tags_def encode_tags_def normalise_id)
qed

text \<open>The first spelling of a name wins, and no name is lost.\<close>

lemma fold_keeps: "t \<in> set out \<Longrightarrow> t \<in> set (foldl add_tag out raws)"
  by (induction raws arbitrary: out) (auto simp: add_tag_def split: option.split)

lemma normalise_covers:
  assumes "raw \<in> set raws" "clean_tag raw = Some t"
  shows "\<exists>u \<in> set (normalise_tags raws). to_lower u = to_lower t"
proof -
  obtain xs ys where raws: "raws = xs @ raw # ys" using assms(1) by (auto dest: split_list)
  define out where "out = foldl add_tag [] xs"
  have "\<exists>u \<in> set (add_tag out raw). to_lower u = to_lower t"
    using assms(2) by (auto simp: add_tag_def list_ex_iff)
  then show ?thesis using fold_keeps by (fastforce simp: normalise_tags_def raws out_def)
qed

text \<open>The tag list and its wire form agree. Whatever a user types, the normalised list has no
  empty, padded, overlong or repeated name (case apart) and none with the separator; it is read back from
  its wire form as it is, normalising again changes nothing, and every name typed that has a visible
  character is in it.\<close>

theorem tags_roundtrip:
  "normal_tags (normalise_tags raws) \<and>
   parse_tags (encode_tags (normalise_tags raws)) = normalise_tags raws \<and>
   normalise_tags (normalise_tags raws) = normalise_tags raws \<and>
   list_all (\<lambda>raw. case clean_tag raw of None \<Rightarrow> True
     | Some t \<Rightarrow> list_ex (\<lambda>u. to_lower u = to_lower t) (normalise_tags raws)) raws"
  using normalise_normal [of raws] normalise_covers [of _ raws]
  by (auto simp: parse_encode_normal normalise_id list_all_iff list_ex_iff split: option.split)

end
