(* ===== verification/Client.thy ===== *)
theory Client
  imports Xmlrpc Tags Queue
begin

text \<open>
  The daemon client (\<open>RpcClient\<close>, \<open>crates/rtorrent/src/rtorrent/client.rs\<close>): every operation of the
  backend interface as the XML-RPC calls it makes and the reading of their answers. The transport is a
  parameter, \<open>call\<close>: a method and its arguments, run on the daemon's state, give a value or an error and the
  state after. The argument strings and the columns are those of the source; \<open>i64\<close> sums wrap.
\<close>

section \<open>Calls\<close>

type_synonym ('w, 'a) rpc = "'w \<Rightarrow> 'a result \<times> 'w"
type_synonym ('d, 'w) transport = "string \<Rightarrow> 'd xvalue list \<Rightarrow> ('w, 'd xvalue) rpc"
type_synonym 'd call = "string \<times> 'd xvalue list"

definition rpc_ok :: "'a \<Rightarrow> ('w, 'a) rpc" where
  "rpc_ok x w = (Inr x, w)"

definition rpc_err :: "rtorrent_error \<Rightarrow> ('w, 'a) rpc" where
  "rpc_err e w = (Inl e, w)"

definition rpc_bind :: "('w, 'a) rpc \<Rightarrow> ('a \<Rightarrow> ('w, 'b) rpc) \<Rightarrow> ('w, 'b) rpc" where
  "rpc_bind m f w = (case m w of (Inl e, w1) \<Rightarrow> (Inl e, w1) | (Inr x, w1) \<Rightarrow> f x w1)"

definition rpc_map :: "('a \<Rightarrow> 'b) \<Rightarrow> ('w, 'a) rpc \<Rightarrow> ('w, 'b) rpc" where
  "rpc_map f m = rpc_bind m (\<lambda>x. rpc_ok (f x))"

definition rpc_unit :: "('w, 'a) rpc \<Rightarrow> ('w, unit) rpc" where
  "rpc_unit m = rpc_map (\<lambda>_. ()) m"

text \<open>\<open>row.get(i).and_then(..).unwrap_or(..)\<close>, as strings, integers and flags.\<close>

definition item_at :: "'a list \<Rightarrow> nat \<Rightarrow> 'a option" where
  "item_at xs i = (if i < length xs then Some (xs ! i) else None)"

definition str_of :: "'d xvalue option \<Rightarrow> string" where
  "str_of v = (case Option.bind v xv_str of Some s \<Rightarrow> s | None \<Rightarrow> [])"

definition int_of :: "'d xvalue option \<Rightarrow> int" where
  "int_of v = (case Option.bind v as_i64 of Some n \<Rightarrow> n | None \<Rightarrow> 0)"

definition flag_of :: "'d xvalue option \<Rightarrow> bool" where
  "flag_of v = (case Option.bind v as_bool of Some b \<Rightarrow> b | None \<Rightarrow> False)"

definition rows_of :: "'d xvalue \<Rightarrow> 'd xvalue list" where
  "rows_of v = (case as_array v of Some vs \<Rightarrow> vs | None \<Rightarrow> [])"

definition ok_of :: "'a result option \<Rightarrow> 'a option" where
  "ok_of r = (case r of Some (Inr x) \<Rightarrow> Some x | _ \<Rightarrow> None)"

definition call_struct :: "'d call \<Rightarrow> 'd xvalue" where
  "call_struct c = VStruct [(''methodName'', VStr (fst c)), (''params'', VArray (snd c))]"

definition item_result :: "'d xvalue \<Rightarrow> 'd xvalue result" where
  "item_result it =
     (case Option.bind (get_member ''faultCode'' it) as_i64 of
        Some code \<Rightarrow> Inl (Fault code (str_of (get_member ''faultString'' it)))
      | None \<Rightarrow> (case as_array it of
          Some a \<Rightarrow> Inr (case a of [] \<Rightarrow> VStr [] | x # _ \<Rightarrow> x)
        | None \<Rightarrow> Inr it))"

definition multicall :: "('d, 'w) transport \<Rightarrow> 'd call list \<Rightarrow> ('w, 'd xvalue result list) rpc" where
  "multicall call calls =
     rpc_bind (call ''system.multicall'' [VArray (map call_struct calls)]) (\<lambda>resp.
       case as_array resp of
         None \<Rightarrow> rpc_err (Unexpected ''system.multicall did not return an array'')
       | Some items \<Rightarrow> rpc_ok (map item_result items))"

text \<open>\<open>for r in results { r?; }\<close>\<close>

fun first_error :: "'a result list \<Rightarrow> unit result" where
  "first_error [] = Inr ()"
| "first_error (Inl e # rs) = Inl e"
| "first_error (Inr x # rs) = first_error rs"

definition run_calls :: "('d, 'w) transport \<Rightarrow> 'd call list \<Rightarrow> ('w, unit) rpc" where
  "run_calls call calls = rpc_bind (multicall call calls) (\<lambda>rs w. (first_error rs, w))"

definition batch_hashes :: "('d, 'w) transport \<Rightarrow> string \<Rightarrow> string list \<Rightarrow> ('w, unit) rpc" where
  "batch_hashes call m hashes =
     (if hashes = [] then rpc_ok () else run_calls call (map (\<lambda>h. (m, [VStr h])) hashes))"

definition method_exists :: "('d, 'w) transport \<Rightarrow> string \<Rightarrow> 'w \<Rightarrow> bool \<times> 'w" where
  "method_exists call m w =
     (case call ''system.methodExist'' [VStr m] w of
        (Inl e, w1) \<Rightarrow> (False, w1)
      | (Inr v, w1) \<Rightarrow> (flag_of (Some v), w1))"

section \<open>Argument builders and small readers\<close>

record load_options =
  lo_directory :: string
  lo_label :: string
  lo_start :: bool
  lo_top_of_queue :: bool
  lo_unselected_indexes :: "nat list"

definition load_commands :: "load_options \<Rightarrow> string list" where
  "load_commands opts =
     (if lo_directory opts = [] then [] else [''d.directory.set='' @ lo_directory opts]) @
     (if lo_label opts = [] then [] else [''d.custom1.set='' @ lo_label opts]) @
     (if lo_top_of_queue opts then [''d.priority.set=3''] else [])"

definition tracker_kind :: "int \<Rightarrow> string" where
  "tracker_kind t = (if t = 1 then ''http'' else if t = 2 then ''udp'' else if t = 3 then ''dht'' else [])"

definition tracker_status :: "bool \<Rightarrow> bool \<Rightarrow> int \<Rightarrow> string" where
  "tracker_status enabled usable failed =
     (if \<not> enabled then ''disabled''
      else if failed > 0 then ''error''
      else if usable then ''working'' else ''error'')"

text \<open>\<open>split("://").nth(1)\<close>: the text between the first and the second separator.\<close>

fun before_first :: "string \<Rightarrow> string \<Rightarrow> string" where
  "before_first m [] = []"
| "before_first m (c # cs) = (if prefix m (c # cs) then [] else c # before_first m cs)"

definition after_scheme :: "string \<Rightarrow> string" where
  "after_scheme url = (case after_first ''://'' url of Some rest \<Rightarrow> before_first ''://'' rest | None \<Rightarrow> url)"

definition host_of :: "string \<Rightarrow> string" where
  "host_of url = takeWhile (\<lambda>c. c \<noteq> CHR ''/'' \<and> c \<noteq> CHR '':'') (after_scheme url)"

definition tracker_target :: "string \<Rightarrow> nat \<Rightarrow> string" where
  "tracker_target h index = h @ '':t'' @ show_nat index"

definition peer_target :: "string \<Rightarrow> string \<Rightarrow> string" where
  "peer_target h peer_id = h @ '':p'' @ peer_id"

definition file_target :: "string \<Rightarrow> nat \<Rightarrow> string" where
  "file_target h index = h @ '':f'' @ show_nat index"

definition file_progress :: "int \<Rightarrow> int \<Rightarrow> f64" where
  "file_progress completed_chunks size_chunks =
     (if size_chunks \<le> 0 then 100
      else f64_clamp (f64_mul (f64_div (f64_of_int (max completed_chunks 0)) (f64_of_int size_chunks)) 100) 0 100)"

fun value_as_string :: "'d codec \<Rightarrow> 'd xvalue \<Rightarrow> string option" where
  "value_as_string cd (VInt n) = Some (show_int n)"
| "value_as_string cd (VBool b) = Some (if b then ''1'' else ''0'')"
| "value_as_string cd (VDouble d) = Some (cd_show cd d)"
| "value_as_string cd (VStr s) = Some s"
| "value_as_string cd (VBytes b) = Some b"
| "value_as_string cd (VArray _) = None"
| "value_as_string cd (VStruct _) = None"

definition tracker_insert_call :: "string \<Rightarrow> int \<Rightarrow> string \<Rightarrow> 'd call" where
  "tracker_insert_call h tier url = (''d.tracker.insert'', [VStr h, VInt tier, VStr url])"

definition tracker_enabled_call :: "string \<Rightarrow> nat \<Rightarrow> bool \<Rightarrow> 'd call" where
  "tracker_enabled_call h index enabled =
     (''t.is_enabled.set'', [VStr (tracker_target h index), VInt (if enabled then 1 else 0)])"

definition tracker_remove_call :: "string \<Rightarrow> nat \<Rightarrow> 'd call" where
  "tracker_remove_call h index = (''d.tracker.remove'', [VStr h, VInt (int index)])"

definition tracker_announce_call :: "string \<Rightarrow> 'd call" where
  "tracker_announce_call h = (''d.tracker_announce'', [VStr h])"

definition named_throttle_calls :: "string \<Rightarrow> int \<Rightarrow> int \<Rightarrow> 'd call list" where
  "named_throttle_calls name down_kb up_kb =
     [(''throttle.down'', [VStr name, VStr (show_int down_kb)]), (''throttle.up'', [VStr name, VStr (show_int up_kb)])]"

definition throttle_assignment_calls :: "string list \<Rightarrow> string option \<Rightarrow> 'd call list" where
  "throttle_assignment_calls hashes name =
     map (\<lambda>h. (''d.throttle_name.set'', [VStr h, VStr (case name of None \<Rightarrow> [] | Some n \<Rightarrow> n)])) hashes"

section \<open>Reading\<close>

definition list_commands :: "string list" where
  "list_commands =
     [''d.hash='', ''d.name='', ''d.size_bytes='', ''d.bytes_done='', ''d.complete='', ''d.is_active='',
      ''d.is_open='', ''d.hashing='', ''d.message='', ''d.down.rate='', ''d.up.rate='', ''d.ratio='',
      ''d.custom1='', ''d.directory='', ''d.base_path='', ''d.peers_complete='', ''d.peers_accounted='',
      ''d.peers_connected='', ''d.priority='', ''d.is_private='', ''d.throttle_name='',
      ''d.timestamp.finished='', ''d.chunks_hashed='', ''d.size_chunks='', ''d.timestamp.started='',
      ''d.peers_max='', ''d.peers_min='', ''d.uploads_max='', ''d.connection_current='',
      ''d.custom=added_by'', ''d.custom=source_path'', ''d.custom=added_at'', ''d.custom=tags'',
      ''d.custom=final_dir'', ''d.custom=force_start'', ''d.custom=queue_pos'', ''d.custom=throttle_rule'']"

definition row_to_raw :: "'d xvalue list \<Rightarrow> raw_torrent" where
  "row_to_raw row =
     (let s = \<lambda>i. str_of (item_at row i); n = \<lambda>i. int_of (item_at row i); b = \<lambda>i. flag_of (item_at row i) in
      \<lparr>raw_hash = to_upper (s 0), raw_name = s 1, raw_size_bytes = n 2, raw_bytes_done = n 3, raw_complete = b 4,
       raw_is_active = b 5, raw_is_open = b 6, raw_hashing = (n 7 > 0), raw_message = s 8, raw_down_rate = n 9,
       raw_up_rate = n 10, raw_ratio_permille = n 11, raw_label = s 12, raw_directory = s 13, raw_base_path = s 14,
       raw_peers_complete = n 15, raw_peers_accounted = n 16, raw_peers_connected = n 17, raw_priority = n 18,
       raw_is_private = b 19, raw_throttle_name = s 20, raw_finished_at = n 21, raw_chunks_hashed = n 22,
       raw_size_chunks = n 23, raw_started_at = n 24, raw_peers_max = n 25, raw_peers_min = n 26,
       raw_uploads_max = n 27, raw_connection_current = s 28, raw_added_by = s 29, raw_source_path = s 30,
       raw_added_at = n 31, raw_tags = parse_tags (s 32), raw_final_dir = s 33,
       raw_force_start = (trim (s 34) = ''1''), raw_queue_pos = parse_pos (s 35), raw_throttle_rule = s 36\<rparr>)"

definition rpc_client_version :: "('d, 'w) transport \<Rightarrow> ('w, string) rpc" where
  "rpc_client_version call = rpc_map (\<lambda>v. str_of (Some v)) (call ''system.client_version'' [])"

definition rpc_list_snapshot :: "('d, 'w) transport \<Rightarrow> ('w, raw_torrent list) rpc" where
  "rpc_list_snapshot call =
     rpc_bind (call ''d.multicall2'' ([VStr [], VStr ''main''] @ map VStr list_commands)) (\<lambda>resp.
       case as_array resp of
         None \<Rightarrow> rpc_err (Unexpected ''d.multicall2 did not return an array'')
       | Some rows \<Rightarrow> rpc_ok (map row_to_raw (List.map_filter as_array rows)))"

definition rpc_global_stats :: "('d, 'w) transport \<Rightarrow> ('w, raw_global) rpc" where
  "rpc_global_stats call =
     rpc_bind (multicall call [(''throttle.global_down.rate'', []), (''throttle.global_down.max_rate'', []),
         (''throttle.global_up.rate'', []), (''throttle.global_up.max_rate'', [])]) (\<lambda>rs w.
       let val = \<lambda>i. int_of (ok_of (item_at rs i));
           (dht, w1) = call ''dht.statistics'' [] w;
           nodes = (case dht of Inl e \<Rightarrow> 0
             | Inr v \<Rightarrow> int_of (case get_member ''nodes'' v of Some x \<Rightarrow> Some x | None \<Rightarrow> get_member ''active'' v))
       in (Inr \<lparr>rg_down_rate = val 0, rg_up_rate = val 2, rg_down_rate_limit = val 1, rg_up_rate_limit = val 3,
                rg_dht_nodes = nodes\<rparr>, w1))"

definition enabled_row :: "'d xvalue list \<Rightarrow> bool" where
  "enabled_row row = flag_of (item_at row 1)"

definition rpc_primary_tracker :: "('d, 'w) transport \<Rightarrow> string \<Rightarrow> ('w, string) rpc" where
  "rpc_primary_tracker call h =
     rpc_map (\<lambda>resp.
         let rows = rows_of resp;
             row = (case find enabled_row (List.map_filter as_array rows) of
                      Some r \<Rightarrow> Some r
                    | None \<Rightarrow> Option.bind (item_at rows 0) as_array)
         in host_of (str_of (Option.bind row (\<lambda>r. item_at r 0))))
       (call ''t.multicall'' [VStr h, VStr [], VStr ''t.url='', VStr ''t.is_enabled=''])"

record tracker_row =
  tr_index :: nat
  tr_url :: string
  tr_enabled :: bool
  tr_status :: string
  tr_seeds :: int
  tr_leeches :: int
  tr_kind :: string
  tr_next_announce :: int
  tr_last_announce :: int

definition tracker_row_of :: "nat \<times> 'd xvalue list \<Rightarrow> tracker_row" where
  "tracker_row_of ir =
     (let r = snd ir; enabled = flag_of (item_at r 1) in
      \<lparr>tr_index = fst ir, tr_url = str_of (item_at r 0), tr_enabled = enabled,
       tr_status = tracker_status enabled (flag_of (item_at r 2)) (int_of (item_at r 5)),
       tr_seeds = int_of (item_at r 3), tr_leeches = int_of (item_at r 4), tr_kind = tracker_kind (int_of (item_at r 7)),
       tr_next_announce = int_of (item_at r 8), tr_last_announce = int_of (item_at r 9)\<rparr>)"

definition rpc_trackers :: "('d, 'w) transport \<Rightarrow> string \<Rightarrow> ('w, tracker_row list) rpc" where
  "rpc_trackers call h =
     rpc_map (\<lambda>resp. let rs = List.map_filter as_array (rows_of resp) in map tracker_row_of (zip [0..<length rs] rs))
       (call ''t.multicall'' (VStr h # VStr [] # map VStr [''t.url='', ''t.is_enabled='', ''t.is_usable='',
          ''t.scrape_complete='', ''t.scrape_incomplete='', ''t.failed_counter='', ''t.success_counter='', ''t.type='',
          ''t.activity_time_next='', ''t.success_time_last='']))"

record peer_row =
  pr_id :: string
  pr_address :: string
  pr_client :: string
  pr_progress :: f64
  pr_down_rate :: int
  pr_up_rate :: int
  pr_flags :: string

definition peer_row_of :: "'d xvalue list \<Rightarrow> peer_row" where
  "peer_row_of r =
     \<lparr>pr_id = str_of (item_at r 0), pr_address = str_of (item_at r 1), pr_client = str_of (item_at r 2),
      pr_progress = f64_of_int (int_of (item_at r 3)), pr_down_rate = int_of (item_at r 4), pr_up_rate = int_of (item_at r 5),
      pr_flags = map snd (filter (\<lambda>(i, ch). flag_of (item_at r i))
        [(6, CHR ''E''), (7, CHR ''I''), (8, CHR ''O''), (9, CHR ''P''), (10, CHR ''U'')])\<rparr>"

definition rpc_peers :: "('d, 'w) transport \<Rightarrow> string \<Rightarrow> ('w, peer_row list) rpc" where
  "rpc_peers call h =
     rpc_map (\<lambda>resp. map peer_row_of (List.map_filter as_array (rows_of resp)))
       (call ''p.multicall'' (VStr h # VStr [] # map VStr [''p.id='', ''p.address='', ''p.client_version='',
          ''p.completed_percent='', ''p.down_rate='', ''p.up_rate='', ''p.is_encrypted='', ''p.is_incoming='',
          ''p.is_obfuscated='', ''p.is_preferred='', ''p.is_unwanted='']))"

record file_node =
  fn_path :: string
  fn_size :: int
  fn_priority :: int
  fn_progress :: f64
  fn_is_dir :: bool

definition file_node_of :: "'d xvalue list \<Rightarrow> file_node" where
  "file_node_of r =
     \<lparr>fn_path = str_of (item_at r 0), fn_size = int_of (item_at r 1),
      fn_priority = (case Option.bind (item_at r 2) as_i64 of Some n \<Rightarrow> n | None \<Rightarrow> 1),
      fn_progress = file_progress (int_of (item_at r 3)) (int_of (item_at r 4)), fn_is_dir = False\<rparr>"

definition rpc_files :: "('d, 'w) transport \<Rightarrow> string \<Rightarrow> ('w, file_node list) rpc" where
  "rpc_files call h =
     rpc_map (\<lambda>resp. map file_node_of (List.map_filter as_array (rows_of resp)))
       (call ''f.multicall'' (VStr h # VStr [] # map VStr [''f.path='', ''f.size_bytes='', ''f.priority='',
          ''f.completed_chunks='', ''f.size_chunks='']))"

record piece_info =
  pi_size_chunks :: int
  pi_completed_chunks :: int
  pi_chunk_size :: int
  pi_bitfield :: string
  pi_availability :: "string option"

definition rpc_pieces :: "('d, 'w) transport \<Rightarrow> string \<Rightarrow> ('w, piece_info) rpc" where
  "rpc_pieces call h =
     rpc_map (\<lambda>rs.
         let num = \<lambda>i. int_of (ok_of (item_at rs i));
             seen = Option.bind (ok_of (item_at rs 4)) xv_str
         in \<lparr>pi_size_chunks = num 0, pi_completed_chunks = num 1, pi_chunk_size = num 2,
             pi_bitfield = str_of (ok_of (item_at rs 3)),
             pi_availability = (case seen of None \<Rightarrow> None
               | Some s \<Rightarrow> if s = [] \<or> list_all (\<lambda>c. c = CHR ''0'') s then None else Some s)\<rparr>)
       (multicall call (map (\<lambda>m. (m, [VStr h])) [''d.size_chunks'', ''d.completed_chunks'', ''d.chunk_size'',
          ''d.bitfield'', ''d.chunks_seen'']))"

section \<open>Acting\<close>

definition rpc_set_tracker_enabled :: "('d, 'w) transport \<Rightarrow> string \<Rightarrow> nat \<Rightarrow> bool \<Rightarrow> ('w, unit) rpc" where
  "rpc_set_tracker_enabled call h index enabled = run_calls call [tracker_enabled_call h index enabled]"

definition rpc_add_tracker :: "('d, 'w) transport \<Rightarrow> string \<Rightarrow> string \<Rightarrow> ('w, unit) rpc" where
  "rpc_add_tracker call h url =
     rpc_bind (call ''d.tracker_size'' [VStr h]) (\<lambda>v.
       run_calls call [tracker_insert_call h (max 0 (min 32 (int_of (Some v)))) url])"

definition rpc_remove_tracker :: "('d, 'w) transport \<Rightarrow> string \<Rightarrow> nat \<Rightarrow> ('w, unit) rpc" where
  "rpc_remove_tracker call h index w =
     (let (exists, w1) = method_exists call ''d.tracker.remove'' w in
      if exists
      then (case run_calls call [tracker_remove_call h index] w1 of
              (Inr u, w2) \<Rightarrow> (Inr u, w2)
            | (Inl e, w2) \<Rightarrow> rpc_set_tracker_enabled call h index False w2)
      else rpc_set_tracker_enabled call h index False w1)"

definition rpc_force_reannounce :: "('d, 'w) transport \<Rightarrow> string list \<Rightarrow> ('w, unit) rpc" where
  "rpc_force_reannounce call hashes =
     (if hashes = [] then rpc_ok () else run_calls call (map tracker_announce_call hashes))"

definition rpc_ban_peer :: "('d, 'w) transport \<Rightarrow> string \<Rightarrow> string \<Rightarrow> ('w, unit) rpc" where
  "rpc_ban_peer call h peer_id =
     run_calls call [(''p.banned.set'', [VStr (peer_target h peer_id), VInt 1]),
       (''p.disconnect'', [VStr (peer_target h peer_id)])]"

definition rpc_snub_peer :: "('d, 'w) transport \<Rightarrow> string \<Rightarrow> string \<Rightarrow> ('w, unit) rpc" where
  "rpc_snub_peer call h peer_id = rpc_unit (call ''p.snubbed.set'' [VStr (peer_target h peer_id), VInt 1])"

definition rpc_disconnect_peer :: "('d, 'w) transport \<Rightarrow> string \<Rightarrow> string \<Rightarrow> ('w, unit) rpc" where
  "rpc_disconnect_peer call h peer_id = rpc_unit (call ''p.disconnect'' [VStr (peer_target h peer_id)])"

definition rpc_start :: "('d, 'w) transport \<Rightarrow> string list \<Rightarrow> ('w, unit) rpc" where
  "rpc_start call hashes = batch_hashes call ''d.start'' hashes"

definition rpc_stop :: "('d, 'w) transport \<Rightarrow> string list \<Rightarrow> ('w, unit) rpc" where
  "rpc_stop call hashes = batch_hashes call ''d.stop'' hashes"

definition rpc_pause :: "('d, 'w) transport \<Rightarrow> string list \<Rightarrow> ('w, unit) rpc" where
  "rpc_pause call hashes = batch_hashes call ''d.pause'' hashes"

definition rpc_recheck :: "('d, 'w) transport \<Rightarrow> string list \<Rightarrow> ('w, unit) rpc" where
  "rpc_recheck call hashes = batch_hashes call ''d.check_hash'' hashes"

definition rpc_erase :: "('d, 'w) transport \<Rightarrow> string list \<Rightarrow> ('w, unit) rpc" where
  "rpc_erase call hashes = batch_hashes call ''d.erase'' hashes"

definition rpc_load_raw :: "('d, 'w) transport \<Rightarrow> string \<Rightarrow> load_options \<Rightarrow> ('w, unit) rpc" where
  "rpc_load_raw call bytes opts =
     rpc_unit (call (if lo_start opts then ''load.raw_start'' else ''load.raw'')
       ([VStr [], VBytes bytes] @ map VStr (load_commands opts)))"

definition rpc_load_magnet :: "('d, 'w) transport \<Rightarrow> string \<Rightarrow> load_options \<Rightarrow> ('w, unit) rpc" where
  "rpc_load_magnet call uri opts =
     rpc_unit (call (if lo_start opts then ''load.start'' else ''load.normal'')
       ([VStr [], VStr uri] @ map VStr (load_commands opts)))"

definition rpc_set_label :: "('d, 'w) transport \<Rightarrow> string list \<Rightarrow> string \<Rightarrow> ('w, unit) rpc" where
  "rpc_set_label call hashes label = run_calls call (map (\<lambda>h. (''d.custom1.set'', [VStr h, VStr label])) hashes)"

definition rpc_set_tags :: "('d, 'w) transport \<Rightarrow> string list \<Rightarrow> string list \<Rightarrow> ('w, unit) rpc" where
  "rpc_set_tags call hashes tags =
     (let encoded = encode_tags (normalise_tags tags) in
      run_calls call (map (\<lambda>h. (''d.custom.set'', [VStr h, VStr tags_key, VStr encoded])) hashes))"

definition rpc_set_directory :: "('d, 'w) transport \<Rightarrow> string \<Rightarrow> string \<Rightarrow> ('w, unit) rpc" where
  "rpc_set_directory call h path = rpc_unit (call ''d.directory.set'' [VStr h, VStr path])"

definition rpc_free_diskspace :: "('d, 'w) transport \<Rightarrow> string \<Rightarrow> ('w, int option) rpc" where
  "rpc_free_diskspace call h =
     rpc_map (\<lambda>v. case v of VInt free \<Rightarrow> Some free | VStr raw \<Rightarrow> parse_i64 (trim raw) | _ \<Rightarrow> None)
       (call ''d.free_diskspace'' [VStr h])"

definition rpc_set_priority :: "('d, 'w) transport \<Rightarrow> string \<Rightarrow> int \<Rightarrow> ('w, unit) rpc" where
  "rpc_set_priority call h priority = rpc_unit (call ''d.priority.set'' [VStr h, VInt priority])"

definition rpc_set_file_priority :: "('d, 'w) transport \<Rightarrow> string \<Rightarrow> nat \<Rightarrow> int \<Rightarrow> ('w, unit) rpc" where
  "rpc_set_file_priority call h index priority =
     run_calls call [(''f.priority.set'', [VStr (file_target h index), VInt priority]), (''d.update_priorities'', [VStr h])]"

definition rpc_set_connection_limits :: "('d, 'w) transport \<Rightarrow> string \<Rightarrow> int \<Rightarrow> int \<Rightarrow> int \<Rightarrow> ('w, unit) rpc" where
  "rpc_set_connection_limits call h peers_max peers_min uploads_max =
     run_calls call [(''d.peers_max.set'', [VStr h, VInt peers_max]), (''d.peers_min.set'', [VStr h, VInt peers_min]),
       (''d.uploads_max.set'', [VStr h, VInt uploads_max])]"

definition rpc_set_super_seeding :: "('d, 'w) transport \<Rightarrow> string \<Rightarrow> bool \<Rightarrow> ('w, unit) rpc" where
  "rpc_set_super_seeding call h enabled =
     rpc_unit (call ''d.connection_current.set'' [VStr h, VStr (if enabled then ''initial_seed'' else ''seed'')])"

definition rpc_set_custom_metadata :: "('d, 'w) transport \<Rightarrow> string \<Rightarrow> (string \<times> string) list \<Rightarrow> ('w, unit) rpc" where
  "rpc_set_custom_metadata call h vals =
     run_calls call (map (\<lambda>(k, v). (''d.custom.set'', [VStr h, VStr k, VStr v])) vals)"

definition rpc_base_path :: "('d, 'w) transport \<Rightarrow> string \<Rightarrow> ('w, string) rpc" where
  "rpc_base_path call h = rpc_map (\<lambda>v. str_of (Some v)) (call ''d.base_path'' [VStr h])"

definition rpc_define_named_throttle :: "('d, 'w) transport \<Rightarrow> string \<Rightarrow> int \<Rightarrow> int \<Rightarrow> ('w, unit) rpc" where
  "rpc_define_named_throttle call name down_kb up_kb = run_calls call (named_throttle_calls name down_kb up_kb)"

definition rpc_assign_throttle :: "('d, 'w) transport \<Rightarrow> string list \<Rightarrow> string option \<Rightarrow> ('w, unit) rpc" where
  "rpc_assign_throttle call hashes name = run_calls call (throttle_assignment_calls hashes name)"

definition rpc_torrent_throttle_name :: "('d, 'w) transport \<Rightarrow> string \<Rightarrow> ('w, string) rpc" where
  "rpc_torrent_throttle_name call h = rpc_map (\<lambda>v. str_of (Some v)) (call ''d.throttle_name'' [VStr h])"

definition rpc_set_port_range :: "('d, 'w) transport \<Rightarrow> string \<Rightarrow> ('w, unit) rpc" where
  "rpc_set_port_range call ports w =
     (let args = [VStr [], VStr ports] in
      case call ''network.listen.port.range.set'' args w of
        (Inr _, w1) \<Rightarrow> (Inr (), w1)
      | (Inl (Fault c m), w1) \<Rightarrow>
          (case call ''network.port_range.set'' args w1 of
             (Inr _, w2) \<Rightarrow> (Inr (), w2)
           | (Inl _, w2) \<Rightarrow> (Inl (Fault c m), w2))
      | (Inl e, w1) \<Rightarrow> (Inl e, w1))"

definition count_ok :: "'a result list \<Rightarrow> nat" where
  "count_ok rs = length (filter (\<lambda>r. case r of Inr _ \<Rightarrow> True | Inl _ \<Rightarrow> False) rs)"

definition rpc_apply_config :: "('d, 'w) transport \<Rightarrow> (string \<times> int) list \<Rightarrow> ('w, nat) rpc" where
  "rpc_apply_config call directives =
     (if directives = [] then rpc_ok 0
      else rpc_map count_ok (multicall call (map (\<lambda>(m, v). (m, [VStr [], VInt v])) directives)))"

definition rpc_apply_config_str :: "('d, 'w) transport \<Rightarrow> (string \<times> string) list \<Rightarrow> ('w, nat) rpc" where
  "rpc_apply_config_str call directives =
     (if directives = [] then rpc_ok 0
      else rpc_map count_ok (multicall call (map (\<lambda>(m, v). (m, [VStr [], VStr v])) directives)))"

definition rpc_config_get :: "'d codec \<Rightarrow> ('d, 'w) transport \<Rightarrow> string list \<Rightarrow> ('w, string option list) rpc" where
  "rpc_config_get cd call keys =
     (if keys = [] then rpc_ok []
      else rpc_map (map (\<lambda>r. Option.bind (ok_of (Some r)) (value_as_string cd)))
             (multicall call (map (\<lambda>k. (k, [])) keys)))"

definition config_argument :: "string \<Rightarrow> 'd xvalue" where
  "config_argument value = (case parse_i64 value of Some n \<Rightarrow> VInt n | None \<Rightarrow> VStr value)"

definition rpc_config_set :: "('d, 'w) transport \<Rightarrow> string \<Rightarrow> string \<Rightarrow> ('w, unit) rpc" where
  "rpc_config_set call key value =
     (if key = ''network.port_range'' \<or> key = ''network.listen.port.range'' then rpc_set_port_range call value
      else rpc_unit (call (key @ ''.set'') [VStr [], config_argument value]))"

definition rpc_set_dht :: "('d, 'w) transport \<Rightarrow> bool \<Rightarrow> ('w, unit) rpc" where
  "rpc_set_dht call enabled =
     rpc_unit (call ''dht.mode.set'' [VStr [], VStr (if enabled then ''auto'' else ''disable'')])"

record raw_stats =
  rs_session_down :: int
  rs_session_up :: int
  rs_connected_peers :: int
  rs_session_waste :: int
  rs_buffer_size :: "int option"
  rs_cache_hit_pct :: "f64 option"
  rs_cache_overload_pct :: "f64 option"
  rs_queued_io :: "int option"

text \<open>\<open>i64\<close> addition of a release build: modulo 2^64.\<close>

definition add_i64 :: "int \<Rightarrow> int \<Rightarrow> int" where
  "add_i64 a b = (a + b - i64_min) mod 2 ^ 64 + i64_min"

definition cache_hit_pct :: "int \<Rightarrow> int \<Rightarrow> f64 option" where
  "cache_hit_pct preloaded not_preloaded =
     (if add_i64 preloaded not_preloaded > 0
      then Some (f64_mul (f64_div (f64_of_int preloaded) (f64_of_int (add_i64 preloaded not_preloaded))) 100)
      else None)"

definition rpc_statistics :: "('d, 'w) transport \<Rightarrow> ('w, raw_stats) rpc" where
  "rpc_statistics call =
     rpc_bind (multicall call [(''throttle.global_down.total'', []), (''throttle.global_up.total'', []),
         (''pieces.memory.current'', []), (''pieces.stats_preloaded'', []), (''pieces.stats_not_preloaded'', []),
         (''pieces.sync.queue_size'', [])]) (\<lambda>rs w.
       let val = \<lambda>i. Option.bind (ok_of (item_at rs i)) as_i64;
           num = \<lambda>i. int_of (ok_of (item_at rs i));
           (resp, w1) = call ''d.multicall2'' [VStr [], VStr ''main'', VStr ''d.peers_connected='', VStr ''d.skip.total=''] w;
           rows = (case resp of Inl e \<Rightarrow> [] | Inr v \<Rightarrow> List.map_filter as_array (rows_of v))
       in (Inr \<lparr>rs_session_down = num 0, rs_session_up = num 1,
                rs_connected_peers = foldl (\<lambda>a r. add_i64 a (int_of (item_at r 0))) 0 rows,
                rs_session_waste = foldl (\<lambda>a r. add_i64 a (int_of (item_at r 1))) 0 rows,
                rs_buffer_size = val 2, rs_cache_hit_pct = cache_hit_pct (num 3) (num 4),
                rs_cache_overload_pct = None, rs_queued_io = val 5\<rparr>, w1))"

definition rpc_set_throttles :: "('d, 'w) transport \<Rightarrow> int \<Rightarrow> int \<Rightarrow> ('w, unit) rpc" where
  "rpc_set_throttles call down_kb up_kb =
     run_calls call [(''throttle.global_down.max_rate.set_kb'', [VStr [], VInt down_kb]),
       (''throttle.global_up.max_rate.set_kb'', [VStr [], VInt up_kb])]"

definition view_hashes :: "'d xvalue result \<Rightarrow> string list" where
  "view_hashes r =
     (case r of Inl e \<Rightarrow> []
      | Inr v \<Rightarrow> map to_upper (List.map_filter (\<lambda>row. Option.bind (item_at row 0) xv_str) (List.map_filter as_array (rows_of v))))"

definition rpc_views :: "('d, 'w) transport \<Rightarrow> ('w, (string \<times> string list) list) rpc" where
  "rpc_views call =
     rpc_bind (call ''view.list'' []) (\<lambda>v.
       let names = filter (\<lambda>n. n \<noteq> ''main'' \<and> n \<noteq> ''default'') (List.map_filter xv_str (rows_of v)) in
       if names = [] then rpc_ok []
       else rpc_map (\<lambda>rs. zip names (map view_hashes rs))
              (multicall call (map (\<lambda>n. (''d.multicall2'', [VStr [], VStr n, VStr ''d.hash=''])) names)))"

record daemon_health =
  dh_client_version :: string
  dh_api_version :: string
  dh_session_path :: string
  dh_memory_max :: int
  dh_memory_current :: int
  dh_open_sockets :: int
  dh_max_open_sockets :: int
  dh_max_open_files :: int
  dh_http_max_open :: int

definition version_text :: "'d xvalue option \<Rightarrow> string" where
  "version_text v = (case Option.bind v as_i64 of Some n \<Rightarrow> show_int n | None \<Rightarrow> str_of v)"

definition rpc_daemon_health :: "('d, 'w) transport \<Rightarrow> ('w, daemon_health) rpc" where
  "rpc_daemon_health call =
     rpc_map (\<lambda>rs.
         let val = \<lambda>i. ok_of (item_at rs i); s = \<lambda>i. str_of (val i); n = \<lambda>i. int_of (val i)
         in \<lparr>dh_client_version = s 0, dh_api_version = version_text (val 1), dh_session_path = s 2, dh_memory_max = n 3,
             dh_memory_current = n 4, dh_open_sockets = n 5, dh_max_open_sockets = n 6, dh_max_open_files = n 7,
             dh_http_max_open = n 8\<rparr>)
       (multicall call (map (\<lambda>m. (m, [])) [''system.client_version'', ''system.api_version'', ''session.path'',
          ''pieces.memory.max'', ''pieces.memory.current'', ''network.open_sockets'', ''network.max_open_sockets'',
          ''network.max_open_files'', ''network.http.max_open'']))"

definition rpc_save_session :: "('d, 'w) transport \<Rightarrow> ('w, unit) rpc" where
  "rpc_save_session call = rpc_unit (call ''session.save'' [])"

definition rpc_shutdown :: "('d, 'w) transport \<Rightarrow> ('w, unit) rpc" where
  "rpc_shutdown call = rpc_unit (call ''system.shutdown.normal'' [])"

section \<open>A daemon that serves calls\<close>

text \<open>\<open>ex\<close> is what the daemon does with one method: a fault or a value, and its state after. \<open>serves\<close> is the
  XML-RPC contract on top of it: a single call is that method, and \<open>system.multicall\<close> runs the listed calls
  in order, a faulting one included, and answers with one wrapped value or fault struct per call.\<close>

type_synonym ('d, 'w) exec = "string \<Rightarrow> 'd xvalue list \<Rightarrow> 'w \<Rightarrow> ((int \<times> string) + 'd xvalue) \<times> 'w"

fun fault_result :: "(int \<times> string) + 'd xvalue \<Rightarrow> 'd xvalue result" where
  "fault_result (Inl (c, m)) = Inl (Fault c m)"
| "fault_result (Inr v) = Inr v"

fun wrap :: "(int \<times> string) + 'd xvalue \<Rightarrow> 'd xvalue" where
  "wrap (Inl (c, m)) = VStruct [(''faultCode'', VInt c), (''faultString'', VStr m)]"
| "wrap (Inr v) = VArray [v]"

fun run_each :: "('d, 'w) exec \<Rightarrow> 'd call list \<Rightarrow> 'w \<Rightarrow> ((int \<times> string) + 'd xvalue) list \<times> 'w" where
  "run_each ex [] w = ([], w)"
| "run_each ex (c # cs) w =
     (let (r, w1) = ex (fst c) (snd c) w; (rs, w2) = run_each ex cs w1 in (r # rs, w2))"

definition serves :: "('d, 'w) exec \<Rightarrow> ('d, 'w) transport \<Rightarrow> bool" where
  "serves ex call \<longleftrightarrow>
     (\<forall>m ps w. m \<noteq> ''system.multicall'' \<longrightarrow> call m ps w = map_prod fault_result id (ex m ps w)) \<and>
     (\<forall>calls w. call ''system.multicall'' [VArray (map call_struct calls)] w =
        (Inr (VArray (map wrap (fst (run_each ex calls w)))), snd (run_each ex calls w)))"

definition batch_run :: "('d, 'w) exec \<Rightarrow> 'd call list \<Rightarrow> ('w, unit) rpc" where
  "batch_run ex calls w = (first_error (map fault_result (fst (run_each ex calls w))), snd (run_each ex calls w))"

lemma item_result_wrap [simp]: "item_result (wrap r) = fault_result r"
  by (cases r) (auto simp: item_result_def str_of_def)

lemma multicall_serves:
  "serves ex call \<Longrightarrow> multicall call calls w = (Inr (map fault_result (fst (run_each ex calls w))), snd (run_each ex calls w))"
  by (simp add: multicall_def serves_def rpc_bind_def rpc_ok_def)

lemma run_calls_serves: "serves ex call \<Longrightarrow> run_calls call calls w = batch_run ex calls w"
  by (simp add: run_calls_def rpc_bind_def multicall_serves batch_run_def)

lemma batch_hashes_serves: "serves ex call \<Longrightarrow> batch_hashes call m hs w = batch_run ex (map (\<lambda>h. (m, [VStr h])) hs) w"
  by (simp add: batch_hashes_def run_calls_serves rpc_ok_def batch_run_def)

lemma reannounce_serves:
  "serves ex call \<Longrightarrow> rpc_force_reannounce call hs w = batch_run ex (map tracker_announce_call hs) w"
  by (simp add: rpc_force_reannounce_def run_calls_serves rpc_ok_def batch_run_def)

lemma run_each_append:
  "run_each ex (as @ bs) w = (let (rs, w1) = run_each ex as w; (ss, w2) = run_each ex bs w1 in (rs @ ss, w2))"
  by (induction as arbitrary: w) (simp_all add: Let_def case_prod_unfold)

lemma length_run_each [simp]: "length (fst (run_each ex calls w)) = length calls"
  by (induction calls arbitrary: w) (simp_all add: Let_def case_prod_unfold)

lemma first_error_ok: "first_error rs = Inr () \<longleftrightarrow> list_all (\<lambda>r. case r of Inr _ \<Rightarrow> True | Inl _ \<Rightarrow> False) rs"
  by (induction rs rule: first_error.induct) simp_all

lemma first_error_at:
  "first_error rs = Inl e \<Longrightarrow> \<exists>i < length rs. rs ! i = Inl e \<and> (\<forall>j < i. \<exists>x. rs ! j = Inr x)"
proof (induction rs rule: first_error.induct)
  case (3 x rs)
  then obtain i where i: "i < length rs" "rs ! i = Inl e" "\<forall>j < i. \<exists>x. rs ! j = Inr x" by auto
  have "\<exists>y. (Inr x # rs) ! j = Inr y" if "j < Suc i" for j
    using that i(3) by (cases j) auto
  with i show ?case by (intro exI [of _ "Suc i"]) auto
qed auto

lemma faults_ok:
  "list_all (\<lambda>r. case r of Inr _ \<Rightarrow> True | Inl _ \<Rightarrow> False) (map fault_result rs) =
    list_all (\<lambda>r. case r of Inr _ \<Rightarrow> True | Inl _ \<Rightarrow> False) rs"
proof (induction rs)
  case (Cons r rs)
  then show ?case by (cases r) auto
qed simp

lemma batch_run_ok:
  "fst (batch_run ex calls w) = Inr () \<longleftrightarrow>
     list_all (\<lambda>r. case r of Inr _ \<Rightarrow> True | Inl _ \<Rightarrow> False) (fst (run_each ex calls w))"
  by (simp only: batch_run_def fst_conv first_error_ok faults_ok)

lemma batch_run_append: "snd (batch_run ex (calls @ later) w) = snd (batch_run ex later (snd (batch_run ex calls w)))"
  by (simp add: batch_run_def run_each_append Let_def case_prod_unfold)

text \<open>A reference daemon meets the contract, whatever its methods do.\<close>

fun call_of_struct :: "'d xvalue \<Rightarrow> 'd call" where
  "call_of_struct v = (str_of (get_member ''methodName'' v), rows_of (case get_member ''params'' v of Some p \<Rightarrow> p | None \<Rightarrow> VArray []))"

definition serve :: "('d, 'w) exec \<Rightarrow> ('d, 'w) transport" where
  "serve ex m ps w =
     (if m = ''system.multicall''
      then (let rw = run_each ex (map call_of_struct (case ps of [p] \<Rightarrow> rows_of p | _ \<Rightarrow> [])) w
            in (Inr (VArray (map wrap (fst rw))), snd rw))
      else map_prod fault_result id (ex m ps w))"

lemma call_of_call_struct: "call_of_struct (call_struct c) = c"
  by (simp add: call_struct_def str_of_def rows_of_def)

lemma calls_of_call_structs: "map call_of_struct (map call_struct cs) = cs"
  by (simp add: call_of_call_struct comp_def del: call_of_struct.simps)

lemma serve_serves: "serves ex (serve ex)"
  by (simp add: serves_def serve_def rows_of_def Let_def calls_of_call_structs del: call_of_struct.simps map_map)

definition logged_daemon :: "(string, (string \<times> string) list) exec" where
  "logged_daemon m ps ws =
     (if m = ''d.start'' \<and> ps = [VStr ''B''] \<or> m = ''network.xyz'' then Inl (-501, ''could not'')
      else if m = ''network.http.max_open'' then Inr (VInt 7) else Inr (VStr ''on''),
      ws @ [(m, str_of (item_at ps 0))])"



section \<open>The snapshot columns\<close>

text \<open>What the daemon answers for one column of a torrent, by the column's name: strings as they are, flags as
  integers, the client's own marks as the strings they were stored as.\<close>

definition int_flag :: "bool \<Rightarrow> 'd xvalue" where
  "int_flag b = VInt (if b then 1 else 0)"

definition columns :: "raw_torrent \<Rightarrow> (string \<times> 'd xvalue) list" where
  "columns t =
     [(''d.base_path='', VStr (raw_base_path t)), (''d.bytes_done='', VInt (raw_bytes_done t)),
      (''d.chunks_hashed='', VInt (raw_chunks_hashed t)), (''d.complete='', int_flag (raw_complete t)),
      (''d.connection_current='', VStr (raw_connection_current t)), (''d.custom1='', VStr (raw_label t)),
      (''d.custom=added_at'', VInt (raw_added_at t)), (''d.custom=added_by'', VStr (raw_added_by t)),
      (''d.custom=final_dir'', VStr (raw_final_dir t)),
      (''d.custom=force_start'', VStr (if raw_force_start t then ''1'' else [])),
      (''d.custom=queue_pos'', VStr (case raw_queue_pos t of Some n \<Rightarrow> format_pos n | None \<Rightarrow> [])),
      (''d.custom=source_path'', VStr (raw_source_path t)),
      (''d.custom=tags'', VStr (encode_tags (raw_tags t))),
      (''d.custom=throttle_rule'', VStr (raw_throttle_rule t)),
      (''d.directory='', VStr (raw_directory t)), (''d.down.rate='', VInt (raw_down_rate t)),
      (''d.hash='', VStr (raw_hash t)), (''d.hashing='', int_flag (raw_hashing t)),
      (''d.is_active='', int_flag (raw_is_active t)), (''d.is_open='', int_flag (raw_is_open t)),
      (''d.is_private='', int_flag (raw_is_private t)), (''d.message='', VStr (raw_message t)),
      (''d.name='', VStr (raw_name t)), (''d.peers_accounted='', VInt (raw_peers_accounted t)),
      (''d.peers_complete='', VInt (raw_peers_complete t)), (''d.peers_connected='', VInt (raw_peers_connected t)),
      (''d.peers_max='', VInt (raw_peers_max t)), (''d.peers_min='', VInt (raw_peers_min t)),
      (''d.priority='', VInt (raw_priority t)), (''d.ratio='', VInt (raw_ratio_permille t)),
      (''d.size_bytes='', VInt (raw_size_bytes t)), (''d.size_chunks='', VInt (raw_size_chunks t)),
      (''d.throttle_name='', VStr (raw_throttle_name t)), (''d.timestamp.finished='', VInt (raw_finished_at t)),
      (''d.timestamp.started='', VInt (raw_started_at t)), (''d.up.rate='', VInt (raw_up_rate t)),
      (''d.uploads_max='', VInt (raw_uploads_max t))]"

definition answer :: "raw_torrent \<Rightarrow> string \<Rightarrow> 'd xvalue" where
  "answer t c = (case map_of (columns t) c of Some v \<Rightarrow> v | None \<Rightarrow> VStr [])"

definition answers_rows :: "('d, 'w) transport \<Rightarrow> raw_torrent list \<Rightarrow> 'w \<Rightarrow> bool" where
  "answers_rows call ts w \<longleftrightarrow>
     (\<forall>view cmds. call ''d.multicall2'' ([VStr [], VStr view] @ map VStr cmds) w =
        (Inr (VArray (map (\<lambda>t. VArray (map (answer t) cmds)) ts)), w))"

definition plain_row :: "raw_torrent \<Rightarrow> bool" where
  "plain_row t \<longleftrightarrow> to_upper (raw_hash t) = raw_hash t \<and> normal_tags (raw_tags t) \<and>
     (case raw_queue_pos t of None \<Rightarrow> True | Some n \<Rightarrow> i64_ok n)"

lemma item_at_simps [simp]:
  "item_at (x # xs) 0 = Some x" "item_at (x # xs) (Suc i) = item_at xs i" "item_at [] i = None"
  "item_at (x # xs) (numeral k) = item_at xs (pred_numeral k)" "item_at (x # xs) 1 = item_at xs 0"
  by (simp_all add: item_at_def numeral_eq_Suc)

lemma value_simps [simp]:
  "str_of (Some (VStr s)) = s" "int_of (Some (VInt n)) = n" "flag_of (Some (int_flag b)) = b"
  "int_of (Some (int_flag b)) = (if b then 1 else 0)"
  by (simp_all add: str_of_def int_of_def flag_of_def int_flag_def)

lemma answered_row:
  "map (answer t) list_commands =
     [VStr (raw_hash t), VStr (raw_name t), VInt (raw_size_bytes t), VInt (raw_bytes_done t), int_flag (raw_complete t),
      int_flag (raw_is_active t), int_flag (raw_is_open t), int_flag (raw_hashing t), VStr (raw_message t),
      VInt (raw_down_rate t), VInt (raw_up_rate t), VInt (raw_ratio_permille t), VStr (raw_label t),
      VStr (raw_directory t), VStr (raw_base_path t), VInt (raw_peers_complete t), VInt (raw_peers_accounted t),
      VInt (raw_peers_connected t), VInt (raw_priority t), int_flag (raw_is_private t), VStr (raw_throttle_name t),
      VInt (raw_finished_at t), VInt (raw_chunks_hashed t), VInt (raw_size_chunks t), VInt (raw_started_at t),
      VInt (raw_peers_max t), VInt (raw_peers_min t), VInt (raw_uploads_max t), VStr (raw_connection_current t),
      VStr (raw_added_by t), VStr (raw_source_path t), VInt (raw_added_at t), VStr (encode_tags (raw_tags t)),
      VStr (raw_final_dir t), VStr (if raw_force_start t then ''1'' else []),
      VStr (case raw_queue_pos t of Some n \<Rightarrow> format_pos n | None \<Rightarrow> []), VStr (raw_throttle_rule t)]"
  by (simp add: list_commands_def answer_def columns_def)

lemma row_back: "plain_row t \<Longrightarrow> row_to_raw (map (answer t) list_commands) = t"
proof -
  assume "plain_row t"
  then have t: "to_upper (raw_hash t) = raw_hash t" "parse_tags (encode_tags (raw_tags t)) = raw_tags t"
    "parse_pos (case raw_queue_pos t of Some n \<Rightarrow> format_pos n | None \<Rightarrow> []) = raw_queue_pos t"
    by (auto simp: plain_row_def parse_encode_normal parse_pos_def format_pos_def split: option.splits)
  have "(trim (if raw_force_start t then ''1'' else []) = ''1'') = raw_force_start t" by simp
  with t show ?thesis by (simp add: answered_row row_to_raw_def)
qed

definition row_daemon :: "raw_torrent list \<Rightarrow> ('d, unit) transport" where
  "row_daemon ts m ps w = (Inr (VArray (map (\<lambda>t. VArray (map (\<lambda>c. answer t (str_of (Some c))) (drop 2 ps))) ts)), w)"

lemma row_daemon_answers: "answers_rows (row_daemon ts) ts w"
  by (simp add: answers_rows_def row_daemon_def comp_def)

definition sample_torrents :: "raw_torrent list" where
  "sample_torrents = [raw_torrent_default\<lparr>raw_hash := ''AB12'', raw_name := ''disc'', raw_size_bytes := 700, raw_tags := [''Linux'', ''iso''],
     raw_queue_pos := Some (-3), raw_force_start := True, raw_up_rate := 9, raw_is_open := True\<rparr>, raw_torrent_default]"



section \<open>Reads that go on after a fault\<close>

definition answers_each :: "('d, 'w) exec \<Rightarrow> 'd call list \<Rightarrow> 'w \<Rightarrow> 'd xvalue option list" where
  "answers_each ex calls w = map (\<lambda>r. case r of Inl _ \<Rightarrow> None | Inr v \<Rightarrow> Some v) (fst (run_each ex calls w))"

lemma ok_fault_result: "ok_of (Some (fault_result r)) = (case r of Inl _ \<Rightarrow> None | Inr v \<Rightarrow> Some v)"
  by (cases r) (auto simp: ok_of_def)

lemma count_ok_faults:
  "count_ok (map fault_result rs) = length (filter (\<lambda>r. r \<noteq> None) (map (\<lambda>r. case r of Inl _ \<Rightarrow> None | Inr v \<Rightarrow> Some v) rs))"
proof (induction rs)
  case (Cons r rs)
  then show ?case by (cases r) (auto simp: count_ok_def)
qed (simp add: count_ok_def)

text \<open>One unknown setting does not sink the rest. Over a daemon that serves the calls, reading
  settings never fails: there is one answer per key, in the order of the keys, absent exactly where the
  daemon faulted or gave an array or a struct; and writing settings never fails either, applies every
  directive, and reports how many the daemon took.\<close>

theorem settings_tolerate_faults:
  assumes "serves ex call"
  shows "rpc_config_get cd call keys w =
      (Inr (map (\<lambda>a. Option.bind a (value_as_string cd)) (answers_each ex (map (\<lambda>k. (k, [])) keys) w)),
       snd (run_each ex (map (\<lambda>k. (k, [])) keys) w)) \<and>
    length (answers_each ex (map (\<lambda>k. (k, [])) keys) w) = length keys \<and>
    rpc_apply_config call directives w =
      (Inr (length (filter (\<lambda>a. a \<noteq> None) (answers_each ex (map (\<lambda>(m, v). (m, [VStr [], VInt v])) directives) w))),
       snd (run_each ex (map (\<lambda>(m, v). (m, [VStr [], VInt v])) directives) w)) \<and>
    rpc_apply_config_str call texts w =
      (Inr (length (filter (\<lambda>a. a \<noteq> None) (answers_each ex (map (\<lambda>(m, v). (m, [VStr [], VStr v])) texts) w))),
       snd (run_each ex (map (\<lambda>(m, v). (m, [VStr [], VStr v])) texts) w))"
  using assms
  by (simp add: rpc_config_get_def rpc_apply_config_def rpc_apply_config_str_def rpc_map_def rpc_bind_def rpc_ok_def
      multicall_serves answers_each_def count_ok_faults ok_fault_result comp_def)

theorem settings_tolerate_faults_witness:
  "rpc_config_get plain_codec (serve logged_daemon) [''network.xyz'', ''network.http.max_open'', ''dht.mode''] [] =
     (Inr [None, Some ''7'', Some ''on''], [(''network.xyz'', []), (''network.http.max_open'', []), (''dht.mode'', [])])"
proof -
  have "map (\<lambda>a. Option.bind a (value_as_string plain_codec))
      (answers_each logged_daemon (map (\<lambda>k. (k, [])) [''network.xyz'', ''network.http.max_open'', ''dht.mode'']) [])
      = [None, Some ''7'', Some ''on'']"
    "snd (run_each logged_daemon (map (\<lambda>k. (k, [])) [''network.xyz'', ''network.http.max_open'', ''dht.mode'']) [])
      = [(''network.xyz'', []), (''network.http.max_open'', []), (''dht.mode'', [])]"
    by code_simp+
  then show ?thesis
    using settings_tolerate_faults [where cd = plain_codec and keys = "[''network.xyz'', ''network.http.max_open'', ''dht.mode'']"
        and w = "[]", OF serve_serves [of logged_daemon]] by simp
qed

section \<open>Small readers\<close>

lemma file_progress_bounds: "0 \<le> file_progress d n \<and> file_progress d n \<le> 100"
  using f64_clamp_bounds by (simp add: file_progress_def)

text \<open>An address in brackets is cut at its own first colon, so the tracker shown for it is an opening bracket and
  a few digits.\<close>

lemma host_of_bracketed: "host_of ''udp://[2001:db8::1]:6969/announce'' = ''[2001''"
  by code_simp

lemma remove_tracker_falls_back:
  assumes "serves ex call" "method_exists call ''d.tracker.remove'' w = (True, w1)"
    and "fst (batch_run ex [tracker_remove_call h i] w1) = Inl e"
  shows "rpc_remove_tracker call h i w =
    batch_run ex [tracker_enabled_call h i False] (snd (batch_run ex [tracker_remove_call h i] w1))"
  using assms(2, 3)
  by (cases "batch_run ex [tracker_remove_call h i] w1")
    (simp add: rpc_remove_tracker_def run_calls_serves [OF assms(1)] rpc_set_tracker_enabled_def)

end
