(* ===== verification/Transport.thy ===== *)
theory Transport
  imports Client
begin

text \<open>
  How a call reaches the daemon: the SCGI framing (\<open>rtorrent/scgi.rs\<close>), XML-RPC over HTTP with its checks of
  the endpoint (\<open>rtorrent/http.rs\<close>), the choice between them (\<open>rtorrent/transport.rs\<close>) and the client's
  password (\<open>RpcClient::password\<close>, \<open>RpcClient::call\<close> of \<open>client.rs\<close>). The sockets and the HTTP client are
  parameters that answer a request with an outcome; the XML reader is the parameter \<open>xml\<close>.
\<close>

datatype transport_kind = UnixSocket string | Tcp string nat | Http string string

section \<open>SCGI\<close>

abbreviation nul :: char where "nul \<equiv> CHR 0x00"

definition scgi_headers :: "string \<Rightarrow> string" where
  "scgi_headers body =
     ''CONTENT_LENGTH'' @ [nul] @ show_nat (length body) @ [nul] @ ''SCGI'' @ [nul] @ ''1'' @ [nul]"

definition build_frame :: "string \<Rightarrow> string" where
  "build_frame body =
     show_nat (length (scgi_headers body)) @ '':'' @ scgi_headers body @ '','' @ body"

fun find_bytes :: "string \<Rightarrow> string \<Rightarrow> nat option" where
  "find_bytes needle [] = (if needle = [] then Some 0 else None)"
| "find_bytes needle (c # cs) = (if prefix needle (c # cs) then Some 0 else map_option Suc (find_bytes needle cs))"

definition crlf :: string where "crlf = [CHR 0x0D, CHR 0x0A]"
definition lf :: string where "lf = [CHR 0x0A]"

definition split_cgi_body :: "string \<Rightarrow> string result" where
  "split_cgi_body raw =
     (case find_bytes (crlf @ crlf) raw of
        Some pos \<Rightarrow> Inr (drop (pos + 4) raw)
      | None \<Rightarrow>
          (case find_bytes (lf @ lf) raw of
             Some pos \<Rightarrow> Inr (drop (pos + 2) raw)
           | None \<Rightarrow> Inl (Protocol ''missing CGI header separator in SCGI response'')))"

text \<open>What a socket exchange came to.\<close>

datatype exchange = ConnectTimeout | ConnectFailed string | IoTimeout | IoFailed string | Replied string

definition address_text :: "transport_kind \<Rightarrow> string" where
  "address_text t = (case t of UnixSocket path \<Rightarrow> path | Tcp host port \<Rightarrow> host @ '':'' @ show_nat port | Http url _ \<Rightarrow> url)"

definition scgi_request :: "(transport_kind \<Rightarrow> string \<Rightarrow> 'w \<Rightarrow> exchange \<times> 'w) \<Rightarrow> transport_kind \<Rightarrow> string \<Rightarrow> ('w, string) rpc" where
  "scgi_request net t body w =
     (case t of
        Http _ _ \<Rightarrow> (Inl (Protocol ''HTTP transport routed into the SCGI path''), w)
      | _ \<Rightarrow> map_prod (\<lambda>x. case x of
            ConnectTimeout \<Rightarrow> Inl Timeout
          | ConnectFailed e \<Rightarrow> Inl (Unreachable (address_text t @ '': '' @ e))
          | IoTimeout \<Rightarrow> Inl Timeout
          | IoFailed e \<Rightarrow> Inl (Protocol e)
          | Replied raw \<Rightarrow> Inr raw) id (net t (build_frame body) w))"

text \<open>\<open>parse_response\<close> returns on every input (\<open>decoded\<close> never takes the second branch).\<close>

definition decoded :: "'d codec \<Rightarrow> (string \<Rightarrow> xml_event list) \<Rightarrow> string \<Rightarrow> 'd xvalue result" where
  "decoded cd xml doc = (case parse_response cd (xml doc) of Some r \<Rightarrow> r | None \<Rightarrow> Inl (Parse []))"

definition scgi_call ::
  "'d codec \<Rightarrow> (string \<Rightarrow> xml_event list) \<Rightarrow> (transport_kind \<Rightarrow> string \<Rightarrow> 'w \<Rightarrow> exchange \<times> 'w) \<Rightarrow> transport_kind \<Rightarrow> ('d, 'w) transport" where
  "scgi_call cd xml net t m ps =
     rpc_bind (scgi_request net t (method_call cd m ps)) (\<lambda>raw w.
       (case split_cgi_body raw of Inl e \<Rightarrow> Inl e | Inr doc \<Rightarrow> decoded cd xml doc, w))"

section \<open>HTTP\<close>

record http_request =
  hq_url :: string
  hq_content_type :: string
  hq_body :: string
  hq_basic_auth :: "(string \<times> string option) option"

datatype http_outcome =
    NoClient string
  | SendTimeout
  | SendFailed string
  | Answered nat string "string + string"

definition status_error :: "string \<Rightarrow> string \<Rightarrow> string option \<Rightarrow> nat \<Rightarrow> string \<Rightarrow> rtorrent_error" where
  "status_error url username password code status =
     (if (code = 401 \<or> code = 403) \<and> username \<noteq> [] \<and> password = None
      then Unreachable (url @ '': authentication failed ('' @ status @ '') - no saved password was available for ''
        @ quote_str username @ ''; re-enter it in Preferences'')
      else if code = 401 \<or> code = 403
      then Unreachable (url @ '': authentication failed ('' @ status @ '') - check the username and password'')
      else if code = 404
      then Unreachable (url @ '': not found (404) - is this the RPC path, e.g. /RPC2?'')
      else Protocol (url @ '': HTTP '' @ status))"

definition http_call ::
  "'d codec \<Rightarrow> (string \<Rightarrow> xml_event list) \<Rightarrow> (http_request \<Rightarrow> 'w \<Rightarrow> http_outcome \<times> 'w) \<Rightarrow>
     string \<Rightarrow> string \<Rightarrow> string option \<Rightarrow> ('d, 'w) transport" where
  "http_call cd xml send url username password m ps w =
     (let rq = \<lparr>hq_url = url, hq_content_type = ''text/xml'', hq_body = method_call cd m ps,
                hq_basic_auth = (if username = [] then None else Some (username, password))\<rparr>
      in map_prod (\<lambda>x. case x of
             NoClient e \<Rightarrow> Inl (Protocol (''http client: '' @ e))
           | SendTimeout \<Rightarrow> Inl Timeout
           | SendFailed e \<Rightarrow> Inl (Unreachable (url @ '': '' @ e))
           | Answered code status body \<Rightarrow>
               if \<not> (200 \<le> code \<and> code < 300) then Inl (status_error url username password code status)
               else (case body of
                       Inl e \<Rightarrow> Inl (Protocol (''reading response: '' @ e))
                     | Inr doc \<Rightarrow> decoded cd xml doc)) id (send rq w))"

definition transport_call ::
  "'d codec \<Rightarrow> (string \<Rightarrow> xml_event list) \<Rightarrow> (transport_kind \<Rightarrow> string \<Rightarrow> 'w \<Rightarrow> exchange \<times> 'w) \<Rightarrow>
     (http_request \<Rightarrow> 'w \<Rightarrow> http_outcome \<times> 'w) \<Rightarrow> transport_kind \<Rightarrow> string option \<Rightarrow> ('d, 'w) transport" where
  "transport_call cd xml net send t password =
     (case t of
        Http url username \<Rightarrow> http_call cd xml send url username password
      | _ \<Rightarrow> scgi_call cd xml net t)"

subsection \<open>The endpoint\<close>

text \<open>\<open>rfind('@')\<close>: the text after the last one, or all of it.\<close>

fun after_last :: "char \<Rightarrow> string \<Rightarrow> string" where
  "after_last d [] = []"
| "after_last d (c # cs) = (if d \<in> set cs then after_last d cs else if c = d then cs else c # cs)"

definition local_hosts :: "string list" where
  "local_hosts = [''127.0.0.1'', ''::1'', ''localhost'', ''0.0.0.0'']"

definition url_host :: "string \<Rightarrow> string" where
  "url_host url =
     (let authority = after_last (CHR ''@'') (takeWhile (\<lambda>c. c \<noteq> CHR ''/'') (after_scheme (trim url)))
      in case strip_prefix ''['' authority of
           Some rest \<Rightarrow> takeWhile (\<lambda>c. c \<noteq> CHR '']'') rest
         | None \<Rightarrow> takeWhile (\<lambda>c. c \<noteq> CHR '':'') authority)"

definition host_is_local :: "string \<Rightarrow> bool" where
  "host_is_local url = (to_lower (url_host url) \<in> set local_hosts)"

definition is_insecure_credentialed :: "string \<Rightarrow> string \<Rightarrow> bool" where
  "is_insecure_credentialed url username =
     (if username = [] then False
      else let lower = to_lower (trim url) in
           if \<not> prefix ''http://'' lower then False else \<not> host_is_local lower)"

section \<open>The client's password\<close>

record rpc_client =
  rc_transport :: transport_kind
  rc_explicit_password :: "string option"
  rc_cached_password :: "string option option"

definition new_client :: "transport_kind \<Rightarrow> rpc_client" where
  "new_client t = \<lparr>rc_transport = t, rc_explicit_password = None, rc_cached_password = None\<rparr>"

definition with_password :: "transport_kind \<Rightarrow> string option \<Rightarrow> rpc_client" where
  "with_password t p = \<lparr>rc_transport = t, rc_explicit_password = p, rc_cached_password = None\<rparr>"

definition client_password :: "(string \<Rightarrow> string \<Rightarrow> string option) \<Rightarrow> rpc_client \<Rightarrow> string option \<times> rpc_client" where
  "client_password keychain c =
     (case rc_explicit_password c of
        Some p \<Rightarrow> (Some p, c)
      | None \<Rightarrow>
          (case rc_transport c of
             Http url username \<Rightarrow>
               if username = [] then (None, c)
               else (case rc_cached_password c of
                       Some p \<Rightarrow> (p, c)
                     | None \<Rightarrow> (keychain url username, c\<lparr>rc_cached_password := Some (keychain url username)\<rparr>))
           | _ \<Rightarrow> (None, c)))"

definition client_call ::
  "'d codec \<Rightarrow> (string \<Rightarrow> xml_event list) \<Rightarrow> (transport_kind \<Rightarrow> string \<Rightarrow> 'w \<Rightarrow> exchange \<times> 'w) \<Rightarrow>
     (http_request \<Rightarrow> 'w \<Rightarrow> http_outcome \<times> 'w) \<Rightarrow> (string \<Rightarrow> string \<Rightarrow> string option) \<Rightarrow> ('d, rpc_client \<times> 'w) transport" where
  "client_call cd xml net send keychain m ps cw =
     (let (password, c) = client_password keychain (fst cw);
          (r, w) = transport_call cd xml net send (rc_transport c) password m ps (snd cw)
      in (r, (c, w)))"

section \<open>Framing\<close>

text \<open>The reading end of SCGI, as its specification has it: a netstring of NUL-terminated names and values, the
  content length first, then as many bytes of body.\<close>

fun pairs_of :: "string list \<Rightarrow> (string \<times> string) list option" where
  "pairs_of [x] = (if x = [] then Some [] else None)"
| "pairs_of (k # v # xs) = map_option (\<lambda>ps. (k, v) # ps) (pairs_of xs)"
| "pairs_of [] = None"

definition scgi_read :: "string \<Rightarrow> ((string \<times> string) list \<times> string) option" where
  "scgi_read frame =
     (let digits = takeWhile is_digit frame; rest = dropWhile is_digit frame in
      case (parse_nat digits, rest) of
        (Some n, c # more_bytes) \<Rightarrow>
          if c = CHR '':'' \<and> n < length more_bytes \<and> more_bytes ! n = CHR '',''
          then Option.bind (pairs_of (split_on nul (take n more_bytes))) (\<lambda>ps.
                 Option.bind (map_of ps ''CONTENT_LENGTH'') (\<lambda>l. Option.bind (parse_nat l) (\<lambda>len.
                   if length (drop (Suc n) more_bytes) = len then Some (ps, drop (Suc n) more_bytes) else None)))
          else None
      | _ \<Rightarrow> None)"

lemma nul_not_digit [simp]: "\<not> is_digit nul" "\<not> is_digit (CHR '':'')"
  by (simp_all add: is_digit_def char_le_iff)

lemma digits_free: "\<not> is_digit c \<Longrightarrow> c \<notin> set (show_nat n)"
  using show_nat_digits [of n] by (auto simp: list_all_iff)

lemma take_digits:
  "takeWhile is_digit (show_nat n @ CHR '':'' # s) = show_nat n" "dropWhile is_digit (show_nat n @ CHR '':'' # s) = CHR '':'' # s"
  using show_nat_digits [of n] by (simp_all add: list_all_iff)

lemma split_headers:
  "split_on nul (scgi_headers body) = [''CONTENT_LENGTH'', show_nat (length body), ''SCGI'', ''1'', []]"
  by (simp add: scgi_headers_def split_on_append digits_free)

lemma frame_read:
  "scgi_read (build_frame body) = Some ([(''CONTENT_LENGTH'', show_nat (length body)), (''SCGI'', ''1'')], body)"
proof -
  have "build_frame body = show_nat (length (scgi_headers body)) @ CHR '':'' # scgi_headers body @ CHR '','' # body"
    by (simp add: build_frame_def)
  then show ?thesis by (simp add: scgi_read_def take_digits split_headers nth_append)
qed

subsection \<open>The reply's headers\<close>

definition header_line :: "string \<Rightarrow> bool" where
  "header_line l \<longleftrightarrow> l \<noteq> [] \<and> CHR 0x0D \<notin> set l \<and> CHR 0x0A \<notin> set l"

lemma find_skip:
  assumes "c0 \<notin> set l" "needle = c0 # cs"
  shows "find_bytes needle (l @ s) = map_option (\<lambda>k. length l + k) (find_bytes needle s)"
  using assms by (cases "find_bytes needle s"; induction l) auto

lemma find_line_break:
  "c \<noteq> CHR 0x0D \<Longrightarrow> find_bytes (crlf @ crlf) (crlf @ c # s) = map_option (\<lambda>k. 2 + k) (find_bytes (crlf @ crlf) (c # s))"
  "c \<noteq> CHR 0x0A \<Longrightarrow> find_bytes (lf @ lf) (lf @ c # s) = map_option Suc (find_bytes (lf @ lf) (c # s))"
  by (auto simp: crlf_def lf_def option.map_comp comp_def)

lemma find_end:
  assumes "list_all header_line ls"
  shows "find_bytes (crlf @ crlf) (join_with crlf ls @ crlf @ crlf @ body) = Some (length (join_with crlf ls))"
    and "find_bytes (lf @ lf) (join_with lf ls @ lf @ lf @ body) = Some (length (join_with lf ls))"
proof -
  have skip: "find_bytes (crlf @ crlf) (l @ s) = map_option (\<lambda>k. length l + k) (find_bytes (crlf @ crlf) s)"
    "find_bytes (lf @ lf) (l @ s) = map_option (\<lambda>k. length l + k) (find_bytes (lf @ lf) s)" if "header_line l" for l s
    using that find_skip [of "CHR 0x0D" l "crlf @ crlf" "tl (crlf @ crlf)" s] find_skip [of "CHR 0x0A" l "lf @ lf" lf s]
    by (simp_all add: header_line_def crlf_def lf_def)
  show "find_bytes (crlf @ crlf) (join_with crlf ls @ crlf @ crlf @ body) = Some (length (join_with crlf ls))"
    using assms
  proof (induction crlf ls rule: join_with.induct)
    case (2 x)
    then show ?case by (simp add: skip) (simp add: crlf_def)
  next
    case (3 x y ys)
    obtain c z where y: "join_with crlf (y # ys) = c # z" "c \<noteq> CHR 0x0D"
      using 3(2) by (cases y; cases ys) (auto simp: header_line_def)
    with 3 find_line_break(1) [OF y(2), of "z @ crlf @ crlf @ body"] show ?case by (simp add: skip) (simp add: crlf_def)
  qed (simp add: crlf_def)
  show "find_bytes (lf @ lf) (join_with lf ls @ lf @ lf @ body) = Some (length (join_with lf ls))"
    using assms
  proof (induction lf ls rule: join_with.induct)
    case (2 x)
    then show ?case by (simp add: skip) (simp add: lf_def)
  next
    case (3 x y ys)
    obtain c z where y: "join_with lf (y # ys) = c # z" "c \<noteq> CHR 0x0A"
      using 3(2) by (cases y; cases ys) (auto simp: header_line_def)
    with 3 find_line_break(2) [OF y(2), of "z @ lf @ lf @ body"] show ?case by (simp add: skip) (simp add: lf_def)
  qed (simp add: lf_def)
qed

lemma split_crlf: "list_all header_line ls \<Longrightarrow> split_cgi_body (join_with crlf ls @ crlf @ crlf @ doc) = Inr doc"
  using find_end(1) [of ls doc] by (simp add: split_cgi_body_def) (simp add: crlf_def)

lemma no_cr_join: "list_all header_line ls \<Longrightarrow> CHR 0x0D \<notin> set (join_with lf ls @ lf @ lf)"
  by (induction lf ls rule: join_with.induct) (auto simp: header_line_def lf_def)

lemma split_lf:
  assumes "list_all header_line ls" "find_bytes (crlf @ crlf) doc = None"
  shows "split_cgi_body (join_with lf ls @ lf @ lf @ doc) = Inr doc"
proof -
  have "find_bytes (crlf @ crlf) ((join_with lf ls @ lf @ lf) @ doc) = None"
    using find_skip [OF no_cr_join [OF assms(1)], of "crlf @ crlf" _ doc] assms(2) by (simp add: crlf_def)
  then show ?thesis using find_end(2) [OF assms(1), of doc] by (simp add: split_cgi_body_def) (simp add: lf_def)
qed

text \<open>Headers ended by bare line feeds are cut in the wrong place when the document itself has an empty line in
  the other convention.\<close>

lemma lf_headers_cut_late:
  "split_cgi_body (''Status: 200'' @ lf @ lf @ ''<a>'' @ crlf @ crlf @ ''</a>'') = Inr ''</a>''"
  by code_simp

definition one_reply :: "string \<Rightarrow> transport_kind \<Rightarrow> string \<Rightarrow> nat \<Rightarrow> exchange \<times> nat" where
  "one_reply raw t frame n = (Replied raw, Suc n)"

definition cgi_lines :: "string list" where
  "cgi_lines = [''Status: 200 OK'', ''Content-Type: text/xml'', ''Content-Length: 9'']"

text \<open>Property C36. A call over SCGI is framed and answered faithfully. A reader that follows the SCGI
  specification gets from the frame exactly the call document, with its length as the first header; and
  when the daemon replies with header lines, an empty line and a document carrying a value or a fault, the
  call over a socket returns that very value, or the fault's code and message as the error, whether or not a
  password is set.\<close>

theorem scgi_exchange:
  assumes "list_all header_line ls" "sound cd v" "part \<in> {''params'', ''fault''}"
    and "net (Tcp host port) (build_frame (method_call cd m ps)) w = (Replied (join_with crlf ls @ crlf @ crlf @ doc), w1)"
    and "xml doc = response cd part v"
  shows "scgi_read (build_frame (method_call cd m ps)) =
      Some ([(''CONTENT_LENGTH'', show_nat (length (method_call cd m ps))), (''SCGI'', ''1'')], method_call cd m ps) \<and>
    transport_call cd xml net send (Tcp host port) password m ps w =
      (if part = ''fault'' then Inl (fault_from v) else Inr v, w1)"
proof -
  have "parse_response cd (response cd part v) = Some (if part = ''fault'' then Inl (fault_from v) else Inr v)"
    using assms(3) parse_item [OF assms(2)] by (auto simp: parse_response_def response_def)
  with assms(1, 4, 5) show ?thesis
    by (simp add: frame_read transport_call_def scgi_call_def scgi_request_def rpc_bind_def split_crlf decoded_def)
qed

theorem scgi_exchange_witness:
  "transport_call plain_codec (\<lambda>doc. if doc = ''x'' then response plain_codec ''params'' sample else [])
     (one_reply (join_with crlf cgi_lines @ crlf @ crlf @ ''x'')) (\<lambda>rq w. (SendTimeout, w)) (Tcp ''localhost'' 5000) None
     ''d.name'' [VStr ''AB''] 0 = (Inr sample, 1)"
proof -
  have "list_all header_line cgi_lines" "sound plain_codec sample" by code_simp+
  then show ?thesis
    using scgi_exchange [where ls = cgi_lines and v = sample and part = "''params''" and doc = "''x''" and host = "''localhost''"
      and port = 5000 and m = "''d.name''" and ps = "[VStr ''AB'']" and w = 0 and ?w1.0 = 1 and cd = plain_codec
      and net = "one_reply (join_with crlf cgi_lines @ crlf @ crlf @ ''x'')" and password = None
      and send = "\<lambda>rq w. (SendTimeout, w)"
      and xml = "\<lambda>doc. if doc = ''x'' then response plain_codec ''params'' sample else []"]
    by (simp add: one_reply_def)
qed

lemma decoded_total: "parse_response cd (xml doc) = Some (decoded cd xml doc)"
  using parse_from_total [of cd False "xml doc"] by (auto simp: decoded_def parse_response_def)

subsection \<open>Which hosts are local\<close>

definition url_text :: "string \<Rightarrow> string option \<Rightarrow> string \<Rightarrow> string option \<Rightarrow> string \<Rightarrow> string" where
  "url_text scheme user host port path =
     scheme @ ''://'' @ (case user of None \<Rightarrow> [] | Some u \<Rightarrow> u @ ''@'') @ host @
       (case port of None \<Rightarrow> [] | Some p \<Rightarrow> '':'' @ p) @ path"

text \<open>The parts of a URL: no slash before the path, no at-sign in host or port, a plain host without colon or
  bracket or the inside of a bracketed address.\<close>

definition url_parts :: "string \<Rightarrow> string option \<Rightarrow> string option \<Rightarrow> string \<Rightarrow> bool" where
  "url_parts scheme user port path \<longleftrightarrow>
     CHR '':'' \<notin> set scheme \<and>
     (case user of None \<Rightarrow> True | Some u \<Rightarrow> CHR ''/'' \<notin> set u) \<and>
     (case port of None \<Rightarrow> True | Some p \<Rightarrow> p \<noteq> [] \<and> list_all is_digit p) \<and>
     (path = [] \<or> hd path = CHR ''/'')"

definition plain_host :: "string \<Rightarrow> bool" where
  "plain_host h \<longleftrightarrow> h \<noteq> [] \<and> set h \<inter> {CHR ''/'', CHR ''@'', CHR '':'', CHR ''[''} = {}"

definition bracket_host :: "string \<Rightarrow> bool" where
  "bracket_host h \<longleftrightarrow> set h \<inter> {CHR ''/'', CHR ''@'', CHR '']''} = {}"

lemma after_first_sep: "CHR '':'' \<notin> set s \<Longrightarrow> after_first ''://'' (s @ CHR '':'' # ''//'' @ r) = Some r"
  by (induction s) auto

lemma take_authority:
  assumes "CHR ''/'' \<notin> set a" "a = [] \<or> last a \<noteq> CHR '':''" "path = [] \<or> hd path = CHR ''/''"
  shows "takeWhile (\<lambda>c. c \<noteq> CHR ''/'') (before_first ''://'' (a @ path)) = a"
  using assms
proof (induction a)
  case Nil
  then show ?case by (cases path) auto
next
  case (Cons c a)
  have "\<not> prefix ''://'' (c # a @ path)"
  proof (cases a)
    case Nil
    with Cons.prems(2) show ?thesis by auto
  next
    case (Cons d a')
    with Cons.prems(1) show ?thesis by auto
  qed
  with Cons show ?case by (cases a) auto
qed

lemma after_last_free: "d \<notin> set s \<Longrightarrow> after_last d s = s"
  by (cases s) auto

lemma after_last_append: "d \<notin> set s \<Longrightarrow> after_last d (u @ d # s) = s"
  by (induction u) auto

lemma digit_not_punct: "is_digit c \<Longrightarrow> c \<noteq> CHR ''/'' \<and> c \<noteq> CHR '':'' \<and> c \<noteq> CHR ''@''"
  by (auto simp: is_digit_def char_le_iff)

lemma authority_of_url:
  assumes "url_parts scheme user port path" "CHR ''/'' \<notin> set host" "CHR ''@'' \<notin> set host" "host \<noteq> []" "last host \<noteq> CHR '':''"
  shows "after_last (CHR ''@'') (takeWhile (\<lambda>c. c \<noteq> CHR ''/'') (after_scheme (url_text scheme user host port path))) =
    host @ (case port of None \<Rightarrow> [] | Some p \<Rightarrow> '':'' @ p)"
proof -
  define port_part where "port_part = (case port of None \<Rightarrow> [] | Some p \<Rightarrow> '':'' @ p)"
  define user_part where "user_part = (case user of None \<Rightarrow> [] | Some u \<Rightarrow> u @ ''@'')"
  have port: "CHR ''/'' \<notin> set port_part" "CHR ''@'' \<notin> set port_part" "port_part = [] \<or> last port_part \<noteq> CHR '':''"
    using assms(1) digit_not_punct by (auto simp: url_parts_def port_part_def list_all_iff split: option.splits)
  have user: "CHR ''/'' \<notin> set user_part" using assms(1) by (auto simp: url_parts_def user_part_def split: option.splits)
  have "after_scheme (url_text scheme user host port path) = before_first ''://'' ((user_part @ host @ port_part) @ path)"
    using assms(1) after_first_sep [of scheme "user_part @ host @ port_part @ path"]
    by (simp add: after_scheme_def url_text_def url_parts_def user_part_def port_part_def)
  moreover have "takeWhile (\<lambda>c. c \<noteq> CHR ''/'') (before_first ''://'' ((user_part @ host @ port_part) @ path)) =
      user_part @ host @ port_part"
    using assms port user by (intro take_authority) (auto simp: url_parts_def last_append)
  moreover have "after_last (CHR ''@'') (user_part @ host @ port_part) = host @ port_part"
    using assms(3) port(2) after_last_append [of "CHR ''@''" "host @ port_part"]
    by (cases user) (simp_all add: user_part_def after_last_free)
  ultimately show ?thesis by (simp add: port_part_def)
qed

lemma takeWhile_until: "c \<notin> set s \<Longrightarrow> takeWhile (\<lambda>x. x \<noteq> c) (s @ (case p of None \<Rightarrow> [] | Some t \<Rightarrow> c # t)) = s"
  by (cases p) (auto simp: takeWhile_tail takeWhile_eq_all_conv)

lemma url_host_plain:
  assumes "url_parts scheme user port path" "plain_host host" "trim (url_text scheme user host port path) = url_text scheme user host port path"
  shows "url_host (url_text scheme user host port path) = host"
proof -
  obtain c h where h: "host = c # h" "c \<noteq> CHR ''[''" using assms(2) by (cases host) (auto simp: plain_host_def)
  have "last host \<noteq> CHR '':''" using assms(2) last_in_set by (fastforce simp: plain_host_def)
  then have "after_last (CHR ''@'') (takeWhile (\<lambda>c. c \<noteq> CHR ''/'') (after_scheme (url_text scheme user host port path))) =
      host @ (case port of None \<Rightarrow> [] | Some p \<Rightarrow> '':'' @ p)"
    using assms(1, 2) by (intro authority_of_url) (auto simp: plain_host_def)
  then show ?thesis using h assms(2, 3) takeWhile_until [of "CHR '':''" host port]
    by (simp add: url_host_def strip_prefix_def plain_host_def cong: option.case_cong)
qed

lemma url_host_bracket:
  assumes "url_parts scheme user port path" "bracket_host host"
    "trim (url_text scheme user (''['' @ host @ '']'') port path) = url_text scheme user (''['' @ host @ '']'') port path"
  shows "url_host (url_text scheme user (''['' @ host @ '']'') port path) = host"
proof -
  have "after_last (CHR ''@'') (takeWhile (\<lambda>c. c \<noteq> CHR ''/'') (after_scheme (url_text scheme user (''['' @ host @ '']'') port path))) =
      (''['' @ host @ '']'') @ (case port of None \<Rightarrow> [] | Some p \<Rightarrow> '':'' @ p)"
    using assms(1, 2) by (intro authority_of_url) (auto simp: bracket_host_def)
  moreover have "takeWhile (\<lambda>c. c \<noteq> CHR '']'') (host @ CHR '']'' # s) = host" for s
    using assms(2) by (intro takeWhile_tail [THEN trans]) (auto simp: bracket_host_def)
  ultimately show ?thesis using assms(3) by (simp add: url_host_def strip_prefix_def)
qed

lemma char_lower_fixed:
  assumes "c \<in> {CHR ''/'', CHR ''@'', CHR '':'', CHR ''['', CHR '']''}"
  shows "char_lower x = c \<longleftrightarrow> x = c"
proof -
  have "(of_char (char_lower x) :: nat) = of_char c \<longleftrightarrow> (of_char x :: nat) = of_char c"
    using assms by (simp only: of_char_lower insert_iff empty_iff) (elim disjE, simp_all)
  then show ?thesis by (simp only: char_eq_nat [of "char_lower x" c] char_eq_nat [of x c])
qed

lemma set_to_lower_fixed:
  "c \<in> {CHR ''/'', CHR ''@'', CHR '':'', CHR ''['', CHR '']''} \<Longrightarrow> c \<in> set (to_lower s) \<longleftrightarrow> c \<in> set s"
  by (induction s) (simp_all add: to_lower_Cons char_lower_fixed eq_commute [of c])

lemma lower_digits: "list_all is_digit p \<Longrightarrow> to_lower p = p"
  by (induction p) (auto simp: to_lower_def char_lower_def is_digit_def char_le_iff)

lemma lower_url:
  "to_lower (url_text scheme user host port path) =
    url_text (to_lower scheme) (map_option to_lower user) (to_lower host) (map_option to_lower port) (to_lower path)"
  by (cases user; cases port) (simp_all add: url_text_def to_lower_def char_lower_def)

lemma lower_parts: "url_parts scheme user port path \<Longrightarrow> url_parts (to_lower scheme) (map_option to_lower user) (map_option to_lower port) (to_lower path)"
  using char_lower_fixed [of "CHR ''/''"]
  by (cases path) (auto simp: url_parts_def set_to_lower_fixed lower_digits to_lower_Cons split: option.splits)

lemma lower_plain: "plain_host h \<Longrightarrow> plain_host (to_lower h)"
  by (auto simp: plain_host_def set_to_lower_fixed disjoint_iff)

lemma http_prefix: "CHR '':'' \<notin> set scheme \<Longrightarrow> prefix ''http://'' (url_text scheme user host port path) \<longleftrightarrow> scheme = ''http''"
proof -
  assume a: "CHR '':'' \<notin> set scheme"
  have "prefix (t @ ''://'') (scheme @ ''://'' @ r) \<longleftrightarrow> scheme = t" if "CHR '':'' \<notin> set t" for t r
    using a that
  proof (induction t arbitrary: scheme)
    case Nil
    then show ?case by (cases scheme) auto
  next
    case (Cons x t)
    then show ?case by (cases scheme) auto
  qed
  from this [of "''http''"] show ?thesis by (simp add: url_text_def)
qed

text \<open>Only the local machine counts as local. For a well-formed URL, with or without credentials,
  port and path, the endpoint is local exactly when its host is one of the four local names (case apart),
  for a plain host and for a bracketed address alike: a local name in the credentials does not make a
  remote host local. And credentials are reported insecure exactly when there is a username, the scheme is
  http and the host is not local.\<close>

theorem local_endpoint_exact:
  assumes "url_parts scheme user port path" "plain_host host" "bracket_host addr"
    and "trim (url_text scheme user host port path) = url_text scheme user host port path"
    and "trim (url_text scheme user (''['' @ addr @ '']'') port path) = url_text scheme user (''['' @ addr @ '']'') port path"
  shows "(host_is_local (url_text scheme user host port path) \<longleftrightarrow> to_lower host \<in> set local_hosts) \<and>
    (host_is_local (url_text scheme user (''['' @ addr @ '']'') port path) \<longleftrightarrow> to_lower addr \<in> set local_hosts) \<and>
    (is_insecure_credentialed (url_text scheme user host port path) username \<longleftrightarrow>
       username \<noteq> [] \<and> to_lower scheme = ''http'' \<and> to_lower host \<notin> set local_hosts)"
proof -
  have "trim (to_lower (url_text scheme user host port path)) = to_lower (url_text scheme user host port path)"
    using assms(4) by simp
  then have "url_host (to_lower (url_text scheme user host port path)) = to_lower host"
    unfolding lower_url by (intro url_host_plain lower_parts lower_plain assms(1, 2))
  moreover have "CHR '':'' \<notin> set (to_lower scheme)" using assms(1) by (simp add: url_parts_def set_to_lower_fixed)
  then have "prefix ''http://'' (to_lower (url_text scheme user host port path)) \<longleftrightarrow> to_lower scheme = ''http''"
    unfolding lower_url by (rule http_prefix)
  ultimately show ?thesis using assms(4) url_host_bracket [OF assms(1, 3, 5)]
    by (simp add: host_is_local_def is_insecure_credentialed_def Let_def url_host_plain [OF assms(1, 2, 4)])
qed

theorem local_endpoint_exact_witness:
  "\<not> host_is_local ''http://localhost@evil.example:80/RPC2'' \<and> host_is_local ''http://localhost@[::1]:80/RPC2'' \<and>
   is_insecure_credentialed ''http://localhost@evil.example:80/RPC2'' ''bob''"
proof -
  have u: "url_text ''http'' (Some ''localhost'') ''evil.example'' (Some ''80'') ''/RPC2'' = ''http://localhost@evil.example:80/RPC2''"
    "url_text ''http'' (Some ''localhost'') (''['' @ ''::1'' @ '']'') (Some ''80'') ''/RPC2'' = ''http://localhost@[::1]:80/RPC2''"
    by code_simp+
  have t: "trim ''http://localhost@evil.example:80/RPC2'' = ''http://localhost@evil.example:80/RPC2''"
    "trim ''http://localhost@[::1]:80/RPC2'' = ''http://localhost@[::1]:80/RPC2''" by code_simp+
  have h: "to_lower ''evil.example'' \<notin> set local_hosts" "to_lower ''::1'' \<in> set local_hosts" "to_lower ''http'' = ''http''"
    by code_simp+
  have p: "url_parts ''http'' (Some ''localhost'') (Some ''80'') ''/RPC2''" by (simp add: url_parts_def is_digit_def char_le_iff)
  have "plain_host ''evil.example''" "bracket_host ''::1''" by (simp_all add: plain_host_def bracket_host_def)
  from local_endpoint_exact [OF p this, where username = "''bob''", unfolded u, OF t] h show ?thesis by simp
qed

text \<open>The authority of a URL also ends at a question mark or a number sign. The check ends it at the first slash
  only, so an at-sign in a query makes a remote host local.\<close>

lemma query_makes_remote_local: "host_is_local ''http://evil.example?@localhost''"
  by code_simp

text \<open>The keychain is asked at most once, and only for an HTTP endpoint with a username and no given password.\<close>

lemma keychain_once:
  assumes "client_password keychain c = (p, c1)"
  shows "client_password keychain1 c1 = (p, c1)"
  using assms by (auto simp: client_password_def split: option.splits transport_kind.splits if_splits)

end
