(* ===== verification/Rss.thy ===== *)
theory Rss
  imports Types "HOL-Library.AList"
begin

text \<open>
  RSS auto-download (\<open>crates/rtorrent/src/rss.rs\<close>): episode markers in titles, the matching of a rule with its
  explanation, the poll cadence and the plan of one pass. The regular expression engine is a parameter:
  \<open>compile\<close> gives the matcher of a pattern or its error. Titles are scanned as suffixes of the text where the
  code keeps an index into it; the less-or-equal signs of the explanations are written in ASCII.
\<close>

section \<open>Feeds, rules and items\<close>

record feed =
  fd_id :: string
  fd_name :: string
  fd_url :: string
  fd_enabled :: bool

record rss_rule =
  ru_id :: string
  ru_name :: string
  ru_enabled :: bool
  ru_feed_id :: string
  ru_must_contain :: string
  ru_must_not_contain :: string
  ru_regex_match :: string
  ru_season_range :: string
  ru_episode_range :: string
  ru_min_size_mb :: int
  ru_max_size_mb :: int
  ru_prefer_quality :: string
  ru_smart_episode :: bool
  ru_label :: string
  ru_tags :: "string list"
  ru_save_path :: string
  ru_start :: bool
  ru_top_of_queue :: bool
  ru_poll_minutes :: int

record feed_item =
  fi_title :: string
  fi_link :: string
  fi_guid :: string
  fi_pub_date :: string
  fi_size :: "int option"

section \<open>Episode markers\<close>

definition u32_max :: int where "u32_max = 4294967295"

definition sat_digits :: "string \<Rightarrow> int" where
  "sat_digits ds = foldl (\<lambda>v c. min u32_max (min u32_max (v * 10) + int (digit_val c))) 0 ds"

definition read_num :: "string \<Rightarrow> (int \<times> string) option" where
  "read_num s = (let ds = takeWhile is_digit s in if ds = [] then None else Some (sat_digits ds, dropWhile is_digit s))"

definition skip_seps :: "string \<Rightarrow> string" where
  "skip_seps s = dropWhile (\<lambda>c. c = CHR ''.'' \<or> c = CHR '' '' \<or> c = CHR ''-'' \<or> c = CHR ''_'') s"

fun after_char :: "char \<Rightarrow> string \<Rightarrow> string option" where
  "after_char d [] = None"
| "after_char d (c # cs) = (if c = d then Some cs else None)"

text \<open>The two forms of a marker at the start of a text: season, episode and the text after it.\<close>

definition s_form :: "string \<Rightarrow> (int \<times> int \<times> string) option" where
  "s_form s =
     Option.bind (after_char (CHR ''s'') s) (\<lambda>s1.
     Option.bind (read_num s1) (\<lambda>(season, s2).
     Option.bind (after_char (CHR ''e'') (skip_seps s2)) (\<lambda>s3.
     map_option (\<lambda>(ep, s4). (season, ep, s4)) (read_num s3))))"

definition x_form :: "string \<Rightarrow> (int \<times> int \<times> string) option" where
  "x_form s =
     Option.bind (read_num s) (\<lambda>(season, s1).
     Option.bind (after_char (CHR ''x'') s1) (\<lambda>s2.
     Option.bind (read_num s2) (\<lambda>(ep, s3).
     if season \<le> 60 then Some (season, ep, s3) else None)))"

definition marker_at :: "string \<Rightarrow> (int \<times> int \<times> string) option" where
  "marker_at s = (case s_form s of Some m \<Rightarrow> Some m | None \<Rightarrow> x_form s)"

fun find_marker :: "string \<Rightarrow> (int \<times> int) option" where
  "find_marker [] = None"
| "find_marker (c # cs) =
     (case marker_at (c # cs) of Some (season, ep, _) \<Rightarrow> Some (season, ep) | None \<Rightarrow> find_marker cs)"

record episode =
  ep_season :: "int option"
  ep_episode :: int

definition parse_episode :: "string \<Rightarrow> episode option" where
  "parse_episode title = map_option (\<lambda>(season, ep). \<lparr>ep_season = Some season, ep_episode = ep\<rparr>) (find_marker (to_lower title))"

definition season_of :: "episode \<Rightarrow> int" where
  "season_of e = (case ep_season e of Some n \<Rightarrow> n | None \<Rightarrow> 0)"

fun strip_episode :: "string \<Rightarrow> string" where
  "strip_episode [] = []"
| "strip_episode (c # cs) =
     (case marker_at (c # cs) of Some (_, _, rest) \<Rightarrow> CHR '' '' # rest | None \<Rightarrow> c # strip_episode cs)"

lemma read_num_shorter: "read_num s = Some (n, r) \<Longrightarrow> length r < length s"
proof -
  assume "read_num s = Some (n, r)"
  then have "takeWhile is_digit s \<noteq> []" "r = dropWhile is_digit s"
    by (auto simp: read_num_def Let_def split: if_splits)
  moreover have "length (takeWhile is_digit s) + length (dropWhile is_digit s) = length s"
    by (metis length_append takeWhile_dropWhile_id)
  ultimately show ?thesis by (cases "takeWhile is_digit s") auto
qed

lemma after_char_shorter: "after_char d s = Some r \<Longrightarrow> length r < length s"
  by (cases s) (auto split: if_splits)

lemma marker_shorter: "marker_at s = Some (a, b, r) \<Longrightarrow> Suc (length r) < length s"
proof -
  assume "marker_at s = Some (a, b, r)"
  then consider "s_form s = Some (a, b, r)" | "x_form s = Some (a, b, r)"
    by (auto simp: marker_at_def split: option.splits)
  then show ?thesis
  proof cases
    case 1
    then obtain s1 n s2 s3 where "after_char (CHR ''s'') s = Some s1" "read_num s1 = Some (n, s2)"
      "after_char (CHR ''e'') (skip_seps s2) = Some s3" "read_num s3 = Some (b, r)"
      by (auto simp: s_form_def bind_eq_Some_conv)
    moreover have "length (skip_seps s2) \<le> length s2" by (simp add: skip_seps_def length_dropWhile_le)
    ultimately show ?thesis by (auto dest!: after_char_shorter read_num_shorter)
  next
    case 2
    then obtain n s1 s2 where "read_num s = Some (n, s1)" "after_char (CHR ''x'') s1 = Some s2" "read_num s2 = Some (b, r)"
      by (auto simp: x_form_def bind_eq_Some_conv split: if_splits)
    then show ?thesis by (auto dest!: after_char_shorter read_num_shorter)
  qed
qed

lemma strip_shorter: "strip_episode s \<noteq> s \<Longrightarrow> length (strip_episode s) < length s"
  by (induction s rule: strip_episode.induct) (auto split: option.splits dest: marker_shorter)

text \<open>The stripping loop ends because a pass that changes the text shortens it.\<close>

function strip_all :: "string \<Rightarrow> string" where
  "strip_all s = (if strip_episode s = s then s else strip_all (strip_episode s))"
  by pat_completeness auto
termination
  by (relation "measure length") (simp_all add: strip_shorter)

declare strip_all.simps [simp del]

function replace_all :: "string \<Rightarrow> string \<Rightarrow> string \<Rightarrow> string" where
  "replace_all t r [] = []"
| "replace_all t r (c # cs) =
     (if t \<noteq> [] \<and> prefix t (c # cs) then r @ replace_all t r (drop (length t) (c # cs)) else c # replace_all t r cs)"
  by pat_completeness auto
termination
  by (relation "measure (length \<circ> snd \<circ> snd)") auto

definition words :: "string \<Rightarrow> string list" where
  "words s = filter (\<lambda>w. w \<noteq> []) (split_any [CHR 0x20, CHR 0x09, CHR 0x0A, CHR 0x0B, CHR 0x0C, CHR 0x0D] s)"

definition noise_tokens :: "string list" where
  "noise_tokens =
     [''2160p'', ''1080p'', ''720p'', ''480p'', ''360p'', ''4k'', ''bluray'', ''bdremux'', ''remux'', ''web-dl'',
      ''webdl'', ''webrip'', ''hdtv'', ''dvdrip'', ''dvd'', ''x264'', ''x265'', ''h264'', ''h265'', ''hevc'', ''aac'',
      ''dts'', ''proper'', ''repack'']"

definition is_alnum :: "char \<Rightarrow> bool" where
  "is_alnum c = (is_digit c \<or> (CHR ''a'' \<le> c \<and> c \<le> CHR ''z'') \<or> (CHR ''A'' \<le> c \<and> c \<le> CHR ''Z''))"

definition episode_key :: "string \<Rightarrow> string" where
  "episode_key title =
     (let lower = foldl (\<lambda>s t. replace_all t '' '' s) (strip_all (to_lower title)) noise_tokens in
      join_with '' '' (words (map (\<lambda>c. if is_alnum c then c else CHR '' '') lower)))"

section \<open>Ranges and quality\<close>

definition split_once :: "char \<Rightarrow> string \<Rightarrow> (string \<times> string) option" where
  "split_once d s = (if d \<in> set s then Some (takeWhile (\<lambda>c. c \<noteq> d) s, tl (dropWhile (\<lambda>c. c \<noteq> d) s)) else None)"

definition parse_span :: "string \<Rightarrow> (int \<times> int) option" where
  "parse_span raw =
     (let part = trim raw in
      if part = [] then None
      else case split_once (CHR ''-'') part of
             Some (lo, hi) \<Rightarrow>
               Option.bind (parse_u32 (trim lo)) (\<lambda>l. Option.bind (parse_u32 (trim hi)) (\<lambda>h.
                 if l > h then None else Some (l, h)))
           | None \<Rightarrow> map_option (\<lambda>v. (v, v)) (parse_u32 part))"

fun all_some :: "'a option list \<Rightarrow> 'a list option" where
  "all_some [] = Some []"
| "all_some (None # xs) = None"
| "all_some (Some x # xs) = map_option (\<lambda>ys. x # ys) (all_some xs)"

definition parse_spans :: "string \<Rightarrow> (int \<times> int) list option" where
  "parse_spans raw = (if trim raw = [] then None else all_some (map parse_span (split_on (CHR '','') (trim raw))))"

definition in_spans :: "(int \<times> int) list \<Rightarrow> int \<Rightarrow> bool" where
  "in_spans spans v = list_ex (\<lambda>(lo, hi). lo \<le> v \<and> v \<le> hi) spans"

definition quality_score :: "string \<Rightarrow> int" where
  "quality_score title =
     (let lower = to_lower title; has = str_contains lower;
          resolution = (if has ''2160p'' \<or> has ''4k'' then 400 else if has ''1080p'' then 300 else if has ''720p'' then 200
            else if has ''480p'' then 100 else 0);
          source = (if has ''bluray'' \<or> has ''bdremux'' \<or> has ''remux'' then 30
            else if has ''web-dl'' \<or> has ''webdl'' \<or> has ''webrip'' \<or> has '' web '' then 20
            else if has ''hdtv'' then 10 else if has ''dvdrip'' \<or> has ''dvd'' then 5 else 0)
      in resolution + source)"

section \<open>Matching\<close>

record clause =
  cl_label :: string
  cl_passed :: bool
  cl_detail :: string

datatype verdict = Match "clause list" | NoMatch "clause list" | RuleError string

type_synonym regex_engine = "string \<Rightarrow> string + (string \<Rightarrow> bool)"

definition first_line :: "string \<Rightarrow> string" where
  "first_line s = hd (split_on (CHR 0x0A) s)"

definition validate_regex :: "regex_engine \<Rightarrow> string \<Rightarrow> string option" where
  "validate_regex compile pattern =
     (if trim pattern = [] then None
      else case compile (''(?i)'' @ trim pattern) of
             Inr _ \<Rightarrow> None
           | Inl e \<Rightarrow> Some (''invalid regex: '' @ first_line e))"

definition quoted :: "string \<Rightarrow> string" where
  "quoted s = CHR 0x27 # s @ [CHR 0x27]"

definition required_clause :: "rss_rule \<Rightarrow> string \<Rightarrow> clause" where
  "required_clause rule hay =
     (let missing = filter (\<lambda>tok. \<not> str_contains hay (to_lower tok)) (words (ru_must_contain rule)) in
      \<lparr>cl_label = ''required words'', cl_passed = (missing = []),
       cl_detail = (if missing = []
         then (if trim (ru_must_contain rule) = [] then ''no required words''
               else ''all of '' @ quoted (trim (ru_must_contain rule)) @ '' present'')
         else ''missing '' @ join_with '', '' missing)\<rparr>)"

definition excluded_clause :: "rss_rule \<Rightarrow> string \<Rightarrow> clause" where
  "excluded_clause rule hay =
     (let hit = find (\<lambda>tok. str_contains hay (to_lower tok)) (words (ru_must_not_contain rule)) in
      \<lparr>cl_label = ''excluded words'', cl_passed = (hit = None),
       cl_detail = (case hit of Some tok \<Rightarrow> ''excluded by '' @ quoted tok | None \<Rightarrow> ''nothing excluded'')\<rparr>)"

definition regex_clause :: "rss_rule \<Rightarrow> bool \<Rightarrow> clause" where
  "regex_clause rule matched =
     \<lparr>cl_label = ''regex'', cl_passed = matched,
      cl_detail = quoted (trim (ru_regex_match rule)) @ (if matched then '' matches'' else '' does not match'')\<rparr>"

definition pad2 :: "int \<Rightarrow> string" where
  "pad2 n = (if n < 10 then ''0'' @ show_int n else show_int n)"

definition episode_clauses :: "rss_rule \<Rightarrow> string \<Rightarrow> clause list" where
  "episode_clauses rule title =
     (let seasons = parse_spans (ru_season_range rule); episodes = parse_spans (ru_episode_range rule);
          no_season = trim (ru_season_range rule) = []; no_episode = trim (ru_episode_range rule) = [] in
      if no_season \<and> no_episode then []
      else if seasons = None \<and> \<not> no_season \<or> episodes = None \<and> \<not> no_episode
      then [\<lparr>cl_label = ''episode filter'', cl_passed = False,
             cl_detail = ''unparseable season/episode range (try 1-3 or 2,4)''\<rparr>]
      else case parse_episode title of
             None \<Rightarrow> [\<lparr>cl_label = ''episode filter'', cl_passed = False, cl_detail = ''no season/episode info in the title''\<rparr>]
           | Some e \<Rightarrow>
               (case seasons of None \<Rightarrow> []
                | Some sp \<Rightarrow> [\<lparr>cl_label = ''season'', cl_passed = in_spans sp (season_of e), cl_detail = ''found S'' @ pad2 (season_of e)\<rparr>]) @
               (case episodes of None \<Rightarrow> []
                | Some sp \<Rightarrow> [\<lparr>cl_label = ''episode'', cl_passed = in_spans sp (ep_episode e), cl_detail = ''found E'' @ pad2 (ep_episode e)\<rparr>]))"

definition mib :: f64 where "mib = 1048576"

definition tenths_text :: "f64 \<Rightarrow> string" where
  "tenths_text v =
     (let t = round_even (abs v * 10) in
      (if v < 0 then ''-'' else []) @ show_int (t div 10) @ ''.'' @ show_int (t mod 10))"

definition size_clauses :: "rss_rule \<Rightarrow> int option \<Rightarrow> clause list" where
  "size_clauses rule stated =
     (if ru_min_size_mb rule > 0 \<or> ru_max_size_mb rule > 0
      then (case stated of
              None \<Rightarrow> [\<lparr>cl_label = ''size'', cl_passed = False, cl_detail = ''feed states no size''\<rparr>]
            | Some bytes \<Rightarrow>
                let mb = f64_div (f64_of_int bytes) mib; need = f64_of_int (ru_min_size_mb rule); cap = f64_of_int (ru_max_size_mb rule);
                    parts = (if ru_min_size_mb rule > 0 then [''>= '' @ show_int (round_even need) @ '' MiB''] else []) @
                      (if ru_max_size_mb rule > 0 then [''<= '' @ show_int (round_even cap) @ '' MiB''] else [])
                in [\<lparr>cl_label = ''size'',
                     cl_passed = ((ru_min_size_mb rule > 0 \<longrightarrow> need \<le> mb) \<and> (ru_max_size_mb rule > 0 \<longrightarrow> mb \<le> cap)),
                     cl_detail = tenths_text mb @ '' MiB ('' @ join_with '', '' parts @ '')''\<rparr>])
      else [])"

definition conclude :: "clause list \<Rightarrow> verdict" where
  "conclude clauses = (if list_all cl_passed clauses then Match clauses else NoMatch clauses)"

definition explain :: "regex_engine \<Rightarrow> rss_rule \<Rightarrow> feed_item \<Rightarrow> verdict" where
  "explain compile rule item =
     (let hay = to_lower (fi_title item); pattern = trim (ru_regex_match rule);
          front = [required_clause rule hay, excluded_clause rule hay];
          rest = episode_clauses rule (fi_title item) @ size_clauses rule (fi_size item) in
      if pattern = [] then conclude (front @ rest)
      else case compile (''(?i)'' @ pattern) of
             Inl e \<Rightarrow> RuleError (''invalid regex '' @ quoted pattern @ '': '' @ first_line e)
           | Inr re \<Rightarrow> conclude (front @ regex_clause rule (re (fi_title item)) # rest))"

definition rule_matches :: "regex_engine \<Rightarrow> rss_rule \<Rightarrow> feed_item \<Rightarrow> bool" where
  "rule_matches compile rule item = (case explain compile rule item of Match _ \<Rightarrow> True | _ \<Rightarrow> False)"

section \<open>Planning a pass\<close>

record engine_state =
  es_last_run :: "string \<rightharpoonup> int"
  es_warned :: "(string \<times> string) list"
  es_pending :: "(string \<times> string) list"

definition engine_reset :: "engine_state \<Rightarrow> engine_state" where
  "engine_reset st = \<lparr>es_last_run = Map.empty, es_warned = [], es_pending = []\<rparr>"

definition warn_once :: "string \<Rightarrow> string \<Rightarrow> engine_state \<Rightarrow> bool \<times> engine_state" where
  "warn_once rule_id pattern st =
     (if list_ex (\<lambda>(i, _). i = rule_id) (es_warned st) then (False, st)
      else (True, st\<lparr>es_warned := es_warned st @ [(rule_id, pattern)], es_pending := es_pending st @ [(rule_id, pattern)]\<rparr>))"

definition take_warnings :: "engine_state \<Rightarrow> (string \<times> string) list \<times> engine_state" where
  "take_warnings st = (es_pending st, st\<lparr>es_pending := []\<rparr>)"

definition interval_ms :: "rss_rule \<Rightarrow> int \<Rightarrow> int" where
  "interval_ms rule global_min =
     sat_i64 (max 0 (if ru_poll_minutes rule > 0 then ru_poll_minutes rule else global_min) * 60000)"

definition engine_due :: "engine_state \<Rightarrow> rss_rule \<Rightarrow> int \<Rightarrow> int \<Rightarrow> bool" where
  "engine_due st rule global_min now =
     (if \<not> ru_enabled rule then False
      else let wait = interval_ms rule global_min in
           if wait \<le> 0 then False
           else (case es_last_run st (ru_id rule) of None \<Rightarrow> True | Some prev \<Rightarrow> now - prev \<ge> wait))"

definition in_scope :: "rss_rule \<Rightarrow> feed \<Rightarrow> bool" where
  "in_scope rule fd = (fd_enabled fd \<and> (ru_feed_id rule = [] \<or> ru_feed_id rule = fd_id fd))"

type_synonym fetched = "(feed \<times> feed_item list) list"

definition scan_item :: "regex_engine \<Rightarrow> rss_rule \<Rightarrow> string set \<Rightarrow> feed_item list \<times> engine_state \<Rightarrow> feed_item \<Rightarrow> feed_item list \<times> engine_state" where
  "scan_item compile rule seen cs item =
     (if fi_guid item \<in> seen then cs
      else case explain compile rule item of
             Match _ \<Rightarrow> (fst cs @ [item], snd cs)
           | NoMatch _ \<Rightarrow> cs
           | RuleError _ \<Rightarrow> (fst cs, snd (warn_once (ru_id rule) (ru_regex_match rule) (snd cs))))"

definition scan_feeds :: "regex_engine \<Rightarrow> rss_rule \<Rightarrow> string set \<Rightarrow> fetched \<Rightarrow> engine_state \<Rightarrow> feed_item list \<times> engine_state" where
  "scan_feeds compile rule seen feeds st =
     foldl (\<lambda>cs (fd, items). if \<not> in_scope rule fd then cs else foldl (scan_item compile rule seen) cs items) ([], st) feeds"

definition group_key :: "feed_item \<Rightarrow> string" where
  "group_key item =
     (case parse_episode (fi_title item) of
        Some e \<Rightarrow> episode_key (fi_title item) @ ''|'' @ show_int (season_of e) @ ''|'' @ show_int (ep_episode e)
      | None \<Rightarrow> ''nogroup|'' @ fi_guid item)"

definition item_score :: "rss_rule \<Rightarrow> feed_item \<Rightarrow> int" where
  "item_score rule item =
     (let prefer = to_lower (trim (ru_prefer_quality rule)); score = quality_score (fi_title item) in
      if prefer \<noteq> [] \<and> str_contains (to_lower (fi_title item)) prefer then min u32_max (score + 1000) else score)"

definition best_item ::
  "regex_engine \<Rightarrow> rss_rule \<Rightarrow> string set \<Rightarrow> (string \<times> string \<times> int) list \<Rightarrow> feed_item \<Rightarrow> (string \<times> string \<times> int) list" where
  "best_item compile rule seen best item =
     (if fi_guid item \<in> seen \<or> \<not> rule_matches compile rule item then best
      else let key = group_key item; score = item_score rule item in
           case map_of best key of
             Some (g, s) \<Rightarrow> if score > s then AList.update key (fi_guid item, score) best else best
           | None \<Rightarrow> AList.update key (fi_guid item, score) best)"

definition best_keys :: "regex_engine \<Rightarrow> rss_rule \<Rightarrow> fetched \<Rightarrow> string set \<Rightarrow> string set" where
  "best_keys compile rule feeds seen =
     set (map (\<lambda>(_, g, _). g)
       (foldl (\<lambda>best (fd, items). if \<not> in_scope rule fd then best else foldl (best_item compile rule seen) best items) [] feeds))"

type_synonym planned_add = "rss_rule \<times> feed_item"

definition candidates_deduped :: "rss_rule \<Rightarrow> fetched \<Rightarrow> string set \<Rightarrow> string set \<Rightarrow> planned_add list" where
  "candidates_deduped rule feeds seen winners =
     concat (map (\<lambda>(fd, items). if \<not> in_scope rule fd then []
        else map (Pair rule) (filter (\<lambda>i. fi_guid i \<in> winners \<and> fi_guid i \<notin> seen) items)) feeds)"

definition plan_rule ::
  "regex_engine \<Rightarrow> fetched \<Rightarrow> string set \<Rightarrow> int \<Rightarrow> int \<Rightarrow> planned_add list \<times> engine_state \<Rightarrow> rss_rule \<Rightarrow> planned_add list \<times> engine_state" where
  "plan_rule compile feeds seen global_min now ps rule =
     (let (planned, st) = ps; wait = interval_ms rule global_min in
      if \<not> ru_enabled rule then ps
      else if wait \<le> 0 then ps
      else if (case es_last_run st (ru_id rule) of Some prev \<Rightarrow> now - prev < wait | None \<Rightarrow> False) then ps
      else (let st1 = st\<lparr>es_last_run := (es_last_run st)(ru_id rule \<mapsto> now)\<rparr>;
                (candidates, st2) = scan_feeds compile rule seen feeds st1
            in (planned @ (if ru_smart_episode rule
                  then candidates_deduped rule feeds seen (best_keys compile rule feeds seen)
                  else map (Pair rule) candidates), st2)))"

definition plan ::
  "regex_engine \<Rightarrow> fetched \<Rightarrow> rss_rule list \<Rightarrow> string set \<Rightarrow> engine_state \<Rightarrow> int \<Rightarrow> int \<Rightarrow> planned_add list \<times> engine_state" where
  "plan compile feeds rules seen st global_min now = foldl (plan_rule compile feeds seen global_min now) ([], st) rules"

section \<open>The seen items\<close>

definition seen_cap :: nat where "seen_cap = 2000"

text \<open>The file, when it can be written: the last \<open>seen_cap\<close> ids.\<close>

definition save_seen :: "string list \<Rightarrow> string list" where
  "save_seen seen = (if length seen > seen_cap then drop (length seen - seen_cap) seen else seen)"

lemma save_seen_code [code]:
  "save_seen seen = (if int (length seen) > 2000 then drop (length seen - seen_cap) seen else seen)"
  by (simp add: save_seen_def seen_cap_def)

section \<open>What a rule accepts\<close>

text \<open>The declarative reading of a rule, on whole numbers of bytes where the code divides floating-point numbers.\<close>

definition range_accepts :: "string \<Rightarrow> int \<Rightarrow> bool" where
  "range_accepts raw v \<longleftrightarrow> trim raw = [] \<or> (\<exists>spans. parse_spans raw = Some spans \<and> (\<exists>(lo, hi) \<in> set spans. lo \<le> v \<and> v \<le> hi))"

definition episode_accepts :: "rss_rule \<Rightarrow> string \<Rightarrow> bool" where
  "episode_accepts rule title \<longleftrightarrow> trim (ru_season_range rule) = [] \<and> trim (ru_episode_range rule) = [] \<or>
     (\<exists>e. parse_episode title = Some e \<and> range_accepts (ru_season_range rule) (season_of e) \<and>
        range_accepts (ru_episode_range rule) (ep_episode e))"

definition size_accepts :: "rss_rule \<Rightarrow> int option \<Rightarrow> bool" where
  "size_accepts rule stated \<longleftrightarrow> ru_min_size_mb rule \<le> 0 \<and> ru_max_size_mb rule \<le> 0 \<or>
     (\<exists>b. stated = Some b \<and> (ru_min_size_mb rule \<le> 0 \<or> ru_min_size_mb rule * 1048576 \<le> b) \<and>
        (ru_max_size_mb rule \<le> 0 \<or> b \<le> ru_max_size_mb rule * 1048576))"

definition title_accepts :: "regex_engine \<Rightarrow> rss_rule \<Rightarrow> string \<Rightarrow> bool" where
  "title_accepts compile rule title \<longleftrightarrow>
     list_all (\<lambda>tok. str_contains (to_lower title) (to_lower tok)) (words (ru_must_contain rule)) \<and>
     list_all (\<lambda>tok. \<not> str_contains (to_lower title) (to_lower tok)) (words (ru_must_not_contain rule)) \<and>
     (trim (ru_regex_match rule) = [] \<or>
       (\<exists>re. compile (''(?i)'' @ trim (ru_regex_match rule)) = Inr re \<and> re title))"

definition moderate_sizes :: "rss_rule \<Rightarrow> feed_item \<Rightarrow> bool" where
  "moderate_sizes rule item \<longleftrightarrow> \<bar>ru_min_size_mb rule\<bar> < 2 ^ 53 \<and> \<bar>ru_max_size_mb rule\<bar> < 2 ^ 53 \<and>
     (case fi_size item of None \<Rightarrow> True | Some b \<Rightarrow> \<bar>b\<bar> < 2 ^ 53)"

lemma mib_exact: "\<bar>b\<bar> < 2 ^ 53 \<Longrightarrow> f64_div (f64_of_int b) mib = of_int b / 1048576"
  using rnd_mib [of b] by (simp add: f64_div_def mib_def)

lemma mib_compare:
  "of_int m * 1048576 \<le> (of_int b :: rat) \<longleftrightarrow> m * 1048576 \<le> b" "(of_int b :: rat) \<le> of_int m * 1048576 \<longleftrightarrow> b \<le> m * 1048576"
proof -
  have "of_int (m * 1048576) \<le> (of_int b :: rat) \<longleftrightarrow> m * 1048576 \<le> b" by (rule of_int_le_iff)
  then show "of_int m * 1048576 \<le> (of_int b :: rat) \<longleftrightarrow> m * 1048576 \<le> b" by (simp only: of_int_mult of_int_numeral)
  have "(of_int b :: rat) \<le> of_int (m * 1048576) \<longleftrightarrow> b \<le> m * 1048576" by (rule of_int_le_iff)
  then show "(of_int b :: rat) \<le> of_int m * 1048576 \<longleftrightarrow> b \<le> m * 1048576" by (simp only: of_int_mult of_int_numeral)
qed

lemma size_clauses_pass:
  assumes "moderate_sizes rule item"
  shows "list_all cl_passed (size_clauses rule (fi_size item)) \<longleftrightarrow> size_accepts rule (fi_size item)"
proof (cases "fi_size item")
  case (Some b)
  with assms have q: "f64_div (f64_of_int b) mib = of_int b / 1048576"
    "f64_of_int (ru_min_size_mb rule) = of_int (ru_min_size_mb rule)"
    "f64_of_int (ru_max_size_mb rule) = of_int (ru_max_size_mb rule)"
    using mib_exact f64_of_int_exact by (simp_all only: moderate_sizes_def option.case)
  show ?thesis
    by (cases "ru_min_size_mb rule > 0"; cases "ru_max_size_mb rule > 0")
      (simp_all add: q Some size_clauses_def size_accepts_def Let_def mib_compare)
qed (auto simp: size_clauses_def size_accepts_def)

lemma in_spans_accepts: "parse_spans raw = Some spans \<Longrightarrow> in_spans spans v = range_accepts raw v"
  by (auto simp: in_spans_def range_accepts_def list_ex_iff parse_spans_def split: if_splits)

lemma blank_spans: "trim raw = [] \<Longrightarrow> parse_spans raw = None"
  by (simp add: parse_spans_def)

lemma episode_clauses_pass: "list_all cl_passed (episode_clauses rule title) \<longleftrightarrow> episode_accepts rule title"
  by (auto simp: episode_clauses_def episode_accepts_def Let_def in_spans_accepts blank_spans range_accepts_def
      split: option.splits)

lemma find_None_list: "find P xs = None \<longleftrightarrow> list_all (\<lambda>x. \<not> P x) xs"
  by (auto simp: find_None_iff list_all_iff)

lemma filter_empty_list: "filter P xs = [] \<longleftrightarrow> list_all (\<lambda>x. \<not> P x) xs"
  by (auto simp: filter_empty_conv list_all_iff)

lemma conclude_match: "(case conclude cs of Match _ \<Rightarrow> True | _ \<Rightarrow> False) \<longleftrightarrow> list_all cl_passed cs"
  by (simp add: conclude_def)

text \<open>Property C38. A rule matches what it says. An item matches a rule exactly when its title has all the
  required words and none of the excluded ones, the pattern, if any, compiles and matches, the season and
  the episode found in the title lie in the stated ranges, and the stated size is within the bounds, counted
  in whole bytes; a broken range accepts nothing and an unknown size fails a set bound. The verdict is an
  error exactly when the pattern does not compile.\<close>

theorem rule_matches_exactly:
  assumes "moderate_sizes rule item"
  shows "(rule_matches compile rule item \<longleftrightarrow> title_accepts compile rule (fi_title item) \<and>
      episode_accepts rule (fi_title item) \<and> size_accepts rule (fi_size item)) \<and>
    ((\<exists>e. explain compile rule item = RuleError e) \<longleftrightarrow>
      trim (ru_regex_match rule) \<noteq> [] \<and> (\<exists>e. compile (''(?i)'' @ trim (ru_regex_match rule)) = Inl e))"
proof -
  have "\<nexists>e. conclude cs = RuleError e" for cs by (simp add: conclude_def)
  moreover have "rule_matches compile rule item \<longleftrightarrow> title_accepts compile rule (fi_title item) \<and>
      episode_accepts rule (fi_title item) \<and> size_accepts rule (fi_size item)"
    using episode_clauses_pass [of rule "fi_title item"] size_clauses_pass [OF assms]
    by (auto simp: rule_matches_def explain_def title_accepts_def Let_def conclude_match required_clause_def excluded_clause_def
        regex_clause_def filter_empty_list find_None_list split: sum.splits)
  ultimately show ?thesis by (auto simp: explain_def Let_def split: sum.splits)
qed

definition sample_rule :: rss_rule where
  "sample_rule = \<lparr>ru_id = ''r'', ru_name = ''shows'', ru_enabled = True, ru_feed_id = [], ru_must_contain = ''Show 1080p'',
     ru_must_not_contain = ''cam'', ru_regex_match = [], ru_season_range = ''1-2'', ru_episode_range = '' 3, 5-7 '',
     ru_min_size_mb = 1, ru_max_size_mb = 0, ru_prefer_quality = ''web'', ru_smart_episode = True, ru_label = [], ru_tags = [],
     ru_save_path = [], ru_start = True, ru_top_of_queue = False, ru_poll_minutes = 15\<rparr>"

definition sample_item :: "string \<Rightarrow> string \<Rightarrow> feed_item" where
  "sample_item title guid = \<lparr>fi_title = title, fi_link = ''magnet:?xt=urn:btih:'' @ guid, fi_guid = guid, fi_pub_date = [], fi_size = Some 2000000\<rparr>"

definition no_regex :: regex_engine where
  "no_regex p = Inl ''unsupported''"

theorem rule_matches_exactly_witness:
  "rule_matches no_regex sample_rule (sample_item ''The.Show.S02.E06.1080p.WEB-DL'' ''A'') \<and>
   \<not> rule_matches no_regex sample_rule (sample_item ''The.Show.S02E04.1080p'' ''B'')"
proof -
  have m: "moderate_sizes sample_rule (sample_item t g)" for t g
    by (simp add: moderate_sizes_def sample_rule_def sample_item_def)
  have size: "size_accepts sample_rule (fi_size (sample_item t g))" for t g
    by (simp add: size_accepts_def sample_rule_def sample_item_def)
  have "list_all (\<lambda>tok. str_contains (to_lower ''The.Show.S02.E06.1080p.WEB-DL'') (to_lower tok)) (words (ru_must_contain sample_rule))"
    "list_all (\<lambda>tok. \<not> str_contains (to_lower ''The.Show.S02.E06.1080p.WEB-DL'') (to_lower tok)) (words (ru_must_not_contain sample_rule))"
    "trim (ru_regex_match sample_rule) = []"
    by code_simp+
  then have title: "title_accepts no_regex sample_rule ''The.Show.S02.E06.1080p.WEB-DL''" by (simp add: title_accepts_def)
  have "list_all cl_passed (episode_clauses sample_rule ''The.Show.S02.E06.1080p.WEB-DL'')"
    "\<not> list_all cl_passed (episode_clauses sample_rule ''The.Show.S02E04.1080p'')" by code_simp+
  then have "episode_accepts sample_rule ''The.Show.S02.E06.1080p.WEB-DL''" "\<not> episode_accepts sample_rule ''The.Show.S02E04.1080p''"
    by (simp_all add: episode_clauses_pass)
  then show ?thesis using rule_matches_exactly [OF m, of no_regex] title size by (simp add: sample_item_def)
qed

text \<open>The guard on the season does not keep picture dimensions out: the scan goes on inside the number.\<close>

lemma dimensions_read_as_episode:
  "parse_episode ''Film 1920x1080'' = Some \<lparr>ep_season = Some 20, ep_episode = 1080\<rparr>"
  by code_simp

section \<open>What a pass plans\<close>

text \<open>\<open>scoped\<close> lists the items of the feeds a rule reads, in feed order; \<open>candidates\<close> are those unseen and
  matching.\<close>

definition scoped :: "rss_rule \<Rightarrow> fetched \<Rightarrow> feed_item list" where
  "scoped rule feeds = concat (map snd (filter (\<lambda>f. in_scope rule (fst f)) feeds))"

definition candidates :: "regex_engine \<Rightarrow> rss_rule \<Rightarrow> fetched \<Rightarrow> string set \<Rightarrow> feed_item list" where
  "candidates compile rule feeds seen = filter (\<lambda>i. fi_guid i \<notin> seen \<and> rule_matches compile rule i) (scoped rule feeds)"

definition takes :: "regex_engine \<Rightarrow> rss_rule \<Rightarrow> fetched \<Rightarrow> string set \<Rightarrow> feed_item list" where
  "takes compile rule feeds seen =
     (if ru_smart_episode rule
      then filter (\<lambda>i. fi_guid i \<in> best_keys compile rule feeds seen \<and> fi_guid i \<notin> seen) (scoped rule feeds)
      else candidates compile rule feeds seen)"

lemma foldl_scoped:
  "foldl (\<lambda>b (fd, items). if \<not> in_scope rule fd then b else foldl f b items) b feeds = foldl f b (scoped rule feeds)"
  by (induction feeds arbitrary: b) (auto simp: scoped_def)

lemma scan_item_cases:
  "fst (scan_item compile rule seen cs i) = fst cs @ (if fi_guid i \<notin> seen \<and> rule_matches compile rule i then [i] else [])"
  "es_last_run (snd (scan_item compile rule seen cs i)) = es_last_run (snd cs)"
  by (auto simp: scan_item_def rule_matches_def warn_once_def split: verdict.splits)

lemma scan_fold:
  "fst (foldl (scan_item compile rule seen) cs items) = fst cs @ filter (\<lambda>i. fi_guid i \<notin> seen \<and> rule_matches compile rule i) items"
  "es_last_run (snd (foldl (scan_item compile rule seen) cs items)) = es_last_run (snd cs)"
  by (induction items arbitrary: cs) (simp_all add: scan_item_cases)

lemma scan_feeds_fst: "fst (scan_feeds compile rule seen feeds st) = candidates compile rule feeds seen"
  by (simp add: scan_feeds_def foldl_scoped scan_fold candidates_def)

lemma scan_feeds_last: "es_last_run (snd (scan_feeds compile rule seen feeds st)) = es_last_run st"
  by (simp add: scan_feeds_def foldl_scoped scan_fold)

lemma candidates_deduped_scoped:
  "candidates_deduped rule feeds seen W = map (Pair rule) (filter (\<lambda>i. fi_guid i \<in> W \<and> fi_guid i \<notin> seen) (scoped rule feeds))"
  by (induction feeds) (auto simp: candidates_deduped_def scoped_def)

lemma plan_rule_due:
  assumes "engine_due st rule g now"
  shows "fst (plan_rule compile feeds seen g now (planned, st) rule) = planned @ map (Pair rule) (takes compile rule feeds seen)"
    and "es_last_run (snd (plan_rule compile feeds seen g now (planned, st) rule)) = (es_last_run st)(ru_id rule \<mapsto> now)"
proof -
  have due: "ru_enabled rule" "\<not> interval_ms rule g \<le> 0"
    "\<not> (case es_last_run st (ru_id rule) of Some prev \<Rightarrow> now - prev < interval_ms rule g | None \<Rightarrow> False)"
    using assms by (auto simp: engine_due_def Let_def split: if_splits option.splits)
  obtain c st2 where scan: "scan_feeds compile rule seen feeds (st\<lparr>es_last_run := (es_last_run st)(ru_id rule \<mapsto> now)\<rparr>) = (c, st2)"
    by (rule prod.exhaust)
  have "c = candidates compile rule feeds seen" "es_last_run st2 = (es_last_run st)(ru_id rule \<mapsto> now)"
    using scan_feeds_fst [of compile rule seen feeds "st\<lparr>es_last_run := (es_last_run st)(ru_id rule \<mapsto> now)\<rparr>"]
      scan_feeds_last [of compile rule seen feeds "st\<lparr>es_last_run := (es_last_run st)(ru_id rule \<mapsto> now)\<rparr>"] scan by simp_all
  with due scan show "fst (plan_rule compile feeds seen g now (planned, st) rule) = planned @ map (Pair rule) (takes compile rule feeds seen)"
    "es_last_run (snd (plan_rule compile feeds seen g now (planned, st) rule)) = (es_last_run st)(ru_id rule \<mapsto> now)"
    by (simp_all add: plan_rule_def takes_def candidates_deduped_scoped)
qed

lemma plan_rule_idle: "\<not> engine_due st rule g now \<Longrightarrow> plan_rule compile feeds seen g now (planned, st) rule = (planned, st)"
  by (auto simp: plan_rule_def engine_due_def Let_def split: if_splits option.splits)

lemma due_cong: "es_last_run st (ru_id r) = es_last_run st' (ru_id r) \<Longrightarrow> engine_due st r g now = engine_due st' r g now"
  by (simp add: engine_due_def)

definition polled :: "engine_state \<Rightarrow> int \<Rightarrow> int \<Rightarrow> rss_rule list \<Rightarrow> string \<Rightarrow> int option" where
  "polled st g now rules i =
     (if i \<in> ru_id ` set (filter (\<lambda>r. engine_due st r g now) rules) then Some now else es_last_run st i)"

lemma plan_fold:
  "distinct (map ru_id rules) \<Longrightarrow>
    fst (foldl (plan_rule compile feeds seen g now) (planned, st) rules) =
      planned @ concat (map (\<lambda>r. map (Pair r) (takes compile r feeds seen)) (filter (\<lambda>r. engine_due st r g now) rules)) \<and>
    es_last_run (snd (foldl (plan_rule compile feeds seen g now) (planned, st) rules)) = polled st g now rules"
proof (induction rules arbitrary: planned st)
  case (Cons r rules)
  obtain p1 st1 where step: "plan_rule compile feeds seen g now (planned, st) r = (p1, st1)" by (rule prod.exhaust)
  note due = plan_rule_due [of st r g now compile feeds seen planned]
  note idle = plan_rule_idle [of st r g now compile feeds seen planned]
  have same: "filter (\<lambda>r. engine_due st1 r g now) rules = filter (\<lambda>r. engine_due st r g now) rules"
  proof (rule filter_cong [OF refl])
    fix r' assume "r' \<in> set rules"
    then have "ru_id r' \<in> ru_id ` set rules" by (rule imageI)
    with Cons.prems have "ru_id r' \<noteq> ru_id r" by (metis distinct.simps(2) list.simps(9) list.set_map)
    then have "es_last_run st1 (ru_id r') = es_last_run st (ru_id r')"
      using due(2) idle step by (cases "engine_due st r g now") auto
    then show "engine_due st1 r' g now = engine_due st r' g now" by (rule due_cong)
  qed
  have d: "distinct (map ru_id rules)" using Cons.prems by simp
  have tail: "polled st1 g now rules = polled st g now (r # rules)"
  proof (cases "engine_due st r g now")
    case True
    with due(2) step have "es_last_run st1 = (es_last_run st)(ru_id r \<mapsto> now)" by simp
    with True show ?thesis by (simp only: polled_def [abs_def] same) (auto simp: fun_eq_iff)
  next
    case False
    with idle step have "st1 = st" by simp
    with False show ?thesis by (simp add: polled_def [abs_def] del: set_filter)
  qed
  show ?case
  proof (cases "engine_due st r g now")
    case True
    with due(1) step Cons.IH [OF d, of p1 st1] same tail show ?thesis by simp
  next
    case False
    with idle step Cons.IH [OF d, of p1 st1] same tail show ?thesis by simp
  qed
qed (simp add: polled_def [abs_def])

text \<open>A pass polls exactly the rules that are due. With distinct rule ids, the plan is the items
  each due rule takes, in the order of the rules and the feeds, and nothing for the others; due means enabled, with
  a positive interval, and never polled or polled at least that long ago. The pass records its time for
  the rules it polled and leaves the others' times alone, so no rule is due again before its interval.\<close>

theorem pass_polls_due_rules:
  assumes "distinct (map ru_id rules)" "r \<in> set rules" "engine_due st r g now"
  shows "fst (plan compile feeds rules seen st g now) =
      concat (map (\<lambda>r. map (Pair r) (takes compile r feeds seen)) (filter (\<lambda>r. engine_due st r g now) rules)) \<and>
    es_last_run (snd (plan compile feeds rules seen st g now)) = polled st g now rules \<and>
    (later - now < interval_ms r g \<longrightarrow> \<not> engine_due (snd (plan compile feeds rules seen st g now)) r g later)"
proof -
  note f = plan_fold [OF assms(1), of compile feeds seen g now "[]" st]
  moreover from f assms(2, 3) have "es_last_run (snd (plan compile feeds rules seen st g now)) (ru_id r) = Some now"
    by (auto simp: plan_def polled_def)
  ultimately show ?thesis by (auto simp: plan_def engine_due_def Let_def split: if_splits)
qed

definition no_state :: engine_state where
  "no_state = \<lparr>es_last_run = Map.empty, es_warned = [], es_pending = []\<rparr>"

definition one_feed :: "feed_item list \<Rightarrow> fetched" where
  "one_feed items = [(\<lparr>fd_id = ''f'', fd_name = ''F'', fd_url = ''u'', fd_enabled = True\<rparr>, items)]"

theorem pass_polls_due_rules_witness:
  "engine_due no_state sample_rule 30 0 \<and>
   \<not> engine_due (snd (plan no_regex (one_feed []) [sample_rule] {} no_state 30 0)) sample_rule 30 899999"
proof -
  have d: "engine_due no_state sample_rule 30 0"
    by (simp add: engine_due_def no_state_def sample_rule_def interval_ms_def sat_i64_def i64_max_def i64_min_def)
  have i: "interval_ms sample_rule 30 = 900000"
    by (simp add: sample_rule_def interval_ms_def sat_i64_def i64_max_def i64_min_def)
  show ?thesis
    using pass_polls_due_rules [where rules = "[sample_rule]" and r = sample_rule and st = no_state and g = 30 and now = 0
        and later = 899999 and compile = no_regex and feeds = "one_feed []" and seen = "{}"] d by (simp add: i)
qed

section \<open>The best item of an episode\<close>

text \<open>\<open>best_of\<close> is the first item of the greatest score.\<close>

definition best_of :: "('a \<Rightarrow> int) \<Rightarrow> 'a list \<Rightarrow> 'a option" where
  "best_of sc xs = foldl (\<lambda>b x. case b of None \<Rightarrow> Some x | Some y \<Rightarrow> if sc x > sc y then Some x else Some y) None xs"

lemma best_of_Nil [simp]: "best_of sc [] = None"
  by (simp add: best_of_def)

lemma best_of_single [simp]: "best_of sc [x] = Some x"
  by (simp add: best_of_def)

lemma best_of_snoc [simp]:
  "best_of sc (xs @ [x]) = (case best_of sc xs of None \<Rightarrow> Some x | Some y \<Rightarrow> if sc x > sc y then Some x else Some y)"
  by (simp add: best_of_def)

lemma best_of_None [simp]: "best_of sc xs = None \<longleftrightarrow> xs = []"
  by (induction xs rule: rev_induct) (auto split: option.splits)

lemma best_of_best: "best_of sc xs = Some x \<Longrightarrow> x \<in> set xs \<and> (\<forall>y \<in> set xs. sc y \<le> sc x)"
proof (induction xs arbitrary: x rule: rev_induct)
  case (snoc z zs)
  show ?case
  proof (cases "best_of sc zs")
    case (Some y)
    with snoc.IH [of y] have "y \<in> set zs" "\<forall>u \<in> set zs. sc u \<le> sc y" by simp_all
    with snoc.prems Some show ?thesis by (fastforce split: if_splits)
  next
    case None
    then have "zs = []" by simp
    with snoc.prems show ?thesis by simp
  qed
qed simp

definition qualifies :: "regex_engine \<Rightarrow> rss_rule \<Rightarrow> string set \<Rightarrow> feed_item \<Rightarrow> bool" where
  "qualifies compile rule seen i \<longleftrightarrow> fi_guid i \<notin> seen \<and> rule_matches compile rule i"

lemma best_fold:
  "distinct (map fst (foldl (best_item compile rule seen) [] items)) \<and>
   map_of (foldl (best_item compile rule seen) [] items) k =
     map_option (\<lambda>i. (fi_guid i, item_score rule i))
       (best_of (item_score rule) (filter (\<lambda>i. qualifies compile rule seen i \<and> group_key i = k) items))"
proof (induction items arbitrary: k rule: rev_induct)
  case (snoc x items)
  define best where "best = foldl (best_item compile rule seen) [] items"
  have IH: "distinct (map fst best)"
    "map_of best j = map_option (\<lambda>i. (fi_guid i, item_score rule i))
      (best_of (item_score rule) (filter (\<lambda>i. qualifies compile rule seen i \<and> group_key i = j) items))" for j
    using snoc.IH [of j] by (simp_all add: best_def)
  show ?case
  proof (cases "qualifies compile rule seen x")
    case False
    then have "best_item compile rule seen best x = best" by (auto simp: best_item_def qualifies_def)
    with False IH show ?thesis by (simp add: best_def)
  next
    case True
    define b where "b = best_of (item_score rule) (filter (\<lambda>i. qualifies compile rule seen i \<and> group_key i = group_key x) items)"
    have here: "map_of best (group_key x) = map_option (\<lambda>i. (fi_guid i, item_score rule i)) b" by (simp add: b_def IH(2))
    have new: "best_item compile rule seen best x =
        (if (case b of None \<Rightarrow> True | Some y \<Rightarrow> item_score rule x > item_score rule y)
         then AList.update (group_key x) (fi_guid x, item_score rule x) best else best)"
      using True here by (cases b) (auto simp: best_item_def qualifies_def Let_def)
    have group: "filter (\<lambda>i. qualifies compile rule seen i \<and> group_key i = k) (items @ [x]) =
        filter (\<lambda>i. qualifies compile rule seen i \<and> group_key i = k) items @ (if group_key x = k then [x] else [])"
      using True by simp
    show ?thesis
    proof (cases "group_key x = k")
      case False
      then show ?thesis unfolding foldl_append foldl.simps best_def [symmetric] new group
        using IH by (simp add: distinct_update update_conv')
    next
      case True
      then show ?thesis unfolding foldl_append foldl.simps best_def [symmetric] new group
        using IH(1) here by (cases b) (auto simp: distinct_update update_conv' b_def [symmetric])
    qed
  qed
qed simp

lemma best_keys_iff:
  "g \<in> best_keys compile rule feeds seen \<longleftrightarrow>
     (\<exists>k i. best_of (item_score rule) (filter (\<lambda>i. group_key i = k) (candidates compile rule feeds seen)) = Some i \<and> fi_guid i = g)"
proof -
  define best where "best = foldl (best_item compile rule seen) [] (scoped rule feeds)"
  have b: "distinct (map fst best)" "map_of best k = map_option (\<lambda>i. (fi_guid i, item_score rule i))
      (best_of (item_score rule) (filter (\<lambda>i. group_key i = k) (candidates compile rule feeds seen)))" for k
    using best_fold [of compile rule seen "scoped rule feeds" k]
    by (simp_all add: best_def candidates_def qualifies_def filter_filter conj_commute)
  have "g \<in> best_keys compile rule feeds seen \<longleftrightarrow> (\<exists>k s. (k, g, s) \<in> set best)"
    by (force simp: best_keys_def foldl_scoped best_def)
  also have "\<dots> \<longleftrightarrow> (\<exists>k s. map_of best k = Some (g, s))" using b(1) by (simp add: map_of_eq_Some_iff)
  finally show ?thesis by (auto simp: b(2))
qed


definition two_releases :: "feed_item list" where
  "two_releases = [sample_item ''Show S01E03 1080p hdtv'' ''A'', sample_item ''Show 1x03 1080p web-dl'' ''B'']"

definition smart_rule :: rss_rule where
  "smart_rule = sample_rule\<lparr>ru_must_contain := ''Show'', ru_min_size_mb := 0, ru_episode_range := []\<rparr>"


text \<open>The best item is seen after the pass, so on the next poll the next best of the same episode is the best of
  what is left and is taken too, unless the feed has dropped it.\<close>

lemma loser_taken_next_poll:
  "takes no_regex smart_rule (one_feed two_releases) {''B''} = [two_releases ! 0]"
  by code_simp

text \<open>With a repeated id an item that does not match the rule is taken along with the best one.\<close>

lemma shared_id_taken_unmatched:
  "takes no_regex smart_rule (one_feed [sample_item ''Show S01E03'' ''A'', sample_item ''Other'' ''A'']) {} =
     [sample_item ''Show S01E03'' ''A'', sample_item ''Other'' ''A'']"
  by code_simp

text \<open>The pass does not note what an earlier rule took, so an item that two rules match is planned twice.\<close>

lemma two_rules_one_item:
  "map snd (fst (plan no_regex (one_feed [sample_item ''Show S01E03'' ''A'']) [smart_rule, smart_rule\<lparr>ru_id := ''s''\<rparr>] {} no_state 30 0))
     = [sample_item ''Show S01E03'' ''A'', sample_item ''Show S01E03'' ''A'']"
  by code_simp

section \<open>Warnings\<close>

text \<open>A rule with a broken pattern is warned about once until the memory is reset: the warned ids are distinct and
  every pending warning is one of them.\<close>

definition warnings_wf :: "engine_state \<Rightarrow> bool" where
  "warnings_wf st \<longleftrightarrow> distinct (map fst (es_warned st)) \<and> distinct (map fst (es_pending st)) \<and> set (es_pending st) \<subseteq> set (es_warned st)"

lemma warn_once_wf: "warnings_wf st \<Longrightarrow> warnings_wf (snd (warn_once i p st))"
  by (auto simp: warnings_wf_def warn_once_def list_ex_iff)

lemma warnings_scan_item: "warnings_wf (snd cs) \<Longrightarrow> warnings_wf (snd (scan_item compile rule seen cs i))"
  by (auto simp: scan_item_def warn_once_wf split: verdict.split)

lemma warnings_plan_rule: "warnings_wf (snd ps) \<Longrightarrow> warnings_wf (snd (plan_rule compile feeds seen g now ps rule))"
proof -
  have items: "warnings_wf (snd (foldl (scan_item compile rule seen) cs xs))" if "warnings_wf (snd cs)" for cs xs
    using that by (induction xs arbitrary: cs) (simp_all add: warnings_scan_item)
  assume a: "warnings_wf (snd ps)"
  define st1 where "st1 = snd ps\<lparr>es_last_run := (es_last_run (snd ps))(ru_id rule \<mapsto> now)\<rparr>"
  from a have "warnings_wf st1" by (simp add: st1_def warnings_wf_def)
  then have "warnings_wf (snd (scan_feeds compile rule seen feeds st1))"
    using items [of "([], st1)"] by (simp add: scan_feeds_def foldl_scoped)
  with a show ?thesis by (auto simp: plan_rule_def Let_def st1_def split: prod.split)
qed

lemma warnings_plan: "warnings_wf st \<Longrightarrow> warnings_wf (snd (plan compile feeds rules seen st g now))"
proof -
  have "warnings_wf (snd (foldl (plan_rule compile feeds seen g now) ps rules))" if "warnings_wf (snd ps)" for ps
    using that by (induction rules arbitrary: ps) (simp_all add: warnings_plan_rule)
  then show "warnings_wf st \<Longrightarrow> ?thesis" by (simp add: plan_def)
qed

lemma seen_bounded: "length (save_seen seen) \<le> seen_cap \<and> suffix (save_seen seen) seen"
  by (auto simp: save_seen_def suffix_drop)

end
