(* ===== verification/Rss_Feed.thy ===== *)
theory Rss_Feed
  imports Rss
begin

text \<open>
  The feed parser (\<open>parse_feed\<close> and its helpers in \<open>crates/rtorrent/src/rss.rs\<close>), RSS 2.0 and Atom. The XML
  reader is not in the repository: the parser is a function of the events it yields, an opening or empty
  element with its attributes as written, a text (the unescaped text, empty when it cannot be unescaped),
  CDATA, a closing element, anything else, and an error, which ends the document like its end does.
\<close>

datatype feed_event =
    FStart string "(string \<times> string) list"
  | FEmpty string "(string \<times> string) list"
  | FText string
  | FCData string
  | FEnd string
  | FOther
  | FBad

record building =
  bd_title :: string
  bd_guid :: string
  bd_pub_date :: string
  bd_size :: "int option"
  bd_enclosure :: "string option"
  bd_plain :: "string option"

definition new_building :: building where
  "new_building = \<lparr>bd_title = [], bd_guid = [], bd_pub_date = [], bd_size = None, bd_enclosure = None, bd_plain = None\<rparr>"

definition or_else :: "'a option \<Rightarrow> 'a option \<Rightarrow> 'a option" where
  "or_else a b = (case a of Some x \<Rightarrow> Some x | None \<Rightarrow> b)"

definition finish_building :: "building \<Rightarrow> feed_item option" where
  "finish_building b =
     (let link = (case or_else (bd_enclosure b) (bd_plain b) of Some l \<Rightarrow> l | None \<Rightarrow> []) in
      if link = [] then None
      else Some \<lparr>fi_title = bd_title b, fi_link = link, fi_guid = (if bd_guid b = [] then link else bd_guid b),
                 fi_pub_date = bd_pub_date b, fi_size = bd_size b\<rparr>)"

datatype field = NoField | TitleField | GuidField | DateField | LinkField

definition local_name :: "string \<Rightarrow> string" where
  "local_name raw = to_lower (last (split_on (CHR '':'') raw))"

definition looks_like_torrent :: "string \<Rightarrow> string option \<Rightarrow> bool" where
  "looks_like_torrent url ty =
     (let u = to_lower url in
      prefix ''magnet:'' u \<or> suffix ''.torrent'' (takeWhile (\<lambda>c. c \<noteq> CHR ''?'' \<and> c \<noteq> CHR ''#'') u) \<or>
      (case ty of None \<Rightarrow> False | Some t \<Rightarrow> str_contains (to_lower t) ''bittorrent''))"

type_synonym three_attrs = "string option \<times> string option \<times> int option"

fun enclosure_attr :: "three_attrs \<Rightarrow> string \<times> string \<Rightarrow> three_attrs" where
  "enclosure_attr (url, ty, len) (k, v) =
     (if local_name k = ''url'' then (Some v, ty, len)
      else if local_name k = ''type'' then (url, Some v, len)
      else if local_name k = ''length'' then (url, ty, parse_i64 v)
      else (url, ty, len))"

definition enclosure_attrs :: "(string \<times> string) list \<Rightarrow> three_attrs" where
  "enclosure_attrs attrs = foldl enclosure_attr (None, None, None) attrs"

fun link_attr :: "three_attrs \<Rightarrow> string \<times> string \<Rightarrow> three_attrs" where
  "link_attr (href, rel, len) (k, v) =
     (if local_name k = ''href'' then (Some v, rel, len)
      else if local_name k = ''rel'' then (href, Some (to_lower v), len)
      else if local_name k = ''length'' then (href, rel, parse_i64 v)
      else (href, rel, len))"

definition link_attrs :: "(string \<times> string) list \<Rightarrow> three_attrs" where
  "link_attrs attrs = foldl link_attr (None, None, None) attrs"

definition open_enclosure :: "(string \<times> string) list \<Rightarrow> building \<Rightarrow> building" where
  "open_enclosure attrs b =
     (case enclosure_attrs attrs of
        (Some url, ty, len) \<Rightarrow>
          if looks_like_torrent url ty then b\<lparr>bd_enclosure := Some url, bd_size := len\<rparr> else b
      | _ \<Rightarrow> b)"

definition open_link :: "(string \<times> string) list \<Rightarrow> building \<Rightarrow> building \<times> field" where
  "open_link attrs b =
     (case link_attrs attrs of
        (Some href, rel, len) \<Rightarrow>
          (if rel = Some ''enclosure''
           then b\<lparr>bd_enclosure := Some href, bd_size := or_else (bd_size b) len\<rparr>
           else if bd_plain b = None then b\<lparr>bd_plain := Some href\<rparr> else b, NoField)
      | (None, _, _) \<Rightarrow> (b, LinkField))"

definition open_element :: "building option \<Rightarrow> string \<Rightarrow> (string \<times> string) list \<Rightarrow> building option \<times> field" where
  "open_element cur name attrs =
     (let n = local_name name in
      if n = ''item'' \<or> n = ''entry'' then (Some new_building, NoField)
      else if n = ''title'' then (cur, TitleField)
      else if n = ''guid'' \<or> n = ''id'' then (cur, GuidField)
      else if n = ''pubdate'' \<or> n = ''published'' \<or> n = ''updated'' then (cur, DateField)
      else if n = ''enclosure'' then (map_option (open_enclosure attrs) cur, NoField)
      else if n = ''link''
      then (case cur of None \<Rightarrow> (None, NoField) | Some b \<Rightarrow> (let (b1, f) = open_link attrs b in (Some b1, f)))
      else (cur, NoField))"

definition push_if_empty :: "string \<Rightarrow> string \<Rightarrow> string" where
  "push_if_empty dst t = (if dst = [] then t else dst)"

definition fill_text :: "field \<Rightarrow> string \<Rightarrow> building \<Rightarrow> building" where
  "fill_text f t b =
     (case f of
        TitleField \<Rightarrow> b\<lparr>bd_title := push_if_empty (bd_title b) t\<rparr>
      | GuidField \<Rightarrow> b\<lparr>bd_guid := push_if_empty (bd_guid b) t\<rparr>
      | DateField \<Rightarrow> b\<lparr>bd_pub_date := push_if_empty (bd_pub_date b) t\<rparr>
      | LinkField \<Rightarrow> if bd_plain b = None then b\<lparr>bd_plain := Some t\<rparr> else b
      | NoField \<Rightarrow> b)"

text \<open>CDATA does not fill a date.\<close>

definition fill_cdata :: "field \<Rightarrow> string \<Rightarrow> building \<Rightarrow> building" where
  "fill_cdata f t b = (if f = DateField then b else fill_text f t b)"

record feed_state =
  fs_cur :: "building option"
  fs_field :: field
  fs_items :: "feed_item list"

definition close_item :: "feed_state \<Rightarrow> feed_state" where
  "close_item st =
     (case Option.bind (fs_cur st) finish_building of
        Some item \<Rightarrow> st\<lparr>fs_cur := None, fs_field := NoField, fs_items := fs_items st @ [item]\<rparr>
      | None \<Rightarrow> st\<lparr>fs_cur := None, fs_field := NoField\<rparr>)"

fun feed_step :: "feed_state \<Rightarrow> feed_event \<Rightarrow> feed_state" where
  "feed_step st (FStart name attrs) = (let (cur, f) = open_element (fs_cur st) name attrs in st\<lparr>fs_cur := cur, fs_field := f\<rparr>)"
| "feed_step st (FEmpty name attrs) = (let (cur, _) = open_element (fs_cur st) name attrs in st\<lparr>fs_cur := cur, fs_field := NoField\<rparr>)"
| "feed_step st (FText t) =
     (if trim t = [] then st else st\<lparr>fs_cur := map_option (fill_text (fs_field st) (trim t)) (fs_cur st)\<rparr>)"
| "feed_step st (FCData t) =
     (if trim t = [] then st else st\<lparr>fs_cur := map_option (fill_cdata (fs_field st) (trim t)) (fs_cur st)\<rparr>)"
| "feed_step st (FEnd name) =
     (let n = local_name name in if n = ''item'' \<or> n = ''entry'' then close_item st else st\<lparr>fs_field := NoField\<rparr>)"
| "feed_step st FOther = st"
| "feed_step st FBad = st"

fun feed_run :: "feed_state \<Rightarrow> feed_event list \<Rightarrow> feed_item list" where
  "feed_run st [] = fs_items st"
| "feed_run st (ev # evs) = (if ev = FBad then fs_items st else feed_run (feed_step st ev) evs)"

definition parse_feed :: "feed_event list \<Rightarrow> feed_item list" where
  "parse_feed evs = feed_run \<lparr>fs_cur = None, fs_field = NoField, fs_items = []\<rparr> evs"

section \<open>What every item has\<close>

definition usable_item :: "feed_item \<Rightarrow> bool" where
  "usable_item i \<longleftrightarrow> fi_link i \<noteq> [] \<and> fi_guid i \<noteq> []"

lemma finish_usable: "finish_building b = Some i \<Longrightarrow> usable_item i"
  by (auto simp: finish_building_def usable_item_def Let_def split: if_splits)

lemma step_usable: "list_all usable_item (fs_items st) \<Longrightarrow> list_all usable_item (fs_items (feed_step st ev))"
  by (cases ev) (auto simp: close_item_def finish_usable Let_def bind_eq_Some_conv split: option.splits prod.splits)

lemma run_usable: "list_all usable_item (fs_items st) \<Longrightarrow> list_all usable_item (feed_run st evs)"
  by (induction evs arbitrary: st) (simp_all add: step_usable)

lemma step_keeps: "\<exists>more_items. fs_items (feed_step st ev) = fs_items st @ more_items"
  by (cases ev) (auto simp: close_item_def Let_def split: option.splits prod.splits)

lemma run_keeps: "\<exists>more_items. feed_run st evs = fs_items st @ more_items"
proof (induction evs arbitrary: st)
  case (Cons ev evs)
  obtain xs where "fs_items (feed_step st ev) = fs_items st @ xs" using step_keeps by blast
  with Cons.IH [of "feed_step st ev"] show ?case by auto
qed simp

section \<open>Documents and their items\<close>

text \<open>An item as an RSS or an Atom document writes it, its address in a torrent enclosure or in a plain link.\<close>

datatype style = RssEnclosure | RssLink | AtomEnclosure | AtomLink

definition leaf :: "string \<Rightarrow> string \<Rightarrow> feed_event list" where
  "leaf name t = FStart name [] # (if t = [] then [] else [FText t]) @ [FEnd name]"

definition size_attr :: "feed_item \<Rightarrow> (string \<times> string) list" where
  "size_attr i = (case fi_size i of None \<Rightarrow> [] | Some n \<Rightarrow> [(''length'', show_int n)])"

fun item_doc :: "style \<Rightarrow> feed_item \<Rightarrow> feed_event list" where
  "item_doc RssEnclosure i =
     [FStart ''item'' []] @ leaf ''title'' (fi_title i) @ leaf ''guid'' (fi_guid i) @ leaf ''pubDate'' (fi_pub_date i) @
     [FEmpty ''enclosure'' ([(''url'', fi_link i)] @ size_attr i @ [(''type'', ''application/x-bittorrent'')]), FEnd ''item'']"
| "item_doc RssLink i =
     [FStart ''item'' []] @ leaf ''title'' (fi_title i) @ leaf ''link'' (fi_link i) @ leaf ''guid'' (fi_guid i) @
     leaf ''pubDate'' (fi_pub_date i) @ [FEnd ''item'']"
| "item_doc AtomEnclosure i =
     [FStart ''entry'' []] @ leaf ''title'' (fi_title i) @ [FEmpty ''link'' [(''href'', ''http://site.example/page'')]] @
     [FEmpty ''link'' ([(''rel'', ''enclosure''), (''href'', fi_link i)] @ size_attr i)] @ leaf ''id'' (fi_guid i) @
     leaf ''updated'' (fi_pub_date i) @ [FEnd ''entry'']"
| "item_doc AtomLink i =
     [FStart ''entry'' []] @ leaf ''title'' (fi_title i) @ [FEmpty ''link'' [(''href'', fi_link i)]] @ leaf ''id'' (fi_guid i) @
     leaf ''updated'' (fi_pub_date i) @ [FEnd ''entry'']"

definition writable :: "style \<Rightarrow> feed_item \<Rightarrow> bool" where
  "writable s i \<longleftrightarrow> usable_item i \<and> trim (fi_title i) = fi_title i \<and> trim (fi_guid i) = fi_guid i \<and>
     trim (fi_pub_date i) = fi_pub_date i \<and> trim (fi_link i) = fi_link i \<and>
     (case fi_size i of None \<Rightarrow> True | Some n \<Rightarrow> i64_ok n \<and> (s = RssEnclosure \<or> s = AtomEnclosure))"

definition feed_doc :: "string \<Rightarrow> (style \<times> feed_item) list \<Rightarrow> feed_event list" where
  "feed_doc name items =
     [FOther, FStart ''rss'' [], FStart ''channel'' []] @ leaf ''title'' name @ leaf ''link'' ''http://site.example'' @
     concat (map (\<lambda>(s, i). item_doc s i) items) @ [FEnd ''channel'', FEnd ''rss'']"

section \<open>Reading what was written\<close>

definition feed_fold :: "feed_state \<Rightarrow> feed_event list \<Rightarrow> feed_state" where
  "feed_fold st evs = foldl feed_step st evs"

lemma feed_fold_simps [simp]:
  "feed_fold st [] = st"
  "feed_fold st (e # es) = feed_fold (feed_step st e) es"
  "feed_fold st (xs @ ys) = feed_fold (feed_fold st xs) ys"
  by (simp_all add: feed_fold_def)

lemma run_append: "FBad \<notin> set xs \<Longrightarrow> feed_run st (xs @ ys) = feed_run (feed_fold st xs) ys"
  by (induction xs arbitrary: st) auto

lemma local_names [simp]:
  "local_name ''item'' = ''item''" "local_name ''entry'' = ''entry''" "local_name ''title'' = ''title''"
  "local_name ''guid'' = ''guid''" "local_name ''id'' = ''id''" "local_name ''pubDate'' = ''pubdate''"
  "local_name ''updated'' = ''updated''" "local_name ''link'' = ''link''" "local_name ''enclosure'' = ''enclosure''"
  "local_name ''rss'' = ''rss''" "local_name ''channel'' = ''channel''" "local_name ''url'' = ''url''"
  "local_name ''type'' = ''type''" "local_name ''length'' = ''length''" "local_name ''href'' = ''href''" "local_name ''rel'' = ''rel''"
  by code_simp+

lemma lower_enclosure [simp]: "to_lower ''enclosure'' = ''enclosure''"
  by code_simp

lemma bittorrent_type [simp]: "looks_like_torrent u (Some ''application/x-bittorrent'')"
proof -
  have "str_contains (to_lower ''application/x-bittorrent'') ''bittorrent''" by code_simp
  then show ?thesis by (simp add: looks_like_torrent_def Let_def)
qed

lemma leaf_outside: "fs_cur st = None \<Longrightarrow> local_name n = ''title'' \<or> local_name n = ''link'' \<Longrightarrow>
    feed_fold st (leaf n t) = st\<lparr>fs_field := NoField\<rparr>"
  by (auto simp: leaf_def open_element_def Let_def)

lemma leaf_title: "bd_title b = [] \<Longrightarrow> trim t = t \<Longrightarrow>
    feed_fold \<lparr>fs_cur = Some b, fs_field = f, fs_items = xs\<rparr> (leaf ''title'' t) =
      \<lparr>fs_cur = Some (b\<lparr>bd_title := t\<rparr>), fs_field = NoField, fs_items = xs\<rparr>"
  by (cases b) (auto simp: leaf_def open_element_def fill_text_def push_if_empty_def Let_def)

lemma leaf_guid: "bd_guid b = [] \<Longrightarrow> trim t = t \<Longrightarrow> n = ''guid'' \<or> n = ''id'' \<Longrightarrow>
    feed_fold \<lparr>fs_cur = Some b, fs_field = f, fs_items = xs\<rparr> (leaf n t) =
      \<lparr>fs_cur = Some (b\<lparr>bd_guid := t\<rparr>), fs_field = NoField, fs_items = xs\<rparr>"
  by (cases b) (auto simp: leaf_def open_element_def fill_text_def push_if_empty_def Let_def)

lemma leaf_date: "bd_pub_date b = [] \<Longrightarrow> trim t = t \<Longrightarrow> n = ''pubDate'' \<or> n = ''updated'' \<Longrightarrow>
    feed_fold \<lparr>fs_cur = Some b, fs_field = f, fs_items = xs\<rparr> (leaf n t) =
      \<lparr>fs_cur = Some (b\<lparr>bd_pub_date := t\<rparr>), fs_field = NoField, fs_items = xs\<rparr>"
  by (cases b) (auto simp: leaf_def open_element_def fill_text_def push_if_empty_def Let_def)

lemma leaf_link: "bd_plain b = None \<Longrightarrow> trim t = t \<Longrightarrow> t \<noteq> [] \<Longrightarrow>
    feed_fold \<lparr>fs_cur = Some b, fs_field = f, fs_items = xs\<rparr> (leaf ''link'' t) =
      \<lparr>fs_cur = Some (b\<lparr>bd_plain := Some t\<rparr>), fs_field = NoField, fs_items = xs\<rparr>"
  by (cases b) (auto simp: leaf_def open_element_def open_link_def link_attrs_def fill_text_def Let_def)

lemmas read_leaf = leaf_title leaf_guid leaf_date leaf_link

lemma size_attr_read:
  assumes "case fi_size i of None \<Rightarrow> True | Some n \<Rightarrow> i64_ok n"
  shows "foldl enclosure_attr (url, ty, None) (size_attr i) = (url, ty, fi_size i)"
    and "foldl link_attr (url, ty, None) (size_attr i) = (url, ty, fi_size i)"
  using assms by (auto simp: size_attr_def split: option.splits)

lemma read_item:
  assumes "writable s i"
  shows "feed_fold \<lparr>fs_cur = None, fs_field = f, fs_items = xs\<rparr> (item_doc s i) =
    \<lparr>fs_cur = None, fs_field = NoField, fs_items = xs @ [i]\<rparr>"
proof -
  have ok: "case fi_size i of None \<Rightarrow> True | Some n \<Rightarrow> i64_ok n" "trim (fi_title i) = fi_title i" "trim (fi_guid i) = fi_guid i"
    "trim (fi_pub_date i) = fi_pub_date i" "trim (fi_link i) = fi_link i" "fi_link i \<noteq> []" "fi_guid i \<noteq> []"
    using assms by (auto simp: writable_def usable_item_def split: option.splits)
  have unsized: "s = RssLink \<or> s = AtomLink \<Longrightarrow> fi_size i = None"
    using assms by (auto simp: writable_def split: option.splits)
  show ?thesis
    by (cases s; cases i)
       (use ok unsized in \<open>simp_all add: read_leaf size_attr_read open_element_def open_enclosure_def enclosure_attrs_def open_link_def
          link_attrs_def new_building_def close_item_def finish_building_def or_else_def Let_def\<close>)
qed

lemma read_items: "list_all (\<lambda>(s, i). writable s i) items \<Longrightarrow>
    fs_items (feed_fold \<lparr>fs_cur = None, fs_field = NoField, fs_items = xs\<rparr> (concat (map (\<lambda>(s, i). item_doc s i) items))) =
    xs @ map snd items"
proof (induction items arbitrary: xs)
  case (Cons p items)
  obtain s i where p: "p = (s, i)" by (cases p)
  with Cons.prems have "writable s i" by simp
  with Cons p show ?case by (simp add: read_item)
qed simp

lemma item_doc_clean: "FBad \<notin> set (item_doc s i)"
  by (cases s) (auto simp: leaf_def)

lemma end_keeps: "local_name n \<noteq> ''item'' \<Longrightarrow> local_name n \<noteq> ''entry'' \<Longrightarrow> fs_items (feed_step st (FEnd n)) = fs_items st"
  by (simp add: Let_def)


definition sample_feed :: "(style \<times> feed_item) list" where
  "sample_feed =
     [(RssEnclosure, \<lparr>fi_title = ''Show S01E02 720p'', fi_link = ''http://x.example/a.torrent'', fi_guid = ''a'', fi_pub_date = ''today'', fi_size = Some 700\<rparr>),
      (RssLink, \<lparr>fi_title = ''Other'', fi_link = ''http://x.example/b'', fi_guid = ''b'', fi_pub_date = [], fi_size = None\<rparr>),
      (AtomEnclosure, \<lparr>fi_title = ''Third'', fi_link = ''magnet:?xt=1'', fi_guid = ''c'', fi_pub_date = ''now'', fi_size = None\<rparr>)]"


text \<open>Whatever the events, every item read has an address and an id.\<close>

lemma parsed_usable: "list_all usable_item (parse_feed evs)"
  unfolding parse_feed_def by (rule run_usable) simp

text \<open>What the reader drops: a date in CDATA stays empty, and an address in an attribute keeps its escapes.\<close>

lemma cdata_date_dropped:
  "map fi_pub_date (parse_feed ([FStart ''item'' []] @ leaf ''link'' ''http://x.example/b'' @
     [FStart ''pubDate'' [], FCData ''today'', FEnd ''pubDate'', FEnd ''item''])) = [[]]"
  by code_simp

lemma attribute_escapes_kept:
  "map fi_link (parse_feed [FStart ''item'' [], FEmpty ''enclosure'' [(''url'', ''http://x.example/get?id=1&amp;key=2''),
     (''type'', ''application/x-bittorrent'')], FEnd ''item'']) = [''http://x.example/get?id=1&amp;key=2'']"
  by code_simp

end
