(* ===== verification/Rss_Runner.thy ===== *)
theory Rss_Runner
  imports Rss
begin

text \<open>
  The desktop's RSS loop (\<open>Runner\<close> in \<open>crates/gpui/src/rss.rs\<close>): one pass fetches the feeds some due rule reads,
  plans with the engine of \<open>Rss\<close>, adds each planned item, remembers the added ids and logs. The network and the
  daemon are the environment of a pass: what a fetch gives, what the daemon answers to an add (a function
  of the calls made so far), and what the seen file reads back as after a write.
\<close>

record add_options =
  ao_save_path :: string
  ao_label :: string
  ao_start :: bool
  ao_top_of_queue :: bool
  ao_sequential :: bool
  ao_skip_hash_check :: bool
  ao_unselected :: "nat list"

record label_default =
  ld_label :: string
  ld_save_path :: string

record rss_settings =
  rst_feeds :: "feed list"
  rst_rules :: "rss_rule list"
  rst_poll_minutes :: int
  rst_label_defaults :: "label_default list"
  rst_default_save_path :: string

datatype log_level = InfoLevel | WarnLevel

record rss_log =
  rl_level :: log_level
  rl_message :: string

datatype runner_call =
    AddMagnet string add_options
  | SetTags "string list" "string list"
  | RetryNow

record tick_env =
  te_now :: int
  te_fetch :: "string \<Rightarrow> string + feed_item list"
  te_add :: "runner_call list \<Rightarrow> string option"
  te_disk :: "string list \<Rightarrow> string list option"

record runner =
  rn_seen :: "string list"
  rn_engine :: engine_state
  rn_disk :: "string list option"

text \<open>\<open>load_seen\<close>: an absent or unreadable file is no ids.\<close>

definition load_seen :: "string list option \<Rightarrow> string list" where
  "load_seen file = (case file of Some l \<Rightarrow> l | None \<Rightarrow> [])"

definition new_runner :: "string list option \<Rightarrow> runner" where
  "new_runner file = \<lparr>rn_seen = load_seen file, rn_engine = \<lparr>es_last_run = Map.empty, es_warned = [], es_pending = []\<rparr>, rn_disk = file\<rparr>"

definition clear_seen :: "(string list \<Rightarrow> string list option) \<Rightarrow> runner \<Rightarrow> runner" where
  "clear_seen disk rn = rn\<lparr>rn_seen := [], rn_disk := disk (save_seen [])\<rparr>"

definition save_path_for_label :: "rss_settings \<Rightarrow> string \<Rightarrow> string" where
  "save_path_for_label cfg label =
     (case find (\<lambda>d. ld_label d = label \<and> ld_save_path d \<noteq> []) (rst_label_defaults cfg) of
        Some d \<Rightarrow> ld_save_path d
      | None \<Rightarrow> rst_default_save_path cfg)"

definition feed_wanted :: "rss_settings \<Rightarrow> engine_state \<Rightarrow> int \<Rightarrow> feed \<Rightarrow> bool" where
  "feed_wanted cfg st now fd \<longleftrightarrow>
     list_ex (\<lambda>r. ru_enabled r \<and> (ru_feed_id r = [] \<or> ru_feed_id r = fd_id fd) \<and> engine_due st r (rst_poll_minutes cfg) now)
       (rst_rules cfg)"

fun fetch_feeds :: "(string \<Rightarrow> string + feed_item list) \<Rightarrow> feed list \<Rightarrow> fetched \<times> rss_log list" where
  "fetch_feeds get [] = ([], [])"
| "fetch_feeds get (fd # fds) =
     (let (got, logs) = fetch_feeds get fds in
      case get (fd_url fd) of
        Inr items \<Rightarrow> ((fd, items) # got, logs)
      | Inl err \<Rightarrow> (got, \<lparr>rl_level = WarnLevel, rl_message = ''rss: '' @ fd_name fd @ '' failed: '' @ err\<rparr> # logs))"

definition options_of :: "rss_settings \<Rightarrow> rss_rule \<Rightarrow> add_options" where
  "options_of cfg rule =
     \<lparr>ao_save_path = (if ru_save_path rule = [] then save_path_for_label cfg (ru_label rule) else ru_save_path rule),
      ao_label = ru_label rule, ao_start = ru_start rule, ao_top_of_queue = ru_top_of_queue rule,
      ao_sequential = False, ao_skip_hash_check = False, ao_unselected = []\<rparr>"

text \<open>The loop over the planned adds: the calls made, the attempts with their outcome, and the log.\<close>

record add_run =
  ar_calls :: "runner_call list"
  ar_tried :: "(string \<times> bool) list"
  ar_logs :: "rss_log list"

definition tag_call :: "rss_rule \<Rightarrow> feed_item \<Rightarrow> runner_call list" where
  "tag_call rule item =
     (case magnet_hash (fi_link item) of
        Some h \<Rightarrow> if ru_tags rule \<noteq> [] then [SetTags [h] (ru_tags rule)] else []
      | None \<Rightarrow> [])"

definition add_planned :: "rss_settings \<Rightarrow> (runner_call list \<Rightarrow> string option) \<Rightarrow> add_run \<Rightarrow> planned_add \<Rightarrow> add_run" where
  "add_planned cfg answer a p =
     (let (rule, item) = p; calls = ar_calls a @ [AddMagnet (fi_link item) (options_of cfg rule)] in
      case answer calls of
        None \<Rightarrow>
          \<lparr>ar_calls = calls @ tag_call rule item, ar_tried = ar_tried a @ [(fi_guid item, True)],
           ar_logs = ar_logs a @ [\<lparr>rl_level = InfoLevel, rl_message =
             ''rss: added \"'' @ fi_title item @ ''\" (rule: '' @ ru_name rule @ '')''\<rparr>]\<rparr>
      | Some err \<Rightarrow>
          \<lparr>ar_calls = calls, ar_tried = ar_tried a @ [(fi_guid item, False)],
           ar_logs = ar_logs a @ [\<lparr>rl_level = WarnLevel, rl_message =
             ''rss: could not add \"'' @ fi_title item @ ''\": '' @ err\<rparr>]\<rparr>)"

definition added_ids :: "(string \<times> bool) list \<Rightarrow> string list" where
  "added_ids tried = map fst (filter snd tried)"

definition warning_log :: "string \<times> string \<Rightarrow> rss_log" where
  "warning_log w = \<lparr>rl_level = WarnLevel, rl_message =
     ''rss: rule \"'' @ fst w @ ''\" has an invalid regex '' @ quoted (snd w) @ '' - it matches nothing''\<rparr>"

record tick_out =
  to_calls :: "runner_call list"
  to_tried :: "(string \<times> bool) list"
  to_logs :: "rss_log list"

definition runner_tick :: "regex_engine \<Rightarrow> rss_settings \<Rightarrow> tick_env \<Rightarrow> runner \<Rightarrow> tick_out \<times> runner" where
  "runner_tick compile cfg env rn =
     (let now = te_now env;
          (got, logs) = fetch_feeds (te_fetch env)
            (filter (feed_wanted cfg (rn_engine rn) now) (filter fd_enabled (rst_feeds cfg)));
          (planned, st1) = plan compile got (rst_rules cfg) (set (rn_seen rn)) (rn_engine rn) (rst_poll_minutes cfg) now;
          a = foldl (add_planned cfg (te_add env)) \<lparr>ar_calls = [], ar_tried = [], ar_logs = []\<rparr> planned;
          seen = rn_seen rn @ added_ids (ar_tried a);
          (warnings, st2) = take_warnings st1;
          out = \<lparr>to_calls = ar_calls a, to_tried = ar_tried a, to_logs = logs @ ar_logs a @ map warning_log warnings\<rparr>
      in if added_ids (ar_tried a) = [] then (out, rn\<lparr>rn_seen := seen, rn_engine := st2\<rparr>)
         else (let kept = save_seen seen in
               (out\<lparr>to_calls := ar_calls a @ [RetryNow]\<rparr>,
                rn\<lparr>rn_seen := kept, rn_engine := st2, rn_disk := te_disk env (save_seen kept)\<rparr>)))"

text \<open>What happens to the runner from outside: a pass, the user's clearing of the memory, a restart of the program.\<close>

datatype runner_input =
    Pass rss_settings tick_env
  | ClearSeen "string list \<Rightarrow> string list option"
  | Restart

fun runner_step :: "regex_engine \<Rightarrow> runner_input \<Rightarrow> runner \<Rightarrow> (string \<times> bool) list \<times> runner" where
  "runner_step compile (Pass cfg env) rn = (let (out, rn') = runner_tick compile cfg env rn in (to_tried out, rn'))"
| "runner_step compile (ClearSeen disk) rn = ([], clear_seen disk rn)"
| "runner_step compile Restart rn = ([], new_runner (rn_disk rn))"

section \<open>What a pass tries\<close>

lemma tried_ids: "map fst (ar_tried (foldl (add_planned cfg answer) a planned)) = map fst (ar_tried a) @ map (fi_guid \<circ> snd) planned"
  by (induction planned arbitrary: a) (auto simp: add_planned_def Let_def split: option.splits prod.splits)

lemma scan_item_unseen:
  "fi_guid ` set (fst cs) \<inter> seen = {} \<Longrightarrow> fi_guid ` set (fst (scan_item compile rule seen cs item)) \<inter> seen = {}"
  by (auto simp: scan_item_def split: verdict.splits)

lemma scan_items_unseen:
  "fi_guid ` set (fst cs) \<inter> seen = {} \<Longrightarrow> fi_guid ` set (fst (foldl (scan_item compile rule seen) cs items)) \<inter> seen = {}"
  by (induction items arbitrary: cs) (simp_all add: scan_item_unseen)

lemma scan_feeds_unseen: "fi_guid ` set (fst (scan_feeds compile rule seen feeds st)) \<inter> seen = {}"
proof -
  have "fi_guid ` set (fst cs) \<inter> seen = {} \<Longrightarrow> fi_guid ` set (fst (foldl (\<lambda>cs (fd, items).
      if \<not> in_scope rule fd then cs else foldl (scan_item compile rule seen) cs items) cs feeds)) \<inter> seen = {}" for cs
    by (induction feeds arbitrary: cs) (auto simp: scan_items_unseen split: prod.splits)
  from this [of "([], st)"] show ?thesis by (simp add: scan_feeds_def)
qed

lemma deduped_unseen: "(\<lambda>p. fi_guid (snd p)) ` set (candidates_deduped rule feeds seen winners) \<inter> seen = {}"
  by (auto simp: candidates_deduped_def split: if_splits)

lemma plan_rule_unseen:
  assumes "(\<lambda>p. fi_guid (snd p)) ` set (fst ps) \<inter> seen = {}"
  shows "(\<lambda>p. fi_guid (snd p)) ` set (fst (plan_rule compile feeds seen g now ps rule)) \<inter> seen = {}"
proof -
  have "(\<lambda>p. fi_guid (snd p)) ` set (map (Pair rule) (fst (scan_feeds compile rule seen feeds st))) \<inter> seen = {}" for st
    using scan_feeds_unseen [of compile rule seen feeds st] by (auto simp: image_iff)
  then show ?thesis
    using assms deduped_unseen [of rule feeds seen] by (simp add: plan_rule_def Let_def split_def image_Un Int_Un_distrib2)
qed

lemma plan_unseen: "(\<lambda>p. fi_guid (snd p)) ` set (fst (plan compile feeds rules seen st g now)) \<inter> seen = {}"
proof -
  have "(\<lambda>p. fi_guid (snd p)) ` set (fst ps) \<inter> seen = {} \<Longrightarrow>
      (\<lambda>p. fi_guid (snd p)) ` set (fst (foldl (plan_rule compile feeds seen g now) ps rules)) \<inter> seen = {}" for ps
    by (induction rules arbitrary: ps) (simp_all add: plan_rule_unseen)
  then show ?thesis by (simp add: plan_def)
qed

lemma tick_tries_unseen: "fst ` set (to_tried (fst (runner_tick compile cfg env rn))) \<inter> set (rn_seen rn) = {}"
proof -
  have "fst ` set (ar_tried (foldl (add_planned cfg answer) \<lparr>ar_calls = [], ar_tried = [], ar_logs = []\<rparr>
      (fst (plan compile feeds rules (set (rn_seen rn)) st g now)))) \<inter> set (rn_seen rn) = {}" for answer feeds rules st g now
    using plan_unseen [of compile feeds rules "set (rn_seen rn)" st g now]
      arg_cong [OF tried_ids [of cfg answer "\<lparr>ar_calls = [], ar_tried = [], ar_logs = []\<rparr>"], of set] by simp
  then show ?thesis by (simp add: runner_tick_def Let_def split_def)
qed

section \<open>Over many passes\<close>

definition pass_adds :: "regex_engine \<Rightarrow> rss_settings \<Rightarrow> tick_env \<Rightarrow> runner \<Rightarrow> string list" where
  "pass_adds compile cfg env rn = added_ids (to_tried (fst (runner_tick compile cfg env rn)))"

text \<open>
  Within the cap: the file can be written, what is remembered after a pass is at most \<open>seen_cap\<close> ids, and the user does
  not clear the memory.
\<close>

fun within_cap :: "regex_engine \<Rightarrow> runner \<Rightarrow> runner_input \<Rightarrow> bool" where
  "within_cap compile rn (Pass cfg env) \<longleftrightarrow>
     length (rn_seen rn) + length (pass_adds compile cfg env rn) \<le> seen_cap \<and>
     te_disk env (rn_seen rn @ pass_adds compile cfg env rn) = Some (rn_seen rn @ pass_adds compile cfg env rn)"
| "within_cap compile rn (ClearSeen disk) \<longleftrightarrow> False"
| "within_cap compile rn Restart \<longleftrightarrow> True"

definition remembers :: "string set \<Rightarrow> runner \<Rightarrow> bool" where
  "remembers A rn \<longleftrightarrow> A \<subseteq> set (rn_seen rn) \<and> load_seen (rn_disk rn) = rn_seen rn"

definition avoids :: "string set \<Rightarrow> (string \<times> bool) list \<Rightarrow> bool" where
  "avoids A tried \<longleftrightarrow> fst ` set tried \<inter> A = {}"

lemma tick_seen:
  assumes "within_cap compile rn (Pass cfg env)" "load_seen (rn_disk rn) = rn_seen rn"
  shows "rn_seen (snd (runner_tick compile cfg env rn)) = rn_seen rn @ pass_adds compile cfg env rn"
    and "load_seen (rn_disk (snd (runner_tick compile cfg env rn))) = rn_seen rn @ pass_adds compile cfg env rn"
proof -
  have short: "save_seen xs = xs" if "length xs \<le> seen_cap" for xs using that by (simp add: save_seen_def)
  have tried: "to_tried (fst (runner_tick compile cfg env rn)) =
      ar_tried (foldl (add_planned cfg (te_add env)) \<lparr>ar_calls = [], ar_tried = [], ar_logs = []\<rparr>
        (fst (plan compile (fst (fetch_feeds (te_fetch env) (filter (feed_wanted cfg (rn_engine rn) (te_now env)) (filter fd_enabled (rst_feeds cfg)))))
          (rst_rules cfg) (set (rn_seen rn)) (rn_engine rn) (rst_poll_minutes cfg) (te_now env))))"
    by (simp add: runner_tick_def Let_def split_def)
  have new: "rn_seen (snd (runner_tick compile cfg env rn)) =
        (if pass_adds compile cfg env rn = [] then rn_seen rn else save_seen (rn_seen rn @ pass_adds compile cfg env rn)) \<and>
      rn_disk (snd (runner_tick compile cfg env rn)) =
        (if pass_adds compile cfg env rn = [] then rn_disk rn
         else te_disk env (save_seen (save_seen (rn_seen rn @ pass_adds compile cfg env rn))))"
    unfolding pass_adds_def tried by (simp add: runner_tick_def Let_def split_def)
  show "rn_seen (snd (runner_tick compile cfg env rn)) = rn_seen rn @ pass_adds compile cfg env rn"
    and "load_seen (rn_disk (snd (runner_tick compile cfg env rn))) = rn_seen rn @ pass_adds compile cfg env rn"
    using new assms by (simp_all add: short load_seen_def)
qed

interpretation seen_kept: keeps_invariant "runner_step compile" "within_cap compile" "remembers A" "avoids A"
  for compile A
proof
  fix rn inp assume ok: "within_cap compile rn inp" and inv: "remembers A rn"
  from inv have "load_seen (rn_disk rn) = rn_seen rn" by (simp add: remembers_def)
  with ok inv show "remembers A (snd (runner_step compile inp rn))"
    by (cases inp) (auto simp: remembers_def new_runner_def tick_seen split_def Let_def simp del: within_cap.simps(1))
  show "avoids A (fst (runner_step compile inp rn))"
    using inv tick_tries_unseen [of compile _ _ rn] by (cases inp) (fastforce simp: remembers_def avoids_def split_def Let_def)+
qed

lemma step_remembers:
  assumes "within_cap compile rn inp" "remembers {} rn"
  shows "remembers (set (added_ids (fst (runner_step compile inp rn)))) (snd (runner_step compile inp rn))"
proof (cases inp)
  case (Pass cfg env)
  with assms tick_seen [of compile rn cfg env] show ?thesis
    by (simp add: remembers_def split_def pass_adds_def Let_def del: within_cap.simps)
qed (use assms in \<open>auto simp: remembers_def added_ids_def new_runner_def\<close>)

text \<open>Property C40. An item is not added twice. Over any sequence of passes and restarts, under any settings, feeds and
  answers of the daemon, an id whose item was added in one pass is not even tried in a later one, as long as the seen
  file can be written, at most 2000 ids are remembered and the user does not clear them.
\<close>

theorem added_once:
  assumes "admissible_run (runner_step compile) (within_cap compile) (new_runner file) inputs"
  shows "sorted_wrt (\<lambda>early late. avoids (set (added_ids early)) late)
    (fst (run_steps (runner_step compile) (new_runner file) inputs))"
proof -
  have "sorted_wrt (\<lambda>early late. avoids (set (added_ids early)) late) (fst (run_steps (runner_step compile) rn inputs))"
    if "remembers {} rn" "admissible_run (runner_step compile) (within_cap compile) rn inputs" for rn inputs
    using that
  proof (induction inputs arbitrary: rn)
    case (Cons inp inputs)
    let ?s = "runner_step compile inp rn"
    have run: "admissible_run (runner_step compile) (within_cap compile) (snd ?s) inputs" using Cons.prems by simp
    have kept: "remembers (set (added_ids (fst ?s))) (snd ?s)" using Cons.prems step_remembers by simp
    then have "remembers {} (snd ?s)" by (simp add: remembers_def)
    from Cons.IH [OF this run] seen_kept.safe_run [OF run kept] show ?case by (simp add: split_def Let_def list_all_iff)
  qed simp
  moreover have "remembers {} (new_runner file)" by (simp add: remembers_def new_runner_def)
  ultimately show ?thesis using assms by blast
qed

definition sample_settings :: rss_settings where
  "sample_settings = \<lparr>rst_feeds = [\<lparr>fd_id = ''f'', fd_name = ''F'', fd_url = ''u'', fd_enabled = True\<rparr>],
     rst_rules = [smart_rule], rst_poll_minutes = 30, rst_label_defaults = [], rst_default_save_path = ''/downloads''\<rparr>"

definition sample_env :: "int \<Rightarrow> tick_env" where
  "sample_env now = \<lparr>te_now = now, te_fetch = (\<lambda>url. if url = ''u'' then Inr two_releases else Inl ''no host''),
     te_add = (\<lambda>calls. None), te_disk = Some\<rparr>"

text \<open>Two passes over one feed, a restart between them: the better release is added first, the other one in the second pass.\<close>

theorem added_once_witness:
  "fst (run_steps (runner_step no_regex) (new_runner None) [Pass sample_settings (sample_env 0), Restart, Pass sample_settings (sample_env 5)])
     = [[(''B'', True)], [], [(''A'', True)]] \<and>
   sorted_wrt (\<lambda>early late. avoids (set (added_ids early)) late)
     (fst (run_steps (runner_step no_regex) (new_runner None) [Pass sample_settings (sample_env 0), Restart, Pass sample_settings (sample_env 5)]))"
proof
  let ?is = "[Pass sample_settings (sample_env 0), Restart, Pass sample_settings (sample_env 5)]"
  show "fst (run_steps (runner_step no_regex) (new_runner None) ?is) = [[(''B'', True)], [], [(''A'', True)]]"
    by code_simp
  have adds: "pass_adds no_regex sample_settings (sample_env 0) (new_runner None) = [''B'']"
    "pass_adds no_regex sample_settings (sample_env 5) (new_runner (Some [''B''])) = [''A'']"
    by code_simp+
  have disk: "rn_disk (snd (runner_tick no_regex sample_settings (sample_env 0) (new_runner None))) = Some [''B'']"
    by code_simp
  have "admissible_run (runner_step no_regex) (within_cap no_regex) (new_runner None) ?is"
    by (simp add: adds disk split_def Let_def, simp add: new_runner_def load_seen_def seen_cap_def sample_env_def)
  then show "sorted_wrt (\<lambda>early late. avoids (set (added_ids early)) late) (fst (run_steps (runner_step no_regex) (new_runner None) ?is))"
    by (rule added_once)
qed

section \<open>Two surprises\<close>

text \<open>A feed that cannot be fetched still uses up the poll of its rules: they are not due again before their interval.\<close>

lemma failed_fetch_uses_poll:
  "to_calls (fst (runner_tick no_regex sample_settings (sample_env 0\<lparr>te_fetch := \<lambda>url. Inl ''timeout''\<rparr>) (new_runner None))) = [] \<and>
   to_tried (fst (run_steps (\<lambda>env. runner_tick no_regex sample_settings env) (new_runner None)
     [sample_env 0\<lparr>te_fetch := \<lambda>url. Inl ''timeout''\<rparr>, sample_env 899999]) ! 1) = []"
  by code_simp

text \<open>Clearing the memory does not make the rules due: the next pass matches nothing until their intervals have passed.\<close>

lemma cleared_not_rematched:
  "fst (run_steps (runner_step no_regex) (new_runner None)
     [Pass sample_settings (sample_env 0), ClearSeen Some, Pass sample_settings (sample_env 60000)]) = [[(''B'', True)], [], []]"
  by code_simp

end
