(* ===== verification/File_Index.thy ===== *)
theory File_Index
  imports Prelude "HOL-Library.AList"
begin

text \<open>
  The bounded index of file paths for the library search (\<open>crates/rtorrent/src/file_index.rs\<close>): a map from
  upper-cased hashes to lower-cased paths with the order of first insertion, oldest first. The map is an association
  list, whose order nothing depends on. \<open>bounded_index\<close> is the contract the search and the poller rely on; the
  abstract index is the list of entries, oldest first.
\<close>

definition default_capacity :: nat where "default_capacity = 5000"

definition max_paths_per_torrent :: nat where "max_paths_per_torrent = 2000"

record file_index =
  ix_capacity :: nat
  ix_files :: "(string \<times> string list) list"
  ix_order :: "string list"

definition new_index :: "nat \<Rightarrow> file_index" where
  "new_index capacity = \<lparr>ix_capacity = max capacity 1, ix_files = [], ix_order = []\<rparr>"

definition index_size :: "file_index \<Rightarrow> nat" where
  "index_size ix = length (ix_files ix)"

definition is_indexed :: "file_index \<Rightarrow> string \<Rightarrow> bool" where
  "is_indexed ix hash = (map_of (ix_files ix) (to_upper hash) \<noteq> None)"

definition index_contains :: "file_index \<Rightarrow> string \<Rightarrow> string \<Rightarrow> bool" where
  "index_contains ix hash query_lower =
     (if query_lower = [] then True
      else case map_of (ix_files ix) (to_upper hash) of
             Some paths \<Rightarrow> list_ex (\<lambda>p. str_contains p query_lower) paths
           | None \<Rightarrow> False)"

function evict :: "file_index \<Rightarrow> file_index" where
  "evict ix =
     (if length (ix_order ix) > ix_capacity ix
      then (case ix_order ix of
              oldest # rest \<Rightarrow> evict (ix\<lparr>ix_order := rest, ix_files := AList.delete oldest (ix_files ix)\<rparr>)
            | [] \<Rightarrow> ix)
      else ix)"
  by pat_completeness auto
termination
  by (relation "measure (\<lambda>ix. length (ix_order ix))") auto

declare evict.simps [simp del]

definition record_files :: "string \<Rightarrow> string list \<Rightarrow> file_index \<Rightarrow> file_index" where
  "record_files hash paths ix =
     (let h = to_upper hash; lowered = map to_lower (take max_paths_per_torrent paths);
          known = map_of (ix_files ix) h \<noteq> None;
          ix1 = ix\<lparr>ix_files := AList.update h lowered (ix_files ix)\<rparr>
      in evict (if known then ix1 else ix1\<lparr>ix_order := ix_order ix @ [h]\<rparr>))"

definition retain_live :: "string set \<Rightarrow> file_index \<Rightarrow> file_index" where
  "retain_live live ix =
     (let files = filter (\<lambda>(h, _). h \<in> live \<or> to_upper h \<in> live) (ix_files ix) in
      ix\<lparr>ix_files := files, ix_order := filter (\<lambda>h. map_of files h \<noteq> None) (ix_order ix)\<rparr>)"

definition clear_index :: "file_index \<Rightarrow> file_index" where
  "clear_index ix = ix\<lparr>ix_files := [], ix_order := []\<rparr>"

definition needs :: "file_index \<Rightarrow> string list \<Rightarrow> nat \<Rightarrow> string list" where
  "needs ix hashes batch = take batch (filter (\<lambda>h. \<not> is_indexed ix h) hashes)"

section \<open>The invariant\<close>

definition index_ok :: "file_index \<Rightarrow> bool" where
  "index_ok ix \<longleftrightarrow> 0 < ix_capacity ix \<and> distinct (map fst (ix_files ix)) \<and> distinct (ix_order ix) \<and>
     set (ix_order ix) = fst ` set (ix_files ix) \<and> length (ix_order ix) \<le> ix_capacity ix \<and>
     list_all (\<lambda>(h, ps). to_upper h = h \<and> length ps \<le> max_paths_per_torrent) (ix_files ix)"

text \<open>The entries, oldest first.\<close>

definition entries :: "file_index \<Rightarrow> (string \<times> string list) list" where
  "entries ix = map (\<lambda>h. (h, the (map_of (ix_files ix) h))) (ix_order ix)"

lemma index_ok_new: "index_ok (new_index c)"
  by (simp add: index_ok_def new_index_def)

lemma index_ok_clear: "index_ok ix \<Longrightarrow> index_ok (clear_index ix)"
  by (simp add: index_ok_def clear_index_def)

lemma index_ok_retain: "index_ok ix \<Longrightarrow> index_ok (retain_live live ix)"
proof -
  assume ok: "index_ok ix"
  let ?fs = "filter (\<lambda>(h, _). h \<in> live \<or> to_upper h \<in> live) (ix_files ix)"
  have "length (filter (\<lambda>h. map_of ?fs h \<noteq> None) (ix_order ix)) \<le> ix_capacity ix"
    using ok by (auto simp: index_ok_def intro: le_trans [OF length_filter_le])
  moreover have "distinct (map fst ?fs)" using ok by (simp add: index_ok_def distinct_map_filter)
  ultimately show ?thesis
    using ok by (auto simp: index_ok_def retain_live_def Let_def map_of_eq_None_iff list_all_iff simp del: length_filter_le)
qed

text \<open>Before an eviction the order may be over the capacity.\<close>

definition index_pre :: "file_index \<Rightarrow> bool" where
  "index_pre ix \<longleftrightarrow> index_ok (ix\<lparr>ix_capacity := max (ix_capacity ix) (length (ix_order ix))\<rparr>) \<and> 0 < ix_capacity ix"

lemma keys_delete: "map fst (AList.delete k xs) = filter (\<lambda>x. x \<noteq> k) (map fst xs)"
  by (induction xs) (auto simp: AList.delete_eq)

lemma key_set_delete: "fst ` set (AList.delete k xs) = fst ` set xs - {k}"
  using arg_cong [OF keys_delete [of k xs], of set] by auto

lemma set_delete: "set (AList.delete k xs) \<subseteq> set xs"
  by (auto simp: AList.delete_eq)

lemma set_update: "set (AList.update k v xs) \<subseteq> insert (k, v) (set xs)"
  by (induction xs) auto

lemma pre_pop:
  assumes "index_pre ix" "ix_order ix = h # rest"
  shows "index_pre (ix\<lparr>ix_order := rest, ix_files := AList.delete h (ix_files ix)\<rparr>)"
proof -
  have "list_all P (AList.delete h (ix_files ix))" if "list_all P (ix_files ix)" for P
    using that set_delete [of h "ix_files ix"] by (auto simp: list_all_iff)
  then show ?thesis using assms by (auto simp: index_pre_def index_ok_def keys_delete key_set_delete)
qed

lemma evict_spec:
  "index_pre ix \<Longrightarrow> index_ok (evict ix) \<and> ix_capacity (evict ix) = ix_capacity ix \<and>
     entries (evict ix) = drop (length (ix_order ix) - ix_capacity ix) (entries ix)"
proof (induction ix rule: evict.induct)
  case (1 ix)
  show ?case
  proof (cases "length (ix_order ix) > ix_capacity ix")
    case True
    then obtain h rest where order: "ix_order ix = h # rest" by (cases "ix_order ix") auto
    let ?ix = "ix\<lparr>ix_order := rest, ix_files := AList.delete h (ix_files ix)\<rparr>"
    from True order have step: "evict ix = evict ?ix" by (simp add: evict.simps [of ix])
    have "h \<notin> set rest" using 1(2) order by (simp add: index_pre_def index_ok_def)
    then have "entries ?ix = tl (entries ix)"
      by (auto simp: entries_def order AList.delete_conv')
    with 1(1) [OF True order pre_pop [OF 1(2) order]] step True order show ?thesis
      by (simp add: Suc_diff_le drop_Suc)
  next
    case False
    then show ?thesis using 1(2) by (simp add: evict.simps [of ix] index_pre_def max_def)
  qed
qed

text \<open>What recording does to the entries: the entry is replaced in place or appended, and the oldest leave.\<close>

definition put :: "string \<Rightarrow> string list \<Rightarrow> (string \<times> string list) list \<Rightarrow> (string \<times> string list) list" where
  "put h ps es = (if h \<in> fst ` set es then map (\<lambda>(k, v). if k = h then (k, ps) else (k, v)) es else es @ [(h, ps)])"

lemma entries_keys: "map fst (entries ix) = ix_order ix"
  by (simp add: entries_def comp_def)

lemma record_spec:
  assumes "index_ok ix"
  shows "index_ok (record_files hash paths ix) \<and>
    ix_capacity (record_files hash paths ix) = ix_capacity ix \<and>
    entries (record_files hash paths ix) =
      (let es = put (to_upper hash) (map to_lower (take max_paths_per_torrent paths)) (entries ix)
       in drop (length es - ix_capacity ix) es)"
proof -
  let ?h = "to_upper hash" and ?ps = "map to_lower (take max_paths_per_torrent paths)"
  let ?files = "AList.update ?h ?ps (ix_files ix)"
  let ?ix = "ix\<lparr>ix_files := ?files, ix_order := (if ?h \<in> set (ix_order ix) then ix_order ix else ix_order ix @ [?h])\<rparr>"
  have known: "map_of (ix_files ix) ?h \<noteq> None \<longleftrightarrow> ?h \<in> set (ix_order ix)"
    using assms by (simp add: index_ok_def map_of_eq_None_iff)
  have rec: "record_files hash paths ix = evict ?ix"
    using known by (auto simp: record_files_def Let_def)
  have keys: "fst ` set ?files = insert ?h (set (ix_order ix))"
    using assms by (simp add: index_ok_def dom_map_of_conv_image_fst [symmetric] AList.update_conv')
  have "list_all (\<lambda>(h, ps). to_upper h = h \<and> length ps \<le> max_paths_per_torrent) ?files"
    using assms set_update [of ?h ?ps "ix_files ix"] by (auto simp: index_ok_def list_all_iff)
  then have pre: "index_pre ?ix"
    using assms keys by (auto simp: index_pre_def index_ok_def AList.distinct_update)
  have "entries ?ix = put ?h ?ps (entries ix)"
    using assms by (auto simp: entries_def put_def AList.update_conv' index_ok_def image_comp intro: rev_image_eqI)
  moreover have "length (entries ?ix) = length (ix_order ?ix)" by (simp add: entries_def)
  ultimately show ?thesis
    using evict_spec [OF pre] by (simp add: rec Let_def)
qed

lemma keys_put: "map fst (put h ps es) = (if h \<in> fst ` set es then map fst es else map fst es @ [h])"
  by (auto simp: put_def)

lemma put_keys: "fst ` set (put h ps es) = insert h (fst ` set es)"
  using arg_cong [OF keys_put [of h ps es], of set] by (auto split: if_splits)

lemma map_of_replace: "map_of (map (\<lambda>(k, v). if k = h then (k, ps) else (k, v)) es) k =
    (if k = h \<and> h \<in> fst ` set es then Some ps else map_of es k)"
proof (induction es)
  case (Cons e es)
  obtain a b where "e = (a, b)" by (cases e)
  with Cons show ?case by (cases "a = h"; cases "k = a") simp_all
qed simp

lemma map_of_put: "map_of (put h ps es) k = (if k = h then Some ps else map_of es k)"
proof (cases "h \<in> fst ` set es")
  case True
  then show ?thesis by (simp add: put_def map_of_replace)
next
  case False
  then have "map_of es h = None" by (simp add: map_of_eq_None_iff)
  then show ?thesis using False by (simp add: put_def map_add_def split: option.split)
qed

lemma length_put: "distinct (map fst es) \<Longrightarrow> length (put h ps es) = card (insert h (fst ` set es))"
proof -
  assume d: "distinct (map fst es)"
  then have "length (map fst es) = card (fst ` set es)" using distinct_card [OF d] by simp
  moreover have "length (put h ps es) = length (map fst (put h ps es))" by simp
  ultimately show ?thesis by (simp add: keys_put card_insert_if)
qed

section \<open>The contract\<close>

text \<open>
  A bounded index: recording puts the entry and lets the oldest ones go, dropping filters the entries, and a lookup reads them.
\<close>

locale bounded_index =
  fixes norm :: "string list \<Rightarrow> string list"
    and rec :: "string \<Rightarrow> string list \<Rightarrow> 'ix \<Rightarrow> 'ix"
    and dropped :: "(string \<Rightarrow> bool) \<Rightarrow> 'ix \<Rightarrow> 'ix"
    and lookup :: "'ix \<Rightarrow> string \<Rightarrow> string list option"
    and ents :: "'ix \<Rightarrow> (string \<times> string list) list"
    and room :: "'ix \<Rightarrow> nat"
    and ok :: "'ix \<Rightarrow> bool"
  assumes rec_ok: "ok ix \<Longrightarrow> ok (rec h ps ix) \<and> room (rec h ps ix) = room ix"
    and rec_ents: "ok ix \<Longrightarrow> ents (rec h ps ix) =
      drop (length (put (to_upper h) (norm ps) (ents ix)) - room ix) (put (to_upper h) (norm ps) (ents ix))"
    and dropped_ok: "ok ix \<Longrightarrow> ok (dropped P ix) \<and> room (dropped P ix) = room ix"
    and dropped_ents: "ok ix \<Longrightarrow> ents (dropped P ix) = filter (\<lambda>(h, _). P h) (ents ix)"
    and lookup_ents: "ok ix \<Longrightarrow> lookup ix h = map_of (ents ix) (to_upper h)"
    and ents_ok: "ok ix \<Longrightarrow> distinct (map fst (ents ix)) \<and> length (ents ix) \<le> room ix"
begin

definition rec_all :: "(string \<times> string list) list \<Rightarrow> 'ix \<Rightarrow> 'ix" where
  "rec_all rs ix = foldl (\<lambda>ix (h, ps). rec h ps ix) ix rs"

lemma rec_all_ok: "ok ix \<Longrightarrow> ok (rec_all rs ix) \<and> room (rec_all rs ix) = room ix"
  unfolding rec_all_def by (induction rs arbitrary: ix) (auto simp: rec_ok)

lemma rec_room:
  assumes "ok ix" "card (insert (to_upper h) (fst ` set (ents ix))) \<le> room ix"
  shows "ents (rec h ps ix) = put (to_upper h) (norm ps) (ents ix)"
  using assms ents_ok [OF assms(1)] by (simp add: rec_ents length_put)

text \<open>While there is room for every hash recorded, nothing is evicted: a lookup gives what was recorded last.\<close>

lemma rec_all_lookup:
  assumes "ok ix" "card (fst ` set (ents ix) \<union> to_upper ` fst ` set rs) \<le> room ix"
  shows "lookup (rec_all rs ix) h = (map_of (ents ix) ++ map_of (rev (map (\<lambda>(h, ps). (to_upper h, norm ps)) rs))) (to_upper h)"
  using assms
proof (induction rs arbitrary: ix)
  case Nil
  then show ?case by (simp add: rec_all_def lookup_ents)
next
  case (Cons r rs)
  obtain k ps where r: "r = (k, ps)" by (cases r)
  let ?all = "fst ` set (ents ix) \<union> to_upper ` fst ` set (r # rs)"
  have "card (insert (to_upper k) (fst ` set (ents ix))) \<le> card ?all" by (rule card_mono) (auto simp: r)
  with Cons.prems have ents: "ents (rec k ps ix) = put (to_upper k) (norm ps) (ents ix)" by (intro rec_room) simp_all
  have "fst ` set (ents (rec k ps ix)) \<union> to_upper ` fst ` set rs = ?all" by (auto simp: ents put_keys r)
  with Cons.prems Cons.IH [of "rec k ps ix"] rec_ok [OF Cons.prems(1), of k ps] show ?case
    by (simp add: rec_all_def r ents map_of_put map_add_def split: option.split)
qed

end

definition stored_paths :: "string list \<Rightarrow> string list" where
  "stored_paths ps = map to_lower (take max_paths_per_torrent ps)"

lemma lookup_entries: "index_ok ix \<Longrightarrow> map_of (ix_files ix) h = map_of (entries ix) h"
proof -
  assume ok: "index_ok ix"
  have "map_of (map (\<lambda>h. (h, the (map_of (ix_files ix) h))) hs) h = (if h \<in> set hs then Some (the (map_of (ix_files ix) h)) else None)" for hs
    by (induction hs) auto
  then show ?thesis using ok by (auto simp: entries_def index_ok_def map_of_eq_None_iff weak_map_of_SomeI image_iff split: option.splits)
qed

lemma retain_entries:
  assumes "index_ok ix"
  shows "entries (retain_live live ix) = filter (\<lambda>(h, _). h \<in> live) (entries ix)"
proof -
  have up: "to_upper h = h" if "h \<in> set (ix_order ix)" for h
    using assms that by (auto simp: index_ok_def list_all_iff)
  have key: "map_of (filter (\<lambda>(h, _). h \<in> live \<or> to_upper h \<in> live) fs) h = (if h \<in> live \<or> to_upper h \<in> live then map_of fs h else None)"
    for h and fs :: "(string \<times> string list) list"
    by (induction fs) auto
  have known: "map_of (ix_files ix) h \<noteq> None" if "h \<in> set (ix_order ix)" for h
    using assms that by (auto simp: index_ok_def map_of_eq_None_iff)
  have "filter (\<lambda>h. map_of (filter (\<lambda>(h, _). h \<in> live \<or> to_upper h \<in> live) (ix_files ix)) h \<noteq> None) (ix_order ix) = filter (\<lambda>h. h \<in> live) (ix_order ix)"
    using known up by (intro filter_cong) (auto simp: key)
  then show ?thesis by (simp add: retain_live_def Let_def entries_def key filter_map comp_def)
qed

interpretation paths: bounded_index stored_paths record_files "\<lambda>P. retain_live {h. P h}"
  "\<lambda>ix h. map_of (ix_files ix) (to_upper h)" entries ix_capacity index_ok
proof
  fix ix h ps P assume ok: "index_ok ix"
  show "index_ok (record_files h ps ix) \<and> ix_capacity (record_files h ps ix) = ix_capacity ix"
    and "entries (record_files h ps ix) = drop (length (put (to_upper h) (stored_paths ps) (entries ix)) - ix_capacity ix)
      (put (to_upper h) (stored_paths ps) (entries ix))"
    using record_spec [OF ok, of h ps] by (simp_all add: stored_paths_def Let_def)
  show "index_ok (retain_live {h. P h} ix) \<and> ix_capacity (retain_live {h. P h} ix) = ix_capacity ix"
    by (rule conjI [OF index_ok_retain [OF ok]]) (simp add: retain_live_def Let_def)
  show "entries (retain_live {h. P h} ix) = filter (\<lambda>(h, _). P h) (entries ix)" using retain_entries [OF ok] by simp
  show "map_of (ix_files ix) (to_upper h) = map_of (entries ix) (to_upper h)" by (rule lookup_entries [OF ok])
  show "distinct (map fst (entries ix)) \<and> length (entries ix) \<le> ix_capacity ix"
    using ok by (simp add: entries_keys index_ok_def) (simp add: entries_def)
qed

section \<open>Search\<close>


definition recorded :: "(string \<times> string list) list" where
  "recorded = [(''aa'', [''Old.mkv'']), (''BB'', [''Extras/Cut.MKV'']), (''AA'', [''Show/S01E01.mkv'', ''Show/info.nfo''])]"


text \<open>What is live is compared with the hashes as the daemon writes them: hashes in lower case drop every entry.\<close>

lemma lower_case_live_drops_all:
  "index_size (retain_live {''ab''} (record_files ''ab'' [''f''] (new_index 2))) = 0"
proof -
  have "retain_live {''ab''} \<lparr>ix_capacity = 2, ix_files = [(''AB'', ps)], ix_order = [''AB'']\<rparr> = \<lparr>ix_capacity = 2, ix_files = [], ix_order = []\<rparr>" for ps
    by code_simp
  moreover have "record_files ''ab'' [''f''] (new_index 2) = \<lparr>ix_capacity = 2, ix_files = [(''AB'', stored_paths [''f''])], ix_order = [''AB'']\<rparr>"
  proof -
    have up: "to_upper ''ab'' = ''AB''" by code_simp
    show ?thesis by (simp add: record_files_def Let_def up new_index_def evict.simps stored_paths_def)
  qed
  ultimately show ?thesis by (simp add: index_size_def)
qed

end
