(* ===== verification/Duplicates.thy ===== *)
theory Duplicates
  imports Derive
begin

text \<open>
  Duplicate detection before an add (\<open>crates/rtorrent/src/duplicates.rs\<close>): the strongest reason not to add silently, an
  already loaded hash, a torrent of the same name and size, or one whose data is where the new one's would be.
\<close>

record add_candidate =
  ac_hash :: "string option"
  ac_name :: "string option"
  ac_size :: "int option"
  ac_destination :: "string option"

datatype duplicate =
    Exact string string
  | SameNameAndSize string string int
  | DestinationInUse string string string

definition normalise_path :: "string \<Rightarrow> string" where
  "normalise_path path = to_lower (trim_end_char (CHR ''/'') (trim path))"

definition exact_finding :: "add_candidate \<Rightarrow> torrent_dto list \<Rightarrow> duplicate option" where
  "exact_finding c library =
     (case ac_hash c of
        None \<Rightarrow> None
      | Some h \<Rightarrow>
          if trim h = [] then None
          else map_option (\<lambda>t. Exact (dto_hash t) (dto_name t)) (find (\<lambda>t. eq_ic (dto_hash t) (trim h)) library))"

definition same_name_finding :: "add_candidate \<Rightarrow> torrent_dto list \<Rightarrow> duplicate option" where
  "same_name_finding c library =
     (case (ac_name c, ac_size c) of
        (Some given, Some sz) \<Rightarrow>
          (let name = trim given in
           if name \<noteq> [] \<and> sz > 0
           then map_option (\<lambda>t. SameNameAndSize (dto_hash t) (dto_name t) sz)
             (find (\<lambda>t. dto_size t = sz \<and> eq_ic (dto_name t) name) library)
           else None)
      | _ \<Rightarrow> None)"

definition destination_finding :: "add_candidate \<Rightarrow> torrent_dto list \<Rightarrow> duplicate option" where
  "destination_finding c library =
     (case (ac_destination c, ac_name c) of
        (Some destination, Some given) \<Rightarrow>
          (let name = trim given in
           if trim destination \<noteq> [] \<and> name \<noteq> []
           then (let target = normalise_path (trim_end_char (CHR ''/'') destination @ ''/'' @ name) in
                 map_option (\<lambda>t. DestinationInUse (dto_hash t) (dto_name t) (dto_save_path t))
                   (find (\<lambda>t. normalise_path (dto_save_path t) = target) library))
           else None)
      | _ \<Rightarrow> None)"

definition detect :: "add_candidate \<Rightarrow> torrent_dto list \<Rightarrow> duplicate option" where
  "detect c library =
     (case exact_finding c library of
        Some d \<Rightarrow> Some d
      | None \<Rightarrow> (case same_name_finding c library of Some d \<Rightarrow> Some d | None \<Rightarrow> destination_finding c library))"

section \<open>The strongest finding\<close>

text \<open>How strongly one torrent of the library speaks against the candidate, stated without the search.\<close>

definition clashes_hash :: "add_candidate \<Rightarrow> torrent_dto \<Rightarrow> bool" where
  "clashes_hash c t = (case ac_hash c of Some h \<Rightarrow> trim h \<noteq> [] \<and> to_lower (dto_hash t) = to_lower (trim h) | None \<Rightarrow> False)"

definition clashes_content :: "add_candidate \<Rightarrow> torrent_dto \<Rightarrow> bool" where
  "clashes_content c t =
     (case (ac_name c, ac_size c) of
        (Some n, Some s) \<Rightarrow> trim n \<noteq> [] \<and> s > 0 \<and> dto_size t = s \<and> to_lower (dto_name t) = to_lower (trim n)
      | _ \<Rightarrow> False)"

definition clashes_folder :: "add_candidate \<Rightarrow> torrent_dto \<Rightarrow> bool" where
  "clashes_folder c t =
     (case (ac_destination c, ac_name c) of
        (Some d, Some n) \<Rightarrow> trim d \<noteq> [] \<and> trim n \<noteq> [] \<and>
          normalise_path (dto_save_path t) = normalise_path (trim_end_char (CHR ''/'') d @ ''/'' @ trim n)
      | _ \<Rightarrow> False)"

definition clash :: "add_candidate \<Rightarrow> torrent_dto \<Rightarrow> nat" where
  "clash c t = (if clashes_hash c t then 3 else if clashes_content c t then 2 else if clashes_folder c t then 1 else 0)"

fun strength :: "duplicate option \<Rightarrow> nat" where
  "strength None = 0"
| "strength (Some (DestinationInUse _ _ _)) = 1"
| "strength (Some (SameNameAndSize _ _ _)) = 2"
| "strength (Some (Exact _ _)) = 3"

definition report :: "nat \<Rightarrow> torrent_dto \<Rightarrow> duplicate" where
  "report k t =
     (if k = 3 then Exact (dto_hash t) (dto_name t)
      else if k = 2 then SameNameAndSize (dto_hash t) (dto_name t) (dto_size t)
      else DestinationInUse (dto_hash t) (dto_name t) (dto_save_path t))"

lemma report_kinds:
  "report 3 = (\<lambda>t. Exact (dto_hash t) (dto_name t))"
  "report 2 = (\<lambda>t. SameNameAndSize (dto_hash t) (dto_name t) (dto_size t))"
  "report 1 = (\<lambda>t. DestinationInUse (dto_hash t) (dto_name t) (dto_save_path t))"
  by (rule ext, simp add: report_def)+

lemma find_False [simp]: "find (\<lambda>t. False) ts = None"
  by (induction ts) auto

lemma exact_find: "exact_finding c ts = map_option (report 3) (find (clashes_hash c) ts)"
  by (auto simp: exact_finding_def clashes_hash_def [abs_def] report_kinds eq_ic_def split: option.split)

lemma content_find: "same_name_finding c ts = map_option (report 2) (find (clashes_content c) ts)"
proof (cases "ac_name c"; cases "ac_size c")
  fix n s assume c: "ac_name c = Some n" "ac_size c = Some s"
  then have "clashes_content c = (\<lambda>t. trim n \<noteq> [] \<and> s > 0 \<and> dto_size t = s \<and> eq_ic (dto_name t) (trim n))"
    by (auto simp: clashes_content_def eq_ic_def)
  moreover have "dto_size t = s" if "find (\<lambda>t. dto_size t = s \<and> eq_ic (dto_name t) (trim n)) ts = Some t" for t
    using that by (auto simp: find_Some_iff)
  ultimately show ?thesis using c
    by (cases "find (\<lambda>t. dto_size t = s \<and> eq_ic (dto_name t) (trim n)) ts")
      (auto simp: same_name_finding_def report_kinds Let_def)
qed (auto simp: same_name_finding_def clashes_content_def [abs_def])

lemma folder_find: "destination_finding c ts = map_option (report 1) (find (clashes_folder c) ts)"
proof (cases "ac_destination c"; cases "ac_name c")
  fix d n assume c: "ac_destination c = Some d" "ac_name c = Some n"
  then have "clashes_folder c = (\<lambda>t. trim d \<noteq> [] \<and> trim n \<noteq> [] \<and>
      normalise_path (dto_save_path t) = normalise_path (trim_end_char (CHR ''/'') d @ ''/'' @ trim n))"
    by (auto simp: clashes_folder_def)
  with c show ?thesis
    by (auto simp: destination_finding_def report_kinds [unfolded One_nat_def] Let_def)
qed (auto simp: destination_finding_def clashes_folder_def [abs_def])

text \<open>The add is checked against the strongest clash: nothing is reported exactly when no torrent of the
  library has the candidate's hash, its name and size, or its place on disk; otherwise the report is of the
  strongest kind any torrent of the library has against the candidate, and names the first such torrent.\<close>

theorem strongest_clash_reported:
  assumes "ts \<noteq> []"
  shows "(let k = Max (clash c ` set ts) in
     strength (detect c ts) = k \<and> detect c ts = (if k = 0 then None else map_option (report k) (find (\<lambda>t. clash c t = k) ts)))"
proof -
  obtain k where k: "k = Max (clash c ` set ts)" by simp
  have max: "clash c t \<le> k" if "t \<in> set ts" for t using that by (simp add: k)
  have "k \<in> clash c ` set ts" unfolding k using assms by (intro Max_in) auto
  then obtain m where m: "m \<in> set ts" "clash c m = k" by auto
  have found: "\<exists>t. find (\<lambda>t. clash c t = k) ts = Some t"
    using m by (cases "find (\<lambda>t. clash c t = k) ts") (auto simp: find_None_all)
  have kinds: "k = 0 \<or> k = 1 \<or> k = 2 \<or> k = 3" using m(2) by (auto simp: clash_def split: if_splits)
  have hash: "clashes_hash c t \<longleftrightarrow> k = 3 \<and> clash c t = k" if "t \<in> set ts" for t
    using max [OF that] kinds by (auto simp: clash_def split: if_splits)
  have content: "clashes_content c t \<longleftrightarrow> k = 2 \<and> clash c t = k" if "t \<in> set ts" "k < 3" for t
    using max [OF that(1)] kinds that(2) by (auto simp: clash_def split: if_splits)
  have folder: "clashes_folder c t \<longleftrightarrow> k = 1 \<and> clash c t = k" if "t \<in> set ts" "k < 2" for t
    using max [OF that(1)] kinds that(2) by (auto simp: clash_def split: if_splits)
  have only: "find P ts = (if b then find (\<lambda>t. clash c t = k) ts else None)"
    if "\<And>t. t \<in> set ts \<Longrightarrow> P t \<longleftrightarrow> b \<and> clash c t = k" for P b
    using that by (induction ts) auto
  have "find (clashes_hash c) ts = (if k = 3 then find (\<lambda>t. clash c t = k) ts else None)"
    using hash by (rule only)
  moreover have "find (clashes_content c) ts = (if k = 2 then find (\<lambda>t. clash c t = k) ts else None)" if "k < 3"
    using content that by (intro only) blast
  moreover have "find (clashes_folder c) ts = (if k = 1 then find (\<lambda>t. clash c t = k) ts else None)" if "k < 2"
    using folder that by (intro only) blast
  moreover obtain t where "find (\<lambda>t. clash c t = k) ts = Some t" using found by blast
  ultimately have "strength (detect c ts) = k \<and>
      detect c ts = (if k = 0 then None else map_option (report k) (find (\<lambda>t. clash c t = k) ts))"
    using kinds by (elim disjE) (simp_all add: detect_def exact_find content_find folder_find report_def)
  then show ?thesis unfolding k Let_def .
qed

definition library_row :: "string \<Rightarrow> string \<Rightarrow> int \<Rightarrow> string \<Rightarrow> torrent_dto" where
  "library_row h n sz path = to_dto (raw_torrent_default\<lparr>raw_hash := h, raw_name := n, raw_size_bytes := sz, raw_base_path := path\<rparr>) [] None"

definition sample_library :: "torrent_dto list" where
  "sample_library = [library_row ''AA'' ''one'' 5 ''/dl/one'', library_row ''BB'' ''two'' 7 ''/dl/Two/'']"

theorem strongest_clash_reported_witness:
  "detect \<lparr>ac_hash = Some ''CC'', ac_name = Some ''two '', ac_size = Some 8, ac_destination = Some ''/DL//''\<rparr> sample_library =
     Some (DestinationInUse ''BB'' ''two'' ''/dl/Two/'')"
proof -
  let ?c = "\<lparr>ac_hash = Some ''CC'', ac_name = Some ''two '', ac_size = Some 8, ac_destination = Some ''/DL//''\<rparr>"
  have one: "clash ?c (library_row ''AA'' ''one'' 5 ''/dl/one'') = 0" and two: "clash ?c (library_row ''BB'' ''two'' 7 ''/dl/Two/'') = 1"
    by code_simp+
  then have k: "Max (clash ?c ` set sample_library) = 1" by (simp add: sample_library_def)
  have "sample_library \<noteq> []" by (simp add: sample_library_def)
  from strongest_clash_reported [OF this, of ?c]
  have "detect ?c sample_library = map_option (report 1) (find (\<lambda>t. clash ?c t = 1) sample_library)" unfolding k Let_def by simp
  also have "find (\<lambda>t. clash ?c t = 1) sample_library = Some (library_row ''BB'' ''two'' 7 ''/dl/Two/'')"
    by (simp add: sample_library_def one two)
  also have "map_option (report 1) (Some (library_row ''BB'' ''two'' 7 ''/dl/Two/'')) = Some (DestinationInUse ''BB'' ''two'' ''/dl/Two/'')"
    by code_simp
  finally show ?thesis .
qed

text \<open>The destination is checked for blanks but not trimmed: one with a blank at its end is not recognised.\<close>

lemma blank_destination_missed:
  "detect \<lparr>ac_hash = None, ac_name = Some ''one'', ac_size = None, ac_destination = Some ''/dl ''\<rparr> sample_library = None \<and>
   detect \<lparr>ac_hash = None, ac_name = Some ''one'', ac_size = None, ac_destination = Some ''/dl''\<rparr> sample_library =
     Some (DestinationInUse ''AA'' ''one'' ''/dl/one'')"
  by code_simp

end
