(* ===== verification/Server_State.thy ===== *)
theory Server_State
  imports Prelude
begin

text \<open>
  Two bounded buffers of the server: the log ring a client follows by sequence numbers (\<open>AppState::log\<close>, \<open>log_since\<close>
  in \<open>server/src/state.rs\<close>) and the rate history of the statistics page (\<open>RateHistory\<close> in \<open>server/src/history.rs\<close>). The log
  entry is a parameter: only the order of the entries matters. \<open>u64\<close> counters are \<open>nat\<close>, instants are \<open>i64\<close> milliseconds.
\<close>

section \<open>The log ring\<close>

definition log_capacity :: nat where "log_capacity = 500"

record 'e log_ring =
  lr_log :: "'e list"
  lr_total :: nat

definition empty_log :: "'e log_ring" where
  "empty_log = \<lparr>lr_log = [], lr_total = 0\<rparr>"

definition append_log :: "'e \<Rightarrow> 'e log_ring \<Rightarrow> 'e log_ring" where
  "append_log e l =
     \<lparr>lr_log = (if length (lr_log l) \<ge> log_capacity then tl (lr_log l) else lr_log l) @ [e], lr_total = lr_total l + 1\<rparr>"

text \<open>The entries from a sequence number on, and the number to ask from next; the subtractions saturate at zero.\<close>

definition log_since :: "nat \<Rightarrow> 'e log_ring \<Rightarrow> 'e list \<times> nat" where
  "log_since after l =
     (let first_seq = lr_total l - length (lr_log l); skip = after - first_seq in (drop skip (lr_log l), lr_total l))"

text \<open>The ring holds the last lines of everything ever appended.\<close>

definition holds_last :: "'e list \<Rightarrow> 'e log_ring \<Rightarrow> bool" where
  "holds_last all l \<longleftrightarrow> lr_total l = length all \<and> lr_log l = drop (length all - log_capacity) all"

lemma holds_empty: "holds_last [] empty_log"
  by (simp add: holds_last_def empty_log_def)

lemma holds_append: "holds_last all l \<Longrightarrow> holds_last (all @ [e]) (append_log e l)"
proof -
  assume h: "holds_last all l"
  show ?thesis
  proof (cases "length all \<ge> log_capacity")
    case True
    then have "length (lr_log l) = log_capacity" using h by (simp add: holds_last_def)
    moreover have "tl (drop (length all - log_capacity) all) = drop (Suc (length all) - log_capacity) all"
      using True by (simp add: Suc_diff_le drop_Suc tl_drop)
    moreover have "Suc 0 - log_capacity = 0" by (simp add: log_capacity_def)
    ultimately show ?thesis using h True by (simp add: holds_last_def append_log_def)
  next
    case False
    then show ?thesis using h by (simp add: holds_last_def append_log_def)
  qed
qed

lemma since_exact:
  assumes "holds_last all l" "length all \<le> after + log_capacity"
  shows "log_since after l = (drop after all, length all)"
  using assms by (auto simp: log_since_def holds_last_def Let_def min_def)

text \<open>A client that follows the log: between two requests some lines are appended; each request asks from the number the
  previous answer gave.\<close>

fun follow_log :: "'e log_ring \<Rightarrow> nat \<Rightarrow> 'e list list \<Rightarrow> 'e list" where
  "follow_log l after [] = []"
| "follow_log l after (es # ess) =
     (let l1 = foldl (\<lambda>l e. append_log e l) l es; (got, next) = log_since after l1 in got @ follow_log l1 next ess)"

lemma holds_appends: "holds_last all l \<Longrightarrow> holds_last (all @ es) (foldl (\<lambda>l e. append_log e l) l es)"
proof (induction es arbitrary: all l)
  case (Cons e es)
  from Cons.IH [OF holds_append [OF Cons.prems, of e]] show ?case by simp
qed simp

lemma follow_from:
  "holds_last all l \<Longrightarrow> list_all (\<lambda>es. length es \<le> log_capacity) ess \<Longrightarrow> follow_log l (length all) ess = concat ess"
proof (induction ess arbitrary: all l)
  case (Cons es ess)
  let ?l = "foldl (\<lambda>l e. append_log e l) l es"
  have h: "holds_last (all @ es) ?l" using Cons.prems holds_appends by blast
  moreover have "log_since (length all) ?l = (es, length all + length es)"
    using since_exact [OF h, of "length all"] Cons.prems(2) by simp
  ultimately show ?case using Cons.IH [OF h] Cons.prems(2) by (simp add: Let_def)
qed simp

text \<open>A client that follows the log misses nothing and sees nothing twice: as long as at most 500 lines are
  appended between two of its requests, the lines it gets, put together, are exactly the lines appended, in order.\<close>

theorem log_followed:
  assumes "list_all (\<lambda>es. length es \<le> log_capacity) ess"
  shows "follow_log empty_log 0 ess = concat ess"
  using follow_from [OF holds_empty assms] by simp

theorem log_followed_witness:
  "follow_log empty_log 0 [[1, 2], [], [3::int]] = [1, 2, 3]"
  using log_followed [of "[[1, 2], [], [3::int]]"] by (simp add: log_capacity_def)

text \<open>After a restart the counter starts over: a client that asks from its old number gets none of the new lines.\<close>

lemma restarted_log_skipped:
  "follow_log (append_log (''started'' :: string) empty_log) 40 [[''connected'']] = []"
  by (simp add: log_since_def append_log_def empty_log_def log_capacity_def)

section \<open>The rate history\<close>

definition window_ms :: int where "window_ms = 60 * 60 * 1000"

definition max_samples :: nat where "max_samples = 400"

record stats_sample =
  st_at :: int
  st_down :: int
  st_up :: int

fun trim_samples :: "int \<Rightarrow> stats_sample list \<Rightarrow> stats_sample list" where
  "trim_samples now [] = []"
| "trim_samples now (s # ss) = (if sat_i64 (now - st_at s) > window_ms then trim_samples now ss else s # ss)"

definition record_sample :: "int \<Rightarrow> int \<Rightarrow> int \<Rightarrow> stats_sample list \<Rightarrow> stats_sample list" where
  "record_sample at_ms down up ss =
     (if ss \<noteq> [] \<and> at_ms \<le> st_at (last ss) then ss
      else (let kept = trim_samples at_ms (ss @ [\<lparr>st_at = at_ms, st_down = max down 0, st_up = max up 0\<rparr>])
            in drop (length kept - max_samples) kept))"

definition history_ok :: "stats_sample list \<Rightarrow> bool" where
  "history_ok ss \<longleftrightarrow> sorted_wrt (\<lambda>a b. st_at a < st_at b) ss \<and> length ss \<le> max_samples \<and>
     list_all (\<lambda>s. st_down s \<ge> 0 \<and> st_up s \<ge> 0 \<and> st_at (last ss) - st_at s \<le> window_ms) ss"

lemma trim_filter:
  assumes "sorted_wrt (\<lambda>a b. st_at a < st_at b) ss"
  shows "trim_samples now ss = filter (\<lambda>s. now - st_at s \<le> window_ms) ss"
proof -
  have sat: "sat_i64 x > window_ms \<longleftrightarrow> x > window_ms" for x
    by (auto simp: sat_i64_def window_ms_def i64_max_def i64_min_def max_def min_def)
  from assms show ?thesis
  proof (induction ss)
    case (Cons s ss)
    have "filter (\<lambda>s. now - st_at s \<le> window_ms) ss = ss" if "now - st_at s \<le> window_ms"
      using that Cons.prems by (auto intro!: filter_True)
    with Cons show ?case by (simp add: sat not_less)
  qed simp
qed

lemma record_spec_sample:
  assumes "history_ok ss" "ss = [] \<or> st_at (last ss) < at_ms"
  shows "record_sample at_ms down up ss =
    (let kept = filter (\<lambda>s. at_ms - st_at s \<le> window_ms) ss @ [\<lparr>st_at = at_ms, st_down = max down 0, st_up = max up 0\<rparr>]
     in drop (length kept - max_samples) kept)"
proof -
  have "st_at s < at_ms" if "s \<in> set ss" for s
  proof -
    from that have "ss \<noteq> []" by auto
    then have "ss = butlast ss @ [last ss]" by simp
    then have "s = last ss \<or> st_at s < st_at (last ss)"
      using that assms(1) unfolding history_ok_def
      by (metis (no_types, lifting) Un_iff append_butlast_last_id empty_iff list.set(1) list.set_intros(1) set_ConsD set_append sorted_wrt_append)
    with assms(2) \<open>ss \<noteq> []\<close> show ?thesis by auto
  qed
  then have "sorted_wrt (\<lambda>a b. st_at a < st_at b) (ss @ [\<lparr>st_at = at_ms, st_down = max down 0, st_up = max up 0\<rparr>])"
    using assms(1) by (simp add: history_ok_def sorted_wrt_append)
  from trim_filter [OF this] assms(2) show ?thesis
    by (auto simp: record_sample_def window_ms_def Let_def)
qed

text \<open>Every recording keeps the history: strictly increasing instants, at most 400, within an hour of the last, no negative rates.\<close>

lemma history_kept: "history_ok ss \<Longrightarrow> history_ok (record_sample at_ms down up ss)"
proof (cases "ss \<noteq> [] \<and> at_ms \<le> st_at (last ss)")
  case False
  assume ok: "history_ok ss"
  let ?new = "\<lparr>st_at = at_ms, st_down = max down 0, st_up = max up 0\<rparr>"
  let ?kept = "filter (\<lambda>s. at_ms - st_at s \<le> window_ms) ss @ [?new]"
  have rec: "record_sample at_ms down up ss = drop (length ?kept - max_samples) ?kept"
    using record_spec_sample [OF ok, of at_ms down up] False by (auto simp: Let_def not_le)
  have below: "list_all (\<lambda>s. st_at s < at_ms) ss"
  proof (cases "ss = []")
    case ne: False
    have "sorted_wrt (\<lambda>a b. st_at a < st_at b) (butlast ss @ [last ss])" using ok ne by (simp add: history_ok_def)
    then have "\<forall>s \<in> set (butlast ss). st_at s < st_at (last ss)" by (simp add: sorted_wrt_append)
    moreover have "set ss = insert (last ss) (set (butlast ss))" using ne by (metis append_butlast_last_id list.simps(15) rotate1.simps(2) set_rotate1)
    ultimately show ?thesis using False ne by (force simp: list_all_iff)
  qed simp
  have sorted: "sorted_wrt (\<lambda>a b. st_at a < st_at b) ?kept"
    using ok below by (auto simp: history_ok_def sorted_wrt_append sorted_wrt_filter list_all_iff)
  have all: "list_all (\<lambda>s. st_down s \<ge> 0 \<and> st_up s \<ge> 0 \<and> at_ms - st_at s \<le> window_ms) ?kept"
    using ok by (auto simp: history_ok_def list_all_iff window_ms_def)
  have tail: "sorted_wrt (\<lambda>a b. st_at a < st_at b) (drop n ?kept)"
    "list_all (\<lambda>s. st_down s \<ge> 0 \<and> st_up s \<ge> 0 \<and> at_ms - st_at s \<le> window_ms) (drop n ?kept)" for n
    using sorted_wrt_drop [OF sorted] all by (auto simp: list_all_iff dest: in_set_dropD)
  have short: "last (drop (length ?kept - max_samples) ?kept) = ?new" by (simp add: last_drop max_samples_def)
  show ?thesis
    unfolding rec history_ok_def short
    using tail by (intro conjI) (simp_all del: drop_append add: max_samples_def)
qed (simp add: record_sample_def)

end
