(* ===== verification/Server_Moves.thy ===== *)
theory Server_Moves
  imports Mover Transport Server_State
begin

text \<open>
  Moves on completion in the web server (\<open>server/src/moves.rs\<close>): once per process the journal is recovered, and every
  successful poll prunes it, clears the recorded home of torrents that reached it, and spawns a task for each due
  move. The daemon's answers, the disk and the failures of the journal's writes are those of the \<open>move_world\<close> of
  \<open>Mover\<close>; the clock read per planned move is a function of its position.
\<close>

datatype log_level = InfoLevel | WarnLevel | ErrorLevel

record log_entry =
  le_level :: log_level
  le_message :: string
  le_hash :: "string option"

definition info :: "string \<Rightarrow> log_entry" where
  "info m = \<lparr>le_level = InfoLevel, le_message = m, le_hash = None\<rparr>"

record moves_config =
  mc_transport :: transport_kind
  mc_incomplete_dir :: string
  mc_rules :: "move_rule list"
  mc_policy :: collision_policy

record server_moves =
  sm_world :: move_world
  sm_resumed :: bool
  sm_warned :: bool

fun is_colocated :: "transport_kind \<Rightarrow> bool" where
  "is_colocated (UnixSocket _) = True"
| "is_colocated _ = False"

definition moves_configured :: "moves_config \<Rightarrow> bool" where
  "moves_configured cfg \<longleftrightarrow> trim (mc_incomplete_dir cfg) \<noteq> [] \<or> mc_rules cfg \<noteq> []"

definition prune_tick :: "string set \<Rightarrow> move_world \<Rightarrow> move_world" where
  "prune_tick live w =
     (let w1 = on_store (store_prune_done \<circ> prune_unknown live) w in
      if length (ms_journal (w_store w1)) \<noteq> length (ms_journal (w_store w)) then persist w1 else w1)"

definition clear_homed :: "string list \<Rightarrow> move_world \<Rightarrow> move_world" where
  "clear_homed hs w = foldl (\<lambda>w h. snd (call_daemon (CallClearFinalDir h) w)) w hs"

definition live_handle :: "int \<Rightarrow> move_intent \<Rightarrow> active_move" where
  "live_handle now i =
     \<lparr>am_op_id = make_id (mi_hash i) now, am_hash = mi_hash i, am_cancel = False, am_done = 0, am_total = nat (max (mi_size i) 0)\<rparr>"

fun register_all :: "(nat \<Rightarrow> int) \<Rightarrow> nat \<Rightarrow> move_intent list \<Rightarrow> move_world \<Rightarrow> (move_intent \<times> int) list \<times> move_world" where
  "register_all clock n [] w = ([], w)"
| "register_all clock n (i # is) w =
     (let (spawned, w1) = register_all clock (Suc n) is (on_store (register (live_handle (clock n) i)) w)
      in ((i, clock n) # spawned, w1))"

definition run_due_moves ::
  "moves_config \<Rightarrow> (nat \<Rightarrow> int) \<Rightarrow> raw_torrent list \<Rightarrow> server_moves \<Rightarrow> (move_intent \<times> int) list \<times> log_entry list \<times> server_moves" where
  "run_due_moves cfg clock raw sm =
     (if \<not> is_colocated (mc_transport cfg)
      then (if moves_configured cfg \<and> \<not> sm_warned sm
            then ([], [\<lparr>le_level = WarnLevel, le_message = ''move-on-complete is configured but the daemon is remote - ''
                    @ ''moves need the server co-located with the daemon'', le_hash = None\<rparr>], sm\<lparr>sm_warned := True\<rparr>)
            else ([], [], sm))
      else
        let w1 = prune_tick (set (map raw_hash raw)) (sm_world sm);
            w2 = clear_homed (homed_hashes raw (mc_rules cfg) []) w1
        in if \<not> moves_configured cfg then ([], [], sm\<lparr>sm_world := w2\<rparr>)
           else (let (spawned, w3) = register_all clock 0
                       (decide_moves raw (mc_rules cfg) [] {} (busy_hashes (w_store w2))) w2
                 in (spawned, [], sm\<lparr>sm_world := w3\<rparr>)))"

text \<open>The detached task of one planned move, with the free space the daemon, or else the local disk, reports.\<close>

definition task_of :: "moves_config \<Rightarrow> (string \<Rightarrow> path) \<Rightarrow> int option \<Rightarrow> int option \<Rightarrow> move_intent \<times> int \<Rightarrow> move_task" where
  "task_of cfg local daemon_free local_free p =
     (let (i, now) = p in
      \<lparr>mt_intent = i, mt_local_src = local (mi_src_base i), mt_local_dst_dir = local (mi_dst_dir i),
       mt_free = (case daemon_free of Some f \<Rightarrow> Some f | None \<Rightarrow> local_free), mt_policy = mc_policy cfg, mt_now = now\<rparr>)"

definition outcome_log :: "move_intent \<Rightarrow> move_outcome \<Rightarrow> log_entry list" where
  "outcome_log i r =
     (case r of
        MoveDone base \<Rightarrow> [\<lparr>le_level = InfoLevel, le_message = ''moved '' @ mi_name i @ '' to '' @ base, le_hash = Some (mi_hash i)\<rparr>]
      | MoveCancelled \<Rightarrow> [\<lparr>le_level = InfoLevel, le_message = ''move of '' @ mi_name i @ '' cancelled - resumed in place'', le_hash = Some (mi_hash i)\<rparr>]
      | MoveBusy \<Rightarrow> []
      | MoveFailed msg \<Rightarrow> [\<lparr>le_level = ErrorLevel, le_message = msg, le_hash = Some (mi_hash i)\<rparr>])"

definition run_task :: "move_task \<Rightarrow> server_moves \<Rightarrow> log_entry list \<times> server_moves" where
  "run_task task sm =
     (let (r, w) = execute_move task (sm_world sm);
          w1 = (if r = MoveBusy then on_store (unregister (op_id (planned_op task))) w else w)
      in (outcome_log (mt_intent task) r, sm\<lparr>sm_world := w1\<rparr>))"

definition resume_once :: "(string \<Rightarrow> bool) \<Rightarrow> int \<Rightarrow> raw_torrent list \<Rightarrow> server_moves \<Rightarrow> log_entry list \<times> server_moves" where
  "resume_once exists_local now raw sm =
     (if sm_resumed sm then ([], sm)
      else if resumable (ms_journal (w_store (sm_world sm))) = [] then ([], sm\<lparr>sm_resumed := True\<rparr>)
      else ([info ''move journal recovered''],
            sm\<lparr>sm_resumed := True, sm_world := resume_moves (set (map raw_hash raw)) exists_local now (sm_world sm)\<rparr>))"

section \<open>What a tick spawns\<close>

lemma register_all_store:
  "w_store (snd (register_all clock n is w)) = fold register (map (\<lambda>(i, now). live_handle now i) (fst (register_all clock n is w))) (w_store w)"
  by (induction "is" arbitrary: n w) (auto simp: on_store_def split_def Let_def)

lemma register_all_intents: "map fst (fst (register_all clock n is w)) = is"
  by (induction "is" arbitrary: n w) (auto simp: split_def Let_def)

definition plain_hash :: "string \<Rightarrow> bool" where
  "plain_hash h \<longleftrightarrow> to_upper h = h \<and> CHR ''-'' \<notin> set h"

lemma make_id_hash:
  assumes "make_id h now = make_id h' now'" "plain_hash h" "plain_hash h'"
  shows "h = h'"
proof -
  have cut: "takeWhile (\<lambda>c. c \<noteq> CHR ''-'') (make_id g m) = g" if "plain_hash g" for g m
    using that by (auto simp: make_id_def plain_hash_def takeWhile_append)
  have "h = takeWhile (\<lambda>c. c \<noteq> CHR ''-'') (make_id h now)" using assms(2) by (simp only: cut)
  also have "\<dots> = h'" using assms(3) by (simp only: assms(1) cut)
  finally show ?thesis .
qed

text \<open>A handle keeps its torrent busy.\<close>

definition has_handle :: "move_store \<Rightarrow> move_intent \<times> int \<Rightarrow> bool" where
  "has_handle st p \<longleftrightarrow> (\<exists>a. map_of (ms_active st) (make_id (mi_hash (fst p)) (snd p)) = Some a \<and> am_hash a = mi_hash (fst p))"

definition handles_distinct :: "move_store \<Rightarrow> bool" where
  "handles_distinct st \<longleftrightarrow> distinct (map fst (ms_active st))"

lemma handle_busy: "has_handle st p \<Longrightarrow> mi_hash (fst p) \<in> busy_hashes st"
proof -
  assume "has_handle st p"
  then obtain a where "(make_id (mi_hash (fst p)) (snd p), a) \<in> set (ms_active st)" "am_hash a = mi_hash (fst p)"
    by (auto simp: has_handle_def dest: map_of_SomeD)
  then show ?thesis by (force simp: busy_hashes_def)
qed

lemma handle_same: "ms_active st' = ms_active st \<Longrightarrow> has_handle st' p = has_handle st p"
  by (simp add: has_handle_def)

lemma handle_registered: "has_handle (register (live_handle now i) st) (i, now)"
  by (simp add: has_handle_def register_def live_handle_def AList.update_conv')

lemma handle_register_other:
  assumes "has_handle st p" "plain_hash (mi_hash (fst p))" "plain_hash (mi_hash i)" "mi_hash (fst p) \<noteq> mi_hash i"
  shows "has_handle (register (live_handle now i) st) p"
proof -
  have "make_id (mi_hash (fst p)) (snd p) \<noteq> make_id (mi_hash i) now" using make_id_hash assms(2-4) by blast
  then show ?thesis using assms(1) by (simp add: has_handle_def register_def live_handle_def AList.update_conv')
qed

lemma register_all_old:
  assumes "has_handle (w_store w) p" "plain_hash (mi_hash (fst p))" "list_all (\<lambda>i. plain_hash (mi_hash i) \<and> mi_hash i \<noteq> mi_hash (fst p)) is"
  shows "has_handle (w_store (snd (register_all clock n is w))) p"
  using assms
proof (induction "is" arbitrary: n w)
  case (Cons i "is")
  then have "has_handle (w_store (on_store (register (live_handle (clock n) i)) w)) p"
    using handle_register_other [of "w_store w" p i] by (auto simp: on_store_def)
  with Cons show ?case by (simp add: split_def Let_def)
qed simp

lemma register_all_new:
  assumes "list_all (\<lambda>i. plain_hash (mi_hash i)) is" "distinct (map mi_hash is)"
  shows "list_all (has_handle (w_store (snd (register_all clock n is w)))) (fst (register_all clock n is w))"
  using assms
proof (induction "is" arbitrary: n w)
  case (Cons i "is")
  let ?w = "on_store (register (live_handle (clock n) i)) w"
  have "has_handle (w_store ?w) (i, clock n)" by (simp add: on_store_def handle_registered)
  then have "has_handle (w_store (snd (register_all clock (Suc n) is ?w))) (i, clock n)"
    using Cons.prems by (intro register_all_old) (auto simp: list_all_iff image_iff)
  with Cons show ?case by (simp add: split_def Let_def)
qed simp

lemma register_all_distinct: "handles_distinct (w_store w) \<Longrightarrow> handles_distinct (w_store (snd (register_all clock n is w)))"
proof (induction "is" arbitrary: n w)
  case (Cons i "is")
  have "handles_distinct (w_store (on_store (register (live_handle (clock n) i)) w))"
    using Cons.prems by (simp add: handles_distinct_def on_store_def register_def AList.distinct_update)
  from Cons.IH [OF this] show ?case by (simp add: split_def Let_def)
qed simp

section \<open>What the moves keep\<close>

lemma persist_active [simp]: "ms_active (w_store (persist w)) = ms_active (w_store w)"
  by (simp add: persist_def store_save_def trace_def Let_def)

lemma on_journal_active [simp]: "ms_active (w_store (on_journal f w)) = ms_active (w_store w)"
  by (simp add: on_journal_def on_store_def)

lemma trace_active [simp]: "w_store (trace x w) = w_store w"
  by (simp add: trace_def)

lemma call_store [simp]: "w_store (snd (call_daemon c w)) = w_store w"
  by (simp add: call_daemon_def trace_def)

lemma call_store': "call_daemon c w = (r, w') \<Longrightarrow> w_store w' = w_store w"
  using call_store [of c w] by simp

lemma mark_active [simp]: "ms_active (w_store (mark i st err now w)) = ms_active (w_store w)"
  by (simp add: mark_def)

lemma prune_tick_active [simp]: "ms_active (w_store (prune_tick live w)) = ms_active (w_store w)"
  by (simp add: prune_tick_def Let_def on_store_def store_prune_done_def prune_unknown_def)

lemma clear_homed_store [simp]: "w_store (clear_homed hs w) = w_store w"
  by (induction hs arbitrary: w) (simp_all add: clear_homed_def)

definition keeps_handles :: "string \<Rightarrow> move_world \<Rightarrow> move_world \<Rightarrow> bool" where
  "keeps_handles i w w' \<longleftrightarrow> (\<forall>k. k \<noteq> i \<longrightarrow> map_of (ms_active (w_store w')) k = map_of (ms_active (w_store w)) k) \<and>
     (handles_distinct (w_store w) \<longrightarrow> handles_distinct (w_store w'))"

lemma keeps_same [intro]: "ms_active (w_store w') = ms_active (w_store w) \<Longrightarrow> keeps_handles i w w'"
  by (simp add: keeps_handles_def handles_distinct_def)

lemma keeps_trans: "keeps_handles i w w1 \<Longrightarrow> keeps_handles i w1 w2 \<Longrightarrow> keeps_handles i w w2"
  by (simp add: keeps_handles_def)

lemma keeps_finish: "keeps_handles i w (finish i st err now w)"
  by (simp add: keeps_handles_def handles_distinct_def finish_def Let_def on_store_def unregister_def AList.delete_conv' AList.distinct_delete)

lemma keeps_fail: "keeps_handles (op_id (planned_op task)) w (snd (fail_move task msg w))"
  by (simp add: fail_move_def keeps_finish)

lemma keeps_resume: "w_store (resume_torrent b h w) = w_store w"
  by (simp add: resume_torrent_def)

lemma keeps_point: "keeps_handles (op_id (planned_op task)) w (snd (point_daemon task b target w))"
proof (cases "call_daemon (CallSetDirectory (mi_hash (mt_intent task)) (mi_dst_dir (mt_intent task))) w")
  case (Pair r w1)
  have w1: "keeps_handles (op_id (planned_op task)) w w1" using call_store' [OF Pair] by auto
  show ?thesis
  proof (cases r)
    case (Some e)
    with Pair w1 keeps_fail show ?thesis by (auto simp: point_daemon_def Let_def intro: keeps_trans)
  next
    case None
    let ?w3 = "resume_torrent b (mi_hash (mt_intent task)) (snd (call_daemon (CallClearFinalDir (mi_hash (mt_intent task))) w1))"
    have "keeps_handles (op_id (planned_op task)) w1 ?w3" by (rule keeps_same) (simp add: keeps_resume)
    with None Pair w1 show ?thesis
      by (auto simp: point_daemon_def Let_def intro: keeps_trans keeps_finish)
  qed
qed

lemma run_copy_store: "w_store (snd (run_copy task w)) = w_store w"
  by (simp add: run_copy_def split_def Let_def split: option.split)

lemma keeps_copy: "keeps_handles (op_id (planned_op task)) w (snd (copy_and_point task b w))"
proof -
  let ?w1 = "mark (op_id (planned_op task)) InProgress [] (mt_now task) w"
  obtain r w2 where r: "run_copy task ?w1 = (r, w2)" by (cases "run_copy task ?w1")
  have w2: "keeps_handles (op_id (planned_op task)) w w2"
    using arg_cong [OF r, of snd] run_copy_store [of task ?w1] by auto
  have w3: "keeps_handles (op_id (planned_op task)) w (resume_torrent b (mi_hash (mt_intent task)) w2)"
    using w2 by (simp add: keeps_handles_def keeps_resume)
  show ?thesis
    using w2 w3 by (auto simp: copy_and_point_def Let_def r intro: keeps_trans keeps_fail keeps_point keeps_finish
        split: sum.splits fs_move_error.splits)
qed

lemma keeps_stop: "keeps_handles (op_id (planned_op task)) w (snd (stop_and_copy task name w))"
proof -
  let ?w1 = "persist (on_journal (set_dst (op_id (planned_op task)) (dir_join (mi_dst_dir (mt_intent task)) name) (mt_now task)) w)"
  obtain b w2 where r: "runs_now (mt_intent task) ?w1 = (b, w2)" by (cases "runs_now (mt_intent task) ?w1")
  then have "w_store w2 = w_store ?w1" by (auto simp: runs_now_def split: if_splits)
  then have w2: "keeps_handles (op_id (planned_op task)) w w2" by auto
  obtain e w3 where c: "call_daemon (CallStop (mi_hash (mt_intent task))) w2 = (e, w3)" by (cases "call_daemon (CallStop (mi_hash (mt_intent task))) w2")
  have w3: "keeps_handles (op_id (planned_op task)) w w3" using w2 call_store' [OF c] by (simp add: keeps_handles_def)
  show ?thesis
    using w2 w3 by (auto simp: stop_and_copy_def Let_def r c intro: keeps_trans keeps_fail keeps_copy split: option.splits)
qed

lemma keeps_execute: "keeps_handles (op_id (planned_op task)) w (snd (execute_move task w))"
proof -
  have w1: "keeps_handles (op_id (planned_op task)) w (begin_move task w)" by (rule keeps_same) (simp add: begin_move_def)
  then show ?thesis
    by (auto simp: execute_move_def Let_def intro: keeps_trans keeps_fail keeps_stop split: preflight_result.splits sum.splits)
qed

section \<open>The server's moves over time\<close>

text \<open>
  What happens to the moves: a poll spawns tasks, a task ends, a user cancels or retries a move, the journal is
  recovered. The first component lists the tasks spawned and not yet ended. A task's work is one step.
\<close>

inductive moves_step ::
  "moves_config \<Rightarrow> (move_intent \<times> int) list \<times> server_moves \<Rightarrow> (move_intent \<times> int) list \<times> server_moves \<Rightarrow> bool"
  for cfg where
  poll: "list_all (\<lambda>t. plain_hash (raw_hash t)) raw \<Longrightarrow> run_due_moves cfg clock raw sm = (spawned, logs, sm') \<Longrightarrow>
    moves_step cfg (live, sm) (live @ spawned, sm')"
| ends: "p \<in> set live \<Longrightarrow> run_task (task_of cfg local daemon_free local_free p) sm = (logs, sm') \<Longrightarrow>
    moves_step cfg (live, sm) (remove1 p live, sm')"
| cancels: "moves_step cfg (live, sm) (live, sm\<lparr>sm_world := on_store (snd \<circ> cancel_move i) (sm_world sm)\<rparr>)"
| retries: "moves_step cfg (live, sm) (live, sm\<lparr>sm_world := persist (on_store (snd \<circ> retry h) (sm_world sm))\<rparr>)"
| recovers: "resume_once exists_local now raw sm = (logs, sm') \<Longrightarrow> moves_step cfg (live, sm) (live, sm')"

inductive_cases moves_stepE: "moves_step cfg (live, sm) (live', sm')"

definition tracked :: "(move_intent \<times> int) list \<Rightarrow> server_moves \<Rightarrow> bool" where
  "tracked live sm \<longleftrightarrow> handles_distinct (w_store (sm_world sm)) \<and> distinct (map (mi_hash \<circ> fst) live) \<and>
     list_all (\<lambda>p. plain_hash (mi_hash (fst p)) \<and> has_handle (w_store (sm_world sm)) p) live"

lemma tracked_same: "ms_active (w_store (sm_world s')) = ms_active (w_store (sm_world s)) \<Longrightarrow> tracked l s' = tracked l s"
  by (simp add: tracked_def handles_distinct_def has_handle_def)

lemma due_intents:
  assumes "i \<in> set (decide_moves raw rules paths skip busy)"
  shows "\<exists>t \<in> set raw. mi_hash i = raw_hash t" "mi_hash i \<notin> busy"
  using assms by (auto simp: decide_moves_def set_map_filter dest: first_settled_iff intent_hash)

lemma due_distinct: "distinct (map mi_hash (decide_moves raw rules paths skip busy))"
  unfolding decide_moves_def by (rule distinct_map_filter [where h = raw_hash, OF intent_hash]) (simp_all add: distinct_map_filter_rows distinct_first_settled)

lemma spawned_intents:
  assumes "run_due_moves cfg clock raw sm = (spawned, logs, sm')"
  shows "spawned = [] \<and> ms_active (w_store (sm_world sm')) = ms_active (w_store (sm_world sm)) \<or>
    (\<exists>w. ms_active (w_store w) = ms_active (w_store (sm_world sm)) \<and>
       (let is = decide_moves raw (mc_rules cfg) [] {} (busy_hashes (w_store w)) in
        register_all clock 0 is w = (spawned, sm_world sm')))"
proof -
  let ?w = "clear_homed (homed_hashes raw (mc_rules cfg) []) (prune_tick (set (map raw_hash raw)) (sm_world sm))"
  have same: "ms_active (w_store ?w) = ms_active (w_store (sm_world sm))" by simp
  obtain sp w3 where r: "register_all clock 0 (decide_moves raw (mc_rules cfg) [] {} (busy_hashes (w_store ?w))) ?w = (sp, w3)"
    by (cases "register_all clock 0 (decide_moves raw (mc_rules cfg) [] {} (busy_hashes (w_store ?w))) ?w")
  show ?thesis
  proof (cases "is_colocated (mc_transport cfg) \<and> moves_configured cfg")
    case True
    with assms r have "spawned = sp" "sm_world sm' = w3" by (auto simp: run_due_moves_def Let_def)
    with r same show ?thesis unfolding Let_def by blast
  next
    case False
    with assms same show ?thesis by (auto simp: run_due_moves_def Let_def split: if_splits)
  qed
qed

lemma poll_tracked:
  assumes "run_due_moves cfg clock raw sm = (spawned, logs, sm')" "tracked live sm" "list_all (\<lambda>t. plain_hash (raw_hash t)) raw"
  shows "tracked (live @ spawned) sm'"
  using spawned_intents [OF assms(1)]
proof
  assume "spawned = [] \<and> ms_active (w_store (sm_world sm')) = ms_active (w_store (sm_world sm))"
  with assms(2) tracked_same [of sm' sm live] show ?thesis by simp
next
  assume "\<exists>w. ms_active (w_store w) = ms_active (w_store (sm_world sm)) \<and>
       (let is = decide_moves raw (mc_rules cfg) [] {} (busy_hashes (w_store w)) in
        register_all clock 0 is w = (spawned, sm_world sm'))"
  then obtain w where w: "ms_active (w_store w) = ms_active (w_store (sm_world sm))"
    and reg: "register_all clock 0 (decide_moves raw (mc_rules cfg) [] {} (busy_hashes (w_store w))) w = (spawned, sm_world sm')"
    by (auto simp: Let_def)
  let ?is = "decide_moves raw (mc_rules cfg) [] {} (busy_hashes (w_store w))"
  have handles: "list_all (has_handle (w_store w)) live"
    using assms(2) handle_same [OF w] by (auto simp: tracked_def list_all_iff)
  have plain: "list_all (\<lambda>i. plain_hash (mi_hash i)) ?is"
    using assms(3) due_intents(1) by (fastforce simp: list_all_iff)
  have fresh: "mi_hash i \<noteq> mi_hash (fst p)" if "i \<in> set ?is" "p \<in> set live" for i p
    using due_intents(2) [OF that(1)] handle_busy [of "w_store w" p] handles that(2) by (auto simp: list_all_iff)
  have new: "map fst spawned = ?is" "list_all (has_handle (w_store (sm_world sm'))) spawned"
    using register_all_intents [of clock 0 ?is w] register_all_new [OF plain due_distinct, of clock 0 w] by (simp_all add: reg)
  have old: "has_handle (w_store (sm_world sm')) p" if "p \<in> set live" for p
    using register_all_old [of w p ?is clock 0] handles plain fresh that assms(2) by (auto simp: reg list_all_iff tracked_def)
  have hashes: "map (mi_hash \<circ> fst) spawned = map mi_hash ?is" by (simp flip: new(1))
  then have "distinct (map (mi_hash \<circ> fst) spawned)" using due_distinct by simp
  moreover have "(mi_hash \<circ> fst) ` set live \<inter> (mi_hash \<circ> fst) ` set spawned = {}"
  proof -
    have "(mi_hash \<circ> fst) ` set spawned = mi_hash ` set ?is" using arg_cong [OF hashes, of set] by simp
    then show ?thesis using fresh [THEN not_sym] by auto
  qed
  moreover have "plain_hash (mi_hash (fst p))" if "p \<in> set spawned" for p
  proof -
    have "fst p \<in> set ?is" using that by (auto simp flip: new(1))
    with plain show ?thesis by (simp add: list_all_iff)
  qed
  moreover have "handles_distinct (w_store (sm_world sm'))"
    using register_all_distinct [of w clock 0 ?is] assms(2) w by (simp add: reg tracked_def handles_distinct_def)
  ultimately show ?thesis using assms(2) old new(2) by (auto simp: tracked_def list_all_iff)
qed

lemma task_tracked:
  assumes "run_task (task_of cfg local dfree lfree p) sm = (logs, sm')" "tracked live sm" "p \<in> set live"
  shows "tracked (remove1 p live) sm'"
proof -
  let ?task = "task_of cfg local dfree lfree p"
  have oid: "op_id (planned_op ?task) = make_id (mi_hash (fst p)) (snd p)"
    by (simp add: planned_op_def task_of_def split_def Let_def)
  obtain r w where e: "execute_move ?task (sm_world sm) = (r, w)" by (cases "execute_move ?task (sm_world sm)")
  have "keeps_handles (op_id (planned_op ?task)) (sm_world sm) w"
    using keeps_execute [of ?task "sm_world sm"] by (simp add: e)
  then have keep: "keeps_handles (op_id (planned_op ?task)) (sm_world sm) (sm_world sm')"
    using assms(1) by (auto simp: run_task_def e Let_def keeps_handles_def handles_distinct_def on_store_def unregister_def AList.delete_conv' AList.distinct_delete)
  have d: "distinct live" using assms(2) by (auto simp: tracked_def distinct_map)
  have "has_handle (w_store (sm_world sm')) q" if "q \<in> set (remove1 p live)" for q
  proof -
    have q: "q \<in> set live" "q \<noteq> p" using that d by auto
    with assms(2, 3) have "mi_hash (fst q) \<noteq> mi_hash (fst p)" by (auto simp: tracked_def distinct_map inj_on_def)
    moreover have "plain_hash (mi_hash (fst q))" "plain_hash (mi_hash (fst p))" "has_handle (w_store (sm_world sm)) q"
      using assms(2, 3) q(1) by (auto simp: tracked_def list_all_iff)
    moreover have "make_id (mi_hash (fst q)) (snd q) \<noteq> op_id (planned_op ?task)"
      using calculation(1) make_id_hash [OF _ calculation(2, 3)] unfolding oid by blast
    ultimately show ?thesis using keep by (simp add: keeps_handles_def has_handle_def)
  qed
  moreover have "distinct (map (mi_hash \<circ> fst) (remove1 p live))"
    using assms(2) d by (auto simp: tracked_def distinct_map intro: inj_on_subset dest: notin_set_remove1)
  moreover have "set (remove1 p live) \<subseteq> set live" by (rule set_remove1_subset)
  moreover have "handles_distinct (w_store (sm_world sm'))" using keep assms(2) by (simp add: keeps_handles_def tracked_def)
  ultimately show ?thesis using assms(2) by (auto simp: tracked_def list_all_iff)
qed

lemma cancel_keeps:
  assumes "handles_distinct st"
  shows "handles_distinct (snd (cancel_move i st))"
    and "has_handle st p \<Longrightarrow> has_handle (snd (cancel_move i st)) p"
proof -
  show "handles_distinct (snd (cancel_move i st))"
    using assms by (auto simp: cancel_move_def handles_distinct_def AList.distinct_update split: option.splits)
  have entry: "map_of (ms_active st) k = Some b" if "find P (ms_active st) = Some (k, b)" for P k b
    using that assms find_Some_set by (fastforce simp: handles_distinct_def)
  show "has_handle (snd (cancel_move i st)) p" if "has_handle st p"
    using that by (auto simp: has_handle_def cancel_move_def AList.update_conv' split: option.splits dest!: entry)
qed

text \<open>Property C8. No torrent is moved twice at once. Through any sequence of polls, ends of tasks, cancels, retries and
  recoveries the server never has two live move tasks for one torrent, and each live task keeps the handle that
  marks its torrent busy, so that no poll, queue tick or retry can start a second one. (Hashes are as the daemon
  writes them: upper case, without a dash.) A server away from its daemon starts no move and calls nothing.\<close>

theorem one_live_task_per_torrent:
  assumes "(moves_step cfg)\<^sup>*\<^sup>* ([], sm0) (live, sm)" "handles_distinct (w_store (sm_world sm0))"
  shows "distinct (map (mi_hash \<circ> fst) live) \<and> list_all (\<lambda>p. mi_hash (fst p) \<in> busy_hashes (w_store (sm_world sm))) live \<and>
    (\<not> is_colocated (mc_transport cfg) \<longrightarrow> (let (spawned, logs, sm') = run_due_moves cfg clock raw sm in spawned = [] \<and> sm_world sm' = sm_world sm))"
proof -
  have preserved: "tracked l' s'" if "moves_step cfg (l, s) (l', s')" "tracked l s" for l s l' s'
    using that(1)
  proof (cases rule: moves_step.cases)
    case (poll raw clock spawned logs)
    with that(2) show ?thesis by (auto intro: poll_tracked)
  next
    case (ends p local dfree lfree logs)
    with that(2) show ?thesis by (auto intro: task_tracked)
  next
    case (cancels i)
    with that(2) cancel_keeps show ?thesis by (auto simp: tracked_def list_all_iff on_store_def)
  next
    case (retries h)
    have "ms_active (w_store (persist (on_store (snd \<circ> retry h) w))) = ms_active (w_store w)" for w
      by (simp add: on_store_def retry_def Let_def)
    then have "ms_active (w_store (sm_world s')) = ms_active (w_store (sm_world s))" using retries by simp
    with that(2) retries tracked_same show ?thesis by blast
  next
    case (recovers exists_local now raw logs)
    have "ms_active (w_store (resume_op lv ex n o' w)) = ms_active (w_store w)" for lv ex n o' w
      by (auto simp: resume_op_def split: option.splits prod.splits dest!: call_store')
    then have f: "ms_active (w_store (fold (resume_op lv ex n) os w)) = ms_active (w_store w)" for lv ex n os w
      by (induction os arbitrary: w) simp_all
    have "ms_active (w_store (resume_moves lv ex n w)) = ms_active (w_store w)" for lv ex n w
      by (simp add: resume_moves_def f on_store_def prune_unknown_def)
    then have "ms_active (w_store (sm_world s')) = ms_active (w_store (sm_world s))"
      using recovers by (auto simp: resume_once_def split: if_splits)
    with that(2) recovers tracked_same show ?thesis by blast
  qed
  have "tracked live sm"
    using assms(1)
  proof (induction rule: rtranclp_induct2)
    case refl
    then show ?case using assms(2) by (simp add: tracked_def)
  next
    case (step l s l' s')
    then show ?case using preserved by blast
  qed
  then show ?thesis
    by (auto simp: tracked_def list_all_iff run_due_moves_def intro: handle_busy)
qed

definition move_ready :: raw_torrent where
  "move_ready = raw_torrent_default\<lparr>raw_hash := ''AA'', raw_name := ''film'', raw_complete := True, raw_directory := ''/dl'',
     raw_base_path := ''/dl/film'', raw_final_dir := ''/media''\<rparr>"

definition local_config :: moves_config where
  "local_config = \<lparr>mc_transport = UnixSocket ''/run/rt.sock'', mc_incomplete_dir = ''/dl'', mc_rules = [], mc_policy = AutoRename\<rparr>"

definition fresh_moves :: server_moves where
  "fresh_moves = \<lparr>sm_world = \<lparr>w_store = store_load None, w_saves = [], w_fs = \<lparr>fs_root = Dir [], fs_io = [], fs_cancel = [], fs_copied = 0, fs_reports = [], fs_leftover = id\<rparr>,
     w_rows = None, w_replies = [], w_join = None, w_trace = []\<rparr>, sm_resumed = False, sm_warned = False\<rparr>"

theorem one_live_task_per_torrent_witness:
  "\<exists>p sm. (moves_step local_config)\<^sup>*\<^sup>* ([], fresh_moves) ([p], sm) \<and> mi_hash (fst p) = ''AA'' \<and>
     ''AA'' \<in> busy_hashes (w_store (sm_world sm))"
proof -
  obtain spawned logs sm where r: "run_due_moves local_config (\<lambda>n. 5) [move_ready] fresh_moves = (spawned, logs, sm)"
    by (cases "run_due_moves local_config (\<lambda>n. 5) [move_ready] fresh_moves") auto
  have "map (mi_hash \<circ> fst) (fst (run_due_moves local_config (\<lambda>n. 5) [move_ready] fresh_moves)) = [''AA'']" by code_simp
  then obtain p where p: "spawned = [p]" "mi_hash (fst p) = ''AA''" by (auto simp: r)
  have "to_upper ''AA'' = ''AA''" by code_simp
  then have "list_all (\<lambda>t. plain_hash (raw_hash t)) [move_ready]" by (simp add: plain_hash_def move_ready_def)
  from poll [OF this r, of "[]"] have "moves_step local_config ([], fresh_moves) ([p], sm)" by (simp add: p(1))
  then have steps: "(moves_step local_config)\<^sup>*\<^sup>* ([], fresh_moves) ([p], sm)" by simp
  have "handles_distinct (w_store (sm_world fresh_moves))" by (simp add: handles_distinct_def fresh_moves_def store_load_def)
  from one_live_task_per_torrent [OF steps this] p(2) steps show ?thesis by fastforce
qed

end
