(* ===== verification/Poller.thy ===== *)
theory Poller
  imports Delta Queue File_Index Server_Moves
begin

text \<open>
  The server's polling loop (\<open>server/src/poller.rs\<close>) over the shared state (\<open>AppState\<close> in \<open>server/src/state.rs\<close>), and
  the two handlers that serve what it publishes (\<open>get_state\<close>, \<open>get_delta\<close> in \<open>server/src/api.rs\<close>). The daemon's answers
  and the clocks are the environment of a poll. JSON is serde's: a body is the value it encodes, and the hash of a
  body's bytes, its ETag, is a function of the value (\<open>None\<close> when the value cannot be encoded).
\<close>

record poller_config =
  pg_moves :: moves_config
  pg_queue :: queue_config
  pg_mock :: bool
  pg_save_path :: string

record tags =
  tg_snapshot :: "snapshot \<Rightarrow> string option"
  tg_delta :: "snapshot_delta \<Rightarrow> string option"
  tg_connecting :: string

record cached =
  ca_etag :: string
  ca_snapshot :: snapshot
  ca_at :: int

record cached_delta =
  cd_etag :: string
  cd_delta :: snapshot_delta
  cd_at :: int

record server =
  sv_cache :: "cached option"
  sv_delta :: "cached_delta option"
  sv_prev :: "snapshot option"
  sv_revision :: nat
  sv_conn :: conn_state
  sv_trackers :: "string \<rightharpoonup> string"
  sv_log :: "log_entry log_ring"
  sv_last_request :: int
  sv_polls :: nat
  sv_history :: "stats_sample list"
  sv_index :: file_index
  sv_queue :: queue_memory
  sv_moves :: server_moves

record poll_env =
  pe_rows :: "rtorrent_error + raw_torrent list"
  pe_globals :: "rtorrent_error + raw_global"
  pe_version :: "string option"
  pe_tracker :: "string \<Rightarrow> string option"
  pe_files :: "string \<Rightarrow> string list option"
  pe_pause_ok :: "string list \<Rightarrow> bool"
  pe_start_ok :: "string list \<Rightarrow> bool"
  pe_exists :: "string \<Rightarrow> bool"
  pe_disk :: "(int \<times> int) option"
  pe_now :: "nat \<Rightarrow> int"
  pe_at :: int

datatype poll_call = PauseCall "string list" | StartCall "string list"

record poll_out =
  po_calls :: "poll_call list"
  po_spawned :: "(move_intent \<times> int) list"

fun endpoint_label :: "transport_kind \<Rightarrow> string" where
  "endpoint_label (UnixSocket path) = ''unix:'' @ path"
| "endpoint_label (Tcp host port) = ''tcp:'' @ host @ '':'' @ show_nat port"
| "endpoint_label (Http url _) = url"

definition log_line :: "log_entry \<Rightarrow> server \<Rightarrow> server" where
  "log_line e sv = sv\<lparr>sv_log := append_log e (sv_log sv)\<rparr>"

definition log_lines :: "log_entry list \<Rightarrow> server \<Rightarrow> server" where
  "log_lines es sv = foldl (\<lambda>sv e. log_line e sv) sv es"

definition tracker_host :: "server \<Rightarrow> string \<Rightarrow> string" where
  "tracker_host sv hash = (case sv_trackers sv hash of Some host \<Rightarrow> host | None \<Rightarrow> [])"

section \<open>A poll\<close>

definition trackers_per_tick :: nat where "trackers_per_tick = 5"
definition file_index_batch :: nat where "file_index_batch = 5"
definition slow_every :: nat where "slow_every = 30"
definition full_every :: nat where "full_every = 30"

definition on_connect :: "poller_config \<Rightarrow> string option \<Rightarrow> server \<Rightarrow> server" where
  "on_connect cfg version sv =
     log_line (info ''connected to rtorrent'')
       (sv\<lparr>sv_conn := \<lparr>cs_phase = Connected, cs_endpoint = endpoint_label (mc_transport (pg_moves cfg)),
             cs_daemon_version = version, cs_error = None, cs_retry_in_seconds = None\<rparr>,
           sv_index := clear_index (sv_index sv)\<rparr>)"

definition resolve_trackers :: "(string \<Rightarrow> string option) \<Rightarrow> raw_torrent list \<Rightarrow> server \<Rightarrow> server" where
  "resolve_trackers host raw sv =
     (let unknown = take trackers_per_tick (filter (\<lambda>h. sv_trackers sv h = None) (map raw_hash raw)) in
      sv\<lparr>sv_trackers := foldl (\<lambda>m h. case host h of Some t \<Rightarrow> m(h \<mapsto> t) | None \<Rightarrow> m) (sv_trackers sv) unknown\<rparr>)"

definition index_files :: "(string \<Rightarrow> string list option) \<Rightarrow> raw_torrent list \<Rightarrow> server \<Rightarrow> server" where
  "index_files files raw sv =
     (let needed = needs (sv_index sv) (map raw_hash raw) file_index_batch in
      sv\<lparr>sv_index := foldl (\<lambda>ix h. case files h of Some ps \<Rightarrow> record_files h ps ix | None \<Rightarrow> ix) (sv_index sv) needed\<rparr>)"

definition slow_work :: "poll_env \<Rightarrow> raw_torrent list \<Rightarrow> raw_global \<Rightarrow> server \<Rightarrow> server" where
  "slow_work env raw g sv =
     (let sv1 = index_files (pe_files env) raw (resolve_trackers (pe_tracker env) raw sv) in
      sv1\<lparr>sv_history := record_sample (pe_now env 0) (rg_down_rate g) (rg_up_rate g) (sv_history sv1)\<rparr>)"

definition moves_tick :: "poller_config \<Rightarrow> poll_env \<Rightarrow> raw_torrent list \<Rightarrow> server \<Rightarrow> (move_intent \<times> int) list \<times> server" where
  "moves_tick cfg env raw sv =
     (let (logs1, sm1) = resume_once (pe_exists env) (pe_now env 1) raw (sv_moves sv);
          (spawned, logs2, sm2) = run_due_moves (pg_moves cfg) (\<lambda>n. pe_now env (n + 2)) raw sm1
      in (spawned, log_lines (logs1 @ logs2) (sv\<lparr>sv_moves := sm2\<rparr>)))"

definition poll_queue :: "poller_config \<Rightarrow> poll_env \<Rightarrow> raw_torrent list \<Rightarrow> server \<Rightarrow> poll_call list \<times> server" where
  "poll_queue cfg env raw sv =
     (let (actions, mem) = decide_queues raw (pg_queue cfg) (sv_queue sv) (busy_hashes (w_store (sm_world (sv_moves sv))));
          sv1 = sv\<lparr>sv_queue := mem\<rparr>;
          sv2 = (if qa_stop actions \<noteq> [] \<and> pe_pause_ok env (qa_stop actions)
                 then log_line (info (''queued '' @ show_nat (length (qa_stop actions)) @ '' torrent(s) over the active limit'')) sv1 else sv1);
          sv3 = (if qa_start actions \<noteq> [] \<and> pe_start_ok env (qa_start actions)
                 then log_line (info (''started '' @ show_nat (length (qa_start actions)) @ '' queued torrent(s)'')) sv2 else sv2)
      in ((if qa_stop actions \<noteq> [] then [PauseCall (qa_stop actions)] else []) @
          (if qa_start actions \<noteq> [] then [StartCall (qa_start actions)] else []), sv3))"

definition gib :: int where "gib = 1024 * 1024 * 1024"

definition disk_figures :: "poller_config \<Rightarrow> (int \<times> int) option \<Rightarrow> int option \<times> int option" where
  "disk_figures cfg disk =
     (if pg_mock cfg then (Some (412 * gib), Some (1114 * gib))
      else if pg_save_path cfg = [] then (None, None)
      else case disk of Some (free, whole) \<Rightarrow> (Some free, Some whole) | None \<Rightarrow> (None, None))"

definition assemble :: "poller_config \<Rightarrow> (int \<times> int) option \<Rightarrow> raw_torrent list \<Rightarrow> raw_global \<Rightarrow> nat \<Rightarrow> server \<Rightarrow> snapshot" where
  "assemble cfg disk raw g revision sv =
     (let (free_space, disk_size) = disk_figures cfg disk in
      \<lparr>sn_revision = revision, sn_torrents = to_dtos raw (tracker_host sv) (\<lambda>_. None),
       sn_globals = to_globals g free_space disk_size False, sn_connection = sv_conn sv\<rparr>)"

text \<open>What a poll does with the daemon's rows and rates before it publishes.\<close>

definition poll_work :: "poller_config \<Rightarrow> poll_env \<Rightarrow> nat \<Rightarrow> raw_torrent list \<Rightarrow> raw_global \<Rightarrow> server \<Rightarrow> poll_out \<times> server" where
  "poll_work cfg env tick raw g sv =
     (let sv1 = sv\<lparr>sv_polls := sv_polls sv + 1\<rparr>;
          sv2 = (if cs_phase (sv_conn sv) = Connected then sv1 else on_connect cfg (pe_version env) sv1);
          sv3 = sv2\<lparr>sv_index := retain_live (set (map raw_hash raw)) (sv_index sv2)\<rparr>;
          sv4 = (if tick mod slow_every = 0 then slow_work env raw g sv3 else sv3);
          (spawned, sv5) = moves_tick cfg env raw sv4;
          (calls, sv6) = poll_queue cfg env raw sv5
      in (\<lparr>po_calls = calls, po_spawned = spawned\<rparr>, sv6))"

definition prepare_poll ::
  "poller_config \<Rightarrow> poll_env \<Rightarrow> nat \<Rightarrow> server \<Rightarrow> rtorrent_error + snapshot \<times> poll_out \<times> server" where
  "prepare_poll cfg env tick sv =
     (case pe_rows env of
        Inl e \<Rightarrow> Inl e
      | Inr raw \<Rightarrow>
          (case pe_globals env of
             Inl e \<Rightarrow> Inl e
           | Inr g \<Rightarrow>
               (let (out, sv') = poll_work cfg env tick raw g sv; rv = sv_revision sv' + 1
                in Inr (assemble cfg (pe_disk env) raw g rv sv', out, sv'\<lparr>sv_revision := rv\<rparr>))))"

text \<open>Publishing: three writes under three locks, first the delta, then the previous snapshot, then the cache.\<close>

definition publish_delta :: "tags \<Rightarrow> int \<Rightarrow> nat \<Rightarrow> bool \<Rightarrow> snapshot \<Rightarrow> server \<Rightarrow> server" where
  "publish_delta tg at_ms tick was_connected snap sv =
     (case sv_prev sv of
        None \<Rightarrow> sv\<lparr>sv_delta := None\<rparr>
      | Some prev \<Rightarrow>
          if \<not> was_connected \<or> tick mod full_every = 0 then sv\<lparr>sv_delta := None\<rparr>
          else (case tg_delta tg (diff prev snap) of
                  None \<Rightarrow> sv
                | Some etag \<Rightarrow> sv\<lparr>sv_delta := Some \<lparr>cd_etag = etag, cd_delta = diff prev snap, cd_at = at_ms\<rparr>\<rparr>))"

definition publish_prev :: "snapshot \<Rightarrow> server \<Rightarrow> server" where
  "publish_prev snap sv = sv\<lparr>sv_prev := Some snap\<rparr>"

definition publish_cache :: "string \<Rightarrow> int \<Rightarrow> snapshot \<Rightarrow> server \<Rightarrow> server" where
  "publish_cache etag at_ms snap sv = sv\<lparr>sv_cache := Some \<lparr>ca_etag = etag, ca_snapshot = snap, ca_at = at_ms\<rparr>\<rparr>"

definition encode_failed :: log_entry where
  "encode_failed = \<lparr>le_level = ErrorLevel, le_message = ''snapshot serialize failed'', le_hash = None\<rparr>"

definition store_snap :: "tags \<Rightarrow> int \<Rightarrow> nat \<Rightarrow> bool \<Rightarrow> snapshot \<Rightarrow> server \<Rightarrow> server" where
  "store_snap tg at_ms tick was_connected snap sv =
     (case tg_snapshot tg snap of
        None \<Rightarrow> log_line encode_failed sv
      | Some etag \<Rightarrow> publish_cache etag at_ms snap (publish_prev snap (publish_delta tg at_ms tick was_connected snap sv)))"

definition poll_once :: "poller_config \<Rightarrow> tags \<Rightarrow> poll_env \<Rightarrow> nat \<Rightarrow> server \<Rightarrow> rtorrent_error option \<times> poll_out \<times> server" where
  "poll_once cfg tg env tick sv =
     (case prepare_poll cfg env tick sv of
        Inl e \<Rightarrow> (Some e, \<lparr>po_calls = [], po_spawned = []\<rparr>, sv)
      | Inr (snap, out, sv') \<Rightarrow> (None, out, store_snap tg (pe_at env) tick (cs_phase (sv_conn sv) = Connected) snap sv'))"

section \<open>The loop\<close>

definition lost_conn :: "poller_config \<Rightarrow> rtorrent_error \<Rightarrow> nat \<Rightarrow> conn_state" where
  "lost_conn cfg err delay =
     \<lparr>cs_phase = Disconnected, cs_endpoint = endpoint_label (mc_transport (pg_moves cfg)), cs_daemon_version = None,
      cs_error = Some (error_text err), cs_retry_in_seconds = Some (int delay)\<rparr>"

definition lost_snapshot :: "nat \<Rightarrow> conn_state \<Rightarrow> snapshot" where
  "lost_snapshot rv conn = \<lparr>sn_revision = rv, sn_torrents = [], sn_globals = empty_globals, sn_connection = conn\<rparr>"

text \<open>A body that cannot be encoded is the empty one here; its hash is the tag given for it.\<close>

definition set_disconnected :: "poller_config \<Rightarrow> tags \<Rightarrow> int \<Rightarrow> rtorrent_error \<Rightarrow> nat \<Rightarrow> server \<Rightarrow> server" where
  "set_disconnected cfg tg at_ms err delay sv =
     (let conn = lost_conn cfg err delay; rv = sv_revision sv + 1; snap = lost_snapshot rv conn;
          etag = (case tg_snapshot tg snap of Some t \<Rightarrow> t | None \<Rightarrow> [])
      in publish_cache etag at_ms snap (publish_prev snap (sv\<lparr>sv_conn := conn, sv_revision := rv, sv_delta := None\<rparr>)))"

definition backoff :: "nat list" where "backoff = [1, 2, 5, 10]"

definition backoff_delay :: "nat \<Rightarrow> nat" where
  "backoff_delay failures = backoff ! min (failures - 1) (length backoff - 1)"

definition idle_after_ms :: int where "idle_after_ms = 10000"

definition must_park :: "int \<Rightarrow> server \<Rightarrow> bool" where
  "must_park now sv \<longleftrightarrow> now - sv_last_request sv > idle_after_ms"

record loop_state =
  lp_failures :: nat
  lp_tick :: nat

text \<open>One turn of the loop after it is awake; what it waits for next is the cadence, or the delay in seconds.\<close>

definition loop_turn ::
  "poller_config \<Rightarrow> tags \<Rightarrow> poll_env \<Rightarrow> loop_state \<times> server \<Rightarrow> nat option \<times> poll_out \<times> loop_state \<times> server" where
  "loop_turn cfg tg env ls =
     (let (lp, sv) = ls in
      case poll_once cfg tg env (lp_tick lp) sv of
        (None, out, sv') \<Rightarrow> (None, out, \<lparr>lp_failures = 0, lp_tick = (lp_tick lp + 1) mod 2 ^ 64\<rparr>, sv')
      | (Some err, out, sv') \<Rightarrow>
          (let failures = lp_failures lp + 1; delay = backoff_delay failures;
               sv1 = (if failures = 1
                      then log_line \<lparr>le_level = ErrorLevel, le_message = ''rtorrent unreachable: '' @ error_text err, le_hash = None\<rparr> sv'
                      else sv')
           in (Some delay, out, lp\<lparr>lp_failures := failures\<rparr>, set_disconnected cfg tg (pe_at env) err delay sv1)))"

section \<open>The handlers\<close>

definition connecting_snapshot :: "server \<Rightarrow> snapshot" where
  "connecting_snapshot sv = lost_snapshot 0 (sv_conn sv)"

datatype delta_answer =
    NotModified string
  | OkSnapshot string snapshot
  | OkDelta string snapshot_delta
  | Conflict string snapshot
  | MissingSince

definition mark_request :: "int \<Rightarrow> server \<Rightarrow> server" where
  "mark_request now sv = sv\<lparr>sv_last_request := now\<rparr>"

definition answer_snapshot :: "string option \<Rightarrow> string \<Rightarrow> snapshot \<Rightarrow> delta_answer" where
  "answer_snapshot inm etag snap = (if inm = Some etag then NotModified etag else OkSnapshot etag snap)"

definition state_answer :: "tags \<Rightarrow> string option \<Rightarrow> server \<Rightarrow> delta_answer" where
  "state_answer tg inm sv =
     (case sv_cache sv of
        None \<Rightarrow> answer_snapshot inm (tg_connecting tg) (connecting_snapshot sv)
      | Some c \<Rightarrow> answer_snapshot inm (ca_etag c) (ca_snapshot c))"

text \<open>\<open>get_delta\<close> reads the cache, then the delta cache: its answer is a function of the two reads.\<close>

definition delta_answer_of ::
  "tags \<Rightarrow> nat option \<Rightarrow> string option \<Rightarrow> conn_state \<Rightarrow> cached option \<Rightarrow> cached_delta option \<Rightarrow> delta_answer" where
  "delta_answer_of tg since inm conn cache dcache =
     (case cache of
        None \<Rightarrow> answer_snapshot inm (tg_connecting tg) (lost_snapshot 0 conn)
      | Some c \<Rightarrow>
          (case since of
             None \<Rightarrow> MissingSince
           | Some r \<Rightarrow>
               if r = sn_revision (ca_snapshot c)
               then (if inm = Some (ca_etag c) then NotModified (ca_etag c)
                     else case dcache of
                            Some d \<Rightarrow> if inm = Some (cd_etag d) then NotModified (cd_etag d) else NotModified (ca_etag c)
                          | None \<Rightarrow> NotModified (ca_etag c))
               else (case dcache of
                       Some d \<Rightarrow>
                         if sd_base_revision (cd_delta d) = r \<and> sd_revision (cd_delta d) = sn_revision (ca_snapshot c)
                         then (if inm = Some (cd_etag d) then NotModified (cd_etag d) else OkDelta (cd_etag d) (cd_delta d))
                         else Conflict (ca_etag c) (ca_snapshot c)
                     | None \<Rightarrow> Conflict (ca_etag c) (ca_snapshot c))))"

definition get_delta :: "tags \<Rightarrow> nat option \<Rightarrow> string option \<Rightarrow> server \<Rightarrow> delta_answer" where
  "get_delta tg since inm sv = delta_answer_of tg since inm (sv_conn sv) (sv_cache sv) (sv_delta sv)"

definition cache_stale :: "nat \<Rightarrow> int \<Rightarrow> server \<Rightarrow> bool" where
  "cache_stale poll_ms now sv = (case sv_cache sv of None \<Rightarrow> True | Some c \<Rightarrow> now - ca_at c > int poll_ms * 3)"

definition get_search :: "string \<Rightarrow> server \<Rightarrow> string list \<times> nat" where
  "get_search q sv =
     (let needle = to_lower (trim q); indexed = index_size (sv_index sv) in
      if needle = [] then ([], indexed)
      else (case sv_cache sv of
              None \<Rightarrow> ([], indexed)
            | Some c \<Rightarrow> (map dto_hash (filter (\<lambda>t. index_contains (sv_index sv) (dto_hash t) needle) (sn_torrents (ca_snapshot c))), indexed)))"

section \<open>What a poll leaves alone\<close>

definition published :: "server \<Rightarrow> cached option \<times> cached_delta option \<times> snapshot option \<times> nat" where
  "published sv = (sv_cache sv, sv_delta sv, sv_prev sv, sv_revision sv)"

lemma log_line_published [simp]: "published (log_line e sv) = published sv"
  by (simp add: published_def log_line_def)

lemma log_lines_published [simp]: "published (log_lines es sv) = published sv"
  by (induction es arbitrary: sv) (simp_all add: log_lines_def)

lemma on_connect_published [simp]: "published (on_connect cfg v sv) = published sv"
  by (simp add: on_connect_def) (simp add: published_def)

lemma slow_work_published [simp]: "published (slow_work env raw g sv) = published sv"
  by (simp add: slow_work_def published_def index_files_def resolve_trackers_def Let_def)

lemma moves_tick_published [simp]: "published (snd (moves_tick cfg env raw sv)) = published sv"
  by (simp add: moves_tick_def split_def Let_def) (simp add: published_def)

lemma poll_queue_published [simp]: "published (snd (poll_queue cfg env raw sv)) = published sv"
  by (simp add: poll_queue_def split_def Let_def) (simp add: published_def)

lemma index_published [simp]: "published (sv\<lparr>sv_index := ix\<rparr>) = published sv" "published (sv\<lparr>sv_polls := n\<rparr>) = published sv"
  by (simp_all add: published_def)

lemma poll_work_published [simp]: "published (snd (poll_work cfg env tick raw g sv)) = published sv"
  by (simp add: poll_work_def split_def Let_def)

lemma prepare_published:
  assumes "prepare_poll cfg env tick sv = Inr (snap, out, sv')"
  shows "sn_revision snap = Suc (sv_revision sv) \<and> published sv' = (sv_cache sv, sv_delta sv, sv_prev sv, Suc (sv_revision sv)) \<and>
    (\<exists>raw. pe_rows env = Inr raw \<and> map dto_hash (sn_torrents snap) = map raw_hash raw)"
proof -
  obtain raw g where rows: "pe_rows env = Inr raw" "pe_globals env = Inr g"
    using assms by (auto simp: prepare_poll_def split: sum.splits)
  obtain o' sv6 where work: "poll_work cfg env tick raw g sv = (o', sv6)" by (cases "poll_work cfg env tick raw g sv")
  then have "published sv6 = published sv" using poll_work_published [of cfg env tick raw g sv] by simp
  then show ?thesis
    using assms rows by (auto simp: prepare_poll_def work published_def assemble_def split_def Let_def to_dtos_hashes)
qed

section \<open>A browser that follows the server\<close>

text \<open>
  The browser's poll (\<open>pollTick\<close> in \<open>src/ipc/web.ts\<close>): without a copy it asks for the state, else for the delta since its
  copy's revision, and it trusts the status code to tell a delta from a snapshot. \<open>wc_broken\<close> records a delta that could not
  be applied, or a snapshot read as a delta.
\<close>

record web_client =
  wc_copy :: "snapshot option"
  wc_state_tag :: "string option"
  wc_delta_tag :: "string option"
  wc_broken :: bool

definition new_client :: web_client where
  "new_client = \<lparr>wc_copy = None, wc_state_tag = None, wc_delta_tag = None, wc_broken = False\<rparr>"

fun client_reads :: "delta_answer \<Rightarrow> web_client \<Rightarrow> web_client" where
  "client_reads (NotModified _) cl = cl"
| "client_reads (Conflict etag s) cl = cl\<lparr>wc_copy := Some s, wc_state_tag := Some etag, wc_delta_tag := None\<rparr>"
| "client_reads MissingSince cl = cl\<lparr>wc_copy := None\<rparr>"
| "client_reads (OkSnapshot etag s) cl =
     (if wc_copy cl = None then cl\<lparr>wc_copy := Some s, wc_state_tag := Some etag\<rparr> else cl\<lparr>wc_broken := True\<rparr>)"
| "client_reads (OkDelta etag d) cl =
     (case Option.bind (wc_copy cl) (\<lambda>c. case delta_apply c d of Inr r \<Rightarrow> r | Inl _ \<Rightarrow> None) of
        Some c \<Rightarrow> cl\<lparr>wc_copy := Some c, wc_delta_tag := Some etag\<rparr>
      | None \<Rightarrow> cl\<lparr>wc_broken := True\<rparr>)"

text \<open>
  Server and browser step by step: the poller's three writes and the browser's two reads interleave in any order. The
  request holds what its first read saw; \<open>ws_pubs\<close> lists all snapshots published so far.
\<close>

datatype stage = Ready | Delta_written snapshot string int | Prev_written snapshot string int

record web_sys =
  ws_server :: server
  ws_stage :: stage
  ws_client :: web_client
  ws_request :: "cached option option"
  ws_pubs :: "snapshot list"

definition client_answer :: "tags \<Rightarrow> web_client \<Rightarrow> cached option \<Rightarrow> server \<Rightarrow> delta_answer" where
  "client_answer tg cl seen sv =
     (case wc_copy cl of
        None \<Rightarrow> state_answer tg (wc_state_tag cl) (sv\<lparr>sv_cache := seen\<rparr>)
      | Some c \<Rightarrow> delta_answer_of tg (Some (sn_revision c)) (wc_delta_tag cl) (sv_conn sv) seen (sv_delta sv))"

inductive web_step :: "poller_config \<Rightarrow> tags \<Rightarrow> web_sys \<Rightarrow> web_sys \<Rightarrow> bool" for cfg tg where
  polls: "ws_stage S = Ready \<Longrightarrow> prepare_poll cfg env tick (ws_server S) = Inr (snap, out, sv) \<Longrightarrow> wf_snapshot snap \<Longrightarrow>
    tg_snapshot tg snap = Some etag \<Longrightarrow>
    web_step cfg tg S (S\<lparr>ws_server := publish_delta tg (pe_at env) tick (cs_phase (sv_conn (ws_server S)) = Connected) snap sv,
      ws_stage := Delta_written snap etag (pe_at env), ws_pubs := snap # ws_pubs S\<rparr>)"
| loses: "ws_stage S = Ready \<Longrightarrow> snap = lost_snapshot (sv_revision (ws_server S) + 1) (lost_conn cfg err delay) \<Longrightarrow>
    web_step cfg tg S (S\<lparr>ws_server := (ws_server S)\<lparr>sv_conn := lost_conn cfg err delay, sv_revision := sv_revision (ws_server S) + 1, sv_delta := None\<rparr>,
      ws_stage := Delta_written snap etag now, ws_pubs := snap # ws_pubs S\<rparr>)"
| writes_prev: "ws_stage S = Delta_written snap etag now \<Longrightarrow>
    web_step cfg tg S (S\<lparr>ws_server := publish_prev snap (ws_server S), ws_stage := Prev_written snap etag now\<rparr>)"
| writes_cache: "ws_stage S = Prev_written snap etag now \<Longrightarrow>
    web_step cfg tg S (S\<lparr>ws_server := publish_cache etag now snap (ws_server S), ws_stage := Ready\<rparr>)"
| asks: "ws_request S = None \<Longrightarrow>
    web_step cfg tg S (S\<lparr>ws_request := Some (sv_cache (ws_server S)), ws_server := mark_request now (ws_server S)\<rparr>)"
| gets: "ws_request S = Some seen \<Longrightarrow>
    web_step cfg tg S (S\<lparr>ws_request := None, ws_client := client_reads (client_answer tg (ws_client S) seen (ws_server S)) (ws_client S)\<rparr>)"

text \<open>The system just after a first publication, with a browser that has nothing yet.\<close>

definition warm :: "web_sys \<Rightarrow> bool" where
  "warm S \<longleftrightarrow> (\<exists>s etag at_ms. sv_cache (ws_server S) = Some \<lparr>ca_etag = etag, ca_snapshot = s, ca_at = at_ms\<rparr> \<and> sv_prev (ws_server S) = Some s \<and>
     sv_delta (ws_server S) = None \<and> sv_revision (ws_server S) = sn_revision s \<and> wf_snapshot s \<and> ws_pubs S = [s]) \<and>
     ws_stage S = Ready \<and> ws_client S = new_client \<and> ws_request S = None"

text \<open>Deltas of different revisions have different tags.\<close>

definition tags_separate :: "tags \<Rightarrow> bool" where
  "tags_separate tg \<longleftrightarrow> (\<forall>a b t. tg_delta tg a = Some t \<longrightarrow> tg_delta tg b = Some t \<longrightarrow> sd_revision a = sd_revision b)"

definition follows :: "snapshot list \<Rightarrow> web_client \<Rightarrow> bool" where
  "follows pubs cl \<longleftrightarrow> \<not> wc_broken cl \<and>
     (case wc_copy cl of
        None \<Rightarrow> wc_state_tag cl = None \<and> wc_delta_tag cl = None
      | Some c \<Rightarrow> (\<exists>s \<in> set pubs. in_sync c s) \<and> rows_from pubs (sn_torrents c))"

definition tag_held :: "tags \<Rightarrow> web_client \<Rightarrow> bool" where
  "tag_held tg cl \<longleftrightarrow>
     (\<forall>t c. wc_delta_tag cl = Some t \<longrightarrow> wc_copy cl = Some c \<longrightarrow> (\<exists>d. tg_delta tg d = Some t \<and> sd_revision d = sn_revision c))"

definition staged :: "stage \<Rightarrow> snapshot list \<Rightarrow> bool" where
  "staged st pubs \<longleftrightarrow> (case st of Ready \<Rightarrow> True | Delta_written s _ _ \<Rightarrow> s \<in> set pubs | Prev_written s _ _ \<Rightarrow> s \<in> set pubs)"

definition server_ok :: "tags \<Rightarrow> snapshot list \<Rightarrow> server \<Rightarrow> bool" where
  "server_ok tg pubs sv \<longleftrightarrow>
     (\<exists>c. sv_cache sv = Some c \<and> ca_snapshot c \<in> set pubs) \<and> (\<exists>s. sv_prev sv = Some s \<and> s \<in> set pubs) \<and>
     (\<forall>d. sv_delta sv = Some d \<longrightarrow> (\<exists>a \<in> set pubs. \<exists>b \<in> set pubs. cd_delta d = diff a b) \<and> tg_delta tg (cd_delta d) = Some (cd_etag d))"

definition pubs_ok :: "nat \<Rightarrow> snapshot list \<Rightarrow> bool" where
  "pubs_ok r pubs \<longleftrightarrow> list_all wf_snapshot pubs \<and> distinct (map sn_revision pubs) \<and> list_all (\<lambda>s. sn_revision s \<le> r) pubs"

definition sys_ok :: "tags \<Rightarrow> web_sys \<Rightarrow> bool" where
  "sys_ok tg S \<longleftrightarrow> pubs_ok (sv_revision (ws_server S)) (ws_pubs S) \<and> server_ok tg (ws_pubs S) (ws_server S) \<and>
     staged (ws_stage S) (ws_pubs S) \<and> follows (ws_pubs S) (ws_client S) \<and> tag_held tg (ws_client S) \<and>
     (\<forall>seen. ws_request S = Some seen \<longrightarrow> (\<exists>c. seen = Some c \<and> ca_snapshot c \<in> set (ws_pubs S)))"

lemma in_sync_revision: "in_sync c s \<Longrightarrow> sn_revision c = sn_revision s"
  by (simp add: in_sync_def)

lemma pub_unique: "pubs_ok r pubs \<Longrightarrow> a \<in> set pubs \<Longrightarrow> b \<in> set pubs \<Longrightarrow> sn_revision a = sn_revision b \<Longrightarrow> a = b"
  by (auto simp: pubs_ok_def distinct_map inj_on_def)

lemma follows_more: "follows pubs cl \<Longrightarrow> follows (s # pubs) cl"
  by (auto simp: follows_def rows_from_def split: option.splits)

lemma server_ok_more: "server_ok tg pubs sv \<Longrightarrow> server_ok tg (s # pubs) sv"
  by (auto simp: server_ok_def)

lemma separated_more: "ratios_separated (s # pubs) \<Longrightarrow> ratios_separated pubs"
  by (simp add: ratios_separated_def)

text \<open>One answer: the browser ends in sync with the snapshot its request saw first.\<close>

lemma answer_follows:
  assumes ok: "pubs_ok r pubs" and sv: "server_ok tg pubs sv" and cl: "follows pubs cl" "tag_held tg cl"
    and seen: "ca_snapshot c \<in> set pubs" and tags: "tags_separate tg" and sep: "ratios_separated pubs"
  shows "let cl' = client_reads (client_answer tg cl (Some c) sv) cl in
    follows pubs cl' \<and> tag_held tg cl' \<and> (\<exists>copy. wc_copy cl' = Some copy \<and> in_sync copy (ca_snapshot c))"
proof (cases "wc_copy cl")
  case None
  then have "wc_state_tag cl = None" "wc_delta_tag cl = None" using cl(1) by (simp_all add: follows_def)
  with None cl seen show ?thesis
    by (auto simp: client_answer_def state_answer_def answer_snapshot_def follows_def tag_held_def Let_def rows_from_def intro: bexI [where x = "ca_snapshot c"])
next
  case (Some copy)
  then obtain s where s: "s \<in> set pubs" "in_sync copy s" "rows_from pubs (sn_torrents copy)" using cl(1) by (auto simp: follows_def)
  have rev: "sn_revision copy = sn_revision s" using s(2) by (rule in_sync_revision)
  show ?thesis
  proof (cases "sn_revision copy = sn_revision (ca_snapshot c)")
    case True
    then have "s = ca_snapshot c" using pub_unique [OF ok s(1) seen] rev by simp
    moreover have "client_reads (client_answer tg cl (Some c) sv) cl = cl"
      using True Some by (auto simp: client_answer_def delta_answer_of_def split: option.splits)
    ultimately show ?thesis using cl Some s by (simp add: Let_def)
  next
    case False
    have conflict: ?thesis if "client_answer tg cl (Some c) sv = Conflict (ca_etag c) (ca_snapshot c)"
      using that cl(1) seen by (auto simp: follows_def tag_held_def Let_def rows_from_def intro: bexI [where x = "ca_snapshot c"])
    show ?thesis
    proof (cases "\<exists>d. sv_delta sv = Some d \<and> sd_base_revision (cd_delta d) = sn_revision copy \<and> sd_revision (cd_delta d) = sn_revision (ca_snapshot c)")
      case True
      then obtain d where d: "sv_delta sv = Some d" "sd_base_revision (cd_delta d) = sn_revision copy"
        "sd_revision (cd_delta d) = sn_revision (ca_snapshot c)" by blast
      then obtain a b where ab: "a \<in> set pubs" "b \<in> set pubs" "cd_delta d = diff a b" and tag: "tg_delta tg (cd_delta d) = Some (cd_etag d)"
        using sv by (auto simp: server_ok_def)
      have "a = s" using pub_unique [OF ok ab(1) s(1)] d(2) ab(3) rev by simp
      moreover have b: "b = ca_snapshot c" using pub_unique [OF ok ab(2) seen] d(3) ab(3) by simp
      ultimately obtain copy' where new: "delta_apply copy (cd_delta d) = Inr (Some copy')" "in_sync copy' (ca_snapshot c)" "rows_from pubs (sn_torrents copy')"
        using follow_step [of copy s "ca_snapshot c" pubs] s ab ok seen sep by (auto simp: pubs_ok_def list_all_iff)
      have "wc_delta_tag cl \<noteq> Some (cd_etag d)"
      proof
        assume "wc_delta_tag cl = Some (cd_etag d)"
        then obtain e where e: "tg_delta tg e = Some (cd_etag d)" "sd_revision e = sn_revision copy" using cl(2) Some by (auto simp: tag_held_def)
        then have "sd_revision e = sd_revision (cd_delta d)" using tags tag unfolding tags_separate_def by blast
        with d(3) e(2) False show False by simp
      qed
      then have "client_answer tg cl (Some c) sv = OkDelta (cd_etag d) (cd_delta d)"
        using Some False d by (simp add: client_answer_def delta_answer_of_def)
      moreover have "sd_revision (cd_delta d) = sn_revision copy'" using d(3) in_sync_revision [OF new(2)] by simp
      ultimately show ?thesis using Some new cl(1) seen tag
        by (auto simp: follows_def tag_held_def Let_def)
    next
      case no: False
      have "client_answer tg cl (Some c) sv = Conflict (ca_etag c) (ca_snapshot c)"
        using Some False no by (auto simp: client_answer_def delta_answer_of_def split: option.splits)
      then show ?thesis by (rule conflict)
    qed
  qed
qed

lemma follows_diff: "published sv' = (sv_cache sv, sv_delta sv, sv_prev sv, n) \<Longrightarrow> server_ok tg pubs sv \<Longrightarrow> server_ok tg pubs sv'"
  by (simp add: server_ok_def published_def)

lemma publish_ok:
  assumes "server_ok tg (snap # pubs) sv"
  shows "server_ok tg (snap # pubs) (publish_delta tg at_ms tick conn snap sv)"
proof -
  obtain p where p: "sv_prev sv = Some p" "p \<in> set (snap # pubs)" using assms by (auto simp: server_ok_def)
  show ?thesis
  proof (cases "tg_delta tg (diff p snap)")
    case None
    then show ?thesis using assms p by (auto simp: publish_delta_def server_ok_def)
  next
    case (Some t)
    then have "(\<exists>a \<in> set (snap # pubs). \<exists>b \<in> set (snap # pubs). diff p snap = diff a b)" using p(2) by fastforce
    then show ?thesis using assms p Some unfolding publish_delta_def server_ok_def by (auto split: option.splits)
  qed
qed

lemma web_step_ok:
  assumes "web_step cfg tg S S'" "sys_ok tg S" "tags_separate tg" "ratios_separated (ws_pubs S')"
  shows "sys_ok tg S'"
  using assms(1)
proof (cases rule: web_step.cases)
  case (polls env tick snap out sv etag)
  have pub: "sn_revision snap = Suc (sv_revision (ws_server S))"
    "published sv = (sv_cache (ws_server S), sv_delta (ws_server S), sv_prev (ws_server S), Suc (sv_revision (ws_server S)))"
    using prepare_published [OF polls(3)] by simp_all
  have "pubs_ok (Suc (sv_revision (ws_server S))) (snap # ws_pubs S)"
    using assms(2) polls(4) pub(1) by (fastforce simp: sys_ok_def pubs_ok_def list_all_iff)
  moreover have "sv_revision (publish_delta tg (pe_at env) tick (cs_phase (sv_conn (ws_server S)) = Connected) snap sv) = Suc (sv_revision (ws_server S))"
    using pub(2) by (simp add: publish_delta_def published_def split: option.splits)
  moreover have "server_ok tg (snap # ws_pubs S) (publish_delta tg (pe_at env) tick (cs_phase (sv_conn (ws_server S)) = Connected) snap sv)"
    using follows_diff [OF pub(2)] assms(2) publish_ok server_ok_more by (metis sys_ok_def)
  ultimately show ?thesis
    using assms(2) polls(1) by (fastforce simp: sys_ok_def staged_def follows_more)
next
  case (loses snap err delay etag now)
  have "wf_snapshot snap" "sn_revision snap = Suc (sv_revision (ws_server S))" using loses(3) by (simp_all add: lost_snapshot_def wf_snapshot_def)
  then have "pubs_ok (Suc (sv_revision (ws_server S))) (snap # ws_pubs S)"
    using assms(2) by (fastforce simp: sys_ok_def pubs_ok_def list_all_iff)
  then show ?thesis
    using assms(2) loses(1) by (fastforce simp: sys_ok_def staged_def follows_more server_ok_def)
next
  case (writes_prev snap etag now)
  then show ?thesis using assms(2) by (auto simp: sys_ok_def staged_def server_ok_def publish_prev_def)
next
  case (writes_cache snap etag now)
  then show ?thesis using assms(2) by (auto simp: sys_ok_def staged_def server_ok_def publish_cache_def)
next
  case (asks now)
  then show ?thesis using assms(2) by (auto simp: sys_ok_def server_ok_def mark_request_def)
next
  case (gets seen)
  then obtain c where c: "seen = Some c" "ca_snapshot c \<in> set (ws_pubs S)" using assms(2) by (auto simp: sys_ok_def)
  have "let cl' = client_reads (client_answer tg (ws_client S) (Some c) (ws_server S)) (ws_client S) in
      follows (ws_pubs S) cl' \<and> tag_held tg cl' \<and> (\<exists>copy. wc_copy cl' = Some copy \<and> in_sync copy (ca_snapshot c))"
    using assms(2-4) c(2) gets(1) by (intro answer_follows) (auto simp: sys_ok_def)
  then show ?thesis using assms(2) c(1) gets(1) by (simp add: sys_ok_def Let_def)
qed

lemma pubs_grow: "web_step cfg tg S S' \<Longrightarrow> ratios_separated (ws_pubs S') \<Longrightarrow> ratios_separated (ws_pubs S)"
  by (cases rule: web_step.cases) (auto dest: separated_more)

lemma reach_ok:
  assumes "(web_step cfg tg)\<^sup>*\<^sup>* S0 S" "warm S0" "tags_separate tg" "ratios_separated (ws_pubs S)"
  shows "sys_ok tg S"
  using assms(1, 4)
proof (induction rule: rtranclp_induct)
  case base
  obtain s etag at_ms where "sv_cache (ws_server S0) = Some \<lparr>ca_etag = etag, ca_snapshot = s, ca_at = at_ms\<rparr>" "sv_prev (ws_server S0) = Some s"
    "sv_delta (ws_server S0) = None" "sv_revision (ws_server S0) = sn_revision s" "wf_snapshot s" "ws_pubs S0 = [s]"
    "ws_stage S0 = Ready" "ws_client S0 = new_client" "ws_request S0 = None"
    using assms(2) by (auto simp: warm_def)
  then show ?case
    by (simp add: sys_ok_def pubs_ok_def server_ok_def staged_def follows_def tag_held_def new_client_def)
next
  case (step S S')
  then show ?case using web_step_ok pubs_grow assms(3) by blast
qed


definition sample_poller :: poller_config where
  "sample_poller = \<lparr>pg_moves = \<lparr>mc_transport = Tcp ''host'' 5000, mc_incomplete_dir = [], mc_rules = [], mc_policy = AutoRename\<rparr>,
     pg_queue = \<lparr>max_downloads = 0, max_uploads = 0, max_total = 0, slow_limit_kbs = 0\<rparr>, pg_mock = False, pg_save_path = []\<rparr>"

definition revision_tags :: tags where
  "revision_tags = \<lparr>tg_snapshot = (\<lambda>s. Some (show_nat (sn_revision s))), tg_delta = (\<lambda>d. Some (show_nat (sd_revision d))), tg_connecting = ''connecting''\<rparr>"

definition one_row_env :: poll_env where
  "one_row_env = \<lparr>pe_rows = Inr [raw_torrent_default\<lparr>raw_hash := ''AA''\<rparr>], pe_globals = Inr raw_global_default, pe_version = None,
     pe_tracker = (\<lambda>_. None), pe_files = (\<lambda>_. None), pe_pause_ok = (\<lambda>_. True), pe_start_ok = (\<lambda>_. True), pe_exists = (\<lambda>_. False),
     pe_disk = None, pe_now = (\<lambda>_. 0), pe_at = 5\<rparr>"

definition first_snapshot :: snapshot where
  "first_snapshot = lost_snapshot 1 sample_conn"

definition warm_sys :: web_sys where
  "warm_sys = \<lparr>ws_server = \<lparr>sv_cache = Some \<lparr>ca_etag = ''1'', ca_snapshot = first_snapshot, ca_at = 0\<rparr>, sv_delta = None, sv_prev = Some first_snapshot,
       sv_revision = 1, sv_conn = sample_conn, sv_trackers = Map.empty, sv_log = empty_log, sv_last_request = 0, sv_polls = 0,
       sv_history = [], sv_index = new_index 2, sv_queue = \<lparr>prev_active = Map.empty, user_exempt = {}, user_paused = {}\<rparr>, sv_moves = fresh_moves\<rparr>,
     ws_stage = Ready, ws_client = new_client, ws_request = None, ws_pubs = [first_snapshot]\<rparr>"


section \<open>Restarts\<close>

text \<open>While the cache is still empty the delta route answers a snapshot with the status of a delta, which a browser that has
  a copy reads as a delta.\<close>

lemma cold_snapshot_read_as_delta:
  assumes "wc_copy cl = Some c" "wc_delta_tag cl \<noteq> Some (tg_connecting tg)" "sv_cache sv = None"
  shows "wc_broken (client_reads (client_answer tg cl None sv) cl)"
  using assms by (simp add: client_answer_def delta_answer_of_def answer_snapshot_def)

text \<open>Revisions start over with the process: a browser whose copy has the revision the new process has reached keeps it,
  whatever it shows.\<close>

lemma old_copy_kept_after_restart:
  assumes "wc_copy cl = Some c" "sn_revision c = sn_revision (ca_snapshot new)"
  shows "client_reads (client_answer tg cl (Some new) sv) cl = cl"
  using assms by (auto simp: client_answer_def delta_answer_of_def split: option.splits)

section \<open>An outage\<close>

text \<open>Through an outage the server waits 1, 2, 5, then 10 seconds between its polls, logs one line, and serves an empty
  snapshot with the error.\<close>

lemma outage_turn:
  assumes "pe_rows env = Inl err"
  shows "(let (wait, out, lp', sv') = loop_turn cfg tg env (lp, sv) in
    wait = Some (backoff_delay (lp_failures lp + 1)) \<and> lp' = lp\<lparr>lp_failures := lp_failures lp + 1\<rparr> \<and> po_calls out = [] \<and> po_spawned out = [] \<and>
    (lp_failures lp > 0 \<longrightarrow> sv_log sv' = sv_log sv) \<and> lr_total (sv_log sv') \<le> lr_total (sv_log sv) + 1 \<and>
    (\<exists>c. sv_cache sv' = Some c \<and> sn_torrents (ca_snapshot c) = [] \<and> cs_error (sn_connection (ca_snapshot c)) = Some (error_text err)))"
  using assms by (simp add: loop_turn_def poll_once_def prepare_poll_def set_disconnected_def publish_cache_def publish_prev_def
      log_line_def append_log_def lost_snapshot_def lost_conn_def Let_def)

lemma backoff_values: "map backoff_delay [1, 2, 3, 4, 5, 9] = [1, 2, 5, 10, 10, 10]"
  by (simp add: backoff_delay_def backoff_def)

end
