(* ===== verification/Torrent_File.thy ===== *)
theory Torrent_File
  imports Fs Client
begin

unbundle bit_operations_syntax

text \<open>
  Creating and reading \<open>.torrent\<close> files (\<open>crates/rtorrent/src/torrent_file.rs\<close>). The bencode library is not in the
  repository: what the code asks of its builder is a \<open>torrent_spec\<close>, the builder and the reader are parameters, and a
  parsed torrent is the record of the fields the code reads.
\<close>

record create_options =
  co_source_path :: string
  co_piece_length :: "int option"
  co_trackers :: "string list"
  co_private :: bool
  co_comment :: "string option"
  co_source :: "string option"
  co_created_by :: "string option"

record torrent_spec =
  ts_source_path :: string
  ts_piece_length :: int
  ts_announce :: "string option"
  ts_announce_list :: "string list list option"
  ts_private :: bool
  ts_comment :: "string option"
  ts_created_by :: string
  ts_created_at :: "int option"
  ts_source :: "string option"

record parsed_torrent =
  pt_name :: string
  pt_length :: int
  pt_files :: "(string \<times> int) list option"
  pt_announce :: "string option"
  pt_announce_list :: "string list list option"
  pt_info_hash :: string
  pt_private :: bool

record torrent_meta =
  tm_name :: string
  tm_size :: int
  tm_info_hash :: string
  tm_private :: bool
  tm_files :: "file_node list"
  tm_trackers :: "string list"

section \<open>The piece length\<close>

definition kib :: int where "kib = 1024"
definition mib_bytes :: int where "mib_bytes = 1024 * kib"

definition optimal_piece_length :: "int \<Rightarrow> int" where
  "optimal_piece_length total_bytes =
     (if total_bytes \<le> 16 * mib_bytes then 32 * kib
      else if total_bytes \<le> 64 * mib_bytes then 64 * kib
      else if total_bytes \<le> 150 * mib_bytes then 128 * kib
      else if total_bytes \<le> 350 * mib_bytes then 256 * kib
      else if total_bytes \<le> 700 * mib_bytes then 512 * kib
      else if total_bytes \<le> 2048 * mib_bytes then mib_bytes
      else if total_bytes \<le> 4096 * mib_bytes then 2 * mib_bytes
      else if total_bytes \<le> 8192 * mib_bytes then 4 * mib_bytes
      else if total_bytes \<le> 16384 * mib_bytes then 8 * mib_bytes
      else 16 * mib_bytes)"

text \<open>The bytes under a path: special files count nothing inside a directory and are refused alone.\<close>

fun tree_bytes :: "node \<Rightarrow> nat" where
  "tree_bytes (File c) = length c"
| "tree_bytes (Dir es) = sum_list (map (\<lambda>e. tree_bytes (snd e)) es)"
| "tree_bytes Special = 0"

definition calculate_path_size :: "node \<Rightarrow> path \<Rightarrow> string + nat" where
  "calculate_path_size rt p =
     (case look rt p of
        Some (File c) \<Rightarrow> Inr (length c)
      | Some (Dir es) \<Rightarrow> Inr (tree_bytes (Dir es))
      | _ \<Rightarrow> Inl (''invalid path: '' @ show_path p))"

definition valid_piece_length :: "int \<Rightarrow> bool" where
  "valid_piece_length n \<longleftrightarrow> n \<ge> 16384 \<and> n AND (n - 1) = 0"

definition chosen_piece_length :: "node \<Rightarrow> path \<Rightarrow> int option \<Rightarrow> string + int" where
  "chosen_piece_length rt p wanted =
     (case wanted of
        Some n \<Rightarrow>
          if valid_piece_length n then Inr n
          else (case calculate_path_size rt p of Inl e \<Rightarrow> Inl e | Inr b \<Rightarrow> Inr (optimal_piece_length (int b)))
      | None \<Rightarrow> (case calculate_path_size rt p of Inl e \<Rightarrow> Inl e | Inr b \<Rightarrow> Inr (optimal_piece_length (int b))))"

section \<open>The trackers\<close>

definition tracker_scheme :: "string \<Rightarrow> bool" where
  "tracker_scheme t \<longleftrightarrow> prefix ''http://'' t \<or> prefix ''https://'' t \<or> prefix ''udp://'' t"

fun tier_step :: "string list list \<times> string list \<Rightarrow> string \<Rightarrow> string list list \<times> string list" where
  "tier_step (tiers, cur) t =
     (let trimmed = trim t in
      if trimmed = [] then (if cur \<noteq> [] then (tiers @ [cur], []) else (tiers, cur))
      else if tracker_scheme trimmed then (tiers, cur @ [trimmed]) else (tiers, cur))"

definition tiers_of :: "string list \<Rightarrow> string list list" where
  "tiers_of ts = (let (tiers, cur) = foldl tier_step ([], []) ts in if cur \<noteq> [] then tiers @ [cur] else tiers)"

definition non_blank :: "string option \<Rightarrow> string option" where
  "non_blank s = (case s of Some t \<Rightarrow> if trim t = [] then None else Some (trim t) | None \<Rightarrow> None)"

definition spec_of :: "create_options \<Rightarrow> int \<Rightarrow> int \<Rightarrow> torrent_spec" where
  "spec_of opts piece now =
     (let tiers = tiers_of (co_trackers opts) in
      \<lparr>ts_source_path = co_source_path opts, ts_piece_length = piece,
       ts_announce = (case tiers of (t # _) # _ \<Rightarrow> Some t | _ \<Rightarrow> None),
       ts_announce_list = (if tiers = [] then None else Some tiers),
       ts_private = co_private opts, ts_comment = non_blank (co_comment opts),
       ts_created_by = (case co_created_by opts of Some c \<Rightarrow> c | None \<Rightarrow> ''rstorrent''),
       ts_created_at = (if now > 0 then Some now else None), ts_source = non_blank (co_source opts)\<rparr>)"

definition create_torrent ::
  "(torrent_spec \<Rightarrow> string + parsed_torrent) \<Rightarrow> (parsed_torrent \<Rightarrow> string + string) \<Rightarrow> (string \<Rightarrow> path) \<Rightarrow> node \<Rightarrow> int
   \<Rightarrow> create_options \<Rightarrow> string + parsed_torrent \<times> string" where
  "create_torrent build encode local rt now opts =
     (if \<not> exists_at rt (local (co_source_path opts)) then Inl (''source path does not exist: '' @ co_source_path opts)
      else case chosen_piece_length rt (local (co_source_path opts)) (co_piece_length opts) of
             Inl e \<Rightarrow> Inl e
           | Inr piece \<Rightarrow>
               (case build (spec_of opts piece now) of
                  Inl e \<Rightarrow> Inl (''failed to build torrent: '' @ e)
                | Inr t \<Rightarrow> (case encode t of Inl e \<Rightarrow> Inl (''failed to encode torrent: '' @ e) | Inr bytes \<Rightarrow> Inr (t, bytes))))"

section \<open>Reading\<close>

definition plain_file :: "string \<Rightarrow> int \<Rightarrow> file_node" where
  "plain_file p n = \<lparr>fn_path = p, fn_size = n, fn_priority = 1, fn_progress = 0, fn_is_dir = False\<rparr>"

definition add_tracker :: "string list \<Rightarrow> string \<Rightarrow> string list" where
  "add_tracker ts u = (if u \<in> set ts then ts else ts @ [u])"

definition meta_trackers :: "parsed_torrent \<Rightarrow> string list" where
  "meta_trackers t =
     foldl add_tracker (case pt_announce t of Some a \<Rightarrow> [a] | None \<Rightarrow> [])
       (concat (case pt_announce_list t of Some tiers \<Rightarrow> tiers | None \<Rightarrow> []))"

definition from_torrent :: "parsed_torrent \<Rightarrow> torrent_meta" where
  "from_torrent t =
     \<lparr>tm_name = pt_name t, tm_size = pt_length t, tm_info_hash = to_upper (pt_info_hash t), tm_private = pt_private t,
      tm_files = (case pt_files t of
                    Some fs \<Rightarrow> map (\<lambda>(p, n). plain_file (pt_name t @ ''/'' @ p) n) fs
                  | None \<Rightarrow> [plain_file (pt_name t) (pt_length t)]),
      tm_trackers = meta_trackers t\<rparr>"

definition read_metadata_bytes :: "(string \<Rightarrow> string + parsed_torrent) \<Rightarrow> string \<Rightarrow> string + torrent_meta" where
  "read_metadata_bytes read bytes =
     (case read bytes of Inl e \<Rightarrow> Inl (''not a valid .torrent: '' @ e) | Inr t \<Rightarrow> Inr (from_torrent t))"

section \<open>Piece lengths\<close>

lemma and_pred_zero: "0 < n \<Longrightarrow> n AND (n - 1) = 0 \<Longrightarrow> \<exists>k. n = 2 ^ k" for n :: int
proof (induction "nat n" arbitrary: n rule: less_induct)
  case less
  show ?case
  proof (cases "even n")
    case True
    then obtain m where m: "n = 2 * m" by blast
    have "(2 * m - 1) div 2 = m - 1" by presburger
    then have "n AND (n - 1) = 2 * (m AND (m - 1))"
      by (subst and_rec) (simp add: m)
    with less.prems m have "0 < m" "m AND (m - 1) = 0" by auto
    with less.hyps [of m] m less.prems(1) obtain k where "m = 2 ^ k" by auto
    then show ?thesis using m by (intro exI [of _ "Suc k"]) simp
  next
    case False
    then obtain m where m: "n = 2 * m + 1" by (blast elim: oddE)
    have "n AND (n - 1) = 2 * (m AND m)"
      by (subst and_rec) (simp add: m)
    with less.prems m have "m = 0" by simp
    with m show ?thesis by (intro exI [of _ 0]) simp
  qed
qed

definition pieces :: "int \<Rightarrow> int \<Rightarrow> int" where
  "pieces total_bytes piece = (total_bytes + piece - 1) div piece"

lemma piece_range:
  assumes "a < n" "n \<le> b" "0 < p" "lo * p \<le> a" "b \<le> hi * p"
  shows "lo \<le> pieces n p \<and> pieces n p \<le> hi"
proof -
  have "lo * p div p \<le> (n + p - 1) div p" using assms by (intro zdiv_mono1) simp_all
  moreover have "(n + p - 1) div p \<le> (hi * p + (p - 1)) div p" using assms by (intro zdiv_mono1) simp_all
  moreover have "(hi * p + (p - 1)) div p = hi" using assms(3) by (simp add: div_pos_pos_trivial)
  ultimately show ?thesis using assms(3) by (simp add: pieces_def)
qed

text \<open>The piece length suits the data. The piece length a torrent is created with is always a power of two, the
  given one when it is a power of two of at least 16 KiB, else one between 32 KiB and 16 MiB that does not shrink
  as the data grows; and data over 16 MiB and up to 32 GiB has between 256 and 2048 pieces.\<close>

lemma optimal_count:
  assumes "16 * mib_bytes < a" "a \<le> 32768 * mib_bytes"
  shows "256 \<le> pieces a (optimal_piece_length a) \<and> pieces a (optimal_piece_length a) \<le> 2048"
proof -
  from assms consider "16 * mib_bytes < a \<and> a \<le> 64 * mib_bytes" | "64 * mib_bytes < a \<and> a \<le> 150 * mib_bytes" | "150 * mib_bytes < a \<and> a \<le> 350 * mib_bytes" | "350 * mib_bytes < a \<and> a \<le> 700 * mib_bytes" | "700 * mib_bytes < a \<and> a \<le> 2048 * mib_bytes" | "2048 * mib_bytes < a \<and> a \<le> 4096 * mib_bytes" | "4096 * mib_bytes < a \<and> a \<le> 8192 * mib_bytes" | "8192 * mib_bytes < a \<and> a \<le> 16384 * mib_bytes" | "16384 * mib_bytes < a \<and> a \<le> 32768 * mib_bytes"
    by linarith
  then show ?thesis
  proof cases
    case 1
    then show ?thesis using piece_range [of "16 * mib_bytes" a "64 * mib_bytes" "65536" 256 2048] by (simp add: optimal_piece_length_def kib_def mib_bytes_def)
  next
    case 2
    then show ?thesis using piece_range [of "64 * mib_bytes" a "150 * mib_bytes" "131072" 256 2048] by (simp add: optimal_piece_length_def kib_def mib_bytes_def)
  next
    case 3
    then show ?thesis using piece_range [of "150 * mib_bytes" a "350 * mib_bytes" "262144" 256 2048] by (simp add: optimal_piece_length_def kib_def mib_bytes_def)
  next
    case 4
    then show ?thesis using piece_range [of "350 * mib_bytes" a "700 * mib_bytes" "524288" 256 2048] by (simp add: optimal_piece_length_def kib_def mib_bytes_def)
  next
    case 5
    then show ?thesis using piece_range [of "700 * mib_bytes" a "2048 * mib_bytes" "1048576" 256 2048] by (simp add: optimal_piece_length_def kib_def mib_bytes_def)
  next
    case 6
    then show ?thesis using piece_range [of "2048 * mib_bytes" a "4096 * mib_bytes" "2097152" 256 2048] by (simp add: optimal_piece_length_def kib_def mib_bytes_def)
  next
    case 7
    then show ?thesis using piece_range [of "4096 * mib_bytes" a "8192 * mib_bytes" "4194304" 256 2048] by (simp add: optimal_piece_length_def kib_def mib_bytes_def)
  next
    case 8
    then show ?thesis using piece_range [of "8192 * mib_bytes" a "16384 * mib_bytes" "8388608" 256 2048] by (simp add: optimal_piece_length_def kib_def mib_bytes_def)
  next
    case 9
    then show ?thesis using piece_range [of "16384 * mib_bytes" a "32768 * mib_bytes" "16777216" 256 2048] by (simp add: optimal_piece_length_def kib_def mib_bytes_def)
  qed
qed

theorem piece_length_suits:
  assumes "chosen_piece_length rt p wanted = Inr n"
  shows "(\<exists>k. n = 2 ^ k) \<and> n \<ge> 16384 \<and> (\<forall>g. wanted = Some g \<and> valid_piece_length g \<longrightarrow> n = g) \<and>
    (a \<le> b \<longrightarrow> 32 * kib \<le> optimal_piece_length a \<and> optimal_piece_length a \<le> optimal_piece_length b \<and> optimal_piece_length b \<le> 16 * mib_bytes) \<and>
    (16 * mib_bytes < a \<and> a \<le> 32768 * mib_bytes \<longrightarrow> 256 \<le> pieces a (optimal_piece_length a) \<and> pieces a (optimal_piece_length a) \<le> 2048)"
proof -
  have opt: "optimal_piece_length x \<in> {2 ^ 15, 2 ^ 16, 2 ^ 17, 2 ^ 18, 2 ^ 19, 2 ^ 20, 2 ^ 21, 2 ^ 22, 2 ^ 23, 2 ^ 24}" for x
    by (simp add: optimal_piece_length_def kib_def mib_bytes_def)
  have pow: "\<exists>k. optimal_piece_length x = 2 ^ k" for x
    using opt [of x] by (elim insertE emptyE) (rule exI, assumption)+
  have big: "16384 \<le> optimal_piece_length x" for x
    using opt [of x] by auto
  have n: "(\<exists>k. n = 2 ^ k) \<and> n \<ge> 16384 \<and> (\<forall>g. wanted = Some g \<and> valid_piece_length g \<longrightarrow> n = g)"
  proof (cases "\<exists>g. wanted = Some g \<and> valid_piece_length g")
    case True
    then obtain g where g: "wanted = Some g" "valid_piece_length g" by blast
    with assms have "n = g" by (simp add: chosen_piece_length_def)
    with g and_pred_zero [of g] show ?thesis by (simp add: valid_piece_length_def)
  next
    case False
    with assms obtain x where x: "n = optimal_piece_length x"
      by (auto simp: chosen_piece_length_def split: option.splits if_splits sum.splits)
    show ?thesis unfolding x using pow [of x] big [of x] False by blast
  qed
  have "32 * kib \<le> optimal_piece_length a \<and> optimal_piece_length a \<le> optimal_piece_length b \<and> optimal_piece_length b \<le> 16 * mib_bytes"
    if "a \<le> b"
    using that by (simp add: optimal_piece_length_def kib_def mib_bytes_def)
  with n optimal_count show ?thesis by blast
qed

theorem piece_length_suits_witness:
  "chosen_piece_length (Dir [(''f'', File (replicate 40 CHR ''x''))]) [''f''] (Some 20000) = Inr 32768 \<and>
   256 \<le> pieces (17 * mib_bytes) (optimal_piece_length (17 * mib_bytes))"
proof -
  have "chosen_piece_length (Dir [(''f'', File (replicate 40 CHR ''x''))]) [''f''] (Some 20000) = Inr 32768"
    by (simp add: chosen_piece_length_def valid_piece_length_def calculate_path_size_def optimal_piece_length_def kib_def mib_bytes_def)
  from piece_length_suits [OF this, of "17 * mib_bytes" "17 * mib_bytes"] this show ?thesis by (simp add: mib_bytes_def kib_def)
qed

section \<open>Trackers\<close>

definition accepted :: "string list \<Rightarrow> string list" where
  "accepted ts = filter (\<lambda>t. t \<noteq> [] \<and> tracker_scheme t) (map trim ts)"

lemma tier_fold:
  "[] \<notin> set tiers \<Longrightarrow> (case foldl tier_step (tiers, cur) ts of (tiers', cur') \<Rightarrow>
     [] \<notin> set tiers' \<and> concat tiers' @ cur' = concat tiers @ cur @ accepted ts)"
proof (induction ts arbitrary: tiers cur)
  case (Cons t ts)
  obtain tiers1 cur1 where step: "tier_step (tiers, cur) t = (tiers1, cur1)" by (cases "tier_step (tiers, cur) t")
  have "[] \<notin> set tiers1" "concat tiers1 @ cur1 = concat tiers @ cur @ (if trim t \<noteq> [] \<and> tracker_scheme (trim t) then [trim t] else [])"
    using step Cons.prems by (auto simp: Let_def split: if_splits)
  with Cons.IH [of tiers1 cur1] step show ?case by (auto simp: accepted_def split: prod.splits)
qed (simp add: accepted_def)

lemma tiers_accepted: "concat (tiers_of ts) = accepted ts" "[] \<notin> set (tiers_of ts)"
  using tier_fold [of "[]" "[]" ts] by (auto simp: tiers_of_def split: prod.splits)

lemma add_trackers: "distinct acc \<Longrightarrow> foldl add_tracker acc us = acc @ filter (\<lambda>u. u \<notin> set acc) (rev (remdups (rev us)))"
proof (induction us rule: rev_induct)
  case (snoc u us)
  then show ?case by (auto simp: add_tracker_def)
qed simp

text \<open>The trackers of a created torrent are read back. When the torrent carries the announce and the tiers it was
  asked to, the trackers shown for it are exactly the accepted ones of the form (those with an http, https or udp address),
  trimmed, in their order, each once; no tier is empty, and there is an announce exactly when a tracker is accepted.\<close>

theorem created_trackers_read_back:
  assumes "pt_announce t = ts_announce (spec_of opts piece now)" "pt_announce_list t = ts_announce_list (spec_of opts piece now)"
  shows "tm_trackers (from_torrent t) = rev (remdups (rev (accepted (co_trackers opts)))) \<and>
    [] \<notin> set (tiers_of (co_trackers opts)) \<and> (pt_announce t = None \<longleftrightarrow> accepted (co_trackers opts) = [])"
proof -
  let ?tiers = "tiers_of (co_trackers opts)" and ?acc = "accepted (co_trackers opts)"
  have flat: "concat ?tiers = ?acc" and ne: "[] \<notin> set ?tiers" by (rule tiers_accepted)+
  show ?thesis
  proof (cases ?tiers)
    case Nil
    with flat ne assms show ?thesis by (simp add: spec_of_def from_torrent_def meta_trackers_def)
  next
    case (Cons tier rest)
    then obtain u us where tier: "tier = u # us" using ne by (cases tier) auto
    have t: "pt_announce t = Some u" "pt_announce_list t = Some ?tiers" using assms Cons tier by (simp_all add: spec_of_def Let_def)
    have "?acc = u # (us @ concat rest)" using flat Cons tier by simp
    then obtain xs where acc: "?acc = u # xs" by blast
    have first: "rev (remdups (rev (u # xs))) = u # filter (\<lambda>x. x \<noteq> u) (rev (remdups (rev xs)))" for xs :: "string list"
      using add_trackers [of "[]" "u # xs"] add_trackers [of "[u]" xs] by (simp add: add_tracker_def)
    have "meta_trackers t = foldl add_tracker [u] ?acc" by (simp add: meta_trackers_def t flat)
    also have "\<dots> = rev (remdups (rev ?acc))"
      unfolding acc first by (simp add: add_tracker_def add_trackers)
    finally show ?thesis using ne t acc by (simp add: from_torrent_def)
  qed
qed

definition sample_options :: create_options where
  "sample_options = \<lparr>co_source_path = ''/data/f'', co_piece_length = None,
     co_trackers = ['' udp://a/1'', ''ftp://no'', [], ''http://b/2'', ''udp://a/1''], co_private = True, co_comment = None, co_source = Some '' '',
     co_created_by = None\<rparr>"

theorem created_trackers_read_back_witness:
  "tm_trackers (from_torrent \<lparr>pt_name = ''f'', pt_length = 40, pt_files = None, pt_announce = Some ''udp://a/1'',
     pt_announce_list = Some [[''udp://a/1''], [''http://b/2'', ''udp://a/1'']], pt_info_hash = ''ab'', pt_private = True\<rparr>) = [''udp://a/1'', ''http://b/2'']"
proof -
  let ?t = "\<lparr>pt_name = ''f'', pt_length = 40, pt_files = None, pt_announce = Some ''udp://a/1'',
     pt_announce_list = Some [[''udp://a/1''], [''http://b/2'', ''udp://a/1'']], pt_info_hash = ''ab'', pt_private = True\<rparr>"
  have "pt_announce ?t = ts_announce (spec_of sample_options 32768 5)" "pt_announce_list ?t = ts_announce_list (spec_of sample_options 32768 5)"
    by code_simp+
  from created_trackers_read_back [OF this]
  have "tm_trackers (from_torrent ?t) = rev (remdups (rev (accepted (co_trackers sample_options))))" by blast
  also have "\<dots> = [''udp://a/1'', ''http://b/2'']" by code_simp
  finally show ?thesis .
qed

text \<open>Over 32 GiB the number of pieces is not kept near 2000: 64 GiB have 4096.\<close>

lemma many_pieces: "pieces (65536 * mib_bytes) (optimal_piece_length (65536 * mib_bytes)) = 4096"
  by (simp add: pieces_def optimal_piece_length_def kib_def mib_bytes_def)

text \<open>A tracker whose scheme is written in capitals is dropped without a word.\<close>

lemma upper_scheme_dropped: "tiers_of [''HTTP://tracker.example/announce''] = []"
  by code_simp

end
