(* ===== verification/Bencode.thy ===== *)
theory Bencode
  imports Prelude
begin

text \<open>
  The bencode reader of the foreign-session scan (\<open>Parser\<close> and its helpers in \<open>crates/rtorrent/src/foreign.rs\<close>). The
  parser's state is the offset and the rest of the input. Its recursion is a function with fuel, one unit per call:
  \<open>None\<close> is running out of it, which \<open>parse_enough\<close> excludes for the fuel \<open>parse_bencode\<close> gives.
\<close>

datatype bval = BInt int | BBytes string | BList "bval list" | BDict "(string \<times> bval) list"

type_synonym 'a parsed = "(string + 'a \<times> nat \<times> string) option"

definition fail_with :: "string \<Rightarrow> 'a parsed" where
  "fail_with m = Some (Inl m)"

definition and_then :: "'a parsed \<Rightarrow> ('a \<Rightarrow> nat \<Rightarrow> string \<Rightarrow> 'b parsed) \<Rightarrow> 'b parsed" where
  "and_then m f = (case m of None \<Rightarrow> None | Some (Inl e) \<Rightarrow> Some (Inl e) | Some (Inr (x, pos, s)) \<Rightarrow> f x pos s)"

definition end_of_data :: string where
  "end_of_data = ''unexpected end of bencoded data''"

definition u64_limit :: nat where "u64_limit = 2 ^ 64"

definition int_char :: "char \<Rightarrow> bool" where
  "int_char c = (c = CHR ''-'' \<or> is_digit c)"

text \<open>\<open>parse_int\<close>: up to the closing letter, digits and minus signs only.\<close>

definition parse_integer :: "nat \<Rightarrow> string \<Rightarrow> bval parsed" where
  "parse_integer pos s =
     (let raw = takeWhile int_char s in
      case drop (length raw) s of
        [] \<Rightarrow> fail_with end_of_data
      | c # rest \<Rightarrow>
          if c \<noteq> CHR ''e'' then fail_with ''invalid integer''
          else (case parse_i64 raw of
                  Some n \<Rightarrow> Some (Inr (BInt n, pos + length raw + 1, rest))
                | None \<Rightarrow> fail_with (''integer out of range: '' @ raw)))"

definition parse_bytes :: "nat \<Rightarrow> string \<Rightarrow> string parsed" where
  "parse_bytes pos s =
     (let ds = takeWhile is_digit s in
      case drop (length ds) s of
        [] \<Rightarrow> fail_with end_of_data
      | c # rest \<Rightarrow>
          if c \<noteq> CHR '':'' then fail_with ''malformed string length''
          else (case parse_nat ds of
                  None \<Rightarrow> fail_with ''bad string length''
                | Some n \<Rightarrow>
                    if u64_limit \<le> n then fail_with ''bad string length''
                    else if u64_limit \<le> pos + length ds + 1 + n then fail_with ''string length overflow''
                    else if length rest < n then fail_with ''string overruns input''
                    else Some (Inr (take n rest, pos + length ds + 1 + n, drop n rest))))"

fun as_key :: "bval \<Rightarrow> string option" where
  "as_key (BBytes k) = Some k"
| "as_key _ = None"

fun parse_value :: "nat \<Rightarrow> nat \<Rightarrow> string \<Rightarrow> bval parsed"
and parse_items :: "nat \<Rightarrow> nat \<Rightarrow> string \<Rightarrow> bval list parsed"
and parse_pairs :: "nat \<Rightarrow> nat \<Rightarrow> string \<Rightarrow> (string \<times> bval) list parsed" where
  "parse_value 0 pos s = None"
| "parse_value (Suc n) pos s =
     (case s of
        [] \<Rightarrow> fail_with end_of_data
      | c # rest \<Rightarrow>
          if c = CHR ''i'' then parse_integer (pos + 1) rest
          else if c = CHR ''l'' then and_then (parse_items n (pos + 1) rest) (\<lambda>xs p r. Some (Inr (BList xs, p, r)))
          else if c = CHR ''d'' then and_then (parse_pairs n (pos + 1) rest) (\<lambda>kvs p r. Some (Inr (BDict kvs, p, r)))
          else if is_digit c then and_then (parse_bytes pos s) (\<lambda>b p r. Some (Inr (BBytes b, p, r)))
          else fail_with (''invalid bencode prefix '' @ CHR 0x27 # show_nat (of_char c) @ CHR 0x27 # '' at offset '' @ show_nat pos))"
| "parse_items 0 pos s = None"
| "parse_items (Suc n) pos s =
     (case s of
        [] \<Rightarrow> fail_with ''unterminated list''
      | c # rest \<Rightarrow>
          if c = CHR ''e'' then Some (Inr ([], pos + 1, rest))
          else and_then (parse_value n pos s) (\<lambda>x p r. and_then (parse_items n p r) (\<lambda>xs p' r'. Some (Inr (x # xs, p', r')))))"
| "parse_pairs 0 pos s = None"
| "parse_pairs (Suc n) pos s =
     (case s of
        [] \<Rightarrow> fail_with ''unterminated dict''
      | c # rest \<Rightarrow>
          if c = CHR ''e'' then Some (Inr ([], pos + 1, rest))
          else and_then (parse_value n pos s) (\<lambda>k p r.
            (case as_key k of
               None \<Rightarrow> fail_with ''non-string dict key''
             | Some key \<Rightarrow>
                 and_then (parse_value n p r) (\<lambda>v p' r'.
                 and_then (parse_pairs n p' r') (\<lambda>kvs p'' r''. Some (Inr ((key, v) # kvs, p'', r'')))))))"

definition parse_fuel :: "string \<Rightarrow> nat" where
  "parse_fuel s = 2 * length s + 2"

definition parse_bencode :: "string \<Rightarrow> string + bval" where
  "parse_bencode s =
     (case parse_value (parse_fuel s) 0 s of
        None \<Rightarrow> Inl ''out of fuel''
      | Some (Inl e) \<Rightarrow> Inl e
      | Some (Inr (v, pos, _)) \<Rightarrow>
          if pos \<noteq> length s
          then Inl (''trailing bytes after bencoded value ('' @ show_nat pos @ '' of '' @ show_nat (length s) @ '')'')
          else Inr v)"

section \<open>Reading a parsed dictionary\<close>

definition lookup_key :: "(string \<times> bval) list \<Rightarrow> string \<Rightarrow> bval option" where
  "lookup_key pairs key = map_option snd (find (\<lambda>(k, _). k = key) pairs)"

fun bstr :: "bval \<Rightarrow> string option" where
  "bstr (BBytes b) = Some b"
| "bstr _ = None"

fun bint :: "bval \<Rightarrow> int option" where
  "bint (BInt i) = Some i"
| "bint _ = None"

definition list_entry :: "bval \<Rightarrow> string option" where
  "list_entry v = (case v of BBytes b \<Rightarrow> if trim b = [] then None else Some b | _ \<Rightarrow> None)"

fun blist_strs :: "bval \<Rightarrow> string list" where
  "blist_strs (BList items) = List.map_filter list_entry items"
| "blist_strs _ = []"


section \<open>The parser consumes a prefix, and its fuel is enough\<close>

definition ate :: "nat \<Rightarrow> string \<Rightarrow> nat \<Rightarrow> string \<Rightarrow> bool" where
  "ate pos s pos' r \<longleftrightarrow> (\<exists>used. used \<noteq> [] \<and> s = used @ r \<and> pos' = pos + length used)"

lemma ate_trans: "ate pos s p r \<Longrightarrow> ate p r p' r' \<Longrightarrow> ate pos s p' r'"
  by (force simp: ate_def)

lemma ate_Cons: "ate pos (c # s) (Suc pos) s"
  by (auto simp: ate_def intro: exI [of _ "[c]"])

lemma ate_after: "ate (Suc pos) s p r \<Longrightarrow> ate pos (c # s) p r"
  by (rule ate_trans [OF ate_Cons])

lemma ate_shorter: "ate pos s p r \<Longrightarrow> length r < length s"
  by (auto simp: ate_def)

lemma ate_split: "drop (length a) s = c # rest \<Longrightarrow> a = takeWhile P s \<Longrightarrow> s = a @ c # rest"
  by (metis takeWhile_dropWhile_id dropWhile_eq_drop)

lemma integer_ate: "parse_integer pos s = Some (Inr (v, p, r)) \<Longrightarrow> ate pos s p r"
  by (auto simp: parse_integer_def fail_with_def ate_def Let_def split: list.splits if_splits option.splits
      dest!: ate_split [OF _ refl] intro!: exI [of _ "takeWhile int_char s @ [CHR ''e'']"])

lemma bytes_ate: "parse_bytes pos s = Some (Inr (v, p, r)) \<Longrightarrow> ate pos s p r"
proof -
  assume parsed: "parse_bytes pos s = Some (Inr (v, p, r))"
  define ds where "ds = takeWhile is_digit s"
  from parsed obtain c rest n where d: "drop (length ds) s = c # rest" and n: "n \<le> length rest" and r: "r = drop n rest"
    and p: "p = pos + length ds + 1 + n"
    by (auto simp: parse_bytes_def fail_with_def Let_def ds_def [symmetric] split: list.splits if_splits option.splits)
  have "s = ds @ c # rest" by (rule ate_split [OF d ds_def])
  then have "s = (ds @ c # take n rest) @ r" using r by simp
  then show ?thesis unfolding ate_def by (rule_tac x = "ds @ c # take n rest" in exI) (use n p in simp)
qed

lemma and_then_Inr: "and_then m f = Some (Inr y) \<longleftrightarrow> (\<exists>x p r. m = Some (Inr (x, p, r)) \<and> f x p r = Some (Inr y))"
  by (auto simp: and_then_def split: option.splits sum.splits)

lemma and_then_None: "and_then m f = None \<longleftrightarrow> m = None \<or> (\<exists>x p r. m = Some (Inr (x, p, r)) \<and> f x p r = None)"
  by (auto simp: and_then_def split: option.splits sum.splits)

lemma parse_ate:
  "\<And>pos s v p r. parse_value n pos s = Some (Inr (v, p, r)) \<Longrightarrow> ate pos s p r"
  "\<And>pos s vs p r. parse_items n pos s = Some (Inr (vs, p, r)) \<Longrightarrow> ate pos s p r"
  "\<And>pos s kvs p r. parse_pairs n pos s = Some (Inr (kvs, p, r)) \<Longrightarrow> ate pos s p r"
proof (induction n)
  case (Suc n)
  {
    case 1
    then show ?case
      by (auto simp: and_then_Inr fail_with_def split: list.splits if_splits intro: bytes_ate ate_after dest!: integer_ate)
        (rule ate_after, erule Suc.IH)+
  next
    case 2
    then show ?case
      by (auto simp: and_then_Inr fail_with_def split: list.splits if_splits intro: ate_Cons ate_trans [OF Suc.IH(1) Suc.IH(2)])
  next
    case 3
    have pair: "parse_value n a b = Some (Inr (k, a1, b1)) \<Longrightarrow> parse_value n a1 b1 = Some (Inr (w, a2, b2)) \<Longrightarrow>
      parse_pairs n a2 b2 = Some (Inr (ws, a3, b3)) \<Longrightarrow> ate a b a3 b3" for a b k a1 b1 w a2 b2 ws a3 b3
      by (blast intro: ate_trans Suc.IH)
    from 3 show ?case
      by (auto simp: and_then_Inr fail_with_def split: list.splits if_splits option.splits intro: ate_Cons pair)
  }
qed simp_all

definition answers :: "'a parsed \<Rightarrow> bool" where
  "answers m \<longleftrightarrow> m \<noteq> None"

lemma answers_simps [simp]:
  "answers (Some x)" "answers (fail_with m)" "answers (parse_integer pos s)" "answers (parse_bytes pos s)"
  by (auto simp: answers_def parse_integer_def parse_bytes_def fail_with_def Let_def split: list.splits option.splits)

lemma answers_and_then:
  "answers m \<Longrightarrow> (\<And>x p r. m = Some (Inr (x, p, r)) \<Longrightarrow> answers (f x p r)) \<Longrightarrow> answers (and_then m f)"
  by (auto simp: answers_def and_then_def split: sum.splits)

lemma parse_enough:
  "2 * length s + 1 \<le> n \<Longrightarrow> answers (parse_value n pos s)"
  "2 * length s + 2 \<le> n \<Longrightarrow> answers (parse_items n pos s)"
  "2 * length s + 2 \<le> n \<Longrightarrow> answers (parse_pairs n pos s)"
proof (induction n arbitrary: pos s and pos s and pos s)
  case (Suc n)
  have less: "length r < length s" if "parse_value n pos s = Some (Inr (x, p, r))" for pos s x p r
    using ate_shorter [OF parse_ate(1) [OF that]] .
  {
    case 1
    then show ?case by (auto split: list.splits intro!: answers_and_then Suc.IH)
  next
    case 2
    then show ?case by (auto split: list.splits intro!: answers_and_then Suc.IH dest!: less)
  next
    case 3
    then show ?case by (auto split: list.splits option.splits intro!: answers_and_then Suc.IH dest!: less)
  }
qed simp_all

section \<open>Round trip\<close>

fun bencode :: "bval \<Rightarrow> string" and bencode_items :: "bval list \<Rightarrow> string" and bencode_pairs :: "(string \<times> bval) list \<Rightarrow> string" where
  "bencode (BInt n) = ''i'' @ show_int n @ ''e''"
| "bencode (BBytes b) = show_nat (length b) @ '':'' @ b"
| "bencode (BList xs) = ''l'' @ bencode_items xs @ ''e''"
| "bencode (BDict kvs) = ''d'' @ bencode_pairs kvs @ ''e''"
| "bencode_items [] = []"
| "bencode_items (x # xs) = bencode x @ bencode_items xs"
| "bencode_pairs [] = []"
| "bencode_pairs ((k, v) # kvs) = show_nat (length k) @ '':'' @ k @ bencode v @ bencode_pairs kvs"

fun ints_fit :: "bval \<Rightarrow> bool" and all_ints_fit :: "bval list \<Rightarrow> bool" and pair_ints_fit :: "(string \<times> bval) list \<Rightarrow> bool" where
  "ints_fit (BInt n) = i64_ok n"
| "ints_fit (BBytes b) = True"
| "ints_fit (BList xs) = all_ints_fit xs"
| "ints_fit (BDict kvs) = pair_ints_fit kvs"
| "all_ints_fit [] = True"
| "all_ints_fit (x # xs) = (ints_fit x \<and> all_ints_fit xs)"
| "pair_ints_fit [] = True"
| "pair_ints_fit ((k, v) # kvs) = (ints_fit v \<and> pair_ints_fit kvs)"

lemma e_no_int: "\<not> int_char (CHR ''e'')" by code_simp
lemma colon_no_digit: "\<not> is_digit (CHR '':'')" by code_simp

lemma take_int_digits: "takeWhile is_digit (show_nat n @ CHR '':'' # s) = show_nat n"
  using show_nat_digits [of n] colon_no_digit by (simp add: takeWhile_append list_all_iff)

lemma take_int: "takeWhile int_char (show_int n @ CHR ''e'' # s) = show_int n"
proof -
  have "\<forall>c \<in> set (show_int n). int_char c"
    using show_nat_digits by (auto simp: show_int_def int_char_def list_all_iff)
  then show ?thesis using e_no_int by (simp add: takeWhile_append)
qed

lemma parse_integer_back:
  "i64_ok n \<Longrightarrow> parse_integer pos (show_int n @ CHR ''e'' # s) = Some (Inr (BInt n, pos + length (show_int n) + 1, s))"
  by (simp add: parse_integer_def take_int Let_def)

lemma parse_bytes_back:
  "pos + length (show_nat (length b)) + 1 + length b < u64_limit \<Longrightarrow>
   parse_bytes pos (show_nat (length b) @ CHR '':'' # b @ s)
     = Some (Inr (b, pos + length (show_nat (length b)) + 1 + length b, s))"
  by (simp add: parse_bytes_def take_int_digits Let_def)

lemma show_nat_Cons: obtains c cs where "show_nat n = c # cs" "is_digit c"
  using show_nat_digits [of n] by (cases "show_nat n") auto

lemma digit_letters: "is_digit c \<Longrightarrow> c \<noteq> CHR ''i'' \<and> c \<noteq> CHR ''l'' \<and> c \<noteq> CHR ''d'' \<and> c \<noteq> CHR ''e''"
  by (auto simp: is_digit_def less_eq_char_def)

lemma parse_value_bytes:
  "pos + length (show_nat (length b)) + 1 + length b < u64_limit \<Longrightarrow>
   parse_value (Suc n) pos (show_nat (length b) @ CHR '':'' # b @ s)
     = Some (Inr (BBytes b, pos + length (show_nat (length b)) + 1 + length b, s))"
  by (rule show_nat_Cons [of "length b"])
     (use digit_letters parse_bytes_back [of pos b s] in \<open>simp add: and_then_def\<close>)

lemma bencode_Cons: "\<exists>c cs. bencode v = c # cs \<and> c \<noteq> CHR ''e''"
  by (cases v) (auto intro: show_nat_Cons digit_letters, metis append_Cons digit_letters show_nat_Cons)

lemma parse_back:
  "ints_fit v \<Longrightarrow> 2 * length (bencode v) + 1 \<le> n \<Longrightarrow> pos + length (bencode v) < u64_limit \<Longrightarrow>
     parse_value n pos (bencode v @ s) = Some (Inr (v, pos + length (bencode v), s))"
  "all_ints_fit vs \<Longrightarrow> 2 * length (bencode_items vs) + 2 \<le> n \<Longrightarrow> pos + length (bencode_items vs) + 1 < u64_limit \<Longrightarrow>
     parse_items n pos (bencode_items vs @ CHR ''e'' # s) = Some (Inr (vs, pos + length (bencode_items vs) + 1, s))"
  "pair_ints_fit kvs \<Longrightarrow> 2 * length (bencode_pairs kvs) + 2 \<le> n \<Longrightarrow> pos + length (bencode_pairs kvs) + 1 < u64_limit \<Longrightarrow>
     parse_pairs n pos (bencode_pairs kvs @ CHR ''e'' # s) = Some (Inr (kvs, pos + length (bencode_pairs kvs) + 1, s))"
proof (induction v and vs and kvs arbitrary: n pos s and n pos s and n pos s
    rule: bencode_bencode_items_bencode_pairs.induct)
  case (1 m)
  then show ?case by (cases n) (auto simp: parse_integer_back)
next
  case (2 b)
  then obtain m where "n = Suc m" by (cases n) auto
  then show ?case using 2 parse_value_bytes [of pos b m s] by (simp add: add.assoc)
next
  case (3 xs)
  then show ?case by (cases n) (auto simp: and_then_def)
next
  case (4 kvs)
  then show ?case by (cases n) (auto simp: and_then_def)
next
  case 5
  then show ?case by (cases n) auto
next
  case (6 x xs)
  then obtain m where m: "n = Suc m" by (cases n) auto
  obtain c cs where c: "bencode x = c # cs" "c \<noteq> CHR ''e''" using bencode_Cons by blast
  have "parse_value m pos (bencode x @ bencode_items xs @ CHR ''e'' # s)
      = Some (Inr (x, pos + length (bencode x), bencode_items xs @ CHR ''e'' # s))"
    using 6 m by (intro "6.IH") auto
  moreover have "parse_items m (pos + length (bencode x)) (bencode_items xs @ CHR ''e'' # s)
      = Some (Inr (xs, pos + length (bencode x) + length (bencode_items xs) + 1, s))"
    using 6 m c by (intro "6.IH") auto
  ultimately show ?case using m c by (simp add: and_then_def)
next
  case 7
  then show ?case by (cases n) auto
next
  case (8 k v kvs)
  then obtain m where m: "n = Suc (Suc m)" by (cases n; cases "n - 1") auto
  let ?tail = "bencode_pairs kvs @ CHR ''e'' # s" and ?p = "pos + length (show_nat (length k)) + 1 + length k"
  obtain c cs where c: "show_nat (length k) = c # cs" "is_digit c" by (rule show_nat_Cons)
  have "parse_value (Suc m) pos (show_nat (length k) @ CHR '':'' # k @ bencode v @ ?tail)
      = Some (Inr (BBytes k, ?p, bencode v @ ?tail))"
    using "8.prems" by (intro parse_value_bytes) simp
  moreover have "parse_value (Suc m) ?p (bencode v @ ?tail) = Some (Inr (v, ?p + length (bencode v), ?tail))"
    using 8 m by (intro "8.IH") auto
  moreover have "parse_pairs (Suc m) (?p + length (bencode v)) ?tail
      = Some (Inr (kvs, ?p + length (bencode v) + length (bencode_pairs kvs) + 1, s))"
    using 8 m c by (intro "8.IH") auto
  ultimately show ?case using m c digit_letters [OF c(2)]
    by (simp del: parse_value.simps parse_items.simps add: parse_pairs.simps and_then_def)
qed

text \<open>Property C3. What a bencode writer writes is read back: every value whose integers fit 64 bits, in a document shorter
  than 2^64 bytes, with nothing after it; a byte more is refused.\<close>

theorem bencode_read_back:
  assumes "ints_fit v" "length (bencode v) < u64_limit"
  shows "parse_bencode (bencode v) = Inr v \<and> (\<exists>e. parse_bencode (bencode v @ [c]) = Inl e)"
proof
  have "parse_value (parse_fuel (bencode v)) 0 (bencode v @ []) = Some (Inr (v, 0 + length (bencode v), []))"
    using assms by (intro parse_back) (auto simp: parse_fuel_def)
  then show "parse_bencode (bencode v) = Inr v" by (simp add: parse_bencode_def)
  have "parse_value (parse_fuel (bencode v @ [c])) 0 (bencode v @ [c]) = Some (Inr (v, 0 + length (bencode v), [c]))"
    using assms by (intro parse_back) (auto simp: parse_fuel_def)
  then show "\<exists>e. parse_bencode (bencode v @ [c]) = Inl e" by (simp add: parse_bencode_def)
qed

theorem bencode_read_back_witness:
  "parse_bencode ''d4:infol3:abci-7eee'' = Inr (BDict [(''info'', BList [BBytes ''abc'', BInt (- 7)])]) \<and>
   (\<exists>e. parse_bencode ''d4:infol3:abci-7eeee'' = Inl e)"
proof -
  let ?v = "BDict [(''info'', BList [BBytes ''abc'', BInt (- 7)])]"
  have enc: "bencode ?v = ''d4:infol3:abci-7eee''" by code_simp
  have "ints_fit ?v" by (simp add: i64_ok_def i64_min_def i64_max_def)
  moreover have "length (bencode ?v) < u64_limit" unfolding enc by (simp add: u64_limit_def)
  ultimately have "parse_bencode (bencode ?v) = Inr ?v \<and> (\<exists>e. parse_bencode (bencode ?v @ [c]) = Inl e)" for c
    by (rule bencode_read_back)
  from this [of "CHR ''e''"] show ?thesis unfolding enc by simp
qed

text \<open>Property C4. Reading ends on every input, however broken: the parser answers with a value or an error, and a value
  accounts for every byte, those it read and those left.\<close>

theorem bencode_reading_ends:
  "\<exists>r. parse_value (parse_fuel s) 0 s = Some r \<and>
    (case r of Inl _ \<Rightarrow> True | Inr (_, pos, rest) \<Rightarrow> 0 < pos \<and> pos + length rest = length s)"
proof -
  have "answers (parse_value (parse_fuel s) 0 s)" by (rule parse_enough) (simp add: parse_fuel_def)
  then obtain r where "parse_value (parse_fuel s) 0 s = Some r" by (auto simp: answers_def)
  then show ?thesis using parse_ate(1) [of "parse_fuel s" 0 s] by (auto simp: ate_def split: sum.split)
qed

lemma parsed_not_stuck: "parse_bencode s = Inr v \<Longrightarrow> \<exists>rest. parse_value (parse_fuel s) 0 s = Some (Inr (v, length s, rest))"
  by (auto simp: parse_bencode_def split: option.splits sum.splits if_splits)

text \<open>The recursion goes as deep as the input nests: \<open>2 n\<close> bytes make it \<open>n\<close> deep, whatever \<open>n\<close>.\<close>

fun nested :: "nat \<Rightarrow> bval" where
  "nested 0 = BList []"
| "nested (Suc n) = BList [nested n]"

lemma bencode_nested: "bencode (nested n) = replicate (Suc n) CHR ''l'' @ replicate (Suc n) CHR ''e''"
  by (induction n) (simp_all add: replicate_append_same)

lemma deep_nesting:
  assumes "2 * n + 2 < u64_limit"
  shows "parse_bencode (replicate (Suc n) CHR ''l'' @ replicate (Suc n) CHR ''e'') = Inr (nested n)"
proof -
  have "ints_fit (nested n)" by (induction n) simp_all
  moreover have "length (bencode (nested n)) < u64_limit" using assms by (simp add: bencode_nested)
  ultimately show ?thesis using parse_back(1) [of "nested n" "parse_fuel (bencode (nested n))" 0 "[]"]
    by (simp add: parse_bencode_def parse_fuel_def bencode_nested)
qed

end
