(* ===== verification/Foreign.thy ===== *)
theory Foreign
  imports Bencode Session Torrent_File
begin

text \<open>
  Reading the sessions of other clients (\<open>crates/rtorrent/src/foreign.rs\<close>): resume files of qBittorrent and Transmission
  become a manifest of \<open>Session\<close> with the problems met. The disk is the environment of a scan: what listing a directory and
  reading a file give. A directory's entries are its file names and every path is a text; the reader of torrent files and
  the base64 encoder are parameters. Dashes of the messages are written in ASCII.
\<close>

datatype foreign_client = QBittorrent | Transmission

definition client_of :: "string \<Rightarrow> string + foreign_client" where
  "client_of raw =
     (let c = to_lower (trim raw) in
      if c \<in> {''qbittorrent'', ''qb'', ''qbit''} then Inr QBittorrent
      else if c \<in> {''transmission'', ''tr''} then Inr Transmission
      else Inl (''unknown client '' @ CHR 0x27 # raw @ CHR 0x27 # '' - expected \"qbittorrent\" or \"transmission\"''))"

fun client_id :: "foreign_client \<Rightarrow> string" where
  "client_id QBittorrent = ''qbittorrent''"
| "client_id Transmission = ''transmission''"

fun client_added_by :: "foreign_client \<Rightarrow> string" where
  "client_added_by QBittorrent = ''qbittorrent-import''"
| "client_added_by Transmission = ''transmission-import''"

record scan_problem =
  sp_file :: string
  sp_message :: string

record scan_meta =
  me_hash :: string
  me_name :: string
  me_has_source :: bool
  me_stopped :: bool

record scan_env =
  se_list :: "string \<Rightarrow> string + string list"
  se_read :: "string \<Rightarrow> string + string"
  se_is_file :: "string \<Rightarrow> bool"
  se_torrent :: "string \<Rightarrow> string + parsed_torrent"
  se_base64 :: "string \<Rightarrow> string"

text \<open>What the scan collects, newest last.\<close>

record scan_acc =
  sa_torrents :: "manifest_torrent list"
  sa_metas :: "scan_meta list"
  sa_problems :: "scan_problem list"
  sa_seen :: "string set"

record incoming =
  in_file :: string
  in_hash :: string
  in_name :: string
  in_save_path :: string
  in_label :: string
  in_tags :: "string list"
  in_priority :: int
  in_added_at :: int
  in_stopped :: bool
  in_bytes :: "string option"
  in_added_by :: string

definition add_problem :: "string \<Rightarrow> string \<Rightarrow> scan_acc \<Rightarrow> scan_acc" where
  "add_problem f m a = a\<lparr>sa_problems := sa_problems a @ [\<lparr>sp_file = f, sp_message = m\<rparr>]\<rparr>"

text \<open>The source of an entry, or what is wrong with its torrent file.\<close>

definition source_of :: "scan_env \<Rightarrow> string \<Rightarrow> incoming \<Rightarrow> string + manifest_source" where
  "source_of env hash i =
     (case in_bytes i of
        None \<Rightarrow> Inl (in_name i @ '': no .torrent file beside the resume data (magnet with no metadata?) - unrestorable'')
      | Some bytes \<Rightarrow>
          (case read_metadata_bytes (se_torrent env) bytes of
             Inl e \<Rightarrow> Inl (in_name i @ '': .torrent does not parse ('' @ e @ '') - no re-addable source'')
           | Inr meta \<Rightarrow>
               if to_upper (tm_info_hash meta) \<noteq> hash
               then Inl (in_name i @ '': .torrent is a different torrent ('' @ tm_info_hash meta @ '') - no re-addable source'')
               else Inr (TorrentBase64 (se_base64 env bytes))))"

definition entry_of :: "string \<Rightarrow> manifest_source option \<Rightarrow> incoming \<Rightarrow> manifest_torrent" where
  "entry_of hash src i =
     \<lparr>mf_hash = hash, mf_name = in_name i, mf_source = src, mf_save_path = in_save_path i, mf_label = in_label i,
      mf_tags = in_tags i, mf_priority = in_priority i, mf_throttle = [], mf_peers_max = 0, mf_peers_min = 0,
      mf_uploads_max = 0, mf_trackers = [], mf_added_by = in_added_by i, mf_source_path = [], mf_added_at = in_added_at i,
      mf_queue_pos = None, mf_force_start = False\<rparr>"

definition push_entry :: "scan_env \<Rightarrow> incoming \<Rightarrow> scan_acc \<Rightarrow> scan_acc" where
  "push_entry env i a =
     (let hash = to_upper (in_hash i) in
      if length hash = 64 \<and> list_all is_hex_digit hash
      then add_problem (in_file i) (in_name i @ '': v2-only info-hash - rtorrent speaks v1, so this entry is skipped'') a
      else if length hash \<noteq> 40 \<or> \<not> list_all is_hex_digit hash
      then add_problem (in_file i) (in_name i @ '': not a v1 info-hash, skipped'') a
      else if hash \<in> sa_seen a
      then add_problem (in_file i) (in_name i @ '': duplicate of an entry already scanned, skipped'') a
      else
        (let a1 = a\<lparr>sa_seen := insert hash (sa_seen a)\<rparr>;
             (src, a2) = (case source_of env hash i of Inr src \<Rightarrow> (Some src, a1) | Inl m \<Rightarrow> (None, add_problem (in_file i) m a1))
         in a2\<lparr>sa_metas := sa_metas a2 @ [\<lparr>me_hash = hash, me_name = in_name i, me_has_source = src \<noteq> None, me_stopped = in_stopped i\<rparr>],
              sa_torrents := sa_torrents a2 @ [entry_of hash src i]\<rparr>))"

text \<open>After each entry the newest torrent collected gets the torrent file's path, when it has a source.\<close>

definition note_source :: "string \<Rightarrow> scan_acc \<Rightarrow> scan_acc" where
  "note_source p a =
     (case rev (sa_torrents a) of
        [] \<Rightarrow> a
      | t # ts \<Rightarrow> if mf_source t \<noteq> None then a\<lparr>sa_torrents := rev ts @ [t\<lparr>mf_source_path := p\<rparr>]\<rparr> else a)"

section \<open>File names\<close>

definition path_join :: "string \<Rightarrow> string \<Rightarrow> string" where
  "path_join dir name = (if dir = [] then name else if last dir = slash then dir @ name else dir @ slash # name)"

text \<open>\<open>file_stem\<close> and \<open>extension\<close>: a leading dot does not start an extension.\<close>

definition file_stem :: "string \<Rightarrow> string" where
  "file_stem name =
     (if name = ''..'' then name else case rfind (CHR ''.'') name of None \<Rightarrow> name | Some n \<Rightarrow> if n = 0 then name else take n name)"

definition file_ext :: "string \<Rightarrow> string option" where
  "file_ext name =
     (if name = ''..'' then None
      else case rfind (CHR ''.'') name of None \<Rightarrow> None | Some n \<Rightarrow> if n = 0 then None else Some (drop (n + 1) name))"

definition has_ext :: "string \<Rightarrow> string \<Rightarrow> bool" where
  "has_ext e name = (case file_ext name of None \<Rightarrow> False | Some x \<Rightarrow> eq_ic x e)"

definition split_path :: "string \<Rightarrow> string \<times> string" where
  "split_path p =
     (let t = trim_end_char slash p in
      case rfind slash t of None \<Rightarrow> ([], t) | Some n \<Rightarrow> (if n = 0 then [slash] else take n t, drop (n + 1) t))"

definition ok_bytes :: "string + string \<Rightarrow> string option" where
  "ok_bytes r = (case r of Inl _ \<Rightarrow> None | Inr b \<Rightarrow> Some b)"

definition text_key :: "(string \<times> bval) list \<Rightarrow> string \<Rightarrow> string option" where
  "text_key dict k = Option.bind (lookup_key dict k) bstr"

definition non_blank_key :: "(string \<times> bval) list \<Rightarrow> string \<Rightarrow> string option" where
  "non_blank_key dict k = (case text_key dict k of Some s \<Rightarrow> if trim s = [] then None else Some s | None \<Rightarrow> None)"

definition or_else :: "'a option \<Rightarrow> 'a option \<Rightarrow> 'a option" where
  "or_else a b = (case a of Some x \<Rightarrow> Some x | None \<Rightarrow> b)"

definition text_or :: "string \<Rightarrow> string option \<Rightarrow> string" where
  "text_or d s = (case s of Some x \<Rightarrow> x | None \<Rightarrow> d)"

section \<open>qBittorrent\<close>

definition qb_entry :: "scan_env \<Rightarrow> string \<Rightarrow> string \<Rightarrow> string option \<Rightarrow> (string \<times> bval) list \<Rightarrow> incoming" where
  "qb_entry env label stem bytes dict =
     (let sibling_name = (case bytes of
            Some b \<Rightarrow> (case read_metadata_bytes (se_torrent env) b of Inr m \<Rightarrow> tm_name m | Inl _ \<Rightarrow> []) | None \<Rightarrow> [])
      in \<lparr>in_file = label, in_hash = stem,
          in_name = text_or stem (or_else (non_blank_key dict ''qBt-name'') (or_else (non_blank_key dict ''name'')
                      (if trim sibling_name = [] then None else Some sibling_name))),
          in_save_path = text_or [] (or_else (non_blank_key dict ''qBt-savePath'') (non_blank_key dict ''save_path'')),
          in_label = text_or [] (text_key dict ''qBt-category''),
          in_tags = (case lookup_key dict ''qBt-tags'' of Some v \<Rightarrow> blist_strs v | None \<Rightarrow> []),
          in_priority = 1, in_added_at = 0,
          in_stopped = (case text_key dict ''qBt-stopCondition'' of Some s \<Rightarrow> trim s \<noteq> [] \<and> trim s \<noteq> ''None'' | None \<Rightarrow> False),
          in_bytes = bytes, in_added_by = client_added_by QBittorrent\<rparr>)"

definition qb_file :: "scan_env \<Rightarrow> string \<Rightarrow> string \<Rightarrow> scan_acc \<Rightarrow> scan_acc" where
  "qb_file env dir name a =
     (let label = path_join dir name; stem = file_stem name in
      case se_read env label of
        Inl e \<Rightarrow> add_problem label (''cannot read ('' @ e @ '')'') a
      | Inr raw \<Rightarrow>
          (case parse_bencode raw of
             Inl e \<Rightarrow> add_problem label (''does not parse ('' @ e @ '') - qBittorrent must be closed for a clean read; it rewrites these on exit'') a
           | Inr (BDict dict) \<Rightarrow>
               (let sibling = path_join dir (stem @ ''.torrent'')
                in note_source sibling (push_entry env (qb_entry env label stem (ok_bytes (se_read env sibling)) dict) a))
           | Inr _ \<Rightarrow> add_problem label ''not a resume dict, skipped'' a))"

definition qb_hint :: string where
  "qb_hint = ''). qBittorrent keeps resume data in BT_backup - e.g. ~/.local/share/qBittorrent/BT_backup on Linux, ~/Library/Application Support/qBittorrent/BT_backup on macOS, %LOCALAPPDATA%'' @ [CHR 0x5C] @ ''qBittorrent'' @ [CHR 0x5C] @ ''BT_backup on Windows''"

definition scan_qb :: "scan_env \<Rightarrow> string \<Rightarrow> scan_acc \<Rightarrow> scan_acc" where
  "scan_qb env dir a =
     (case se_list env dir of
        Inl e \<Rightarrow> add_problem dir (''cannot list directory ('' @ e @ qb_hint) a
      | Inr names \<Rightarrow>
          (let resumes = sort_by (lt_key id) (filter (has_ext ''fastresume'') names) in
           if resumes = [] then add_problem dir ''no .fastresume files here - pick the BT_backup folder itself'' a
           else foldl (\<lambda>a name. qb_file env dir name a) a resumes))"

section \<open>Transmission\<close>

definition tr_priority :: "int \<Rightarrow> int" where
  "tr_priority i = (if i < 0 then 0 else if 1 \<le> i then 2 else 1)"

definition int_key :: "(string \<times> bval) list \<Rightarrow> string \<Rightarrow> int" where
  "int_key dict k = (case Option.bind (lookup_key dict k) bint of Some i \<Rightarrow> i | None \<Rightarrow> 0)"

text \<open>The torrent file beside a resume file: the stem as it is, in lower and in upper case, the first that can be read.\<close>

definition tr_sibling :: "scan_env \<Rightarrow> string \<Rightarrow> string \<Rightarrow> (string \<times> string) option" where
  "tr_sibling env torrents_dir stem =
     (let candidates = map (\<lambda>s. path_join torrents_dir (s @ ''.torrent'')) [stem, to_lower stem, to_upper stem] in
      case List.map_filter (\<lambda>p. map_option (Pair p) (ok_bytes (se_read env p))) candidates of [] \<Rightarrow> None | x # _ \<Rightarrow> Some x)"

definition tr_entry :: "string \<Rightarrow> string \<Rightarrow> string option \<Rightarrow> (string \<times> bval) list \<Rightarrow> incoming" where
  "tr_entry label stem bytes dict =
     \<lparr>in_file = label, in_hash = stem, in_name = text_or stem (non_blank_key dict ''name''),
      in_save_path = text_or [] (text_key dict ''destination''), in_label = [],
      in_tags = (case lookup_key dict ''labels'' of Some v \<Rightarrow> blist_strs v | None \<Rightarrow> []),
      in_priority = tr_priority (int_key dict ''bandwidth-priority''), in_added_at = int_key dict ''added-date'',
      in_stopped = (int_key dict ''paused'' \<noteq> 0), in_bytes = bytes, in_added_by = client_added_by Transmission\<rparr>"

definition tr_file :: "scan_env \<Rightarrow> string \<Rightarrow> string \<Rightarrow> scan_acc \<Rightarrow> scan_acc" where
  "tr_file env torrents_dir p a =
     (let stem = file_stem (snd (split_path p)) in
      case se_read env p of
        Inl e \<Rightarrow> add_problem p (''cannot read ('' @ e @ '')'') a
      | Inr raw \<Rightarrow>
          (case parse_bencode raw of
             Inl e \<Rightarrow> add_problem p (''does not parse ('' @ e @ '') - stop Transmission for a clean read; it rewrites these while running'') a
           | Inr (BDict dict) \<Rightarrow>
               (let sibling = tr_sibling env torrents_dir stem;
                    used = (case sibling of Some (q, _) \<Rightarrow> q | None \<Rightarrow> [])
                in note_source used (push_entry env (tr_entry p stem (map_option snd sibling) dict) a))
           | Inr _ \<Rightarrow> add_problem p ''not a resume dict, skipped'' a))"

definition tr_hint :: string where
  "tr_hint = ''). Point at the Transmission config dir (holding resume/ + torrents/) or at resume/ itself - e.g. ~/.config/transmission on Linux, ~/Library/Application Support/Transmission on macOS''"

definition scan_transmission :: "scan_env \<Rightarrow> string \<Rightarrow> scan_acc \<Rightarrow> scan_acc" where
  "scan_transmission env dir a =
     (let (parent, name) = split_path dir;
          (resume_dir, torrents_dir) =
            (if to_lower name = ''resume'' then (dir, path_join parent ''torrents'') else (path_join dir ''resume'', path_join dir ''torrents''))
      in if se_is_file env dir then tr_file env torrents_dir dir a
         else case se_list env resume_dir of
           Inl e \<Rightarrow> add_problem resume_dir (''cannot list resume data ('' @ e @ tr_hint) a
         | Inr names \<Rightarrow>
             (let resumes = sort_by (lt_key id) (filter (\<lambda>n. se_is_file env (path_join resume_dir n) \<and> has_ext ''resume'' n) names) in
              if resumes = [] then add_problem resume_dir ''no .resume files here'' a
              else foldl (\<lambda>a n. tr_file env torrents_dir (path_join resume_dir n) a) a resumes))"

section \<open>The report\<close>

record scan_report =
  sr_client :: string
  sr_manifest :: manifest
  sr_entry_count :: nat
  sr_restorable :: nat
  sr_entries :: "scan_meta list"
  sr_problems :: "scan_problem list"

definition empty_scan :: scan_acc where
  "empty_scan = \<lparr>sa_torrents = [], sa_metas = [], sa_problems = [], sa_seen = {}\<rparr>"

definition collect :: "scan_env \<Rightarrow> foreign_client \<Rightarrow> string \<Rightarrow> scan_acc" where
  "collect env client dir = (case client of QBittorrent \<Rightarrow> scan_qb env dir empty_scan | Transmission \<Rightarrow> scan_transmission env dir empty_scan)"

definition scan :: "scan_env \<Rightarrow> foreign_client \<Rightarrow> string \<Rightarrow> int \<Rightarrow> scan_report" where
  "scan env client dir now =
     (let a = collect env client dir; torrents = sort_by (lt_key mf_hash) (sa_torrents a)
      in \<lparr>sr_client = client_id client,
          sr_manifest = \<lparr>man_format = session_format, man_exported_at = now, man_client = client_id client @ ''-import'',
            man_client_version = [], man_global = \<lparr>mg_down_kb = 0, mg_up_kb = 0\<rparr>, man_torrents = torrents\<rparr>,
          sr_entry_count = length torrents, sr_restorable = length (filter (\<lambda>t. mf_source t \<noteq> None) torrents),
          sr_entries = sort_by (lt_key me_hash) (sa_metas a), sr_problems = sa_problems a\<rparr>)"

definition scan_foreign :: "scan_env \<Rightarrow> string \<Rightarrow> string \<Rightarrow> int \<Rightarrow> string + scan_report" where
  "scan_foreign env client dir now = (case client_of client of Inl e \<Rightarrow> Inl e | Inr c \<Rightarrow> Inr (scan env c dir now))"


section \<open>What the scan collects\<close>

text \<open>An entry collected: its hash is a normalised info-hash, and a source is the encoded torrent file of that hash.\<close>

definition entry_ok :: "scan_env \<Rightarrow> manifest_torrent \<Rightarrow> bool" where
  "entry_ok env t \<longleftrightarrow> hex_hash (mf_hash t) \<and> to_upper (mf_hash t) = mf_hash t \<and>
     (case mf_source t of
        None \<Rightarrow> True
      | Some src \<Rightarrow> \<exists>b pt. src = TorrentBase64 (se_base64 env b) \<and> se_torrent env b = Inr pt \<and> to_upper (pt_info_hash pt) = mf_hash t)"

definition summary_of :: "manifest_torrent \<Rightarrow> string \<times> bool" where
  "summary_of t = (mf_hash t, mf_source t \<noteq> None)"

definition scan_ok :: "scan_env \<Rightarrow> scan_acc \<Rightarrow> bool" where
  "scan_ok env a \<longleftrightarrow> distinct (map mf_hash (sa_torrents a)) \<and> sa_seen a = set (map mf_hash (sa_torrents a)) \<and>
     list_all (entry_ok env) (sa_torrents a) \<and>
     map (\<lambda>m. (me_hash m, me_has_source m)) (sa_metas a) = map summary_of (sa_torrents a)"

definition with_source :: "manifest_torrent list \<Rightarrow> nat" where
  "with_source ts = length (filter (\<lambda>t. mf_source t \<noteq> None) ts)"

text \<open>The resume files accounted for: those that gave a restorable entry and those that left a problem.\<close>

definition accounted :: "scan_acc \<Rightarrow> nat" where
  "accounted a = with_source (sa_torrents a) + length (sa_problems a)"

lemma add_problem_simps [simp]:
  "sa_torrents (add_problem f m a) = sa_torrents a" "sa_metas (add_problem f m a) = sa_metas a"
  "sa_seen (add_problem f m a) = sa_seen a" "accounted (add_problem f m a) = Suc (accounted a)"
  "scan_ok env (add_problem f m a) = scan_ok env a"
  by (simp_all add: add_problem_def accounted_def scan_ok_def)

lemma source_of_ok:
  "source_of env h i = Inr src \<Longrightarrow>
   \<exists>b pt. src = TorrentBase64 (se_base64 env b) \<and> se_torrent env b = Inr pt \<and> to_upper (pt_info_hash pt) = h"
  by (auto simp: source_of_def read_metadata_bytes_def from_torrent_def split: option.splits sum.splits if_splits)

lemma push_ok: "scan_ok env a \<Longrightarrow> scan_ok env (push_entry env i a)"
  by (auto simp: push_entry_def Let_def scan_ok_def entry_ok_def entry_of_def summary_of_def hex_hash_def
      split: sum.split dest!: source_of_ok)

lemma push_accounts: "accounted (push_entry env i a) = Suc (accounted a)"
  by (auto simp: push_entry_def Let_def accounted_def with_source_def entry_of_def add_problem_def split: sum.split)

lemma note_shape: "sa_torrents a = ts @ [t] \<Longrightarrow>
   note_source p a = (if mf_source t \<noteq> None then a\<lparr>sa_torrents := ts @ [t\<lparr>mf_source_path := p\<rparr>]\<rparr> else a)"
  by (simp add: note_source_def)

lemma note_ok: "scan_ok env (note_source p a) = scan_ok env a" "accounted (note_source p a) = accounted a"
  by (cases "sa_torrents a" rule: rev_cases;
      auto simp: note_shape scan_ok_def entry_ok_def accounted_def with_source_def summary_of_def note_source_def split: option.split)+

lemma file_ok:
  assumes "scan_ok env a"
  shows "scan_ok env (qb_file env dir n a)" "scan_ok env (tr_file env td p a)"
  using assms by (auto simp: qb_file_def tr_file_def Let_def note_ok push_ok split: sum.split bval.split)

lemma file_accounts: "accounted (qb_file env dir n a) = Suc (accounted a)" "accounted (tr_file env td p a) = Suc (accounted a)"
  by (auto simp: qb_file_def tr_file_def Let_def note_ok push_accounts split: sum.split bval.split)

lemma fold_ok: "scan_ok env a \<Longrightarrow> (\<And>a x. scan_ok env a \<Longrightarrow> scan_ok env (f a x)) \<Longrightarrow> scan_ok env (foldl f a xs)"
  by (induction xs arbitrary: a) auto

lemma fold_accounts: "(\<And>a x. accounted (f a x) = Suc (accounted a)) \<Longrightarrow> accounted (foldl f a xs) = length xs + accounted a"
  by (induction xs arbitrary: a) auto

lemma collect_ok: "scan_ok env (collect env c dir)"
proof -
  have empty: "scan_ok env empty_scan" by (simp add: scan_ok_def empty_scan_def)
  then show ?thesis
    by (auto simp: collect_def scan_qb_def scan_transmission_def Let_def file_ok split: foreign_client.split sum.split prod.split
        intro!: fold_ok)
qed

section \<open>The manifest is what the import restores\<close>

lemma hex_norm: "hex_hash h \<Longrightarrow> to_upper h = h \<Longrightarrow> norm_hash h = h"
proof -
  assume h: "hex_hash h" "to_upper h = h"
  have "\<not> is_ws c" if "c \<in> set h" for c
    using h that by (auto simp: hex_hash_def list_all_iff is_hex_digit_def is_digit_def is_ws_def less_eq_char_def)
  then show ?thesis using h by (simp add: norm_hash_def trim_no_ws)
qed

lemma insert_rel: "list_all2 R xs ys \<Longrightarrow> R x y \<Longrightarrow> (\<And>x y. R x y \<Longrightarrow> f x = g y) \<Longrightarrow>
   list_all2 R (insert_by (lt_key f) x xs) (insert_by (lt_key g) y ys)"
  by (induction rule: list_all2_induct) (auto simp: lt_key_def)

lemma sort_rel: "list_all2 R xs ys \<Longrightarrow> (\<And>x y. R x y \<Longrightarrow> f x = g y) \<Longrightarrow>
   list_all2 R (sort_by (lt_key f) xs) (sort_by (lt_key g) ys)"
  by (induction rule: list_all2_induct) (auto intro: insert_rel)

text \<open>Base64 is read back, and the importer's reader of a torrent file gives the hash the scan's reader found.\<close>

definition readers_agree :: "scan_env \<Rightarrow> decoder \<Rightarrow> decoder \<Rightarrow> bool" where
  "readers_agree env decode read_hash \<longleftrightarrow> (\<forall>b. decode (trim (se_base64 env b)) = Inr b) \<and>
     (\<forall>b pt. se_torrent env b = Inr pt \<longrightarrow> read_hash b = Inr (pt_info_hash pt))"

lemma entry_error_scanned:
  assumes "entry_ok env t" "mf_hash t \<notin> seen" "readers_agree env decode read_hash"
  shows "(entry_error decode read_hash seen t \<noteq> None) = (mf_source t = None)" "entry_warning seen t = None"
  using assms
  by (auto simp: readers_agree_def entry_error_def entry_warning_def Let_def entry_ok_def hex_norm source_error_def split: option.splits)

lemma check_scanned:
  assumes "list_all (entry_ok env) ts" "distinct (map mf_hash ts)" "seen \<inter> set (map mf_hash ts) = {}"
    and agree: "readers_agree env decode read_hash"
  shows "map ip_hash (fst (check_entries decode read_hash i seen ts)) = map mf_hash (filter (\<lambda>t. mf_source t = None) ts) \<and>
    snd (check_entries decode read_hash i seen ts) = []"
  using assms(1-3)
proof (induction ts arbitrary: i seen)
  case (Cons t ts)
  have t: "entry_ok env t" "mf_hash t \<notin> seen" using Cons.prems by auto
  then have "norm_hash (mf_hash t) = mf_hash t" by (simp add: entry_ok_def hex_norm)
  then have "see t seen \<inter> set (map mf_hash ts) = {}" using Cons.prems by (auto simp: see_def)
  then have "map ip_hash (fst (check_entries decode read_hash (Suc i) (see t seen) ts)) = map mf_hash (filter (\<lambda>t. mf_source t = None) ts) \<and>
    snd (check_entries decode read_hash (Suc i) (see t seen) ts) = []"
    using Cons.prems by (intro Cons.IH) auto
  then show ?case
    using entry_error_scanned [OF t agree] by (auto simp: split_def Let_def problem_def split: option.split)
qed simp

text \<open>Property C1. What a scan of another client's session says is what the import will do: the manifest validates with
  exactly as many restorable entries as the scan counted, no warning, and one error for each entry the scan lists without a
  source, in order; the dialog's rows are the manifest's entries, sorted by hash, each hash once. Base64 is read back and
  both readers of a torrent file agree on its hash.\<close>

theorem scan_agrees_with_import:
  assumes agree: "readers_agree env decode read_hash"
  shows "let r = scan env c dir now; v = validate_manifest decode read_hash (sr_manifest r); ts = man_torrents (sr_manifest r) in
    vr_torrent_count v = sr_entry_count r \<and> vr_restorable_count v = sr_restorable r \<and> vr_warnings v = [] \<and>
    map ip_hash (vr_errors v) = map me_hash (filter (\<lambda>m. \<not> me_has_source m) (sr_entries r)) \<and>
    map me_hash (sr_entries r) = map mf_hash ts \<and> distinct (map mf_hash ts)"
proof -
  define a where "a = collect env c dir"
  define ts where "ts = sort_by (lt_key mf_hash) (sa_torrents a)"
  define ms where "ms = sort_by (lt_key me_hash) (sa_metas a)"
  have ok: "scan_ok env a" unfolding a_def by (rule collect_ok)
  have ts: "distinct (map mf_hash ts)" "list_all (entry_ok env) ts"
    using ok by (auto simp: ts_def scan_ok_def list_all_iff)
  let ?R = "\<lambda>m t. (me_hash m, me_has_source m) = summary_of t"
  have "list_all2 ?R (sa_metas a) (sa_torrents a)"
    using ok by (auto simp: scan_ok_def list_all2_conv_all_nth list_eq_iff_nth_eq)
  then have rows: "list_all2 ?R ms ts" unfolding ms_def ts_def by (rule sort_rel) (simp add: summary_of_def)
  then have metas: "map me_hash ms = map mf_hash ts" "map me_hash (filter (\<lambda>m. \<not> me_has_source m) ms) = map mf_hash (filter (\<lambda>t. mf_source t = None) ts)"
    by (induction rule: list_all2_induct) (auto simp: summary_of_def)
  obtain errs warns where ce: "check_entries decode read_hash 0 {} ts = (errs, warns)" by fastforce
  have "map ip_hash errs = map mf_hash (filter (\<lambda>t. mf_source t = None) ts) \<and> warns = []"
    using check_scanned [OF ts(2,1) _ agree, where seen = "{}" and i = 0] by (simp add: ce)
  moreover have inner: "\<forall>e \<in> set errs. ip_index e \<noteq> None"
    using error_indices [where decode = decode and read_hash = read_hash and i = 0 and seen = "{}" and ts = ts] by (simp add: ce)
  then have "\<not> list_ex (\<lambda>e. ip_index e = None) errs" "filter (\<lambda>e. ip_index e \<noteq> None) errs = errs"
    by (auto simp: list_ex_iff)
  moreover from calculation have "length errs = length (filter (\<lambda>t. mf_source t = None) ts)" by (metis length_map)
  moreover have "length ts - length (filter (\<lambda>t. mf_source t = None) ts) = length (filter (\<lambda>t. mf_source t \<noteq> None) ts)"
    using sum_length_filter_compl [of "\<lambda>t. mf_source t = None" ts] by linarith
  moreover have "length ts = length (sa_torrents a)" by (simp add: ts_def)
  ultimately show ?thesis
    using metas ts(1)
    by (simp add: scan_def Let_def a_def [symmetric] ts_def [symmetric] ms_def [symmetric] validate_manifest_def ce)
qed

text \<open>The resume files a scan reads.\<close>

definition resume_files :: "scan_env \<Rightarrow> foreign_client \<Rightarrow> string \<Rightarrow> string list" where
  "resume_files env c dir =
     (case c of
        QBittorrent \<Rightarrow> (case se_list env dir of Inl _ \<Rightarrow> [] | Inr names \<Rightarrow> filter (has_ext ''fastresume'') names)
      | Transmission \<Rightarrow>
          (let d = (if to_lower (snd (split_path dir)) = ''resume'' then dir else path_join dir ''resume'') in
           if se_is_file env dir then [dir]
           else case se_list env d of Inl _ \<Rightarrow> []
                | Inr names \<Rightarrow> filter (\<lambda>n. se_is_file env (path_join d n) \<and> has_ext ''resume'' n) names))"

text \<open>Property C2. No resume file is lost silently: each one read is either a restorable entry of the manifest or leaves
  exactly one problem in the report.\<close>

theorem every_resume_file_accounted:
  assumes "resume_files env c dir \<noteq> []"
  shows "sr_restorable (scan env c dir now) + length (sr_problems (scan env c dir now)) = length (resume_files env c dir)"
proof -
  have sorted: "sort_by lt xs = [] \<longleftrightarrow> xs = []" for lt :: "string \<Rightarrow> string \<Rightarrow> bool" and xs
    by (metis length_0_conv length_sort_by)
  have "accounted (collect env c dir) = length (resume_files env c dir)"
    using assms
    by (auto simp: collect_def resume_files_def scan_qb_def scan_transmission_def Let_def sorted fold_accounts file_accounts
        empty_scan_def accounted_def [of "\<lparr>sa_torrents = [], sa_metas = [], sa_problems = [], sa_seen = {}\<rparr>"] with_source_def
        split: foreign_client.splits sum.splits prod.splits if_splits)
  moreover have "length (filter P (sort_by lt xs)) = length (filter P xs)" for P lt and xs :: "manifest_torrent list"
    by (metis mset_filter mset_sort_by size_mset)
  ultimately show ?thesis by (simp add: scan_def Let_def accounted_def with_source_def)
qed

section \<open>Witnesses and what the model shows\<close>

definition hash_a :: string where "hash_a = replicate 40 (CHR ''a'')"
definition hash_b :: string where "hash_b = replicate 40 (CHR ''b'')"

definition one_torrent :: "string \<Rightarrow> parsed_torrent" where
  "one_torrent h = \<lparr>pt_name = ''t'', pt_length = 1, pt_files = None, pt_announce = None, pt_announce_list = None,
     pt_info_hash = h, pt_private = False\<rparr>"

text \<open>Three resume files: one with its torrent file, the same hash again in capitals, and one without a torrent file.\<close>

definition sample_scan :: scan_env where
  "sample_scan = \<lparr>se_list = (\<lambda>_. Inr [hash_b @ ''.fastresume'', hash_a @ ''.fastresume'', ''a.txt'', to_upper hash_a @ ''.FASTRESUME'']),
     se_read = (\<lambda>p. if has_ext ''fastresume'' p then Inr ''d8:qBt-name1:xe''
                    else if p = ''q/'' @ hash_a @ ''.torrent'' \<or> p = ''q/'' @ to_upper hash_a @ ''.torrent'' then Inr ''T''
                    else Inl ''no such file''),
     se_is_file = (\<lambda>_. True), se_torrent = (\<lambda>b. if b = ''T'' then Inr (one_torrent hash_a) else Inl ''bad''),
     se_base64 = (\<lambda>b. ''x'' @ b @ ''x'')\<rparr>"

lemma sample_resumes: "length (resume_files sample_scan QBittorrent ''q'') = 3"
  by code_simp

theorem every_resume_file_accounted_witness:
  "sr_restorable (scan sample_scan QBittorrent ''q'' 0) + length (sr_problems (scan sample_scan QBittorrent ''q'' 0)) = 3"
proof -
  have "resume_files sample_scan QBittorrent ''q'' \<noteq> []" using sample_resumes by auto
  from every_resume_file_accounted [OF this] show ?thesis unfolding sample_resumes .
qed

definition sample_decode :: decoder where "sample_decode s = Inr (butlast (tl s))"
definition sample_hash_of :: decoder where "sample_hash_of b = (if b = ''T'' then Inr hash_a else Inl ''bad'')"

lemma sample_agree: "readers_agree sample_scan sample_decode sample_hash_of"
proof -
  have "trim (''x'' @ b @ ''x'') = ''x'' @ b @ ''x''" for b
    by (simp add: trim_def trim_start_def trim_end_def is_ws_def)
  then show ?thesis
    by (auto simp: readers_agree_def sample_scan_def sample_decode_def sample_hash_of_def one_torrent_def)
qed

theorem scan_agrees_with_import_witness:
  "let r = scan sample_scan QBittorrent ''q'' 0; v = validate_manifest sample_decode sample_hash_of (sr_manifest r) in
   vr_restorable_count v = sr_restorable r \<and> vr_warnings v = [] \<and> distinct (map mf_hash (man_torrents (sr_manifest r)))"
  using scan_agrees_with_import [OF sample_agree, of QBittorrent "''q''" 0] by (simp add: Let_def)

text \<open>A rejected resume file overwrites the source path of the entry collected before it.\<close>

lemma rejected_overwrites:
  assumes "sa_torrents a = ts @ [t]" "mf_source t \<noteq> None"
    and "\<not> hex_hash (to_upper (in_hash i)) \<or> to_upper (in_hash i) \<in> sa_seen a"
  shows "sa_torrents (note_source p (push_entry env i a)) = ts @ [t\<lparr>mf_source_path := p\<rparr>]"
  using assms by (auto simp: push_entry_def Let_def hex_hash_def note_source_def)


end
