(* ===== verification/Cmd.thy ===== *)
theory Cmd
  imports Poller Client Import_Job Torrent_File Foreign
begin

text \<open>
  The commands of the web server (\<open>server/src/cmd.rs\<close>): the arguments are pulled out of a JSON value and each command
  makes its calls to the daemon in order, stopping at the first error. A command is a function of the world: the server's
  state, the calls made so far, the disk, what was put into the trash. What the daemon answers is a function of the calls
  made so far. The decoders of serde, the trash and the torrent library are parameters.
\<close>

section \<open>JSON and errors\<close>

datatype json = JNull | JBool bool | JInt int | JFloat string | JStr string | JArr "json list" | JObj "(string \<times> json) list"

fun json_get :: "json \<Rightarrow> string \<Rightarrow> json option" where
  "json_get (JObj kvs) k = map_of kvs k"
| "json_get _ k = None"

fun json_str :: "json \<Rightarrow> string option" where
  "json_str (JStr s) = Some s"
| "json_str _ = None"

fun json_bool :: "json \<Rightarrow> bool option" where
  "json_bool (JBool b) = Some b"
| "json_bool _ = None"

fun json_arr :: "json \<Rightarrow> json list option" where
  "json_arr (JArr xs) = Some xs"
| "json_arr _ = None"

fun json_i64 :: "json \<Rightarrow> int option" where
  "json_i64 (JInt n) = (if i64_ok n then Some n else None)"
| "json_i64 _ = None"

fun json_u64 :: "json \<Rightarrow> nat option" where
  "json_u64 (JInt n) = (if 0 \<le> n \<and> n < 2 ^ 64 then Some (nat n) else None)"
| "json_u64 _ = None"

record api_error =
  ae_status :: nat
  ae_message :: string

definition bad :: "string \<Rightarrow> api_error" where
  "bad m = \<lparr>ae_status = 400, ae_message = m\<rparr>"

definition forbidden :: "string \<Rightarrow> api_error" where
  "forbidden m = \<lparr>ae_status = 403, ae_message = m\<rparr>"

definition daemon_error :: "rtorrent_error \<Rightarrow> api_error" where
  "daemon_error e = \<lparr>ae_status = 502, ae_message = error_text e\<rparr>"

definition or_bad :: "'a option \<Rightarrow> string \<Rightarrow> api_error + 'a" where
  "or_bad x m = (case x of Some v \<Rightarrow> Inr v | None \<Rightarrow> Inl (bad m))"

definition arg_hashes :: "json \<Rightarrow> api_error + string list" where
  "arg_hashes args =
     or_bad (map_option (List.map_filter json_str) (Option.bind (json_get args ''hashes'') json_arr)) ''`hashes` (string array) required''"

definition arg_str :: "string \<Rightarrow> json \<Rightarrow> api_error + string" where
  "arg_str k args = or_bad (Option.bind (json_get args k) json_str) (''`'' @ k @ ''` (string) required'')"

definition arg_hash :: "json \<Rightarrow> api_error + string" where
  "arg_hash args = arg_str ''hash'' args"

definition arg_int :: "string \<Rightarrow> json \<Rightarrow> api_error + int" where
  "arg_int k args = or_bad (Option.bind (json_get args k) json_i64) (''`'' @ k @ ''` (integer) required'')"

definition arg_bool :: "string \<Rightarrow> json \<Rightarrow> api_error + bool" where
  "arg_bool k args = or_bad (Option.bind (json_get args k) json_bool) (''`'' @ k @ ''` (boolean) required'')"

fun all_strs :: "string \<Rightarrow> json list \<Rightarrow> api_error + string list" where
  "all_strs k [] = Inr []"
| "all_strs k (j # js) =
     (case json_str j of
        None \<Rightarrow> Inl (bad (''`'' @ k @ ''` entries must be strings''))
      | Some s \<Rightarrow> (case all_strs k js of Inl e \<Rightarrow> Inl e | Inr ss \<Rightarrow> Inr (s # ss)))"

definition arg_strs :: "string \<Rightarrow> json \<Rightarrow> api_error + string list" where
  "arg_strs k args =
     (case or_bad (Option.bind (json_get args k) json_arr) (''`'' @ k @ ''` (array of strings) required'') of
        Inl e \<Rightarrow> Inl e | Inr js \<Rightarrow> all_strs k js)"

definition flag :: "string \<Rightarrow> bool \<Rightarrow> json option \<Rightarrow> bool" where
  "flag k dflt args = (case Option.bind (Option.bind args (\<lambda>a. json_get a k)) json_bool of Some b \<Rightarrow> b | None \<Rightarrow> dflt)"

definition text_or_empty :: "string \<Rightarrow> json option \<Rightarrow> string" where
  "text_or_empty k args = (case Option.bind (Option.bind args (\<lambda>a. json_get a k)) json_str of Some s \<Rightarrow> s | None \<Rightarrow> [])"

text \<open>\<open>i64 as usize\<close> wraps.\<close>

definition as_usize :: "int \<Rightarrow> nat" where
  "as_usize n = nat (n mod 2 ^ 64)"

section \<open>The world of a command\<close>

datatype backend_call =
    BcStart "string list" | BcStop "string list" | BcPause "string list" | BcRecheck "string list" | BcReannounce "string list"
  | BcSetLabel "string list" string | BcSetTags "string list" "string list"
  | BcFilePriority string nat int | BcConnectionLimits string int int int | BcSuperSeeding string bool
  | BcAddTracker string string | BcRemoveTracker string nat | BcTrackerEnabled string nat bool
  | BcBanPeer string string | BcSnubPeer string string | BcDisconnectPeer string string
  | BcListSnapshot | BcSetPriority string int | BcSetCustom string "(string \<times> string) list"
  | BcBasePath string | BcErase "string list" | BcSetDirectory string string
  | BcLoadMagnet string load_options | BcLoadRaw string load_options | BcTrackers string

record create_params =
  cp_source_path :: string
  cp_output_path :: "string option"
  cp_piece_length :: "int option"
  cp_trackers :: "string list"
  cp_private :: bool
  cp_comment :: "string option"
  cp_source :: "string option"
  cp_start_seeding :: bool

record cmd_env =
  ce_transport :: transport_kind
  ce_incomplete_dir :: string
  ce_answer :: "backend_call list \<Rightarrow> rtorrent_error option"
  ce_rows :: "backend_call list \<Rightarrow> rtorrent_error + raw_torrent list"
  ce_base_path :: "backend_call list \<Rightarrow> rtorrent_error + string"
  ce_trash :: "string \<Rightarrow> string option"
  ce_write :: "string \<Rightarrow> string option"
  ce_local :: "string \<Rightarrow> path"
  ce_now :: int
  ce_now_ms :: int
  ce_create_params :: "json \<Rightarrow> string + create_params"
  ce_build :: "torrent_spec \<Rightarrow> string + parsed_torrent"
  ce_encode :: "parsed_torrent \<Rightarrow> string + string"
  ce_created :: "parsed_torrent \<Rightarrow> string option \<Rightarrow> json"
  ce_manifest :: "string \<Rightarrow> string + manifest"
  ce_import_args :: "json \<Rightarrow> import_args"
  ce_status_json :: "import_status \<Rightarrow> json"
  ce_trackers :: "backend_call list \<Rightarrow> string \<Rightarrow> rtorrent_error + string list"
  ce_read_file :: "string \<Rightarrow> string option"
  ce_base64 :: "string \<Rightarrow> string"
  ce_version :: string
  ce_manifest_text :: "manifest \<Rightarrow> string"
  ce_decode :: decoder
  ce_read_hash :: decoder
  ce_preview_json :: "validation_dto \<Rightarrow> json"
  ce_disk :: scan_env
  ce_scan_json :: "scan_report \<Rightarrow> json"
  ce_opts_json :: "string \<Rightarrow> json option"
  ce_read_torrent :: "string \<Rightarrow> string + parsed_torrent"

record cmd_world =
  cw_server :: server
  cw_calls :: "backend_call list"
  cw_fs :: fs_state
  cw_trashed :: "string list"
  cw_written :: "string list"
  cw_import :: import_status
  cw_jobs :: "import_job list"
  cw_cancel :: bool
  cw_repolls :: nat

type_synonym 'a cmd = "cmd_world \<Rightarrow> (api_error + 'a) \<times> cmd_world"

definition done_with :: "'a \<Rightarrow> 'a cmd" where
  "done_with x w = (Inr x, w)"

definition refuse :: "api_error \<Rightarrow> 'a cmd" where
  "refuse e w = (Inl e, w)"

definition cbind :: "'a cmd \<Rightarrow> ('a \<Rightarrow> 'b cmd) \<Rightarrow> 'b cmd" where
  "cbind m f w = (case m w of (Inl e, w') \<Rightarrow> (Inl e, w') | (Inr x, w') \<Rightarrow> f x w')"

definition arg :: "(json \<Rightarrow> api_error + 'a) \<Rightarrow> json \<Rightarrow> 'a cmd" where
  "arg f args w = (f args, w)"

definition with_world :: "(cmd_world \<Rightarrow> 'a cmd) \<Rightarrow> 'a cmd" where
  "with_world m w = m w w"

definition put_call :: "backend_call \<Rightarrow> cmd_world \<Rightarrow> cmd_world" where
  "put_call c w = w\<lparr>cw_calls := cw_calls w @ [c]\<rparr>"

definition bcall :: "cmd_env \<Rightarrow> backend_call \<Rightarrow> unit cmd" where
  "bcall env c w =
     (let w1 = put_call c w in case ce_answer env (cw_calls w1) of None \<Rightarrow> (Inr (), w1) | Some e \<Rightarrow> (Inl (daemon_error e), w1))"

text \<open>A call whose failure is ignored.\<close>

definition try_call :: "cmd_env \<Rightarrow> backend_call \<Rightarrow> unit cmd" where
  "try_call env c w = (Inr (), put_call c w)"

definition list_rows :: "cmd_env \<Rightarrow> raw_torrent list cmd" where
  "list_rows env w =
     (let w1 = put_call BcListSnapshot w in
      case ce_rows env (cw_calls w1) of Inl e \<Rightarrow> (Inl (daemon_error e), w1) | Inr rows \<Rightarrow> (Inr rows, w1))"

definition say :: "log_entry \<Rightarrow> unit cmd" where
  "say e w = (Inr (), w\<lparr>cw_server := Poller.log_line e (cw_server w)\<rparr>)"

fun each :: "('a \<Rightarrow> unit cmd) \<Rightarrow> 'a list \<Rightarrow> unit cmd" where
  "each f [] = done_with ()"
| "each f (x # xs) = cbind (f x) (\<lambda>_. each f xs)"

text \<open>\<open>AppState::torrent\<close>: the cached row of a hash, letter case included.\<close>

definition cached_torrent :: "server \<Rightarrow> string \<Rightarrow> torrent_dto option" where
  "cached_torrent sv h = (case sv_cache sv of None \<Rightarrow> None | Some c \<Rightarrow> find (\<lambda>t. dto_hash t = h) (sn_torrents (ca_snapshot c)))"

definition cached_tags :: "server \<Rightarrow> string \<Rightarrow> string list" where
  "cached_tags sv h = (case cached_torrent sv h of Some t \<Rightarrow> dto_tags t | None \<Rightarrow> [])"

section \<open>The commands\<close>

definition cmd_add_tags :: "cmd_env \<Rightarrow> json \<Rightarrow> unit cmd" where
  "cmd_add_tags env args =
     cbind (arg (arg_strs ''tags'') args) (\<lambda>tags.
     cbind (arg arg_hashes args) (\<lambda>hs.
       each (\<lambda>h. with_world (\<lambda>w. bcall env (BcSetTags [h] (cached_tags (cw_server w) h @ tags)))) hs))"

definition cmd_remove_tags :: "cmd_env \<Rightarrow> json \<Rightarrow> unit cmd" where
  "cmd_remove_tags env args =
     cbind (arg (arg_strs ''tags'') args) (\<lambda>tags.
     cbind (arg arg_hashes args) (\<lambda>hs.
       each (\<lambda>h. with_world (\<lambda>w. bcall env
         (BcSetTags [h] (filter (\<lambda>t. to_lower t \<notin> to_lower ` set tags) (cached_tags (cw_server w) h))))) hs))"

definition cmd_cancel_move :: "json \<Rightarrow> json cmd" where
  "cmd_cancel_move args =
     cbind (arg (arg_str ''id'') args) (\<lambda>i w.
       (let sm = sv_moves (cw_server w); (ok, st) = cancel_move i (w_store (sm_world sm)) in
        (Inr (JBool ok), w\<lparr>cw_server := (cw_server w)\<lparr>sv_moves := sm\<lparr>sm_world := on_store (\<lambda>_. st) (sm_world sm)\<rparr>\<rparr>\<rparr>)))"

definition cmd_retry_move :: "json \<Rightarrow> json cmd" where
  "cmd_retry_move args =
     cbind (arg arg_hash args) (\<lambda>h w.
       (let sm = sv_moves (cw_server w); (ok, st) = retry h (w_store (sm_world sm));
            w1 = on_store (\<lambda>_. st) (sm_world sm)
        in (Inr (JBool ok), w\<lparr>cw_server := (cw_server w)\<lparr>sv_moves := sm\<lparr>sm_world := (if ok then persist w1 else w1)\<rparr>\<rparr>,
              cw_repolls := cw_repolls w + (if ok then 1 else 0)\<rparr>)))"

definition cmd_import :: "cmd_env \<Rightarrow> json \<Rightarrow> json cmd" where
  "cmd_import env args w =
     (case start_import (ce_manifest env) (ce_import_args env args) (cw_import w) of
        (Inl e, st) \<Rightarrow> (Inl (bad e), w\<lparr>cw_import := st\<rparr>)
      | (Inr job, st) \<Rightarrow> (Inr JNull, w\<lparr>cw_import := st, cw_jobs := cw_jobs w @ [job], cw_repolls := cw_repolls w + 1\<rparr>))"

definition cmd_connection_limits :: "cmd_env \<Rightarrow> json \<Rightarrow> unit cmd" where
  "cmd_connection_limits env args =
     cbind (arg (arg_int ''peersMax'') args) (\<lambda>pmax.
     cbind (arg (arg_int ''peersMin'') args) (\<lambda>pmin.
     cbind (arg (arg_int ''uploadsMax'') args) (\<lambda>umax.
       if pmax < 0 \<or> pmin < 0 \<or> umax < 0 then refuse (bad ''connection limits must be zero or greater'')
       else cbind (arg arg_hash args) (\<lambda>h. bcall env (BcConnectionLimits h pmax pmin umax)))))"

definition cmd_super_seeding :: "cmd_env \<Rightarrow> json \<Rightarrow> unit cmd" where
  "cmd_super_seeding env args =
     cbind (arg arg_hash args) (\<lambda>h.
     cbind (arg (arg_bool ''enabled'') args) (\<lambda>enabled. with_world (\<lambda>w.
       (case cached_torrent (cw_server w) h of
          None \<Rightarrow> refuse (bad ''torrent not found'')
        | Some t \<Rightarrow>
            if dto_percent t < 100 then refuse (bad ''super-seeding is only available for complete torrents'')
            else bcall env (BcSuperSeeding h enabled)))))"

definition move_dir_of :: "string \<Rightarrow> move_dir option" where
  "move_dir_of s =
     (if s = ''top'' then Some Top else if s = ''up'' then Some Up else if s = ''down'' then Some Down
      else if s = ''bottom'' then Some Bottom else None)"

definition cmd_queue_move :: "cmd_env \<Rightarrow> json \<Rightarrow> unit cmd" where
  "cmd_queue_move env args =
     cbind (arg arg_hashes args) (\<lambda>hs.
     cbind (arg (arg_str ''direction'') args) (\<lambda>d.
       case move_dir_of d of
         None \<Rightarrow> refuse (bad ''direction must be top, up, down or bottom'')
       | Some dir \<Rightarrow>
           cbind (list_rows env) (\<lambda>rows.
             (let moves = plan_reorder rows hs dir in
              cbind (each (\<lambda>r. cbind (bcall env (BcSetPriority (ro_hash r) (ro_priority r)))
                       (\<lambda>_. bcall env (BcSetCustom (ro_hash r) [(''queue_pos'', format_pos (ro_pos r))]))) moves)
                (\<lambda>_. say (info (''reordered '' @ show_nat (length moves) @ '' torrent(s)'')))))))"

definition cmd_toggle_force :: "cmd_env \<Rightarrow> json \<Rightarrow> unit cmd" where
  "cmd_toggle_force env args =
     cbind (arg arg_hashes args) (\<lambda>hs.
     cbind (list_rows env) (\<lambda>rows.
       (let v = force_toggle_value rows hs in
        cbind (each (\<lambda>h. bcall env (BcSetCustom h [(''force_start'', v)])) hs)
          (\<lambda>_. say (info (if v = ''1'' then ''force-started '' @ show_nat (length hs) @ '' torrent(s)''
                          else ''force-start cleared on '' @ show_nat (length hs) @ '' torrent(s)''))))))"

definition ask_base_path :: "cmd_env \<Rightarrow> string \<Rightarrow> string list cmd" where
  "ask_base_path env h w =
     (let w1 = put_call (BcBasePath h) w
      in (Inr (case ce_base_path env (cw_calls w1) of Inr p \<Rightarrow> if p \<noteq> [] then [p] else [] | Inl _ \<Rightarrow> []), w1))"

fun base_paths :: "cmd_env \<Rightarrow> string list \<Rightarrow> string list cmd" where
  "base_paths env [] = done_with []"
| "base_paths env (h # hs) = cbind (ask_base_path env h) (\<lambda>found. cbind (base_paths env hs) (\<lambda>ps. done_with (found @ ps)))"

definition trash_path :: "cmd_env \<Rightarrow> string \<Rightarrow> unit cmd" where
  "trash_path env p w =
     (case ce_trash env p of
        None \<Rightarrow> say (info (''moved to trash: '' @ p)) (w\<lparr>cw_trashed := cw_trashed w @ [p]\<rparr>)
      | Some e \<Rightarrow> say \<lparr>le_level = WarnLevel, le_message = ''could not trash '' @ p @ '': '' @ e, le_hash = None\<rparr> w)"

definition cmd_remove :: "cmd_env \<Rightarrow> json \<Rightarrow> unit cmd" where
  "cmd_remove env args =
     cbind (arg arg_hashes args) (\<lambda>hs.
       (let delete_data = flag ''deleteData'' False (Some args) in
        if delete_data \<and> \<not> is_colocated (ce_transport env)
        then refuse (forbidden ''delete-data is only available when the server is co-located with the daemon'')
        else cbind (if delete_data then base_paths env hs else done_with []) (\<lambda>ps.
             cbind (bcall env (BcErase hs)) (\<lambda>_. each (trash_path env) ps))))"

definition move_files :: "cmd_env \<Rightarrow> string \<Rightarrow> string \<Rightarrow> (string + path) cmd" where
  "move_files env src dst w = (let (r, fs) = move_torrent_data (ce_local env src) (ce_local env dst) (cw_fs w) in (Inr r, w\<lparr>cw_fs := fs\<rparr>))"

definition finish_location :: "cmd_env \<Rightarrow> string \<Rightarrow> string \<Rightarrow> bool \<Rightarrow> bool \<Rightarrow> unit cmd" where
  "finish_location env h p was_active moved =
     cbind (bcall env (BcSetDirectory h p)) (\<lambda>_.
     cbind (try_call env (BcSetCustom h [(''final_dir'', [])])) (\<lambda>_.
     cbind (if was_active then bcall env (BcStart [h]) else done_with ()) (\<lambda>_.
       say \<lparr>le_level = InfoLevel, le_message = ''set location to '' @ p @ (if moved then '' (moved data)'' else '' (files not moved)''),
            le_hash = Some h\<rparr>)))"

definition give_up_location :: "cmd_env \<Rightarrow> string \<Rightarrow> bool \<Rightarrow> string \<Rightarrow> unit cmd" where
  "give_up_location env h was_active e =
     cbind (if was_active then try_call env (BcStart [h]) else done_with ()) (\<lambda>_. refuse (bad (''could not move files: '' @ e)))"

definition cmd_set_location :: "cmd_env \<Rightarrow> json \<Rightarrow> unit cmd" where
  "cmd_set_location env args =
     cbind (arg arg_hash args) (\<lambda>h.
     cbind (arg (arg_str ''path'') args) (\<lambda>p.
       (let move_data = flag ''moveData'' False (Some args); colocated = is_colocated (ce_transport env) in
        if move_data \<and> \<not> colocated
        then refuse (forbidden ''moving data is only available when the server is co-located with the daemon'')
        else
          cbind (list_rows env) (\<lambda>rows.
            (let torrent = find (\<lambda>t. eq_ic (raw_hash t) h) rows;
                 was_active = (case torrent of Some t \<Rightarrow> raw_is_active t | None \<Rightarrow> False);
                 old_base = (case torrent of Some t \<Rightarrow> raw_base_path t | None \<Rightarrow> []);
                 finish = finish_location env h p was_active (move_data \<and> colocated)
             in cbind (if was_active then bcall env (BcStop [h]) else done_with ()) (\<lambda>_.
                  if move_data \<and> colocated \<and> old_base \<noteq> []
                  then cbind (move_files env old_base p)
                         (\<lambda>r. case r of Inr _ \<Rightarrow> finish | Inl e \<Rightarrow> give_up_location env h was_active e)
                  else finish))))))"

definition load_options_of :: "json option \<Rightarrow> load_options" where
  "load_options_of opts =
     \<lparr>lo_directory = text_or_empty ''savePath'' opts, lo_label = text_or_empty ''label'' opts, lo_start = flag ''start'' True opts,
      lo_top_of_queue = flag ''topOfQueue'' False opts,
      lo_unselected_indexes = (case Option.bind (Option.bind opts (\<lambda>a. json_get a ''unselectedIndexes'')) json_arr of
                                 Some js \<Rightarrow> List.map_filter json_u64 js | None \<Rightarrow> [])\<rparr>"

definition cmd_add_torrent :: "cmd_env \<Rightarrow> json \<Rightarrow> unit cmd" where
  "cmd_add_torrent env args =
     cbind (arg (\<lambda>a. or_bad (json_get a ''source'') ''`source` required'') args) (\<lambda>src.
       (let opts0 = load_options_of (json_get args ''opts'');
            (directory, final_dir) = route_new_download (ce_incomplete_dir env) (lo_directory opts0);
            opts = opts0\<lparr>lo_directory := directory\<rparr>;
            kind = Option.bind (json_get src ''kind'') json_str
        in if kind = Some ''magnet''
           then cbind (arg (\<lambda>a. or_bad (Option.bind (json_get a ''uri'') json_str) ''magnet `uri` required'') src) (\<lambda>uri.
                cbind (bcall env (BcLoadMagnet uri opts)) (\<lambda>_.
                  case magnet_hash uri of
                    None \<Rightarrow> done_with ()
                  | Some h \<Rightarrow>
                      try_call env (BcSetCustom h ([(''added_by'', ''magnet''), (''source_path'', uri), (''added_at'', show_int (ce_now env))] @
                        (case final_dir of Some d \<Rightarrow> [(''final_dir'', d)] | None \<Rightarrow> [])))))
           else if kind = Some ''file'' then refuse (bad ''file adds use POST /api/torrents/file, not /api/cmd/add_torrent'')
           else refuse (bad ''unknown add source kind'')))"

definition hex_digit :: "nat \<Rightarrow> char" where
  "hex_digit n = (if n < 10 then char_of (48 + n) else char_of (55 + n))"

definition unreserved :: "char \<Rightarrow> bool" where
  "unreserved c = (is_digit c \<or> (CHR ''A'' \<le> c \<and> c \<le> CHR ''Z'') \<or> (CHR ''a'' \<le> c \<and> c \<le> CHR ''z'') \<or>
     c = CHR ''-'' \<or> c = CHR ''_'' \<or> c = CHR ''.'' \<or> c = CHR ''~'')"

definition percent_encode :: "string \<Rightarrow> string" where
  "percent_encode s =
     concat (map (\<lambda>c. if unreserved c then [c] else [CHR ''%'', hex_digit (of_char c div 16), hex_digit (of_char c mod 16)]) s)"

definition cmd_copy_magnet :: "json \<Rightarrow> json cmd" where
  "cmd_copy_magnet args =
     cbind (arg arg_hash args) (\<lambda>h w.
       (let name = (case cached_torrent (cw_server w) h of Some t \<Rightarrow> dto_name t | None \<Rightarrow> []) in
        (Inr (JStr (''magnet:?xt=urn:btih:'' @ h @ (if name \<noteq> [] then ''&dn='' @ percent_encode name else []))), w)))"

definition options_of_params :: "create_params \<Rightarrow> create_options" where
  "options_of_params p =
     \<lparr>co_source_path = cp_source_path p, co_piece_length = cp_piece_length p, co_trackers = cp_trackers p, co_private = cp_private p,
      co_comment = cp_comment p, co_source = cp_source p, co_created_by = Some ''rstorrent''\<rparr>"

text \<open>\<open>Path::parent\<close>, or the path itself at the root.\<close>

definition parent_or_self :: "string \<Rightarrow> string" where
  "parent_or_self p =
     (let t = trim_end_char slash p in
      if t = [] then p
      else case rfind slash t of
             None \<Rightarrow> []
           | Some n \<Rightarrow> (let d = trim_end_char slash (take n t) in if d = [] then [slash] else d))"

definition quoted_name :: "string \<Rightarrow> string" where
  "quoted_name s = [CHR 0x27] @ s @ [CHR 0x27]"

definition write_torrent :: "cmd_env \<Rightarrow> string option \<Rightarrow> string option cmd" where
  "write_torrent env out w =
     (case out of
        None \<Rightarrow> (Inr None, w)
      | Some p \<Rightarrow>
          if trim p = [] then (Inr None, w)
          else (case ce_write env p of
                  Some e \<Rightarrow> (Inl (bad (''could not write .torrent file: '' @ e)), w)
                | None \<Rightarrow> (Inr (Some p), w\<lparr>cw_written := cw_written w @ [p]\<rparr>)))"

definition cmd_create_torrent :: "cmd_env \<Rightarrow> json \<Rightarrow> json cmd" where
  "cmd_create_torrent env args =
     (if \<not> is_colocated (ce_transport env)
      then refuse (forbidden ''creating torrents from host paths is only available when the server is co-located with the daemon'')
      else case ce_create_params env args of
        Inl e \<Rightarrow> refuse (bad (''invalid createTorrent parameters: '' @ e))
      | Inr ps \<Rightarrow> with_world (\<lambda>w.
          if \<not> exists_at (fs_root (cw_fs w)) (ce_local env (cp_source_path ps))
          then refuse (bad (''source path does not exist: '' @ cp_source_path ps))
          else case create_torrent (ce_build env) (ce_encode env) (ce_local env) (fs_root (cw_fs w)) (ce_now env) (options_of_params ps) of
            Inl e \<Rightarrow> refuse (bad (''failed to create torrent: '' @ e))
          | Inr (t, bytes) \<Rightarrow>
              (let h = to_upper (pt_info_hash t) in
               cbind (write_torrent env (cp_output_path ps)) (\<lambda>out.
               cbind (if cp_start_seeding ps
                      then cbind (bcall env (BcLoadRaw bytes \<lparr>lo_directory = parent_or_self (cp_source_path ps), lo_label = [], lo_start = True,
                             lo_top_of_queue = False, lo_unselected_indexes = []\<rparr>))
                             (\<lambda>_. say \<lparr>le_level = InfoLevel, le_message = ''created torrent '' @ quoted_name (pt_name t) @ '' and started seeding'', le_hash = Some h\<rparr>)
                      else say \<lparr>le_level = InfoLevel, le_message = ''created torrent '' @ quoted_name (pt_name t) @ '' ('' @ h @ '')'', le_hash = Some h\<rparr>)
                 (\<lambda>_. done_with (ce_created env t out))))))"

text \<open>The export dialog's text and the preview: reads of the daemon, whose failures answer 400.\<close>

fun ask_trackers :: "cmd_env \<Rightarrow> raw_torrent list \<Rightarrow> cmd_world \<Rightarrow> (string \<Rightarrow> rtorrent_error + string list) \<times> cmd_world" where
  "ask_trackers env [] w = (\<lambda>_. Inr [], w)"
| "ask_trackers env (r # rs) w =
     (let w1 = put_call (BcTrackers (raw_hash r)) w; a = ce_trackers env (cw_calls w1) (raw_hash r);
          w2 = (case a of Inr _ \<Rightarrow> w1
                | Inl e \<Rightarrow> snd (say \<lparr>le_level = Server_Moves.WarnLevel,
                            le_message = ''export: no trackers for '' @ raw_name r @ '' ('' @ error_text e @ '')'', le_hash = Some (raw_hash r)\<rparr> w1));
          (f, w3) = ask_trackers env rs w2
      in (f(raw_hash r := a), w3))"

definition cmd_export :: "cmd_env \<Rightarrow> json cmd" where
  "cmd_export env w =
     (let w1 = put_call BcListSnapshot w; rows = ce_rows env (cw_calls w1);
          (answers, w2) = (case rows of Inl _ \<Rightarrow> (\<lambda>_. Inr [], w1) | Inr rs \<Rightarrow> ask_trackers env rs w1)
      in case export_session answers (ce_read_file env) (ce_base64 env) rows (ce_now_ms env) (ce_version env) of
           Inl e \<Rightarrow> (Inl (bad e), w2)
         | Inr m \<Rightarrow>
             (Inr (JStr (ce_manifest_text env m)),
              snd (say (info (''exported session: '' @ show_nat (length (man_torrents m)) @ '' torrent(s)'')) w2)))"

definition cmd_validate :: "cmd_env \<Rightarrow> json \<Rightarrow> json cmd" where
  "cmd_validate env args w =
     (let a = ce_import_args env args;
          w1 = (case args_manifest (ce_manifest env) a of Inl _ \<Rightarrow> w | Inr _ \<Rightarrow> put_call BcListSnapshot w)
      in case server_preview (ce_manifest env) (ce_decode env) (ce_read_hash env) (ce_rows env (cw_calls w1)) a of
           Inl e \<Rightarrow> (Inl (bad e), w1)
         | Inr d \<Rightarrow> (Inr (ce_preview_json env d), w1))"

definition cmd_scan_foreign :: "cmd_env \<Rightarrow> json \<Rightarrow> json cmd" where
  "cmd_scan_foreign env args w =
     (case scan_foreign (ce_disk env) (text_or_empty ''client'' (Some args)) (text_or_empty ''dir'' (Some args)) (ce_now_ms env) of
        Inl e \<Rightarrow> (Inl (bad e), w)
      | Inr r \<Rightarrow> (Inr (ce_scan_json env r), w))"

section \<open>The dispatch\<close>

definition silent :: "unit cmd \<Rightarrow> json cmd" where
  "silent m = cbind m (\<lambda>_. done_with JNull)"

definition on_hashes :: "cmd_env \<Rightarrow> json \<Rightarrow> (string list \<Rightarrow> backend_call) \<Rightarrow> json cmd" where
  "on_hashes env args f = silent (cbind (arg arg_hashes args) (\<lambda>hs. bcall env (f hs)))"

definition on_text :: "cmd_env \<Rightarrow> json \<Rightarrow> string \<Rightarrow> (string \<Rightarrow> string \<Rightarrow> backend_call) \<Rightarrow> json cmd" where
  "on_text env args k f =
     silent (cbind (arg arg_hash args) (\<lambda>h. cbind (arg (arg_str k) args) (\<lambda>v. bcall env (f h v))))"

definition cmd_set_label :: "cmd_env \<Rightarrow> json \<Rightarrow> json cmd" where
  "cmd_set_label env args =
     silent (cbind (arg arg_hashes args) (\<lambda>hs. cbind (arg (arg_str ''label'') args) (\<lambda>l. bcall env (BcSetLabel hs l))))"

definition cmd_set_tags :: "cmd_env \<Rightarrow> json \<Rightarrow> json cmd" where
  "cmd_set_tags env args =
     silent (cbind (arg arg_hashes args) (\<lambda>hs. cbind (arg (arg_strs ''tags'') args) (\<lambda>ts. bcall env (BcSetTags hs ts))))"

definition cmd_file_priority :: "cmd_env \<Rightarrow> json \<Rightarrow> json cmd" where
  "cmd_file_priority env args =
     silent (cbind (arg arg_hash args) (\<lambda>h. cbind (arg (arg_int ''fileIndex'') args) (\<lambda>i.
       cbind (arg (arg_int ''priority'') args) (\<lambda>p. bcall env (BcFilePriority h (as_usize i) p)))))"

definition cmd_remove_tracker :: "cmd_env \<Rightarrow> json \<Rightarrow> json cmd" where
  "cmd_remove_tracker env args =
     silent (cbind (arg arg_hash args) (\<lambda>h. cbind (arg (arg_int ''trackerIndex'') args) (\<lambda>i. bcall env (BcRemoveTracker h (as_usize i)))))"

definition cmd_tracker_enabled :: "cmd_env \<Rightarrow> json \<Rightarrow> json cmd" where
  "cmd_tracker_enabled env args =
     silent (cbind (arg arg_hash args) (\<lambda>h. cbind (arg (arg_int ''trackerIndex'') args) (\<lambda>i.
       cbind (arg (arg_bool ''enabled'') args) (\<lambda>b. bcall env (BcTrackerEnabled h (as_usize i) b)))))"

definition unknown_command :: "string \<Rightarrow> api_error" where
  "unknown_command n = \<lparr>ae_status = 404, ae_message = ''unknown command: '' @ n\<rparr>"

definition command_table :: "cmd_env \<Rightarrow> json \<Rightarrow> (string \<times> json cmd) list" where
  "command_table env args =
     [(''start'', on_hashes env args BcStart), (''stop'', on_hashes env args BcStop), (''pause'', on_hashes env args BcPause),
      (''recheck'', on_hashes env args BcRecheck), (''force_reannounce'', on_hashes env args BcReannounce),
      (''set_label'', cmd_set_label env args), (''set_tags'', cmd_set_tags env args),
      (''add_tags'', silent (cmd_add_tags env args)), (''remove_tags'', silent (cmd_remove_tags env args)),
      (''set_location'', silent (cmd_set_location env args)),
      (''cancel_move'', cmd_cancel_move args), (''retry_move'', cmd_retry_move args),
      (''export_session_text'', cmd_export env), (''validate_session'', cmd_validate env args),
      (''import_session'', cmd_import env args), (''import_status'', \<lambda>w. (Inr (ce_status_json env (cw_import w)), w)),
      (''cancel_import'', \<lambda>w. (Inr JNull, w\<lparr>cw_cancel := True\<rparr>)), (''scan_foreign'', cmd_scan_foreign env args),
      (''set_file_priority'', cmd_file_priority env args),
      (''set_connection_limits'', silent (cmd_connection_limits env args)), (''set_super_seeding'', silent (cmd_super_seeding env args)),
      (''add_tracker'', on_text env args ''url'' BcAddTracker), (''remove_tracker'', cmd_remove_tracker env args),
      (''set_tracker_enabled'', cmd_tracker_enabled env args), (''ban_peer'', on_text env args ''peerId'' BcBanPeer),
      (''snub_peer'', on_text env args ''peerId'' BcSnubPeer), (''disconnect_peer'', on_text env args ''peerId'' BcDisconnectPeer),
      (''queue_move'', silent (cmd_queue_move env args)), (''toggle_force_start'', silent (cmd_toggle_force env args)),
      (''remove'', silent (cmd_remove env args)), (''add_torrent'', silent (cmd_add_torrent env args)),
      (''create_torrent'', cmd_create_torrent env args), (''copy_magnet'', cmd_copy_magnet args)]"

definition run_command :: "cmd_env \<Rightarrow> string \<Rightarrow> json \<Rightarrow> json cmd" where
  "run_command env name args =
     (case map_of (command_table env args) name of Some m \<Rightarrow> m | None \<Rightarrow> refuse (unknown_command name))"

section \<open>The routes\<close>

definition not_connected :: api_error where
  "not_connected = \<lparr>ae_status = 503, ae_message = ''rtorrent is not connected''\<rparr>"

definition repoll :: "cmd_world \<Rightarrow> cmd_world" where
  "repoll w = w\<lparr>cw_repolls := cw_repolls w + 1\<rparr>"

definition post_cmd :: "cmd_env \<Rightarrow> string \<Rightarrow> json \<Rightarrow> json cmd" where
  "post_cmd env name args w =
     (if cs_phase (sv_conn (cw_server w)) \<noteq> Connected then (Inl not_connected, w)
      else case run_command env name args w of (Inl e, w1) \<Rightarrow> (Inl e, w1) | (Inr v, w1) \<Rightarrow> (Inr v, repoll w1))"

text \<open>A multipart body: its fields in order, each its name and what reading its content gives, or an error of the stream.\<close>

type_synonym form_field = "string + (string option \<times> (string + string))"

fun read_form :: "(string \<Rightarrow> json option) \<Rightarrow> form_field list \<Rightarrow> string option \<Rightarrow> json \<Rightarrow> api_error + (string option \<times> json)" where
  "read_form parse [] bytes opts = Inr (bytes, opts)"
| "read_form parse (Inl e # fs) bytes opts = Inl (bad e)"
| "read_form parse (Inr (n, content) # fs) bytes opts =
     (if n = Some ''file'' then (case content of Inl e \<Rightarrow> Inl (bad e) | Inr b \<Rightarrow> read_form parse fs (Some b) opts)
      else if n = Some ''opts''
      then read_form parse fs bytes (case content of Inl _ \<Rightarrow> opts | Inr t \<Rightarrow> (case parse t of Some j \<Rightarrow> j | None \<Rightarrow> JNull))
      else read_form parse fs bytes opts)"

definition post_add_file :: "cmd_env \<Rightarrow> form_field list \<Rightarrow> unit cmd" where
  "post_add_file env form w =
     (if cs_phase (sv_conn (cw_server w)) \<noteq> Connected then (Inl not_connected, w)
      else case read_form (ce_opts_json env) form None JNull of
        Inl e \<Rightarrow> (Inl e, w)
      | Inr (None, _) \<Rightarrow> (Inl (bad ''missing `file` field''), w)
      | Inr (Some bytes, opts) \<Rightarrow>
          (case read_metadata_bytes (ce_read_torrent env) bytes of
             Inl e \<Rightarrow> (Inl (bad e), w)
           | Inr meta \<Rightarrow>
               (let lo = load_options_of (Some opts);
                    (directory, final_dir) = route_new_download (ce_incomplete_dir env) (lo_directory lo)
                in case bcall env (BcLoadRaw bytes (lo\<lparr>lo_directory := directory\<rparr>)) w of
                     (Inl e, w1) \<Rightarrow> (Inl e, w1)
                   | (Inr _, w1) \<Rightarrow>
                       (Inr (), repoll (snd (try_call env (BcSetCustom (tm_info_hash meta)
                          ([(''added_by'', ''file''), (''source_path'', ''web-upload''), (''added_at'', show_int (ce_now env))] @
                           (case final_dir of Some d \<Rightarrow> [(''final_dir'', d)] | None \<Rightarrow> []))) w1))))))"

fun file_field :: "form_field list \<Rightarrow> api_error + string" where
  "file_field [] = Inl (bad ''missing `file` field'')"
| "file_field (Inl e # fs) = Inl (bad e)"
| "file_field (Inr (n, content) # fs) =
     (if n = Some ''file'' then (case content of Inl e \<Rightarrow> Inl (bad e) | Inr b \<Rightarrow> Inr b) else file_field fs)"

definition post_inspect :: "(string \<Rightarrow> string + parsed_torrent) \<Rightarrow> form_field list \<Rightarrow> api_error + torrent_meta" where
  "post_inspect read form =
     (case file_field form of
        Inl e \<Rightarrow> Inl e
      | Inr bytes \<Rightarrow> (case read_metadata_bytes read bytes of Inl e \<Rightarrow> Inl (bad e) | Inr m \<Rightarrow> Inr m))"

section \<open>What a command may touch\<close>

locale cmd_relation =
  fixes R :: "cmd_world \<Rightarrow> cmd_world \<Rightarrow> bool"
  assumes same: "R w w" and chain: "R u v \<Longrightarrow> R v w \<Longrightarrow> R u w"
begin

definition keeps :: "'a cmd \<Rightarrow> bool" where
  "keeps m \<longleftrightarrow> (\<forall>w. R w (snd (m w)))"

lemma keepsI [intro?]: "(\<And>w. R w (snd (m w))) \<Longrightarrow> keeps m"
  by (simp add: keeps_def)

lemma keepsD: "keeps m \<Longrightarrow> m w = (r, w') \<Longrightarrow> R w w'"
  by (metis keeps_def snd_conv)

lemma keeps_done: "keeps (done_with x)"
  by (simp add: keeps_def done_with_def same)

lemma keeps_refuse: "keeps (refuse e)"
  by (simp add: keeps_def refuse_def same)

lemma keeps_arg: "keeps (arg f args)"
  by (simp add: keeps_def arg_def same)

lemma keeps_cbind: "keeps m \<Longrightarrow> (\<And>x. keeps (f x)) \<Longrightarrow> keeps (cbind m f)"
  by (auto simp: keeps_def cbind_def split: prod.splits sum.splits intro: chain) (metis chain snd_conv)+

lemma keeps_with: "(\<And>w. keeps (m w)) \<Longrightarrow> keeps (with_world m)"
  by (simp add: keeps_def with_world_def)

lemma keeps_each: "(\<And>x. keeps (f x)) \<Longrightarrow> keeps (each f xs)"
  by (induction xs) (simp_all add: keeps_done keeps_cbind)

end

lemma cbind_done [simp]: "cbind (done_with x) f = f x"
  by (rule ext) (simp add: cbind_def done_with_def)

definition same_disk :: "cmd_world \<Rightarrow> cmd_world \<Rightarrow> bool" where
  "same_disk w w' \<longleftrightarrow> cw_fs w' = cw_fs w \<and> cw_trashed w' = cw_trashed w \<and> cw_written w' = cw_written w"

fun reads_only :: "backend_call \<Rightarrow> bool" where
  "reads_only BcListSnapshot = True"
| "reads_only (BcBasePath _) = True"
| "reads_only (BcTrackers _) = True"
| "reads_only _ = False"

definition changes :: "cmd_world \<Rightarrow> backend_call list" where
  "changes w = filter (\<lambda>c. \<not> reads_only c) (cw_calls w)"

interpretation disk: cmd_relation same_disk
  by unfold_locales (auto simp: same_disk_def)

definition told_nothing :: "cmd_world \<Rightarrow> cmd_world \<Rightarrow> bool" where
  "told_nothing w w' \<longleftrightarrow> changes w' = changes w"

interpretation hush: cmd_relation told_nothing
  by unfold_locales (simp_all add: told_nothing_def)


lemmas disk_rules = disk.keeps_done disk.keeps_refuse disk.keeps_arg disk.keeps_cbind disk.keeps_with disk.keeps_each

lemma disk_calls [simp]:
  "disk.keeps (bcall env c)" "disk.keeps (try_call env c)" "disk.keeps (list_rows env)" "disk.keeps (say l)"
  by (auto simp: disk.keeps_def bcall_def try_call_def list_rows_def say_def put_call_def same_disk_def Let_def
      split: option.splits sum.splits)

lemma disk_base_paths [simp]: "disk.keeps (base_paths env hs)"
proof (induction hs)
  case (Cons h hs)
  have "disk.keeps (ask_base_path env h)"
    by (auto simp: disk.keeps_def ask_base_path_def Let_def put_call_def same_disk_def)
  then show ?case
    using Cons.IH by (simp add: disk_rules)
qed (simp add: disk.keeps_done)

lemma disk_trackers: "ask_trackers env rs w = (f, w') \<Longrightarrow> same_disk w w'"
  by (induction rs arbitrary: w f w')
     (fastforce simp: same_disk_def put_call_def say_def Let_def split: prod.splits sum.splits)+

lemma disk_reports [simp]:
  "disk.keeps (cmd_export env)" "disk.keeps (cmd_validate env args)" "disk.keeps (cmd_scan_foreign env args)"
  "disk.keeps (cmd_import env args)" "disk.keeps (cmd_cancel_move args)" "disk.keeps (cmd_retry_move args)"
  "disk.keeps (cmd_copy_magnet args)"
proof -
  show "disk.keeps (cmd_export env)"
    by (auto simp: disk.keeps_def cmd_export_def Let_def say_def put_call_def same_disk_def
        split: prod.splits sum.splits dest!: disk_trackers)
  show "disk.keeps (cmd_validate env args)"
    by (auto simp: disk.keeps_def cmd_validate_def Let_def put_call_def same_disk_def split: sum.splits)
  show "disk.keeps (cmd_scan_foreign env args)"
    by (auto simp: disk.keeps_def cmd_scan_foreign_def same_disk_def split: sum.splits)
  show "disk.keeps (cmd_import env args)"
    by (auto simp: disk.keeps_def cmd_import_def same_disk_def split: prod.splits sum.splits)
  show "disk.keeps (cmd_cancel_move args)" "disk.keeps (cmd_retry_move args)" "disk.keeps (cmd_copy_magnet args)"
    by (auto simp: disk.keeps_def cmd_cancel_move_def cmd_retry_move_def cmd_copy_magnet_def cbind_def arg_def Let_def
        same_disk_def split: prod.splits sum.splits)
qed

lemma disk_silent: "disk.keeps m \<Longrightarrow> disk.keeps (silent m)"
  by (simp add: silent_def disk.keeps_cbind disk.keeps_done)

lemma disk_queue [simp]: "disk.keeps (cmd_queue_move env args)" "disk.keeps (cmd_toggle_force env args)"
  by (auto simp: cmd_queue_move_def cmd_toggle_force_def Let_def split: option.splits intro!: disk_rules)

lemma disk_tags [simp]: "disk.keeps (cmd_add_tags env args)" "disk.keeps (cmd_remove_tags env args)"
  by (auto simp: cmd_add_tags_def cmd_remove_tags_def intro!: disk_rules)

lemma disk_limits [simp]: "disk.keeps (cmd_connection_limits env args)"
  by (auto simp: cmd_connection_limits_def intro!: disk_rules)

lemma disk_seeding [simp]: "disk.keeps (cmd_super_seeding env args)"
  by (auto simp: cmd_super_seeding_def intro!: disk_rules split: option.splits)


lemma disk_simple [simp]:
  "disk.keeps (on_hashes env args f)" "disk.keeps (on_text env args k g)" "disk.keeps (cmd_set_label env args)"
  "disk.keeps (cmd_set_tags env args)" "disk.keeps (cmd_file_priority env args)" "disk.keeps (cmd_remove_tracker env args)"
  "disk.keeps (cmd_tracker_enabled env args)"
  by (auto simp: on_hashes_def on_text_def cmd_set_label_def cmd_set_tags_def cmd_file_priority_def cmd_remove_tracker_def
      cmd_tracker_enabled_def intro!: disk_silent disk_rules)

lemma disk_add [simp]: "disk.keeps (cmd_add_torrent env args)"
  by (auto simp: cmd_add_torrent_def Let_def intro!: disk_rules split: prod.splits option.splits)

lemma disk_status [simp]:
  "disk.keeps (\<lambda>w. (Inr (f w), w))" "disk.keeps (\<lambda>w. (Inr x, w\<lparr>cw_cancel := True\<rparr>))"
  by (simp_all add: disk.keeps_def same_disk_def)

lemma disk_off_box:
  assumes "\<not> is_colocated (ce_transport env)"
  shows "disk.keeps (cmd_remove env args)" "disk.keeps (cmd_set_location env args)" "disk.keeps (cmd_create_torrent env args)"
  using assms
  by (auto simp: cmd_remove_def cmd_set_location_def finish_location_def cmd_create_torrent_def Let_def intro!: disk_rules
      split: option.splits)

lemma table_mem: "map_of kvs k = Some m \<Longrightarrow> (\<And>k m. (k, m) \<in> set kvs \<Longrightarrow> P k m) \<Longrightarrow> P k m"
  by (blast dest: map_of_SomeD)

lemma off_box_keeps:
  assumes "\<not> is_colocated (ce_transport env)"
  shows "disk.keeps (run_command env name args)"
proof (cases "map_of (command_table env args) name")
  case None
  then show ?thesis by (simp add: run_command_def disk.keeps_refuse)
next
  case (Some m)
  have "list_all (\<lambda>(k, m). disk.keeps m) (command_table env args)"
    using disk_off_box [OF assms] by (simp add: command_table_def disk_silent)
  then have "disk.keeps m"
    using map_of_SomeD [OF Some] by (auto simp: list_all_iff)
  then show ?thesis using Some by (simp add: run_command_def)
qed

section \<open>Which errors come before the daemon is told anything\<close>

definition only_daemon_fails :: "'a cmd \<Rightarrow> bool" where
  "only_daemon_fails m \<longleftrightarrow> (\<forall>w e w'. m w = (Inl e, w') \<longrightarrow> ae_status e = 502)"

text \<open>An error of another status leaves the daemon as it was.\<close>

definition early :: "'a cmd \<Rightarrow> bool" where
  "early m \<longleftrightarrow> (\<forall>w e w'. m w = (Inl e, w') \<longrightarrow> ae_status e \<noteq> 502 \<longrightarrow> told_nothing w w')"

lemma cbind_Inl: "cbind m f w = (Inl e, w') \<longleftrightarrow> m w = (Inl e, w') \<or> (\<exists>x v. m w = (Inr x, v) \<and> f x v = (Inl e, w'))"
  by (auto simp: cbind_def split: prod.splits sum.splits)

lemma fails_rules:
  "only_daemon_fails (done_with x)" "only_daemon_fails (bcall env c)" "only_daemon_fails (try_call env c)"
  "only_daemon_fails (list_rows env)" "only_daemon_fails (say l)" "only_daemon_fails (trash_path env p)"
  by (auto simp: only_daemon_fails_def done_with_def bcall_def try_call_def list_rows_def say_def trash_path_def Let_def
      daemon_error_def split: option.splits sum.splits)

lemma fails_cbind: "only_daemon_fails m \<Longrightarrow> (\<And>x. only_daemon_fails (f x)) \<Longrightarrow> only_daemon_fails (cbind m f)"
  unfolding only_daemon_fails_def cbind_Inl by blast

lemma fails_each: "(\<And>x. only_daemon_fails (f x)) \<Longrightarrow> only_daemon_fails (each f xs)"
  by (induction xs) (simp_all add: fails_rules fails_cbind)

lemma fails_with: "(\<And>w. only_daemon_fails (m w)) \<Longrightarrow> only_daemon_fails (with_world m)"
  by (simp add: only_daemon_fails_def with_world_def)

lemma early_fails: "only_daemon_fails m \<Longrightarrow> early m"
  by (auto simp: only_daemon_fails_def early_def)

lemma early_hush: "hush.keeps m \<Longrightarrow> early m"
  by (auto simp: early_def dest: hush.keepsD)

lemma early_then: "hush.keeps m \<Longrightarrow> (\<And>x. early (f x)) \<Longrightarrow> early (cbind m f)"
  unfolding early_def cbind_Inl by (metis hush.keepsD hush.chain)

lemma early_before: "early m \<Longrightarrow> (\<And>x. only_daemon_fails (f x)) \<Longrightarrow> early (cbind m f)"
  unfolding early_def only_daemon_fails_def cbind_Inl by blast

lemma early_with: "(\<And>w. early (m w)) \<Longrightarrow> early (with_world m)"
  by (simp add: early_def with_world_def)

lemma early_silent: "early m \<Longrightarrow> early (silent m)"
  by (simp add: silent_def early_before fails_rules)

lemma hush_steps [simp]:
  "hush.keeps (done_with x)" "hush.keeps (refuse e)" "hush.keeps (arg f args)" "hush.keeps (list_rows env)" "hush.keeps (say l)"
  "hush.keeps (ask_base_path env h)" "hush.keeps (move_files env a b)" "hush.keeps (write_torrent env out)"
  by (auto simp: hush.keeps_done hush.keeps_refuse hush.keeps_arg)
     (auto simp: hush.keeps_def told_nothing_def list_rows_def say_def put_call_def changes_def ask_base_path_def move_files_def write_torrent_def
      Let_def split: sum.splits option.splits prod.splits)

lemma hush_base_paths [simp]: "hush.keeps (base_paths env hs)"
  by (induction hs) (simp_all add: hush.keeps_cbind)

lemma early_steps [simp]: "early (bcall env c)" "early (refuse e)" "early (done_with x)"
  by (simp_all add: early_fails fails_rules early_hush)

lemma hush_reports [simp]:
  "hush.keeps (cmd_validate env args)" "hush.keeps (cmd_scan_foreign env args)" "hush.keeps (cmd_import env args)"
  "hush.keeps (cmd_cancel_move args)" "hush.keeps (cmd_retry_move args)" "hush.keeps (cmd_copy_magnet args)"
  "hush.keeps (\<lambda>w. (Inr (f w), w))" "hush.keeps (\<lambda>w. (Inr x, w\<lparr>cw_cancel := True\<rparr>))"
  by (auto simp: hush.keeps_def told_nothing_def changes_def cmd_validate_def cmd_scan_foreign_def cmd_import_def put_call_def
      cmd_cancel_move_def cmd_retry_move_def cmd_copy_magnet_def cbind_def arg_def Let_def split: sum.splits prod.splits)

lemma hush_trackers: "ask_trackers env rs w = (f, w') \<Longrightarrow> told_nothing w w'"
  by (induction rs arbitrary: w f w')
     (fastforce simp: told_nothing_def changes_def put_call_def say_def Let_def split: prod.splits sum.splits)+

lemma hush_export [simp]: "hush.keeps (cmd_export env)"
  by (auto simp: hush.keeps_def cmd_export_def Let_def say_def put_call_def told_nothing_def changes_def
      split: prod.splits sum.splits dest!: hush_trackers)

lemmas tail_rules = fails_rules fails_cbind fails_each fails_with

lemma early_binds:
  "(\<And>x. early (f x)) \<Longrightarrow> early (cbind (arg g args) f)"
  "(\<And>x. early (f2 x)) \<Longrightarrow> early (cbind (list_rows env) f2)"
  "(\<And>x. early (f3 x)) \<Longrightarrow> early (cbind (base_paths env hs) f3)"
  "(\<And>x. early (f4 x)) \<Longrightarrow> early (cbind (write_torrent env out) f4)"
  "(\<And>x. only_daemon_fails (f5 x)) \<Longrightarrow> early (cbind (bcall env c) f5)"
  "(\<And>x. only_daemon_fails (g6 x)) \<Longrightarrow> (\<And>x. only_daemon_fails (f6 x)) \<Longrightarrow> early (cbind (each g6 xs) f6)"
  "(\<And>x. only_daemon_fails (g7 x)) \<Longrightarrow> early (each g7 xs)"
  by (auto intro: early_then early_before early_fails tail_rules early_fails [OF fails_cbind [OF fails_each]])

lemma early_said:
  "(\<And>x. early (f x)) \<Longrightarrow> early (cbind (say l) f)"
  "(\<And>x. only_daemon_fails (g x)) \<Longrightarrow> (\<And>x. only_daemon_fails (k x)) \<Longrightarrow> early (cbind (cbind (bcall env c) k) g)"
  by (rule early_then) (simp_all add: early_fails [OF fails_cbind [OF fails_cbind]] fails_rules)

lemmas early_rules = early_silent early_with early_binds early_said tail_rules

lemma early_lists:
  "early (on_hashes env args f)" "early (on_text env args k g)" "early (cmd_set_label env args)"
  "early (cmd_set_tags env args)" "early (cmd_file_priority env args)" "early (cmd_remove_tracker env args)"
  "early (cmd_tracker_enabled env args)" "early (silent (cmd_add_tags env args))" "early (silent (cmd_remove_tags env args))"
  by (auto simp: on_hashes_def on_text_def cmd_set_label_def cmd_set_tags_def cmd_file_priority_def cmd_remove_tracker_def
      cmd_tracker_enabled_def cmd_add_tags_def cmd_remove_tags_def intro!: early_rules)

lemma early_compound:
  "early (silent (cmd_connection_limits env args))" "early (silent (cmd_super_seeding env args))"
  "early (silent (cmd_queue_move env args))" "early (silent (cmd_toggle_force env args))"
  by (auto simp: cmd_connection_limits_def cmd_super_seeding_def cmd_queue_move_def cmd_toggle_force_def Let_def
      intro!: early_rules split: option.splits)

lemma early_remove: "early (silent (cmd_remove env args))"
  by (auto simp: cmd_remove_def Let_def intro!: early_rules)

lemma early_add: "early (silent (cmd_add_torrent env args))"
  by (auto simp: cmd_add_torrent_def Let_def intro!: early_rules split: prod.splits option.splits)

lemma early_create: "early (cmd_create_torrent env args)"
  by (auto simp: cmd_create_torrent_def Let_def intro!: early_rules split: sum.splits)

lemma early_command:
  assumes "name \<noteq> ''set_location''"
  shows "early (run_command env name args)"
proof (cases "map_of (command_table env args) name")
  case None
  then show ?thesis by (simp add: run_command_def)
next
  case (Some m)
  have "list_all (\<lambda>(k, m). k \<noteq> ''set_location'' \<longrightarrow> early m) (command_table env args)"
    unfolding command_table_def
    by (simp add: early_lists early_compound early_remove early_add early_create early_hush)
  then have "early m"
    using map_of_SomeD [OF Some] assms by (auto simp: list_all_iff)
  then show ?thesis using Some by (simp add: run_command_def)
qed

lemma finish_fails: "only_daemon_fails (finish_location env h p a m)"
  by (auto simp: finish_location_def intro!: tail_rules)

lemma told_bcall: "bcall env c w = (r, w') \<Longrightarrow> \<not> reads_only c \<Longrightarrow> changes w' = changes w @ [c]"
  by (auto simp: bcall_def put_call_def changes_def Let_def split: option.splits)

lemma told_moved: "move_files env a b w = (r, w') \<Longrightarrow> changes w' = changes w \<and> (\<forall>e. r \<noteq> Inl e)"
  by (auto simp: move_files_def changes_def split: prod.splits)

lemma told_rows: "list_rows env w = (r, w') \<Longrightarrow> changes w' = changes w"
  by (auto simp: list_rows_def put_call_def changes_def Let_def split: sum.splits)

lemma gives_up_restarted:
  assumes "give_up_location env h a e w = (r, w')"
  shows "changes w' = changes w @ (if a then [BcStart [h]] else [])"
  using assms by (auto simp: give_up_location_def cbind_def try_call_def done_with_def refuse_def put_call_def changes_def split: if_splits)

lemma after_move:
  assumes "(case r of Inr p' \<Rightarrow> finish_location env h p a m | Inl e \<Rightarrow> give_up_location env h a e) v = (Inl e, w')"
    "ae_status e \<noteq> 502"
  shows "changes w' = changes v @ (if a then [BcStart [h]] else [])"
  using assms finish_fails [of env h p a m]
  by (auto simp: only_daemon_fails_def dest: gives_up_restarted split: sum.splits)

lemma done_Inr: "done_with x v = (Inr y, w) \<longleftrightarrow> y = x \<and> w = v"
  by (auto simp: done_with_def)

lemma failed_move_restarts:
  assumes failed: "cmd_set_location env args w = (Inl e, w')" and status: "ae_status e \<noteq> 502"
  shows "changes w' = changes w \<or> (\<exists>h. changes w' = changes w @ [BcStop [h], BcStart [h]])"
proof -
  have quiet: "only_daemon_fails m \<Longrightarrow> m v \<noteq> (Inl e, w')" for m :: "'x cmd" and v
    using status by (auto simp: only_daemon_fails_def)
  have quiet_stop: "(if a then bcall env (BcStop [h]) else done_with ()) v \<noteq> (Inl e, w')" for a h v
    by (rule quiet) (simp add: fails_rules)
  show ?thesis
    using failed status
    by (auto simp: cmd_set_location_def cbind_Inl arg_def refuse_def Let_def fails_rules [THEN quiet] finish_fails [THEN quiet]
        quiet_stop done_Inr simp del: if_split split: if_split_asm dest!: told_rows told_moved told_bcall after_move)
qed

section \<open>The link of a torrent\<close>

definition hex_val :: "char \<Rightarrow> nat" where
  "hex_val c = (if is_digit c then of_char c - 48 else of_char c - 55)"

text \<open>The reference decoder of percent escapes.\<close>

fun percent_decode :: "string \<Rightarrow> string" where
  "percent_decode [] = []"
| "percent_decode (c # s) =
     (case s of
        a # b # rest \<Rightarrow> if c = CHR ''%'' then char_of (16 * hex_val a + hex_val b) # percent_decode rest else c # percent_decode s
      | _ \<Rightarrow> c # percent_decode s)"

definition quoted :: "char \<Rightarrow> string" where
  "quoted c = (if unreserved c then [c] else [CHR ''%'', hex_digit (of_char c div 16), hex_digit (of_char c mod 16)])"

lemma percent_encode_quoted: "percent_encode s = concat (map quoted s)"
  by (simp add: percent_encode_def quoted_def [abs_def])

lemma hex_digits_val: "list_all (\<lambda>n. hex_val (hex_digit n) = n \<and> unreserved (hex_digit n)) [0..<16]"
  by code_simp

lemma hex_digit_val: "n < 16 \<Longrightarrow> hex_val (hex_digit n) = n \<and> unreserved (hex_digit n)"
  using hex_digits_val by (simp add: list_all_iff del: upt_rec_numeral)

lemma percent_decode_quoted: "percent_decode (quoted c @ s) = c # percent_decode s"
proof (cases "unreserved c")
  case True
  then have "c \<noteq> CHR ''%''" by (auto simp: unreserved_def is_digit_def less_eq_char_def)
  then show ?thesis using True by (auto simp: quoted_def split: list.split)
next
  case False
  have "of_char c < (256 :: nat)" by (rule nat_of_char_less_256)
  then have "(of_char c :: nat) div 16 < 16" by (simp add: less_mult_imp_div_less)
  then show ?thesis
    using False hex_digit_val by (simp add: quoted_def)
qed

lemma percent_roundtrip: "percent_decode (percent_encode s) = s"
  by (induction s) (simp_all add: percent_encode_quoted percent_decode_quoted)

lemma encoded_chars: "c \<in> set (percent_encode s) \<Longrightarrow> unreserved c \<or> c = CHR ''%''"
proof (induction s)
  case (Cons a s)
  have "of_char a < (256 :: nat)" by (rule nat_of_char_less_256)
  then have "(of_char a :: nat) div 16 < 16" by (simp add: less_mult_imp_div_less)
  then show ?case
    using Cons hex_digit_val by (auto simp: percent_encode_quoted quoted_def split: if_splits)
qed (simp add: percent_encode_quoted)

lemma encoded_plain:
  "c \<in> set (percent_encode s) \<Longrightarrow> \<not> is_ws c \<and> c \<noteq> CHR ''&'' \<and> c \<noteq> CHR ''#'' \<and> c \<noteq> CHR ''+''"
  by (drule encoded_chars) (auto simp: unreserved_def is_digit_def is_ws_def less_eq_char_def)

lemma encoded_magnet_value: "trim (until_any ''&#'' (percent_encode s)) = percent_encode s"
proof -
  have "until_any ''&#'' (percent_encode s) = percent_encode s"
    unfolding until_any_def by (rule takeWhile_eq_all_conv [THEN iffD2]) (use encoded_plain in auto)
  then show ?thesis using encoded_plain [of _ s] by (simp add: trim_no_ws)
qed

lemma hex_no_mark: "is_hex_digit c \<Longrightarrow> \<not> is_ws c \<and> c \<noteq> CHR ''n'' \<and> c \<noteq> CHR ''&'' \<and> c \<noteq> CHR ''#'' \<and> c \<noteq> CHR ''=''"
  by (auto simp: is_hex_digit_def is_digit_def is_ws_def less_eq_char_def)

lemma after_first_hex: "list_all is_hex_digit h \<Longrightarrow> after_first ''dn='' (h @ ''&dn='' @ n) = Some n"
proof (induction h)
  case (Cons c h)
  have no: "\<not> prefix ''dn='' ((c # h) @ ''&dn='' @ n)"
    using Cons.prems hex_no_mark by (cases h) auto
  have "after_first ''dn='' ((c # h) @ ''&dn='' @ n) = after_first ''dn='' (h @ ''&dn='' @ n)"
    unfolding append_Cons after_first.simps by (rule if_not_P [OF no [unfolded append_Cons]])
  also have "\<dots> = Some n" using Cons by simp
  finally show ?case .
qed simp

lemma after_first_no: "list_all is_hex_digit h \<Longrightarrow> after_first ''dn='' h = None"
proof (induction h)
  case (Cons c h)
  have "\<not> prefix ''dn='' (c # h)"
    using Cons.prems hex_no_mark by (cases h) auto
  then show ?case using Cons by simp
qed simp

text \<open>The requests that ask the server to read or write files of its own machine.\<close>

definition asks_for_files :: "string \<Rightarrow> json \<Rightarrow> bool" where
  "asks_for_files name args \<longleftrightarrow>
     name = ''create_torrent'' \<or> (name = ''remove'' \<and> flag ''deleteData'' False (Some args)) \<or>
     (name = ''set_location'' \<and> flag ''moveData'' False (Some args))"

lemma command_entries:
  "run_command env ''create_torrent'' args = cmd_create_torrent env args"
  "run_command env ''remove'' args = silent (cmd_remove env args)"
  "run_command env ''set_location'' args = silent (cmd_set_location env args)"
  "run_command env ''copy_magnet'' args = cmd_copy_magnet args"
  by (simp_all add: run_command_def command_table_def)

lemma or_bad_cases: "(\<exists>x. or_bad o' m = Inr x) \<or> (\<exists>e. or_bad o' m = Inl e \<and> ae_status e = 400)"
  by (simp add: or_bad_def bad_def split: option.split)

lemma off_box_refused:
  assumes remote: "\<not> is_colocated (ce_transport env)" and files: "asks_for_files name args"
  shows "\<exists>e. run_command env name args w = (Inl e, w) \<and> ae_status e \<in> {400, 403}"
proof -
  consider "name = ''create_torrent''" | "name = ''remove''" "flag ''deleteData'' False (Some args)"
    | "name = ''set_location''" "flag ''moveData'' False (Some args)"
    using files by (auto simp: asks_for_files_def)
  then show ?thesis
  proof cases
    case 1
    then show ?thesis using remote by (simp add: command_entries cmd_create_torrent_def refuse_def forbidden_def)
  next
    case 2
    have "(\<exists>x. arg_hashes args = Inr x) \<or> (\<exists>e. arg_hashes args = Inl e \<and> ae_status e = 400)"
      unfolding arg_hashes_def by (rule or_bad_cases)
    then show ?thesis
      using 2 remote
      by (auto simp: command_entries silent_def cmd_remove_def cbind_def arg_def refuse_def forbidden_def)
  next
    case 3
    have "(\<exists>x. arg_str k args = Inr x) \<or> (\<exists>e. arg_str k args = Inl e \<and> ae_status e = 400)" for k
      unfolding arg_str_def by (rule or_bad_cases)
    from this [of "''hash''"] this [of "''path''"] show ?thesis
      using 3 remote
      by (auto simp: command_entries silent_def cmd_set_location_def cbind_def arg_def arg_hash_def refuse_def forbidden_def)
  qed
qed


text \<open>Property C5. An error that is not the daemon's own (502) means the daemon was told nothing that changes it: bad
  arguments, a command nobody knows, a forbidden or failed local step come before the first such call. The one exception
  undoes itself: a relocation whose copy fails has stopped the torrent, and ends by starting it again.\<close>

theorem refused_before_daemon:
  assumes post: "post_cmd env name args w = (Inl e, w')" and own: "ae_status e \<noteq> 502"
  shows "changes w' = changes w \<or>
    name = ''set_location'' \<and> (\<exists>h. changes w' = changes w @ [BcStop [h], BcStart [h]])"
proof (cases "cs_phase (sv_conn (cw_server w)) = Connected")
  case False
  then show ?thesis using post by (simp add: post_cmd_def)
next
  case True
  then have run: "run_command env name args w = (Inl e, w')"
    using post by (auto simp: post_cmd_def split: prod.splits sum.splits)
  show ?thesis
  proof (cases "name = ''set_location''")
    case False
    then show ?thesis using early_command [OF False, of env args] run own by (auto simp: early_def told_nothing_def)
  next
    case move: True
    then have "cmd_set_location env args w = (Inl e, w')"
      using run by (simp add: command_entries silent_def cbind_Inl done_with_def)
    from failed_move_restarts [OF this own] show ?thesis using move by auto
  qed
qed

text \<open>The link handed out for a torrent is read back: the magnet reader finds the torrent's hash in it, and
  its display name, percent-decoded, is the torrent's name, whatever bytes the name holds.\<close>

theorem magnet_link_read_back:
  assumes found: "cached_torrent (cw_server w) h = Some t" and hex: "length h = 40" "list_all is_hex_digit h"
    and args: "arg_hash args = Inr h"
  shows "\<exists>uri. run_command env ''copy_magnet'' args w = (Inr (JStr uri), w) \<and>
    magnet_hash uri = Some (to_upper h) \<and> percent_decode (magnet_name uri) = dto_name t"
proof -
  let ?n = "dto_name t"
  define tail where "tail = (if ?n \<noteq> [] then ''&dn='' @ percent_encode ?n else [])"
  define uri where "uri = ''magnet:?xt=urn:btih:'' @ h @ tail"
  have run: "run_command env ''copy_magnet'' args w = (Inr (JStr uri), w)"
    using found args by (simp add: command_entries cmd_copy_magnet_def cbind_def arg_def uri_def tail_def)
  have plain: "\<forall>c \<in> set h. \<not> is_ws c \<and> c \<notin> set ''&#''" using hex hex_no_mark by (auto simp: list_all_iff)
  have "until_any ''&#'' (h @ tail) = h"
    using plain by (auto simp: until_any_def tail_def takeWhile_append)
  then have hash: "magnet_hash uri = Some (to_upper h)"
    using plain hex by (simp add: magnet_hash_def uri_def trim_no_ws)
  have "after_first ''dn='' uri = after_first ''dn='' (h @ tail)" by (simp add: uri_def)
  also have "\<dots> = (if ?n = [] then None else Some (percent_encode ?n))"
    using after_first_hex [OF hex(2)] after_first_no [OF hex(2)] by (simp add: tail_def)
  finally have "magnet_name uri = percent_encode ?n"
    using encoded_magnet_value [of ?n] encoded_plain [of _ ?n]
    by (auto simp: magnet_name_def percent_encode_def intro!: map_idI)
  then show ?thesis using run hash percent_roundtrip by auto
qed

section \<open>Witnesses and what the model shows\<close>

definition sample_cmd_env :: "transport_kind \<Rightarrow> cmd_env" where
  "sample_cmd_env tk = \<lparr>ce_transport = tk, ce_incomplete_dir = [], ce_answer = (\<lambda>_. None),
     ce_rows = (\<lambda>_. Inr [raw_torrent_default\<lparr>raw_hash := ''AA'', raw_is_active := True, raw_base_path := ''/dl/Show''\<rparr>]),
     ce_base_path = (\<lambda>_. Inr ''/dl/Show''), ce_trash = (\<lambda>_. None), ce_write = (\<lambda>_. None),
     ce_local = (\<lambda>s. if s = ''/dl/Show'' then [''dl'', ''Show''] else [''home'']), ce_now = 5, ce_now_ms = 5000,
     ce_create_params = (\<lambda>_. Inl ''no''), ce_build = (\<lambda>_. Inl ''no''), ce_encode = (\<lambda>_. Inl ''no''),
     ce_created = (\<lambda>_ _. JNull), ce_manifest = (\<lambda>_. Inl ''no''),
     ce_import_args = (\<lambda>_. \<lparr>ia_manifest_text = None, ia_remap_from = None, ia_remap_to = None, ia_selected = None, ia_resume = None\<rparr>),
     ce_status_json = (\<lambda>_. JNull), ce_trackers = (\<lambda>_ _. Inr []), ce_read_file = (\<lambda>_. None), ce_base64 = (\<lambda>s. s),
     ce_version = ''1'', ce_manifest_text = (\<lambda>_. []), ce_decode = (\<lambda>_. Inl ''no''), ce_read_hash = (\<lambda>_. Inl ''no''),
     ce_preview_json = (\<lambda>_. JNull), ce_disk = \<lparr>se_list = (\<lambda>_. Inl ''no''), se_read = (\<lambda>_. Inl ''no''), se_is_file = (\<lambda>_. False), se_torrent = (\<lambda>_. Inl ''no''), se_base64 = (\<lambda>s. s)\<rparr>,
     ce_scan_json = (\<lambda>_. JNull), ce_opts_json = (\<lambda>_. None), ce_read_torrent = (\<lambda>_. Inl ''no'')\<rparr>"

definition sample_cmd_world :: "torrent_dto list \<Rightarrow> cmd_world" where
  "sample_cmd_world ts =
     \<lparr>cw_server = (ws_server warm_sys)\<lparr>sv_cache := Some \<lparr>ca_etag = ''1'', ca_snapshot = sample_snapshot 1 ts, ca_at = 0\<rparr>\<rparr>,
      cw_calls = [],
      cw_fs = sample_fs\<lparr>fs_root := Dir [(''dl'', Dir [(''Show'', File ''abc'')]), (''home'', Dir [(''Show'', File ''x'')])], fs_io := []\<rparr>,
      cw_trashed = [], cw_written = [], cw_import = import_status_default, cw_jobs = [],
      cw_cancel = False, cw_repolls = 0\<rparr>"

definition relocate_args :: json where
  "relocate_args = JObj [(''hash'', JStr ''aa''), (''path'', JStr ''/home''), (''moveData'', JBool True)]"


lemma relocate_fails:
  "fst (post_cmd (sample_cmd_env (UnixSocket ''/s'')) ''set_location'' relocate_args (sample_cmd_world []))
     = Inl (bad ''could not move files: destination already exists: /home/Show'') \<and>
   changes (snd (post_cmd (sample_cmd_env (UnixSocket ''/s'')) ''set_location'' relocate_args (sample_cmd_world [])))
     = [BcStop [''aa''], BcStart [''aa'']]"
  by code_simp

theorem refused_before_daemon_witness:
  "\<exists>e w'. post_cmd (sample_cmd_env (UnixSocket ''/s'')) ''set_location'' relocate_args (sample_cmd_world []) = (Inl e, w') \<and>
     (changes w' = changes (sample_cmd_world []) \<or>
      ''set_location'' = ''set_location'' \<and> (\<exists>h. changes w' = changes (sample_cmd_world []) @ [BcStop [h], BcStart [h]]))"
proof -
  let ?r = "post_cmd (sample_cmd_env (UnixSocket ''/s'')) ''set_location'' relocate_args (sample_cmd_world [])"
  have "?r = (fst ?r, snd ?r)" by simp
  then have r: "?r = (Inl (bad ''could not move files: destination already exists: /home/Show''), snd ?r)"
    using relocate_fails by simp
  have "ae_status (bad ''could not move files: destination already exists: /home/Show'') \<noteq> 502" by (simp add: bad_def)
  from refused_before_daemon [OF r this] r show ?thesis by blast
qed

theorem magnet_link_read_back_witness:
  "\<exists>uri w. run_command (sample_cmd_env (UnixSocket ''/s'')) ''copy_magnet'' (JObj [(''hash'', JStr (replicate 40 CHR ''a''))]) w = (Inr (JStr uri), w) \<and>
     magnet_hash uri = Some (replicate 40 CHR ''A'') \<and> percent_decode (magnet_name uri) = ''a&b''"
proof -
  let ?h = "replicate 40 CHR ''a''" let ?t = "(Delta.sample_row (replicate 40 CHR ''a'') True)\<lparr>dto_name := ''a&b''\<rparr>"
  let ?w = "sample_cmd_world [?t]"
  have "cached_torrent (cw_server ?w) ?h = Some ?t"
    by (simp add: cached_torrent_def sample_cmd_world_def sample_snapshot_def)
  moreover have "list_all is_hex_digit ?h" by (simp add: list_all_iff is_hex_digit_def is_digit_def less_eq_char_def)
  moreover have "arg_hash (JObj [(''hash'', JStr ?h)]) = Inr ?h" by (simp add: arg_hash_def arg_str_def or_bad_def)
  ultimately have "\<exists>uri. run_command (sample_cmd_env (UnixSocket ''/s'')) ''copy_magnet'' (JObj [(''hash'', JStr ?h)]) ?w = (Inr (JStr uri), ?w) \<and>
     magnet_hash uri = Some (to_upper ?h) \<and> percent_decode (magnet_name uri) = dto_name ?t"
    by (intro magnet_link_read_back) simp_all
  moreover have "to_upper ?h = replicate 40 CHR ''A''" by code_simp
  ultimately show ?thesis by auto
qed

text \<open>Where the daemon refuses the new directory after the files were moved, the torrent stays stopped: nothing starts it
  again, and its data is at the new place while the daemon still points to the old one.\<close>

definition refusing_env :: cmd_env where
  "refusing_env = (sample_cmd_env (UnixSocket ''/s''))
     \<lparr>ce_answer := (\<lambda>cs. case last cs of BcSetDirectory _ _ \<Rightarrow> Some (Fault 1 ''no'') | _ \<Rightarrow> None),
      ce_local := (\<lambda>s. if s = ''/dl/Show'' then [''dl'', ''Show''] else [])\<rparr>"

lemma relocation_left_stopped:
  "let out = post_cmd refusing_env ''set_location'' relocate_args (sample_cmd_world []) in
   changes (snd out) = [BcStop [''aa''], BcSetDirectory ''aa'' ''/home''] \<and>
   look (fs_root (cw_fs (snd out))) [''dl'', ''Show''] = None"
  by code_simp

text \<open>Adding a tag to a torrent the cache does not hold under that spelling drops the tags it has.\<close>

lemma add_tags_drops_others:
  "changes (snd (post_cmd (sample_cmd_env (UnixSocket ''/s'')) ''add_tags''
     (JObj [(''tags'', JArr [JStr ''new'']), (''hashes'', JArr [JStr ''aa''])])
     (sample_cmd_world [(Delta.sample_row ''AA'' True)\<lparr>dto_tags := [''old'']\<rparr>]))) = [BcSetTags [''aa''] [''new'']]"
  by code_simp

lemma negative_index_wraps:
  "changes (snd (cmd_file_priority (sample_cmd_env (UnixSocket ''/s''))
     (JObj [(''hash'', JStr ''AA''), (''fileIndex'', JInt (- 1)), (''priority'', JInt 0)]) (sample_cmd_world [])))
   = [BcFilePriority ''AA'' 18446744073709551615 0]"
  by (simp add: cmd_file_priority_def silent_def cbind_def arg_def arg_hash_def arg_str_def arg_int_def or_bad_def i64_ok_def
      bcall_def sample_cmd_env_def put_call_def done_with_def changes_def sample_cmd_world_def as_usize_def i64_max_def i64_min_def)

text \<open>The reader of display names leaves percent escapes as they are.\<close>

lemma magnet_name_escapes: "magnet_name ''magnet:?xt=urn:btih:AA&dn=a%20b'' = ''a%20b''"
  by (simp add: magnet_name_def until_any_def trim_def trim_start_def trim_end_def is_ws_def)

end
