(* ===== verification/Table.thy ===== *)
theory Table
  imports Types File_Index
begin

text \<open>
  The state of the desktop's torrent table (\<open>crates/gpui/src/table_state.rs\<close>): which rows are shown and in which order, the
  sidebar's counts, bulk edits of tags, and the selection with its mouse and keyboard moves. A selection is a hash set:
  it is kept as the list of its elements in the order an iteration yields them, which nothing may depend on; the claims
  are about its elements. Indexes are \<open>usize\<close> and deltas \<open>isize\<close>, both far from their bounds.
\<close>

datatype sort_column = ByName | BySize | ByPercent | ByStatus | ByDownRate | ByUpRate | ByEta | ByRatio | ByStarted | ByFinished

record sort_order =
  so_column :: sort_column
  so_ascending :: bool

definition initial_sort :: sort_order where
  "initial_sort = \<lparr>so_column = ByName, so_ascending = True\<rparr>"

definition sort_clicked :: "sort_column \<Rightarrow> sort_order \<Rightarrow> sort_order" where
  "sort_clicked c s =
     (if so_column s = c then \<lparr>so_column = c, so_ascending = \<not> so_ascending s\<rparr>
      else \<lparr>so_column = c, so_ascending = c \<in> {ByName, ByStatus}\<rparr>)"

datatype status_key = KDownloading | KSeeding | KCompleted | KPaused | KStalled | KChecking | KError

datatype table_filter = FAll | FStatus status_key | FErrorKind string | FLabel string | FTag string | FTracker string | FView string

fun status_key_text :: "status_key \<Rightarrow> string" where
  "status_key_text KDownloading = ''downloading''"
| "status_key_text KSeeding = ''seeding''"
| "status_key_text KCompleted = ''completed''"
| "status_key_text KPaused = ''paused''"
| "status_key_text KStalled = ''stalled''"
| "status_key_text KChecking = ''checking''"
| "status_key_text KError = ''error''"

fun matches_status :: "torrent_dto \<Rightarrow> status_key \<Rightarrow> bool" where
  "matches_status t KCompleted = (dto_percent t \<ge> 100)"
| "matches_status t KError = (dto_status t = StatusError)"
| "matches_status t KDownloading = (dto_status t = Downloading)"
| "matches_status t KSeeding = (dto_status t = Seeding)"
| "matches_status t KPaused = (dto_status t = Paused)"
| "matches_status t KStalled = (dto_status t = Stalled)"
| "matches_status t KChecking = (dto_status t = Checking)"

definition matches_search :: "torrent_dto \<Rightarrow> string \<Rightarrow> file_index option \<Rightarrow> bool" where
  "matches_search t search files =
     (search = [] \<or>
      (let q = to_lower search; has = (\<lambda>s. str_contains (to_lower s) q) in
       has (dto_name t) \<or> has (dto_hash t) \<or> has (dto_label t) \<or> list_ex has (dto_tags t) \<or> has (dto_tracker_host t) \<or>
       has (dto_save_path t) \<or> (case files of Some ix \<Rightarrow> index_contains ix (dto_hash t) q | None \<Rightarrow> False)))"

fun matches_filter :: "torrent_dto \<Rightarrow> table_filter \<Rightarrow> bool" where
  "matches_filter t FAll = True"
| "matches_filter t (FStatus k) = matches_status t k"
| "matches_filter t (FErrorKind k) = (dto_error_kind t = k)"
| "matches_filter t (FLabel l) = (dto_label t = l)"
| "matches_filter t (FTag g) = list_ex (\<lambda>c. eq_ic c g) (dto_tags t)"
| "matches_filter t (FTracker h) = (dto_tracker_host t = h)"
| "matches_filter t (FView v) = (v \<in> set (dto_views t))"

datatype sort_value = SInt int | SFloat f64 | SText string

fun status_rank :: "status \<Rightarrow> nat" where
  "status_rank Downloading = 0"
| "status_rank Seeding = 1"
| "status_rank Completed = 2"
| "status_rank Paused = 3"
| "status_rank Stalled = 4"
| "status_rank Checking = 5"
| "status_rank StatusError = 6"

fun sort_key :: "torrent_dto \<Rightarrow> sort_column \<Rightarrow> sort_value" where
  "sort_key t ByName = SText (to_lower (dto_name t))"
| "sort_key t ByEta = SInt (case dto_eta_seconds t of Some n \<Rightarrow> n | None \<Rightarrow> i64_max)"
| "sort_key t BySize = SInt (dto_size t)"
| "sort_key t ByPercent = SFloat (dto_percent t)"
| "sort_key t ByDownRate = SInt (dto_down_rate t)"
| "sort_key t ByUpRate = SInt (dto_up_rate t)"
| "sort_key t ByRatio = SFloat (dto_ratio t)"
| "sort_key t ByStarted = SInt (dto_started_at t)"
| "sort_key t ByFinished = SInt (dto_finished_at t)"
| "sort_key t ByStatus = SText (show_nat (status_rank (dto_status t)))"

text \<open>\<open>partial_cmp\<close>: values of different kinds are incomparable, which counts as equal.\<close>

fun value_less :: "sort_value \<Rightarrow> sort_value \<Rightarrow> bool" where
  "value_less (SInt a) (SInt b) = (a < b)"
| "value_less (SFloat a) (SFloat b) = (a < b)"
| "value_less (SText a) (SText b) = (a < b)"
| "value_less _ _ = False"

definition row_less :: "sort_order \<Rightarrow> torrent_dto \<Rightarrow> torrent_dto \<Rightarrow> bool" where
  "row_less s a b =
     (if so_ascending s then value_less (sort_key a (so_column s)) (sort_key b (so_column s))
      else value_less (sort_key b (so_column s)) (sort_key a (so_column s)))"

definition visible_with_files :: "torrent_dto list \<Rightarrow> table_filter \<Rightarrow> string \<Rightarrow> sort_order \<Rightarrow> file_index option \<Rightarrow> torrent_dto list" where
  "visible_with_files ts f search s files = sort_by (row_less s) (filter (\<lambda>t. matches_filter t f \<and> matches_search t search files) ts)"

definition visible_rows :: "torrent_dto list \<Rightarrow> table_filter \<Rightarrow> string \<Rightarrow> sort_order \<Rightarrow> torrent_dto list" where
  "visible_rows ts f search s = visible_with_files ts f search s None"

section \<open>Sidebar and summary\<close>

record sidebar_counts =
  sc_all :: nat
  sc_downloading :: nat
  sc_seeding :: nat
  sc_completed :: nat
  sc_paused :: nat
  sc_stalled :: nat
  sc_error :: nat
  sc_errors :: "(string \<times> nat) list"
  sc_labels :: "(string \<times> nat) list"
  sc_tags :: "(string \<times> nat) list"
  sc_trackers :: "(string \<times> nat) list"
  sc_views :: "(string \<times> nat) list"

text \<open>A counting map as an association list, bumped once per key met, then listed by key.\<close>

definition bump :: "string \<Rightarrow> (string \<times> nat) list \<Rightarrow> (string \<times> nat) list" where
  "bump k m = AList.map_default k 1 Suc m"

definition tally :: "string list \<Rightarrow> (string \<times> nat) list" where
  "tally ks = sort_by (lt_key fst) (fold bump ks [])"

definition non_empty :: "string \<Rightarrow> string list" where
  "non_empty s = (if s = [] then [] else [s])"

definition count_status :: "status \<Rightarrow> torrent_dto list \<Rightarrow> nat" where
  "count_status st ts = length (filter (\<lambda>t. dto_status t = st) ts)"

definition sidebar :: "torrent_dto list \<Rightarrow> sidebar_counts" where
  "sidebar ts =
     \<lparr>sc_all = length ts, sc_downloading = count_status Downloading ts, sc_seeding = count_status Seeding ts,
      sc_completed = length (filter (\<lambda>t. dto_percent t \<ge> 100) ts), sc_paused = count_status Paused ts,
      sc_stalled = count_status Stalled ts, sc_error = count_status StatusError ts,
      sc_errors = tally (concat (map (\<lambda>t. if dto_status t = StatusError then non_empty (dto_error_kind t) else []) ts)),
      sc_labels = tally (concat (map (non_empty \<circ> dto_label) ts)), sc_tags = tally (concat (map dto_tags ts)),
      sc_trackers = tally (concat (map (non_empty \<circ> dto_tracker_host) ts)), sc_views = tally (concat (map dto_views ts))\<rparr>"

text \<open>The tags a torrent ends up with, and the torrents grouped by that list.\<close>

definition edited_tags :: "string list \<Rightarrow> string list \<Rightarrow> torrent_dto \<Rightarrow> string list" where
  "edited_tags add remove t =
     foldl (\<lambda>next tag. if list_ex (\<lambda>e. eq_ic e tag) next then next else next @ [tag])
       (filter (\<lambda>g. to_lower g \<notin> to_lower ` set remove) (dto_tags t)) add"

fun add_to_group :: "string \<Rightarrow> string list \<Rightarrow> (string list \<times> string list) list \<Rightarrow> (string list \<times> string list) list" where
  "add_to_group h tags [] = [([h], tags)]"
| "add_to_group h tags ((hs, ts) # gs) = (if ts = tags then (hs @ [h], ts) # gs else (hs, ts) # add_to_group h tags gs)"

definition tag_edits :: "torrent_dto list \<Rightarrow> string list \<Rightarrow> string list \<Rightarrow> string list \<Rightarrow> (string list \<times> string list) list" where
  "tag_edits ts hashes add remove =
     foldl (\<lambda>gs h. case find (\<lambda>t. eq_ic (dto_hash t) h) ts of
                     None \<Rightarrow> gs
                   | Some t \<Rightarrow> add_to_group h (edited_tags add remove t) gs) [] hashes"

record selection =
  sl_hashes :: "string list"
  sl_anchor :: "string option"

record selection_summary =
  ss_count :: nat
  ss_size :: int
  ss_down_rate :: int
  ss_up_rate :: int
  ss_paused :: nat

definition summarize :: "torrent_dto list \<Rightarrow> string list \<Rightarrow> selection_summary" where
  "summarize ts hashes =
     (let rows = filter (\<lambda>t. dto_hash t \<in> set hashes) ts in
      \<lparr>ss_count = length rows, ss_size = sum_list (map dto_size rows), ss_down_rate = sum_list (map dto_down_rate rows),
       ss_up_rate = sum_list (map dto_up_rate rows), ss_paused = count_status Paused rows\<rparr>)"

section \<open>Selecting\<close>

record modifiers =
  md_shift :: bool
  md_toggle :: bool

definition empty_selection :: selection where
  "empty_selection = \<lparr>sl_hashes = [], sl_anchor = None\<rparr>"

definition only_row :: "string \<Rightarrow> selection" where
  "only_row h = \<lparr>sl_hashes = [h], sl_anchor = Some h\<rparr>"

fun position :: "string list \<Rightarrow> string \<Rightarrow> nat option" where
  "position [] h = None"
| "position (x # xs) h = (if x = h then Some 0 else map_option Suc (position xs h))"

text \<open>The rows between two indexes, both included.\<close>

definition between :: "string list \<Rightarrow> nat \<Rightarrow> nat \<Rightarrow> string list" where
  "between order a b = take (Suc (max a b) - min a b) (drop (min a b) order)"

definition click :: "selection \<Rightarrow> string list \<Rightarrow> string \<Rightarrow> modifiers \<Rightarrow> selection" where
  "click cur order h m =
     (if md_toggle m
      then \<lparr>sl_hashes = (if h \<in> set (sl_hashes cur) then filter (\<lambda>x. x \<noteq> h) (sl_hashes cur) else sl_hashes cur @ [h]), sl_anchor = Some h\<rparr>
      else if md_shift m
      then (case sl_anchor cur of
              None \<Rightarrow> only_row h
            | Some anchor \<Rightarrow>
                (case (position order anchor, position order h) of
                   (Some a, Some b) \<Rightarrow> \<lparr>sl_hashes = between order a b, sl_anchor = Some anchor\<rparr>
                 | _ \<Rightarrow> only_row h))
      else only_row h)"

record table_move =
  mv_selection :: selection
  mv_reveal :: "nat option"

definition focus_index :: "string list \<Rightarrow> selection \<Rightarrow> nat option" where
  "focus_index order sel =
     (case Option.bind (sl_anchor sel) (position order) of
        Some i \<Rightarrow> Some i
      | None \<Rightarrow> (let is = List.map_filter (position order) (sl_hashes sel) in if is = [] then None else Some (Max (set is))))"

definition clamp_index :: "string list \<Rightarrow> int \<Rightarrow> nat" where
  "clamp_index order i = nat (min (max i 0) (int (length order) - 1))"

definition move_to :: "string list \<Rightarrow> int \<Rightarrow> table_move" where
  "move_to order i =
     (if order = [] then \<lparr>mv_selection = empty_selection, mv_reveal = None\<rparr>
      else let k = clamp_index order i in \<lparr>mv_selection = only_row (order ! k), mv_reveal = Some k\<rparr>)"

definition step_rows :: "selection \<Rightarrow> string list \<Rightarrow> int \<Rightarrow> table_move" where
  "step_rows sel order d =
     (if order = [] then \<lparr>mv_selection = sel, mv_reveal = None\<rparr>
      else case focus_index order sel of
             Some i \<Rightarrow> move_to order (int i + d)
           | None \<Rightarrow> move_to order (if d > 0 then 0 else int (length order) - 1))"

text \<open>\<open>max_by_key\<close>: the last of the elements with the greatest key.\<close>

fun max_by_key :: "('a \<Rightarrow> nat) \<Rightarrow> 'a list \<Rightarrow> 'a option" where
  "max_by_key f [] = None"
| "max_by_key f (x # xs) = (case max_by_key f xs of None \<Rightarrow> Some x | Some y \<Rightarrow> if f y \<ge> f x then Some y else Some x)"

definition extend_by :: "selection \<Rightarrow> string list \<Rightarrow> int \<Rightarrow> table_move" where
  "extend_by sel order d =
     (if order = [] then \<lparr>mv_selection = sel, mv_reveal = None\<rparr>
      else case sl_anchor sel of
        None \<Rightarrow> step_rows sel order d
      | Some anchor \<Rightarrow>
          (case position order anchor of
             None \<Rightarrow> step_rows sel order d
           | Some a \<Rightarrow>
               (let far = (case max_by_key (\<lambda>i. max i a - min i a) (List.map_filter (position order) (sl_hashes sel)) of
                             Some i \<Rightarrow> i | None \<Rightarrow> a);
                    target = clamp_index order (int far + d)
                in \<lparr>mv_selection = \<lparr>sl_hashes = between order a target, sl_anchor = Some anchor\<rparr>, mv_reveal = Some target\<rparr>)))"

definition prune_selection :: "string set \<Rightarrow> selection \<Rightarrow> selection" where
  "prune_selection existing sel =
     \<lparr>sl_hashes = filter (\<lambda>h. h \<in> existing) (sl_hashes sel),
      sl_anchor = (case sl_anchor sel of Some a \<Rightarrow> if a \<in> existing then Some a else None | None \<Rightarrow> None)\<rparr>"


section \<open>The rows shown\<close>

text \<open>Two rows compared on one column have keys of one kind, so the order is a strict weak one.\<close>

lemma same_kind: "value_less (sort_key a c) (sort_key b c) \<Longrightarrow> \<not> value_less (sort_key b c) (sort_key a c)"
  by (cases c) auto

lemma weak_kind: "value_less (sort_key a c) (sort_key b c) \<Longrightarrow>
   value_less (sort_key a c) (sort_key x c) \<or> value_less (sort_key x c) (sort_key b c)"
  by (cases c) auto

interpretation rows: comparator "row_less s" for s
  by unfold_locales (auto simp: row_less_def split: if_splits dest: same_kind weak_kind)

definition same_rank :: "sort_order \<Rightarrow> torrent_dto \<Rightarrow> torrent_dto \<Rightarrow> bool" where
  "same_rank s a b \<longleftrightarrow> \<not> row_less s a b \<and> \<not> row_less s b a"

lemma insert_equals:
  assumes "\<And>y. y \<in> set ys \<Longrightarrow> same_rank s y x"
  shows "insert_by (row_less s) x ys = x # ys"
  using assms by (intro rows.insert_by_sorted) (auto simp: same_rank_def)

lemma sort_equals:
  assumes "\<And>a b. a \<in> set xs \<Longrightarrow> b \<in> set xs \<Longrightarrow> same_rank s a b"
  shows "sort_by (row_less s) xs = xs"
  using assms by (induction xs) (auto intro!: insert_equals)

lemma rank_trans: "same_rank s a x \<Longrightarrow> same_rank s x b \<Longrightarrow> same_rank s a b"
  unfolding same_rank_def using rows.lt_weak by blast

lemma rank_sym: "same_rank s a b = same_rank s b a"
  by (auto simp: same_rank_def)


section \<open>Bulk tag edits\<close>

text \<open>Groups are found by their tag list, which no two share.\<close>

definition group_tags :: "(string list \<times> string list) list \<Rightarrow> string \<Rightarrow> string list set" where
  "group_tags gs h = {tags. \<exists>hs. (hs, tags) \<in> set gs \<and> h \<in> set hs}"

lemma add_group_snd: "set (map snd (add_to_group h tags gs)) = insert tags (set (map snd gs))"
  by (induction h tags gs rule: add_to_group.induct) auto

lemma add_group_distinct: "distinct (map snd gs) \<Longrightarrow> distinct (map snd (add_to_group h tags gs))"
  using add_group_snd by (induction h tags gs rule: add_to_group.induct) auto

lemma add_group_hashes: "mset (concat (map fst (add_to_group h tags gs))) = add_mset h (mset (concat (map fst gs)))"
  by (induction h tags gs rule: add_to_group.induct) auto

lemma add_group_member:
  "(\<exists>hs. (hs, tags') \<in> set (add_to_group h tags gs) \<and> x \<in> set hs) \<longleftrightarrow>
   (\<exists>hs. (hs, tags') \<in> set gs \<and> x \<in> set hs) \<or> (x = h \<and> tags' = tags)"
  by (induction h tags gs rule: add_to_group.induct) auto

definition found :: "torrent_dto list \<Rightarrow> string \<Rightarrow> torrent_dto option" where
  "found ts h = find (\<lambda>t. eq_ic (dto_hash t) h) ts"

lemma tag_edits_fold:
  "distinct (map snd gs) \<Longrightarrow>
   let r = foldl (\<lambda>gs h. case found ts h of None \<Rightarrow> gs | Some t \<Rightarrow> add_to_group h (edited_tags add remove t) gs) gs hashes in
   distinct (map snd r) \<and>
   mset (concat (map fst r)) = mset (concat (map fst gs)) + mset (filter (\<lambda>h. found ts h \<noteq> None) hashes) \<and>
   (\<forall>x tags. (\<exists>hs. (hs, tags) \<in> set r \<and> x \<in> set hs) \<longleftrightarrow>
     (\<exists>hs. (hs, tags) \<in> set gs \<and> x \<in> set hs) \<or> (x \<in> set hashes \<and> (\<exists>t. found ts x = Some t \<and> tags = edited_tags add remove t)))"
proof (induction hashes arbitrary: gs)
  case (Cons h hashes)
  show ?case
  proof (cases "found ts h")
    case None
    then show ?thesis using Cons by (auto simp: Let_def)
  next
    case (Some t)
    have "distinct (map snd (add_to_group h (edited_tags add remove t) gs))" by (rule add_group_distinct [OF Cons.prems])
    from Cons.IH [OF this] Some show ?thesis
      unfolding Let_def by (auto simp: add_group_hashes add_group_member)
  qed
qed simp

text \<open>A bulk edit asks for each selected torrent that exists exactly once, with its own tags less the removed
  ones plus the added ones it lacks, and makes one call per distinct list.\<close>

theorem bulk_edit_is_each_edit:
  "distinct (map snd (tag_edits ts hashes add remove)) \<and>
   mset (concat (map fst (tag_edits ts hashes add remove))) = mset (filter (\<lambda>h. found ts h \<noteq> None) hashes) \<and>
   group_tags (tag_edits ts hashes add remove) h =
     (case found ts h of Some t \<Rightarrow> if h \<in> set hashes then {edited_tags add remove t} else {} | None \<Rightarrow> {})"
proof -
  have "tag_edits ts hashes add remove =
    foldl (\<lambda>gs h. case found ts h of None \<Rightarrow> gs | Some t \<Rightarrow> add_to_group h (edited_tags add remove t) gs) [] hashes"
    by (simp add: tag_edits_def found_def)
  with tag_edits_fold [where gs = "[]" and ts = ts and add = add and remove = remove and hashes = hashes]
  show ?thesis by (auto simp: Let_def group_tags_def split: option.split)
qed

section \<open>Selecting by mouse and keyboard\<close>

lemma position_nth: "distinct order \<Longrightarrow> i < length order \<Longrightarrow> position order (order ! i) = Some i"
  by (induction order arbitrary: i) (auto simp: nth_Cons' split: if_splits)

lemma position_Some: "position order h = Some i \<Longrightarrow> i < length order \<and> order ! i = h"
  by (induction order arbitrary: i) (auto split: if_splits)

lemma position_mem: "h \<in> set order \<Longrightarrow> \<exists>i. position order h = Some i"
  by (induction order) auto

lemma between_nth: "a < length order \<Longrightarrow> b < length order \<Longrightarrow> set (between order a b) = (!) order ` {min a b..max a b}"
proof -
  assume ab: "a < length order" "b < length order"
  then have "between order a b = map ((!) order) [min a b..<Suc (max a b)]"
    by - (rule nth_equalityI, auto simp: between_def simp del: upt_Suc)
  moreover have "set [min a b..<Suc (max a b)] = {min a b..max a b}" by auto
  ultimately show ?thesis by (simp only: set_map)
qed

text \<open>The selection is the run of rows from its anchor to its far end.\<close>

definition is_range :: "string list \<Rightarrow> selection \<Rightarrow> nat \<Rightarrow> nat \<Rightarrow> bool" where
  "is_range order sel a f \<longleftrightarrow> a < length order \<and> f < length order \<and> sl_anchor sel = Some (order ! a) \<and>
     set (sl_hashes sel) = (!) order ` {min a f..max a f}"

lemma range_between: "a < length order \<Longrightarrow> f < length order \<Longrightarrow>
   is_range order \<lparr>sl_hashes = between order a f, sl_anchor = Some (order ! a)\<rparr> a f"
  by (simp add: is_range_def between_nth)

lemma range_only: "i < length order \<Longrightarrow> is_range order (only_row (order ! i)) i i"
  by (simp add: is_range_def only_row_def)

lemma clamp_bound: "order \<noteq> [] \<Longrightarrow> clamp_index order i < length order"
  by (cases order) (auto simp: clamp_index_def nat_less_iff)

lemma max_by_key_max: "xs \<noteq> [] \<Longrightarrow> \<exists>y. max_by_key f xs = Some y \<and> y \<in> set xs \<and> (\<forall>x \<in> set xs. f x \<le> f y)"
proof (induction xs)
  case (Cons x xs)
  then show ?case by (cases "xs = []") (fastforce split: option.splits)+
qed simp

lemma selected_positions:
  assumes "distinct order" "is_range order sel a f"
  shows "set (List.map_filter (position order) (sl_hashes sel)) = {min a f..max a f}"
proof -
  have "set (List.map_filter (position order) (sl_hashes sel)) = {i. \<exists>h \<in> set (sl_hashes sel). position order h = Some i}"
    by (auto simp: List.map_filter_def image_iff) force
  also have "\<dots> = {i. \<exists>k \<in> {min a f..max a f}. position order (order ! k) = Some i}"
    using assms(2) by (auto simp: is_range_def)
  also have "\<dots> = {min a f..max a f}"
  proof (rule set_eqI)
    fix i
    have pos: "k \<in> {min a f..max a f} \<Longrightarrow> position order (order ! k) = Some k" for k
      using assms by (auto simp: is_range_def intro!: position_nth)
    show "i \<in> {i. \<exists>k \<in> {min a f..max a f}. position order (order ! k) = Some i} \<longleftrightarrow> i \<in> {min a f..max a f}"
      by (simp add: pos del: atLeastAtMost_iff cong: bex_cong)
  qed
  finally show ?thesis .
qed

text \<open>The element farthest from the anchor in a range is its other end.\<close>

lemma far_end:
  assumes "set is = {min a f..max a (f::nat)}"
  shows "max_by_key (\<lambda>i. max i a - min i a) is = Some f"
proof -
  have "is \<noteq> []" using assms by (metis atLeastAtMost_iff empty_iff empty_set max.cobounded1 min.cobounded1)
  from max_by_key_max [OF this] obtain y where y: "max_by_key (\<lambda>i. max i a - min i a) is = Some y" "y \<in> set is"
    "\<forall>x \<in> set is. max x a - min x a \<le> max y a - min y a" by blast
  have "f \<in> set is" using assms by auto
  with y(3) have "max f a - min f a \<le> max y a - min y a" by blast
  with y(2) assms have "y = f" by (auto simp: max_def min_def split: if_splits)
  with y(1) show ?thesis by simp
qed

lemma extend_range:
  assumes "distinct order" "is_range order sel a f"
  shows "is_range order (mv_selection (extend_by sel order d)) a (clamp_index order (int f + d)) \<and>
    mv_reveal (extend_by sel order d) = Some (clamp_index order (int f + d))"
proof -
  have a: "a < length order" "sl_anchor sel = Some (order ! a)" using assms by (auto simp: is_range_def)
  have far: "max_by_key (\<lambda>i. max i a - min i a) (List.map_filter (position order) (sl_hashes sel)) = Some f"
    by (rule far_end [OF selected_positions [OF assms]])
  have "order \<noteq> []" using a by auto
  then show ?thesis
    using a far position_nth [OF assms(1) a(1)] range_between [OF a(1) clamp_bound]
    by (simp add: extend_by_def Let_def)
qed

lemma focus_range: "distinct order \<Longrightarrow> is_range order sel a f \<Longrightarrow> focus_index order sel = Some a"
  by (simp add: focus_index_def is_range_def position_nth)

lemma move_range: "order \<noteq> [] \<Longrightarrow> is_range order (mv_selection (move_to order i)) (clamp_index order i) (clamp_index order i)"
  by (simp add: move_to_def Let_def range_only clamp_bound)

datatype table_op = Click string | ShiftClick string | StepRows int | ExtendRows int

fun table_step :: "string list \<Rightarrow> table_op \<Rightarrow> selection \<Rightarrow> selection" where
  "table_step order (Click h) sel = click sel order h \<lparr>md_shift = False, md_toggle = False\<rparr>"
| "table_step order (ShiftClick h) sel = click sel order h \<lparr>md_shift = True, md_toggle = False\<rparr>"
| "table_step order (StepRows d) sel = mv_selection (step_rows sel order d)"
| "table_step order (ExtendRows d) sel = mv_selection (extend_by sel order d)"

text \<open>The anchor and far end after an operation, on indexes alone.\<close>

fun range_step :: "string list \<Rightarrow> table_op \<Rightarrow> (nat \<times> nat) option \<Rightarrow> (nat \<times> nat) option" where
  "range_step order (Click h) r = map_option (\<lambda>i. (i, i)) (position order h)"
| "range_step order (ShiftClick h) r =
     (case r of None \<Rightarrow> map_option (\<lambda>i. (i, i)) (position order h) | Some (a, f) \<Rightarrow> map_option (Pair a) (position order h))"
| "range_step order (StepRows d) r =
     (case r of None \<Rightarrow> let i = (if d > 0 then 0 else length order - 1) in Some (i, i)
      | Some (a, f) \<Rightarrow> let i = clamp_index order (int a + d) in Some (i, i))"
| "range_step order (ExtendRows d) r =
     (case r of None \<Rightarrow> let i = (if d > 0 then 0 else length order - 1) in Some (i, i)
      | Some (a, f) \<Rightarrow> Some (a, clamp_index order (int f + d)))"

fun op_hash :: "table_op \<Rightarrow> string option" where
  "op_hash (Click h) = Some h"
| "op_hash (ShiftClick h) = Some h"
| "op_hash _ = None"

definition reads_as :: "string list \<Rightarrow> selection \<Rightarrow> (nat \<times> nat) option \<Rightarrow> bool" where
  "reads_as order sel r \<longleftrightarrow> (case r of None \<Rightarrow> sel = empty_selection | Some (a, f) \<Rightarrow> is_range order sel a f)"

lemma step_reads:
  assumes d: "distinct order" "order \<noteq> []" and r: "reads_as order sel r" and h: "\<forall>h. op_hash op = Some h \<longrightarrow> h \<in> set order"
  shows "reads_as order (table_step order op sel) (range_step order op r)"
proof -
  have enter: "clamp_index order 0 = 0" "clamp_index order (int (length order) - 1) = length order - 1"
    using d(2) by (cases order; simp add: clamp_index_def)+
  have at: "\<exists>i. position order h = Some i \<and> i < length order \<and> order ! i = h" if "h \<in> set order" for h
    using position_mem [OF that] position_Some by blast
  show ?thesis
  proof (cases op)
    case (Click h)
    with at [of h] \<open>\<forall>h. op_hash op = Some h \<longrightarrow> h \<in> set order\<close> show ?thesis
      by (auto simp: click_def reads_as_def range_only)
  next
    case (ShiftClick h)
    with at [of h] \<open>\<forall>h. op_hash op = Some h \<longrightarrow> h \<in> set order\<close> r d show ?thesis
      by (cases r) (auto simp: click_def reads_as_def only_row_def empty_selection_def is_range_def position_nth between_nth)
  next
    case (StepRows k)
    show ?thesis
    proof (cases r)
      case None
      then have "step_rows sel order k = move_to order (if k > 0 then 0 else int (length order) - 1)"
        using r d by (simp add: step_rows_def reads_as_def empty_selection_def focus_index_def List.map_filter_simps)
      then show ?thesis
        using move_range [OF d(2), of "if k > 0 then 0 else int (length order) - 1"] StepRows None
        by (cases "k > 0") (simp_all add: reads_as_def enter Let_def)
    next
      case (Some p)
      obtain a f where "p = (a, f)" by force
      then show ?thesis
        using r d StepRows Some focus_range [OF d(1), of sel a f] move_range [OF d(2), of "int a + k"]
        by (simp add: reads_as_def step_rows_def Let_def)
    qed
  next
    case (ExtendRows k)
    show ?thesis
    proof (cases r)
      case None
      then have "extend_by sel order k = move_to order (if k > 0 then 0 else int (length order) - 1)"
        using r d by (simp add: extend_by_def step_rows_def reads_as_def empty_selection_def focus_index_def List.map_filter_simps)
      then show ?thesis
        using move_range [OF d(2), of "if k > 0 then 0 else int (length order) - 1"] ExtendRows None
        by (cases "k > 0") (simp_all add: reads_as_def enter Let_def)
    next
      case (Some p)
      obtain a f where "p = (a, f)" by force
      then show ?thesis
        using r ExtendRows Some extend_range [OF d(1), of sel a f k] by (simp add: reads_as_def)
    qed
  qed
qed



text \<open>Once the selection is not a run, the far end depends on the iteration order of the hash set: with the anchor in the
  middle of two selected rows at the same distance, the same key press extends up or down.\<close>

lemma far_end_depends_on_order:
  "mv_reveal (extend_by \<lparr>sl_hashes = [''a'', ''c''], sl_anchor = Some ''b''\<rparr> [''a'', ''b'', ''c''] 0) = Some 2"
  "mv_reveal (extend_by \<lparr>sl_hashes = [''c'', ''a''], sl_anchor = Some ''b''\<rparr> [''a'', ''b'', ''c''] 0) = Some 0"
  by code_simp+

end
