(* ===== verification/Policy.thy ===== *)
theory Policy
  imports Queue Bandwidth Schedule Server_Moves Transport Rss_Runner
begin

text \<open>
  The desktop's automation after a poll (\<open>crates/gpui/src/policy.rs\<close>, \<open>network_prefs.rs\<close>): one tick replays what a restarted
  daemon forgot, fires completion hooks, enforces seed goals, runs the queue, the bandwidth rules and the weekly schedule,
  and plans moves. The daemon is a function of all the calls so far, so it may fail any of them; a tick's effects are the
  list of its calls, log lines and hooks, and the state it leaves. Detached move tasks work on the shared store while a
  tick awaits the daemon: what they did is a parameter of the tick. A hash map is read in an order that is a parameter too.
  Dashes and the greater-or-equal sign of the messages are written in ASCII.
\<close>

section \<open>Network preferences\<close>

datatype encryption_mode = EncDisabled | EncAllow | EncPrefer | EncRequire

record network_settings =
  ns_encryption :: encryption_mode
  ns_pex_enabled :: bool
  ns_proxy_address :: string
  ns_proxy_tracker_http :: bool
  ns_bind_address :: string
  ns_local_address :: string
  ns_max_peers :: int
  ns_max_uploads_global :: int
  ns_max_downloads_global :: int

fun encryption_flags :: "encryption_mode \<Rightarrow> string" where
  "encryption_flags EncDisabled = ''none''"
| "encryption_flags EncAllow = ''allow_incoming,try_outgoing''"
| "encryption_flags EncPrefer = ''allow_incoming,try_outgoing,enable_retry''"
| "encryption_flags EncRequire = ''allow_incoming,require,require_RC4,enable_retry''"

definition string_directives :: "network_settings \<Rightarrow> (string \<times> string) list" where
  "string_directives s =
     (let proxy = (if ns_proxy_tracker_http s then trim (ns_proxy_address s) else []);
          bind = trim (ns_bind_address s); local = trim (ns_local_address s)
      in [(''protocol.encryption.set'', encryption_flags (ns_encryption s)), (''network.http.proxy_address.set'', proxy)] @
         (if bind = [] then [] else [(''network.bind_address.set'', bind)]) @
         (if local = [] then [] else [(''network.local_address.set'', local)]))"

definition int_directives :: "network_settings \<Rightarrow> (string \<times> int) list" where
  "int_directives s =
     [(''protocol.pex.set'', of_bool (ns_pex_enabled s))] @
     (if ns_max_peers s > 0 then [(''throttle.max_peers.normal.set'', ns_max_peers s), (''throttle.max_peers.seed.set'', ns_max_peers s)] else []) @
     (if ns_max_uploads_global s > 0 then [(''throttle.max_uploads.global.set'', ns_max_uploads_global s)] else []) @
     (if ns_max_downloads_global s > 0 then [(''throttle.max_downloads.global.set'', ns_max_downloads_global s)] else [])"

section \<open>Settings and memory\<close>

record seed_goal =
  sg_stop_ratio :: f64
  sg_seed_hours :: f64

record label_seed_goal =
  lg_label :: string
  lg_stop_ratio :: f64
  lg_seed_hours :: f64

datatype seed_goal_action = GoalStop | GoalRemove | GoalRemoveData

record named_throttle =
  nt_name :: string
  nt_down_kb :: int
  nt_up_kb :: int

record turtle_schedule =
  ts_enabled :: bool
  ts_start_min :: int
  ts_end_min :: int
  ts_days :: "u8 list"

record policy_settings =
  po_transport :: transport_kind
  po_down_limit_kb :: int
  po_up_limit_kb :: int
  po_excluded_labels :: "string list"
  po_throttles :: "named_throttle list"
  po_global_goal :: seed_goal
  po_label_goals :: "label_seed_goal list"
  po_goal_action :: seed_goal_action
  po_network :: network_settings
  po_max_active_downloads :: int
  po_max_active_uploads :: int
  po_max_active_torrents :: int
  po_queue_slow_limit_kbs :: int
  po_label_defaults :: "label_default list"
  po_incomplete_dir :: string
  po_move_rules :: "move_rule list"
  po_bandwidth_rules :: "bandwidth_rule list"
  po_collision_policy :: collision_policy
  po_run_on_complete :: string
  po_turtle_down_kb :: int
  po_turtle_up_kb :: int
  po_turtle_enabled :: bool
  po_turtle_schedule :: turtle_schedule
  po_schedule :: schedule

record goal_stop =
  gs_ratio_permille :: int
  gs_finished_at :: int

record goal_decision =
  gd_hash :: string
  gd_message :: string
  gd_record :: goal_stop

record policy_state =
  ps_goal_stops :: "string \<rightharpoonup> goal_stop"
  ps_seen_complete :: "string \<rightharpoonup> bool"
  ps_applied_limits :: "(int \<times> int) option"
  ps_queue :: queue_memory
  ps_bw :: bandwidth_state
  ps_sched :: sched_memory
  ps_needs_replay :: bool

definition policy_default :: policy_state where
  "policy_default =
     \<lparr>ps_goal_stops = Map.empty, ps_seen_complete = Map.empty, ps_applied_limits = None,
      ps_queue = \<lparr>prev_active = Map.empty, user_exempt = {}, user_paused = {}\<rparr>,
      ps_bw = \<lparr>bs_defined = {}, bs_warned = {}\<rparr>, ps_sched = sched_memory_default, ps_needs_replay = False\<rparr>"

definition policy_reset :: "policy_state \<Rightarrow> policy_state" where
  "policy_reset st =
     st\<lparr>ps_goal_stops := Map.empty, ps_seen_complete := Map.empty, ps_queue := queue_memory_reset (ps_queue st),
        ps_bw := bandwidth_reset (ps_bw st), ps_sched := sched_memory_reset (ps_sched st)\<rparr>"

definition on_reconnect :: "policy_state \<Rightarrow> policy_state" where
  "on_reconnect st = (policy_reset st)\<lparr>ps_applied_limits := None, ps_needs_replay := True\<rparr>"

section \<open>Seed goals\<close>

fun first_seeding :: "string set \<Rightarrow> raw_torrent list \<Rightarrow> raw_torrent list" where
  "first_seeding seen [] = []"
| "first_seeding seen (t # ts) =
     (if raw_complete t \<and> raw_is_active t \<and> raw_hash t \<notin> seen then t # first_seeding (insert (raw_hash t) seen) ts
      else first_seeding seen ts)"

definition goal_for :: "seed_goal \<Rightarrow> label_seed_goal list \<Rightarrow> raw_torrent \<Rightarrow> seed_goal" where
  "goal_for global overrides t =
     (case find (\<lambda>g. lg_label g = raw_label t) overrides of
        Some g \<Rightarrow> \<lparr>sg_stop_ratio = lg_stop_ratio g, sg_seed_hours = lg_seed_hours g\<rparr>
      | None \<Rightarrow> global)"

definition still_remembered :: "(string \<rightharpoonup> goal_stop) \<Rightarrow> raw_torrent \<Rightarrow> bool" where
  "still_remembered stopped t =
     (case stopped (raw_hash t) of
        Some r \<Rightarrow> gs_finished_at r = raw_finished_at t \<and> raw_ratio_permille t \<le> gs_ratio_permille r
      | None \<Rightarrow> False)"

definition goal_decision_of ::
  "seed_goal \<Rightarrow> label_seed_goal list \<Rightarrow> (string \<rightharpoonup> goal_stop) \<Rightarrow> int \<Rightarrow> raw_torrent \<Rightarrow> goal_decision option" where
  "goal_decision_of global overrides stopped now t =
     (let goal = goal_for global overrides t in
      if sg_stop_ratio goal \<le> 0 \<and> sg_seed_hours goal \<le> 0 then None
      else if still_remembered stopped t then None
      else
        let ratio = f64_div (f64_of_int (raw_ratio_permille t)) 1000;
            ratio_met = (sg_stop_ratio goal > 0 \<and> ratio \<ge> sg_stop_ratio goal);
            seeded = (if raw_finished_at t > 0 \<and> now \<ge> raw_finished_at t then Some (now - raw_finished_at t) else None);
            time_met = (sg_seed_hours goal > 0 \<and>
              (case seeded of Some s \<Rightarrow> f64_of_int s \<ge> f64_mul (sg_seed_hours goal) 3600 | None \<Rightarrow> False));
            decide = (\<lambda>m. Some \<lparr>gd_hash = raw_hash t, gd_message = m,
              gd_record = \<lparr>gs_ratio_permille = raw_ratio_permille t, gs_finished_at = raw_finished_at t\<rparr>\<rparr>)
        in if ratio_met
           then decide (''seed goal reached: ratio '' @ show_tenths ratio @ '' >= '' @ show_tenths (sg_stop_ratio goal))
           else if time_met
           then decide (''seed goal reached: seeded '' @ show_tenths (f64_div (f64_of_int (case seeded of Some s \<Rightarrow> s | None \<Rightarrow> 0)) 3600)
                  @ '' h >= '' @ show_tenths (sg_seed_hours goal) @ '' h'')
           else None)"

definition seed_goal_decisions ::
  "raw_torrent list \<Rightarrow> seed_goal \<Rightarrow> label_seed_goal list \<Rightarrow> (string \<rightharpoonup> goal_stop) \<Rightarrow> int \<Rightarrow> goal_decision list" where
  "seed_goal_decisions raw global overrides stopped now =
     List.map_filter (goal_decision_of global overrides stopped now) (first_seeding {} raw)"

section \<open>Completion hooks\<close>

definition substitute :: "string \<Rightarrow> string \<Rightarrow> string \<Rightarrow> string \<Rightarrow> string" where
  "substitute token name path hash = replace_all ''%H'' hash (replace_all ''%F'' path (replace_all ''%N'' name token))"

definition build_hook :: "string \<Rightarrow> string \<Rightarrow> string \<Rightarrow> string \<Rightarrow> (string \<times> string list) option" where
  "build_hook template name path hash =
     (case words template of
        [] \<Rightarrow> None
      | p # args \<Rightarrow> Some (substitute p name path hash, map (\<lambda>t. substitute t name path hash) args))"

record completion =
  cp_hash :: string
  cp_name :: string
  cp_size_bytes :: int
  cp_base_path :: string

section \<open>The world of a tick\<close>

datatype policy_call =
    PcDefine string int int
  | PcStrings "(string \<times> string) list"
  | PcInts "(string \<times> int) list"
  | PcStop "string list"
  | PcErase "string list"
  | PcPause "string list"
  | PcStart "string list"
  | PcAssign "string list" "string option"
  | PcConnections string int int int
  | PcCustom string "(string \<times> string) list"
  | PcThrottles int int

datatype policy_line =
    Hooked string string
  | SeedStopped string string
  | SeedRemoved string string
  | SeedFailed string
  | QueueStopped nat
  | QueueStarted nat
  | SchedPausedLine nat
  | SchedResumedLine nat
  | BandwidthAdopted string string
  | BandwidthReleased string
  | BandwidthFailed string
  | Trashed string

record policy_env =
  pe_daemon :: "policy_call list \<Rightarrow> string option"
  pe_now :: int
  pe_weekday :: u8
  pe_minute :: int
  pe_now_ms :: int
  pe_move_clock :: "nat \<Rightarrow> int"
  pe_order :: "(string \<rightharpoonup> int \<times> int) \<Rightarrow> string list"
  pe_meanwhile :: "nat \<Rightarrow> move_world \<Rightarrow> move_world"

record policy_run =
  pr_state :: policy_state
  pr_moves :: move_world
  pr_calls :: "policy_call list"
  pr_lines :: "policy_line list"
  pr_hooks :: "(string \<times> string list) list"

definition ask :: "policy_env \<Rightarrow> policy_call \<Rightarrow> policy_run \<Rightarrow> string option \<times> policy_run" where
  "ask env c r = (pe_daemon env (pr_calls r @ [c]), r\<lparr>pr_calls := pr_calls r @ [c]\<rparr>)"

definition tell :: "policy_env \<Rightarrow> policy_call \<Rightarrow> policy_run \<Rightarrow> policy_run" where
  "tell env c r = snd (ask env c r)"

definition note_line :: "policy_line \<Rightarrow> policy_run \<Rightarrow> policy_run" where
  "note_line l r = r\<lparr>pr_lines := pr_lines r @ [l]\<rparr>"

definition on_policy :: "(policy_state \<Rightarrow> policy_state) \<Rightarrow> policy_run \<Rightarrow> policy_run" where
  "on_policy f r = r\<lparr>pr_state := f (pr_state r)\<rparr>"

definition on_moves :: "(move_world \<Rightarrow> move_world) \<Rightarrow> policy_run \<Rightarrow> policy_run" where
  "on_moves f r = r\<lparr>pr_moves := f (pr_moves r)\<rparr>"


section \<open>The stages\<close>

text \<open>Stage 0: definitions and preferences a restarted daemon has forgotten.\<close>

definition replay_throttle :: "policy_env \<Rightarrow> named_throttle \<Rightarrow> policy_run \<Rightarrow> policy_run" where
  "replay_throttle env d r =
     (case ask env (PcDefine (nt_name d) (nt_down_kb d) (nt_up_kb d)) r of
        (Some e, r1) \<Rightarrow> note_line (SeedFailed (''could not restore rate limit '' @ nt_name d @ '': '' @ e)) r1
      | (None, r1) \<Rightarrow> r1)"

definition replay_rule :: "policy_env \<Rightarrow> (string \<rightharpoonup> int \<times> int) \<Rightarrow> string \<Rightarrow> policy_run \<Rightarrow> policy_run" where
  "replay_rule env pool name r =
     (case pool name of
        None \<Rightarrow> r
      | Some (down, up) \<Rightarrow>
          on_policy (\<lambda>st. st\<lparr>ps_bw := snd (needs_define name (ps_bw st))\<rparr>)
            (case ask env (PcDefine name down up) r of
               (Some e, r1) \<Rightarrow> note_line (BandwidthFailed (''could not restore bandwidth rule '' @ name @ '': '' @ e)) r1
             | (None, r1) \<Rightarrow> r1))"

definition apply_network :: "policy_env \<Rightarrow> network_settings \<Rightarrow> policy_run \<Rightarrow> policy_run" where
  "apply_network env ns r = tell env (PcInts (int_directives ns)) (tell env (PcStrings (string_directives ns)) r)"

definition replay_stage :: "policy_env \<Rightarrow> policy_settings \<Rightarrow> policy_run \<Rightarrow> policy_run" where
  "replay_stage env s r =
     (if \<not> ps_needs_replay (pr_state r) then r
      else let r1 = fold (replay_throttle env) (po_throttles s) (on_policy (\<lambda>st. st\<lparr>ps_needs_replay := False\<rparr>) r);
               pool = rule_throttles (po_bandwidth_rules s);
               r2 = fold (replay_rule env pool) (pe_order env pool) r1
           in apply_network env (po_network s) r2)"

text \<open>Stage 1: completions, and the hook of each.\<close>

definition completions_of :: "string list \<Rightarrow> (string \<rightharpoonup> bool) \<Rightarrow> raw_torrent list \<Rightarrow> completion list" where
  "completions_of excluded seen raw =
     map (\<lambda>t. \<lparr>cp_hash = raw_hash t, cp_name = raw_name t, cp_size_bytes = raw_size_bytes t, cp_base_path = raw_base_path t\<rparr>)
       (filter (\<lambda>t. seen (raw_hash t) = Some False \<and> raw_complete t \<and> raw_label t \<notin> set excluded) raw)"

definition seen_after :: "raw_torrent list \<Rightarrow> (string \<rightharpoonup> bool)" where
  "seen_after raw = fold (\<lambda>t m. m(raw_hash t \<mapsto> raw_complete t)) raw Map.empty"

definition run_hook :: "string \<Rightarrow> completion \<Rightarrow> policy_run \<Rightarrow> policy_run" where
  "run_hook template c r =
     (case build_hook template (cp_name c) (cp_base_path c) (cp_hash c) of
        None \<Rightarrow> r
      | Some (program, args) \<Rightarrow> note_line (Hooked program (cp_hash c)) (r\<lparr>pr_hooks := pr_hooks r @ [(program, args)]\<rparr>))"

definition completion_stage :: "policy_settings \<Rightarrow> raw_torrent list \<Rightarrow> policy_run \<Rightarrow> completion list \<times> policy_run" where
  "completion_stage s raw r =
     (let completed = completions_of (po_excluded_labels s) (ps_seen_complete (pr_state r)) raw;
          r1 = on_policy (\<lambda>st. st\<lparr>ps_seen_complete := seen_after raw\<rparr>) r
      in (completed, if po_run_on_complete s = [] then r1 else fold (run_hook (po_run_on_complete s)) completed r1))"

text \<open>Stage 2: seed goals. The hashes acted on are returned.\<close>

definition is_localhost :: "transport_kind \<Rightarrow> bool" where
  "is_localhost tr =
     (case tr of
        UnixSocket path \<Rightarrow> True
      | Tcp host port \<Rightarrow> host \<in> {''127.0.0.1'', ''::1'', ''localhost''}
      | Http url user \<Rightarrow> host_is_local url)"

definition remember_stop :: "goal_decision \<Rightarrow> policy_run \<Rightarrow> policy_run" where
  "remember_stop d r =
     note_line (SeedStopped (gd_message d) (gd_hash d))
       (on_policy (\<lambda>st. st\<lparr>ps_goal_stops := (ps_goal_stops st)(gd_hash d \<mapsto> gd_record d)\<rparr>) r)"

definition goal_paths :: "policy_settings \<Rightarrow> raw_torrent list \<Rightarrow> string list \<Rightarrow> string list" where
  "goal_paths s raw hashes =
     (if po_goal_action s = GoalRemoveData \<and> is_localhost (po_transport s)
      then filter (\<lambda>p. p \<noteq> []) (map raw_base_path (List.map_filter (\<lambda>h. find (\<lambda>t. raw_hash t = h) raw) hashes))
      else [])"

definition enforce_goals :: "policy_env \<Rightarrow> policy_settings \<Rightarrow> raw_torrent list \<Rightarrow> goal_decision list \<Rightarrow> policy_run \<Rightarrow> policy_run" where
  "enforce_goals env s raw ds r =
     (let hashes = map gd_hash ds in
      if ds = [] then r
      else if po_goal_action s = GoalStop
      then (case ask env (PcStop hashes) r of
              (None, r1) \<Rightarrow> fold remember_stop ds r1
            | (Some e, r1) \<Rightarrow> note_line (SeedFailed (''could not stop torrent at seed goal: '' @ e)) r1)
      else (case ask env (PcErase hashes) r of
              (None, r1) \<Rightarrow>
                let verb = (if po_goal_action s = GoalRemoveData then ''removed with data'' else ''removed'');
                    r2 = fold (\<lambda>p. note_line (Trashed p)) (goal_paths s raw hashes) r1
                in fold (\<lambda>d. note_line (SeedRemoved (gd_message d @ '' - '' @ verb) (gd_hash d))) ds r2
            | (Some e, r1) \<Rightarrow> note_line (SeedFailed (''could not remove torrent at seed goal: '' @ e)) r1))"

definition goal_stage :: "policy_env \<Rightarrow> policy_settings \<Rightarrow> raw_torrent list \<Rightarrow> policy_run \<Rightarrow> string set \<times> policy_run" where
  "goal_stage env s raw r =
     (let ds = seed_goal_decisions raw (po_global_goal s) (po_label_goals s) (ps_goal_stops (pr_state r)) (pe_now env)
      in (set (map gd_hash ds), enforce_goals env s raw ds r))"

text \<open>Stage 3: the queue.\<close>

definition queue_config_of :: "policy_settings \<Rightarrow> queue_config" where
  "queue_config_of s =
     \<lparr>max_downloads = po_max_active_downloads s, max_uploads = po_max_active_uploads s,
      max_total = po_max_active_torrents s, slow_limit_kbs = po_queue_slow_limit_kbs s\<rparr>"

definition call_unless_empty :: "policy_env \<Rightarrow> policy_call \<Rightarrow> policy_line \<Rightarrow> string list \<Rightarrow> policy_run \<Rightarrow> policy_run" where
  "call_unless_empty env c line hs r =
     (if hs = [] then r else case ask env c r of (None, r1) \<Rightarrow> note_line line r1 | (Some _, r1) \<Rightarrow> r1)"

definition queue_stage ::
  "policy_env \<Rightarrow> policy_settings \<Rightarrow> raw_torrent list \<Rightarrow> string set \<Rightarrow> policy_run \<Rightarrow> string list \<times> policy_run" where
  "queue_stage env s raw acted r =
     (let skip = acted \<union> busy_hashes (w_store (pr_moves r));
          (q, mem) = decide_queues raw (queue_config_of s) (ps_queue (pr_state r)) skip;
          r1 = on_policy (\<lambda>st. st\<lparr>ps_queue := mem\<rparr>) r;
          r2 = call_unless_empty env (PcPause (qa_stop q)) (QueueStopped (length (qa_stop q))) (qa_stop q) r1
      in (qa_start q, call_unless_empty env (PcStart (qa_start q)) (QueueStarted (length (qa_start q))) (qa_start q) r2))"

text \<open>Stage 3b: bandwidth rules.\<close>

definition rule_key :: string where
  "rule_key = ''throttle_rule''"

definition on_bw :: "(bandwidth_state \<Rightarrow> bandwidth_state) \<Rightarrow> policy_run \<Rightarrow> policy_run" where
  "on_bw f = on_policy (\<lambda>st. st\<lparr>ps_bw := f (ps_bw st)\<rparr>)"

definition name_of :: "raw_torrent list \<Rightarrow> string \<Rightarrow> string" where
  "name_of raw h = (case find (\<lambda>t. raw_hash t = h) (rev raw) of Some t \<Rightarrow> raw_name t | None \<Rightarrow> h)"

definition adopt :: "policy_env \<Rightarrow> raw_torrent list \<Rightarrow> string \<Rightarrow> bandwidth_rule \<Rightarrow> policy_run \<Rightarrow> policy_run" where
  "adopt env raw h rule r =
     (let r0 = on_bw (clear_warned (br_id rule)) r in
      case ask env (PcAssign [h] (Some (throttle_name rule))) r0 of
        (Some _, r1) \<Rightarrow> r1
      | (None, r1) \<Rightarrow>
          note_line (BandwidthAdopted (''bandwidth rule '' @ br_id rule @ '' ('' @ describe rule @ '') now shaping '' @ name_of raw h) h)
            (tell env (PcCustom h [(rule_key, br_id rule)])
              (tell env (PcConnections h (br_peers_max rule) (br_peers_min rule) (br_uploads_max rule)) r1)))"

definition warn_define :: "bandwidth_rule \<Rightarrow> string \<Rightarrow> policy_run \<Rightarrow> policy_run" where
  "warn_define rule e r =
     (let (warn, bw) = should_warn (br_id rule) (ps_bw (pr_state r)); r1 = on_bw (\<lambda>_. bw) r in
      if warn
      then note_line (BandwidthFailed (''bandwidth rule '' @ br_id rule @ '' ('' @ describe rule @ ''): could not define throttle: '' @ e)) r1
      else r1)"

fun bandwidth_step :: "policy_env \<Rightarrow> raw_torrent list \<Rightarrow> bandwidth_action \<Rightarrow> policy_run \<Rightarrow> policy_run" where
  "bandwidth_step env raw (Adopt h rule) r =
     (let (fresh, bw) = needs_define (throttle_name rule) (ps_bw (pr_state r)); r1 = on_bw (\<lambda>_. bw) r in
      if \<not> fresh then adopt env raw h rule r1
      else case ask env (PcDefine (throttle_name rule) (br_down_kb rule) (br_up_kb rule)) r1 of
             (None, r2) \<Rightarrow> adopt env raw h rule r2
           | (Some e, r2) \<Rightarrow> warn_define rule e r2)"
| "bandwidth_step env raw (Release h) r =
     note_line (BandwidthReleased h)
       (tell env (PcCustom h [(rule_key, [])]) (tell env (PcConnections h 0 0 0) (tell env (PcAssign [h] None) r)))"

definition bandwidth_stage :: "policy_env \<Rightarrow> policy_settings \<Rightarrow> raw_torrent list \<Rightarrow> policy_run \<Rightarrow> policy_run" where
  "bandwidth_stage env s raw r = fold (bandwidth_step env raw) (plan_bandwidth raw (po_bandwidth_rules s)) r"

text \<open>Stage 4: the weekly schedule.\<close>

definition schedule_state :: "policy_env \<Rightarrow> policy_settings \<Rightarrow> sched_state" where
  "schedule_state env s =
     (let legacy = \<lparr>lw_enabled = ts_enabled (po_turtle_schedule s), lw_start = ts_start_min (po_turtle_schedule s),
                    lw_end = ts_end_min (po_turtle_schedule s), lw_days = ts_days (po_turtle_schedule s),
                    lw_down_kb = po_turtle_down_kb s, lw_up_kb = po_turtle_up_kb s\<rparr>;
          windows = (if sch_windows (po_schedule s) = [] then import_legacy legacy else sch_windows (po_schedule s));
          manual = (if po_turtle_enabled s then Some (po_turtle_down_kb s, po_turtle_up_kb s) else None)
      in evaluate windows (sch_override (po_schedule s)) manual (pe_weekday env) (pe_minute env) (pe_now_ms env))"

definition pause_active :: "policy_env \<Rightarrow> string list \<Rightarrow> policy_run \<Rightarrow> policy_run" where
  "pause_active env hs r =
     (if hs = [] then r
      else case ask env (PcPause hs) r of
             (None, r1) \<Rightarrow> note_line (SchedPausedLine (length hs))
               (on_policy (\<lambda>st. st\<lparr>ps_queue := fold (\<lambda>h. set_scheduler_held h True) hs (ps_queue st)\<rparr>) r1)
           | (Some _, r1) \<Rightarrow> on_policy (\<lambda>st. st\<lparr>ps_sched := sched_memory_reset (ps_sched st)\<rparr>) r1)"

text \<open>Releasing clears the hold of each hash; the order does not matter.\<close>

definition release_held :: "string set \<Rightarrow> policy_run \<Rightarrow> policy_run" where
  "release_held hs r =
     (if hs = {} then r
      else note_line (SchedResumedLine (card hs))
        (on_policy (\<lambda>st. st\<lparr>ps_queue := (ps_queue st)\<lparr>user_paused := user_paused (ps_queue st) - hs\<rparr>\<rparr>) r))"

definition push_limits :: "policy_env \<Rightarrow> policy_settings \<Rightarrow> sched_state \<Rightarrow> policy_run \<Rightarrow> policy_run" where
  "push_limits env s sched r =
     (if is_paused sched then r
      else let limits = (case sched of SchedLimited d u \<Rightarrow> (d, u) | _ \<Rightarrow> (po_down_limit_kb s, po_up_limit_kb s)) in
           if ps_applied_limits (pr_state r) = Some limits then r
           else case ask env (PcThrottles (fst limits) (snd limits)) r of
                  (None, r1) \<Rightarrow> on_policy (\<lambda>st. st\<lparr>ps_applied_limits := Some limits\<rparr>) r1
                | (Some _, r1) \<Rightarrow> r1)"

definition schedule_stage :: "policy_env \<Rightarrow> policy_settings \<Rightarrow> raw_torrent list \<Rightarrow> string list \<Rightarrow> policy_run \<Rightarrow> policy_run" where
  "schedule_stage env s raw started r =
     (let sched = schedule_state env s;
          (acts, mem) = pause_transition (is_paused sched) (map raw_hash (filter raw_is_active raw) @ started) (ps_sched (pr_state r));
          r1 = on_policy (\<lambda>st. st\<lparr>ps_sched := mem\<rparr>) r
      in push_limits env s sched (release_held (ta_release acts) (pause_active env (ta_pause acts) r1)))"

text \<open>Stage 5: moves of completed torrents, planned while the tasks of earlier ones work.\<close>

definition label_paths :: "policy_settings \<Rightarrow> (string \<times> string) list" where
  "label_paths s = map (\<lambda>d. (ld_label d, ld_save_path d)) (po_label_defaults s)"

definition move_stage ::
  "policy_env \<Rightarrow> policy_settings \<Rightarrow> raw_torrent list \<Rightarrow> string set \<Rightarrow> policy_run \<Rightarrow> (move_intent \<times> int) list \<times> policy_run" where
  "move_stage env s raw acted r =
     (if \<not> is_localhost (po_transport s) then ([], r)
      else
        let w1 = prune_tick (set (map raw_hash raw)) (pe_meanwhile env 0 (pr_moves r));
            w2 = pe_meanwhile env 1 (clear_homed (homed_hashes raw (po_move_rules s) (label_paths s)) w1)
        in if trim (po_incomplete_dir s) = [] \<and> po_move_rules s = [] then ([], r\<lparr>pr_moves := w2\<rparr>)
           else (let (spawned, w3) = register_all (pe_move_clock env) 0
                       (decide_moves raw (po_move_rules s) (label_paths s) acted (busy_hashes (w_store w2))) w2
                 in (spawned, r\<lparr>pr_moves := w3\<rparr>)))"

section \<open>One tick\<close>

record policy_log =
  pl_completions :: "completion list"
  pl_turtle_active :: bool
  pl_lines :: "policy_line list"
  pl_moves :: "move_status list"
  pl_calls :: "policy_call list"
  pl_hooks :: "(string \<times> string list) list"
  pl_spawned :: "(move_intent \<times> int) list"

type_synonym policy_memory = "policy_state \<times> move_world"

definition run_tick :: "policy_env \<Rightarrow> policy_settings \<Rightarrow> raw_torrent list \<Rightarrow> policy_memory \<Rightarrow> policy_log \<times> policy_memory" where
  "run_tick env s raw m =
     (let r0 = replay_stage env s \<lparr>pr_state = fst m, pr_moves = snd m, pr_calls = [], pr_lines = [], pr_hooks = []\<rparr>;
          (completed, r1) = completion_stage s raw r0;
          (acted, r2) = goal_stage env s raw r1;
          (started, r3) = queue_stage env s raw acted r2;
          r4 = bandwidth_stage env s raw r3;
          r5 = schedule_stage env s raw started r4;
          (spawned, r6) = move_stage env s raw acted r5
      in (\<lparr>pl_completions = completed, pl_turtle_active = turtle_active (schedule_state env s), pl_lines = pr_lines r6,
           pl_moves = store_snapshot (w_store (pr_moves r6)), pl_calls = pr_calls r6, pl_hooks = pr_hooks r6, pl_spawned = spawned\<rparr>,
          pr_state r6, pr_moves r6))"

text \<open>The detached task of one planned move; a path that cannot be resolved is recorded as a failed move.\<close>

definition record_failure :: "move_intent \<Rightarrow> string \<Rightarrow> int \<Rightarrow> move_world \<Rightarrow> move_world" where
  "record_failure i e now w =
     persist (on_store (unregister_hash (mi_hash i))
       (on_journal (\<lambda>j. snd (journal_add
          \<lparr>op_id = make_id (mi_hash i) now, op_hash = mi_hash i, op_name = mi_name i, op_src = mi_src_base i, op_dst = mi_dst_dir i,
           op_state = Failed, op_error = ''could not move '' @ mi_name i @ '': '' @ e, op_size = mi_size i,
           op_created = now, op_updated = now\<rparr> j)) w))"

definition spawn_move ::
  "(string \<Rightarrow> string + path) \<Rightarrow> int option \<Rightarrow> int option \<Rightarrow> collision_policy \<Rightarrow> move_intent \<times> int \<Rightarrow> move_world \<Rightarrow> move_world" where
  "spawn_move resolve daemon_free local_free policy p w =
     (let (i, now) = p in
      case resolve (mi_src_base i) of
        Inl e \<Rightarrow> record_failure i e now w
      | Inr src \<Rightarrow>
          (case resolve (mi_dst_dir i) of
             Inl e \<Rightarrow> record_failure i e now w
           | Inr dst \<Rightarrow>
               let task = \<lparr>mt_intent = i, mt_local_src = src, mt_local_dst_dir = dst,
                           mt_free = (case daemon_free of Some f \<Rightarrow> Some f | None \<Rightarrow> local_free), mt_policy = policy, mt_now = now\<rparr>;
                   (out, w1) = execute_move task w
               in if out = MoveBusy then on_store (unregister (make_id (mi_hash i) now)) w1 else w1))"

section \<open>What a stage may do\<close>

text \<open>A stage adds calls and log lines of certain kinds and leaves part of the memory, and the moves, alone.\<close>

definition does ::
  "(policy_call \<Rightarrow> bool) \<Rightarrow> (policy_line \<Rightarrow> bool) \<Rightarrow> (policy_state \<Rightarrow> 'a) \<Rightarrow> policy_run \<Rightarrow> policy_run \<Rightarrow> bool" where
  "does P L F r r' \<longleftrightarrow>
     (\<exists>cs ls. pr_calls r' = pr_calls r @ cs \<and> list_all P cs \<and> pr_lines r' = pr_lines r @ ls \<and> list_all L ls) \<and>
     F (pr_state r') = F (pr_state r) \<and> pr_moves r' = pr_moves r"

named_theorems does_rules

lemma does_refl [does_rules]: "does P L F r r"
  by (simp add: does_def)

lemma does_trans: "does P L F r r1 \<Longrightarrow> does P L F r1 r2 \<Longrightarrow> does P L F r r2"
  unfolding does_def by (elim conjE exE) (metis append.assoc list_all_append)

lemma does_call: "P c \<Longrightarrow> does P L F r (r\<lparr>pr_calls := pr_calls r @ [c]\<rparr>)"
  by (simp add: does_def)

lemma does_tell: "does P L F r r1 \<Longrightarrow> P c \<Longrightarrow> does P L F r (tell env c r1)"
  by (rule does_trans) (auto simp: tell_def ask_def does_call)

lemma does_line: "does P L F r r1 \<Longrightarrow> L l \<Longrightarrow> does P L F r (note_line l r1)"
  by (rule does_trans) (auto simp: does_def note_line_def)

lemma does_on: "does P L F r r1 \<Longrightarrow> (\<And>st. F (f st) = F st) \<Longrightarrow> does P L F r (on_policy f r1)"
  by (rule does_trans) (auto simp: does_def on_policy_def)

lemma does_hook: "does P L F r r1 \<Longrightarrow> does P L F r (r1\<lparr>pr_hooks := hs\<rparr>)"
  by (rule does_trans) (auto simp: does_def)

lemma does_ask:
  "P c \<Longrightarrow> (\<And>r1. does P L F r r1 \<Longrightarrow> does P L F r (f r1)) \<Longrightarrow> (\<And>e r1. does P L F r r1 \<Longrightarrow> does P L F r (g e r1)) \<Longrightarrow>
   does P L F r (case ask env c r of (None, r1) \<Rightarrow> f r1 | (Some e, r1) \<Rightarrow> g e r1)"
  by (simp add: ask_def does_call split: option.split)

lemma does_ask_from:
  "does P L F r0 r \<Longrightarrow> P c \<Longrightarrow> (\<And>r1. does P L F r0 r1 \<Longrightarrow> does P L F r0 (f r1)) \<Longrightarrow>
   (\<And>e r1. does P L F r0 r1 \<Longrightarrow> does P L F r0 (g e r1)) \<Longrightarrow>
   does P L F r0 (case ask env c r of (None, r1) \<Rightarrow> f r1 | (Some e, r1) \<Rightarrow> g e r1)"
  using does_trans [OF _ does_call] by (fastforce simp: ask_def split: option.split)

lemma does_fold:
  assumes "does P L F r0 r" "\<And>x r. x \<in> set xs \<Longrightarrow> does P L F r0 r \<Longrightarrow> does P L F r0 (f x r)"
  shows "does P L F r0 (fold f xs r)"
  using assms by (induction xs arbitrary: r) auto

lemmas does_steps = does_ask_from does_tell does_line does_on does_hook does_refl

lemma does_weaken: "does P L F r r' \<Longrightarrow> (\<And>c. P c \<Longrightarrow> P' c) \<Longrightarrow> (\<And>l. L l \<Longrightarrow> L' l) \<Longrightarrow> does P' L' F r r'"
  unfolding does_def by (metis list_all_iff)

lemma does_project: "does P L F r r' \<Longrightarrow> does P L (\<lambda>st. f (F st)) r r'"
  by (auto simp: does_def)

text \<open>Calls that do not start, stop or remove a torrent, and lines other than those of goals and pauses.\<close>

fun mild :: "policy_call \<Rightarrow> bool" where
  "mild (PcStart _) = False"
| "mild (PcStop _) = False"
| "mild (PcErase _) = False"
| "mild _ = True"

fun plain_line :: "policy_line \<Rightarrow> bool" where
  "plain_line (SeedStopped _ _) = False"
| "plain_line (SchedPausedLine _) = False"
| "plain_line _ = True"

definition decisions_memory :: "policy_state \<Rightarrow> (string \<rightharpoonup> goal_stop) \<times> queue_memory \<times> sched_memory" where
  "decisions_memory st = (ps_goal_stops st, ps_queue st, ps_sched st)"

lemma replay_throttle_does: "does mild plain_line decisions_memory r r1 \<Longrightarrow> does mild plain_line decisions_memory r (replay_throttle env d r1)"
  unfolding replay_throttle_def by (rule does_ask_from) (auto intro: does_line)

lemma replay_rule_does: "does mild plain_line decisions_memory r r1 \<Longrightarrow> does mild plain_line decisions_memory r (replay_rule env pool n r1)"
  unfolding replay_rule_def
  by (auto simp: decisions_memory_def split: option.split intro!: does_on does_ask_from does_line)

lemma replay_does: "does mild plain_line decisions_memory r (replay_stage env s r)"
  unfolding replay_stage_def apply_network_def Let_def
  by (auto simp: decisions_memory_def intro!: does_tell does_fold replay_throttle_does replay_rule_does does_on does_refl)

lemma completion_does: "does mild plain_line decisions_memory r (snd (completion_stage s raw r))"
proof -
  have "does mild plain_line decisions_memory r r1 \<Longrightarrow> does mild plain_line decisions_memory r (run_hook t c r1)" for t c r1
    unfolding run_hook_def by (auto split: option.split intro!: does_line does_hook)
  then show ?thesis
    unfolding completion_stage_def Let_def
    by (auto simp: decisions_memory_def intro!: does_fold does_on does_refl)
qed

lemma goal_does:
  "does (\<lambda>c. c = PcStop (map gd_hash ds) \<or> c = PcErase (map gd_hash ds)) (\<lambda>l. \<forall>n. l \<noteq> SchedPausedLine n)
     (\<lambda>st. (ps_queue st, ps_sched st)) r (enforce_goals env s raw ds r)"
  unfolding enforce_goals_def remember_stop_def Let_def
  by (auto intro!: does_ask_from does_fold does_line does_on does_refl)

lemma queue_does:
  fixes s raw r acted
  defines "q \<equiv> fst (decide_queues raw (queue_config_of s) (ps_queue (pr_state r)) (acted \<union> busy_hashes (w_store (pr_moves r))))"
  shows "does (\<lambda>c. c = PcStart (qa_start q) \<or> (\<exists>hs. c = PcPause hs)) plain_line (\<lambda>st. (ps_goal_stops st, ps_sched st)) r
    (snd (queue_stage env s raw acted r))" "fst (queue_stage env s raw acted r) = qa_start q"
    "ps_queue (pr_state (snd (queue_stage env s raw acted r))) =
      snd (decide_queues raw (queue_config_of s) (ps_queue (pr_state r)) (acted \<union> busy_hashes (w_store (pr_moves r))))"
  by (auto simp: q_def queue_stage_def call_unless_empty_def split_def Let_def ask_def note_line_def on_policy_def does_def split: option.split)

lemma adopt_does: "does mild plain_line decisions_memory r r1 \<Longrightarrow> does mild plain_line decisions_memory r (adopt env raw h rule r1)"
  unfolding adopt_def on_bw_def Let_def
  by (rule does_ask_from) (auto simp: decisions_memory_def intro!: does_line does_tell does_on)

lemma warn_does: "does mild plain_line decisions_memory r r1 \<Longrightarrow> does mild plain_line decisions_memory r (warn_define rule e r1)"
  unfolding warn_define_def on_bw_def Let_def split_def
  by (auto simp: decisions_memory_def intro!: does_line does_on)

lemma bandwidth_step_does:
  assumes "does mild plain_line decisions_memory r r1"
  shows "does mild plain_line decisions_memory r (bandwidth_step env raw a r1)"
proof (cases a)
  case (Adopt h rule)
  obtain fresh bw where n: "needs_define (throttle_name rule) (ps_bw (pr_state r1)) = (fresh, bw)" by force
  have on: "does mild plain_line decisions_memory r (on_bw (\<lambda>_. bw) r1)"
    using assms unfolding on_bw_def by (auto simp: decisions_memory_def intro!: does_on)
  then have "does mild plain_line decisions_memory r
      (case ask env (PcDefine (throttle_name rule) (br_down_kb rule) (br_up_kb rule)) (on_bw (\<lambda>_. bw) r1) of
         (None, r2) \<Rightarrow> adopt env raw h rule r2 | (Some e, r2) \<Rightarrow> warn_define rule e r2)"
    by (intro does_ask_from adopt_does warn_does) auto
  with on show ?thesis by (simp add: Adopt n adopt_does Let_def)
next
  case (Release h)
  with assms show ?thesis by (auto intro!: does_line does_tell)
qed

lemma bandwidth_does: "does mild plain_line decisions_memory r (bandwidth_stage env s raw r)"
  unfolding bandwidth_stage_def by (intro does_fold bandwidth_step_does does_refl)

lemma push_does: "does mild plain_line decisions_memory r (push_limits env s sched r)"
  unfolding push_limits_def Let_def
  by (auto simp: decisions_memory_def intro!: does_ask_from does_on does_refl)

lemma plain_no_stop: "plain_line l \<Longrightarrow> \<forall>m h. l \<noteq> SeedStopped m h"
  by (cases l) auto

lemma pause_does: "does mild (\<lambda>l. \<forall>m h. l \<noteq> SeedStopped m h) ps_goal_stops r (pause_active env hs r)"
  unfolding pause_active_def by (auto intro!: does_ask_from does_line does_on does_refl)

lemma release_does: "does mild (\<lambda>l. \<forall>m h. l \<noteq> SeedStopped m h) ps_goal_stops r (release_held hs r)"
  unfolding release_held_def by (auto intro!: does_line does_on does_refl)

lemma schedule_does: "does mild (\<lambda>l. \<forall>m h. l \<noteq> SeedStopped m h) ps_goal_stops r (schedule_stage env s raw started r)"
proof -
  have push: "does mild (\<lambda>l. \<forall>m h. l \<noteq> SeedStopped m h) ps_goal_stops r1 (push_limits env s sched r1)" for sched r1
    using does_weaken [OF does_project [OF push_does, of fst] _ plain_no_stop] by (simp add: decisions_memory_def)
  have "does mild (\<lambda>l. \<forall>m h. l \<noteq> SeedStopped m h) ps_goal_stops r (on_policy (\<lambda>st. st\<lparr>ps_sched := mem\<rparr>) r)" for mem
    by (intro does_on does_refl) simp
  from does_trans [OF this does_trans [OF pause_does does_trans [OF release_does push]]] show ?thesis
    by (simp add: schedule_stage_def split_def Let_def)
qed

lemma move_does: "\<exists>w. snd (move_stage env s raw acted r) = r\<lparr>pr_moves := w\<rparr>"
  by (auto simp: move_stage_def Let_def split_def intro: exI [of _ "pr_moves r"])

definition goals_now :: "policy_env \<Rightarrow> policy_settings \<Rightarrow> raw_torrent list \<Rightarrow> policy_memory \<Rightarrow> goal_decision list" where
  "goals_now env s raw m = seed_goal_decisions raw (po_global_goal s) (po_label_goals s) (ps_goal_stops (fst m)) (pe_now env)"

definition acted_now :: "policy_env \<Rightarrow> policy_settings \<Rightarrow> raw_torrent list \<Rightarrow> policy_memory \<Rightarrow> string set" where
  "acted_now env s raw m = set (map gd_hash (goals_now env s raw m))"

lemma tick_stages:
  obtains r1 r2 r3 r5 where
    "does mild plain_line decisions_memory \<lparr>pr_state = fst m, pr_moves = snd m, pr_calls = [], pr_lines = [], pr_hooks = []\<rparr> r1"
    "r2 = enforce_goals env s raw (goals_now env s raw m) r1"
    "r3 = snd (queue_stage env s raw (acted_now env s raw m) r2)"
    "r5 = schedule_stage env s raw (fst (queue_stage env s raw (acted_now env s raw m) r2)) (bandwidth_stage env s raw r3)"
    "pl_calls (fst (run_tick env s raw m)) = pr_calls r5" "pl_lines (fst (run_tick env s raw m)) = pr_lines r5"
    "fst (snd (run_tick env s raw m)) = pr_state r5"
    "pl_spawned (fst (run_tick env s raw m)) = fst (move_stage env s raw (acted_now env s raw m) r5)"
    "snd (snd (run_tick env s raw m)) = pr_moves (snd (move_stage env s raw (acted_now env s raw m) r5))"
proof -
  let ?r0 = "\<lparr>pr_state = fst m, pr_moves = snd m, pr_calls = [], pr_lines = [], pr_hooks = []\<rparr>"
  let ?r1 = "snd (completion_stage s raw (replay_stage env s ?r0))"
  have r1: "does mild plain_line decisions_memory ?r0 ?r1" by (rule does_trans [OF replay_does completion_does])
  then have g: "seed_goal_decisions raw (po_global_goal s) (po_label_goals s) (ps_goal_stops (pr_state ?r1)) (pe_now env) = goals_now env s raw m"
    by (simp add: does_def decisions_memory_def goals_now_def)
  let ?a = "acted_now env s raw m" and ?r2 = "enforce_goals env s raw (goals_now env s raw m) ?r1"
  let ?r3 = "snd (queue_stage env s raw ?a ?r2)"
  let ?r5 = "schedule_stage env s raw (fst (queue_stage env s raw ?a ?r2)) (bandwidth_stage env s raw ?r3)"
  obtain w where w: "snd (move_stage env s raw ?a ?r5) = ?r5\<lparr>pr_moves := w\<rparr>" using move_does by blast
  have "goal_stage env s raw ?r1 = (?a, ?r2)" by (simp add: goal_stage_def g Let_def acted_now_def)
  then have "run_tick env s raw m =
      (\<lparr>pl_completions = fst (completion_stage s raw (replay_stage env s ?r0)), pl_turtle_active = turtle_active (schedule_state env s),
        pl_lines = pr_lines ?r5, pl_moves = store_snapshot (w_store w), pl_calls = pr_calls ?r5,
        pl_hooks = pr_hooks ?r5, pl_spawned = fst (move_stage env s raw ?a ?r5)\<rparr>, pr_state ?r5, w)"
    by (simp add: run_tick_def Let_def split_def w)
  with w show thesis by (intro that [OF r1 refl refl refl]) simp_all
qed

section \<open>One tick does not work against itself\<close>

lemma first_seeding_mem: "t \<in> set (first_seeding seen raw) \<Longrightarrow> t \<in> set raw \<and> raw_complete t \<and> raw_is_active t"
  by (induction raw arbitrary: seen) (auto split: if_splits)

lemma goal_decision_shape:
  assumes "goal_decision_of g ls stopped now t = Some d"
  shows "gd_hash d = raw_hash t \<and> gd_record d = \<lparr>gs_ratio_permille = raw_ratio_permille t, gs_finished_at = raw_finished_at t\<rparr> \<and>
    \<not> still_remembered stopped t"
  using assms by (auto simp: goal_decision_of_def Let_def split: if_splits)

lemma goals_mem:
  assumes "d \<in> set (goals_now env s raw m)"
  shows "\<exists>t \<in> set raw. raw_hash t = gd_hash d \<and> raw_complete t \<and> raw_is_active t \<and> \<not> still_remembered (ps_goal_stops (fst m)) t \<and>
    gd_record d = \<lparr>gs_ratio_permille = raw_ratio_permille t, gs_finished_at = raw_finished_at t\<rparr>"
  using assms first_seeding_mem goal_decision_shape
  by (fastforce simp: goals_now_def seed_goal_decisions_def set_map_filter)

lemma does_calls: "does P L F r r' \<Longrightarrow> c \<in> set (pr_calls r') \<Longrightarrow> c \<in> set (pr_calls r) \<or> P c"
  by (auto simp: does_def list_all_iff)

lemma does_lines: "does P L F r r' \<Longrightarrow> l \<in> set (pr_lines r') \<Longrightarrow> l \<in> set (pr_lines r) \<or> L l"
  by (auto simp: does_def list_all_iff)

lemma tick_calls:
  fixes env s raw m
  defines "q \<equiv> fst (decide_queues raw (queue_config_of s) (ps_queue (fst m)) (acted_now env s raw m \<union> busy_hashes (w_store (snd m))))"
  assumes "c \<in> set (pl_calls (fst (run_tick env s raw m)))"
  shows "mild c \<or> c = PcStop (map gd_hash (goals_now env s raw m)) \<or> c = PcErase (map gd_hash (goals_now env s raw m)) \<or>
    c = PcStart (qa_start q)"
proof -
  obtain r1 r2 r3 r5 where st:
    "does mild plain_line decisions_memory \<lparr>pr_state = fst m, pr_moves = snd m, pr_calls = [], pr_lines = [], pr_hooks = []\<rparr> r1"
    "r2 = enforce_goals env s raw (goals_now env s raw m) r1"
    "r3 = snd (queue_stage env s raw (acted_now env s raw m) r2)"
    "r5 = schedule_stage env s raw (fst (queue_stage env s raw (acted_now env s raw m) r2)) (bandwidth_stage env s raw r3)"
    "pl_calls (fst (run_tick env s raw m)) = pr_calls r5"
    by (rule tick_stages [of m env s raw])
  note g = goal_does [where env = env and s = s and raw = raw and ds = "goals_now env s raw m" and r = r1, folded st(2)]
  note q = queue_does [where env = env and s = s and raw = raw and acted = "acted_now env s raw m" and r = r2, folded st(3)]
  have "ps_queue (pr_state r2) = ps_queue (fst m)" "pr_moves r2 = snd m"
    using g st(1) by (simp_all add: does_def decisions_memory_def)
  with q(1) have q1: "does (\<lambda>c. c = PcStart (qa_start (fst (decide_queues raw (queue_config_of s) (ps_queue (fst m))
      (acted_now env s raw m \<union> busy_hashes (w_store (snd m)))))) \<or> (\<exists>hs. c = PcPause hs)) plain_line (\<lambda>st. (ps_goal_stops st, ps_sched st)) r2 r3"
    by simp
  have "c \<in> set (pr_calls r5)" using assms(2) st(5) by simp
  with does_calls [OF schedule_does, of c env s raw _ "bandwidth_stage env s raw r3"] st(4)
  have "c \<in> set (pr_calls (bandwidth_stage env s raw r3)) \<or> mild c" by simp
  with does_calls [OF bandwidth_does] have "c \<in> set (pr_calls r3) \<or> mild c" by blast
  with does_calls [OF q1, of c] have "c \<in> set (pr_calls r2) \<or> mild c \<or> c = PcStart (qa_start q)" unfolding q_def by (cases c) auto
  with does_calls [OF g] does_calls [OF st(1), of c] show ?thesis by auto
qed

lemma tick_starts:
  assumes "PcStart hs \<in> set (pl_calls (fst (run_tick env s raw m)))" "h \<in> set hs"
  shows "h \<in> set (qa_start (fst (decide_queues raw (queue_config_of s) (ps_queue (fst m)) (acted_now env s raw m \<union> busy_hashes (w_store (snd m))))))"
  using tick_calls [OF assms(1)] assms(2) by simp

lemma tick_stops:
  assumes "PcStop hs \<in> set (pl_calls (fst (run_tick env s raw m))) \<or> PcErase hs \<in> set (pl_calls (fst (run_tick env s raw m)))"
  shows "hs = map gd_hash (goals_now env s raw m)"
  using assms tick_calls [of "PcStop hs" env s raw m] tick_calls [of "PcErase hs" env s raw m] by auto

lemma move_stage_spawns:
  assumes "\<forall>t \<in> set raw. plain_hash (raw_hash t)"
  shows "let (spawned, r') = move_stage env s raw acted r in
    (\<forall>p \<in> set spawned. mi_hash (fst p) \<notin> acted \<and> is_localhost (po_transport s) \<and>
      (\<exists>t \<in> set raw. raw_hash t = mi_hash (fst p) \<and> settled t) \<and> mi_hash (fst p) \<in> busy_hashes (w_store (pr_moves r'))) \<and>
    distinct (map (mi_hash \<circ> fst) spawned)"
proof -
  let ?w = "pe_meanwhile env 1 (clear_homed (homed_hashes raw (po_move_rules s) (label_paths s))
    (prune_tick (set (map raw_hash raw)) (pe_meanwhile env 0 (pr_moves r))))"
  let ?is = "decide_moves raw (po_move_rules s) (label_paths s) acted (busy_hashes (w_store ?w))"
  let ?reg = "register_all (pe_move_clock env) 0 ?is ?w"
  have row: "\<exists>t \<in> set raw. raw_hash t = mi_hash i \<and> settled t \<and> mi_hash i \<notin> acted" if "i \<in> set ?is" for i
    using that unfolding decide_moves_def set_map_filter by (auto dest!: first_settled_iff) (metis intent_hash)
  have intents: "map fst (fst ?reg) = ?is" by (rule register_all_intents)
  have "list_all (has_handle (w_store (snd ?reg))) (fst ?reg)"
    using row assms by (intro register_all_new due_distinct) (fastforce simp: list_all_iff)
  then have busy: "mi_hash (fst p) \<in> busy_hashes (w_store (snd ?reg))" if "p \<in> set (fst ?reg)" for p
    using that handle_busy by (auto simp: list_all_iff)
  have d: "distinct (map (mi_hash \<circ> fst) (fst ?reg))"
    unfolding map_map [symmetric] intents by (rule due_distinct)
  show ?thesis
  proof (cases "is_localhost (po_transport s) \<and> \<not> (trim (po_incomplete_dir s) = [] \<and> po_move_rules s = [])")
    case True
    then have "move_stage env s raw acted r = (fst ?reg, r\<lparr>pr_moves := snd ?reg\<rparr>)"
      by (auto simp: move_stage_def Let_def split_def)
    moreover have "mi_hash (fst p) \<notin> acted \<and> (\<exists>t \<in> set raw. raw_hash t = mi_hash (fst p) \<and> settled t) \<and>
        mi_hash (fst p) \<in> busy_hashes (w_store (snd ?reg))" if p: "p \<in> set (fst ?reg)" for p
    proof -
      have "fst p \<in> set (map fst (fst ?reg))" using p by simp
      then have "fst p \<in> set ?is" by (simp only: intents)
      from row [OF this] busy [OF p] show ?thesis by blast
    qed
    ultimately show ?thesis using True d by (simp add: Let_def)
  next
    case False
    then show ?thesis by (auto simp: move_stage_def Let_def)
  qed
qed

lemma tick_spawns:
  assumes "\<forall>t \<in> set raw. plain_hash (raw_hash t)"
  shows "(\<forall>p \<in> set (pl_spawned (fst (run_tick env s raw m))). mi_hash (fst p) \<notin> acted_now env s raw m \<and> is_localhost (po_transport s) \<and>
      (\<exists>t \<in> set raw. raw_hash t = mi_hash (fst p) \<and> settled t) \<and> mi_hash (fst p) \<in> busy_hashes (w_store (snd (snd (run_tick env s raw m))))) \<and>
      distinct (map (mi_hash \<circ> fst) (pl_spawned (fst (run_tick env s raw m))))"
proof -
  obtain r1 r2 r3 r5 where
    "pl_spawned (fst (run_tick env s raw m)) = fst (move_stage env s raw (acted_now env s raw m) r5)"
    "snd (snd (run_tick env s raw m)) = pr_moves (snd (move_stage env s raw (acted_now env s raw m) r5))"
    by (rule tick_stages [of m env s raw])
  with move_stage_spawns [OF assms, of env s "acted_now env s raw m" r5] show ?thesis by (simp add: split_def Let_def)
qed

text \<open>Property C12. One tick does not work against itself, whatever calls fail and whatever the move tasks do meanwhile. The
  queue starts only idle, managed, wanted torrents, none that a seed goal acts on in the same tick and none that a move
  owns; what is stopped or removed for a seed goal is exactly what was decided, finished and running torrents whose goal
  is not already remembered; and a move is spawned only on the daemon's own machine, for settled torrents no goal acted
  on, once each, and each is busy from then on.\<close>

theorem tick_keeps_apart:
  assumes "\<forall>t \<in> set raw. plain_hash (raw_hash t)"
  shows "let (log, m') = run_tick env s raw m; acted = acted_now env s raw m in
    (\<forall>hs. PcStart hs \<in> set (pl_calls log) \<longrightarrow> (\<forall>h \<in> set hs. h \<notin> acted \<and> h \<notin> busy_hashes (w_store (snd m)) \<and>
       h \<in> want_set (queue_config_of s) raw \<and> (\<exists>t \<in> set raw. raw_hash t = h \<and> managed (queue_config_of s) t \<and> \<not> raw_is_active t))) \<and>
    (\<forall>hs. PcStop hs \<in> set (pl_calls log) \<or> PcErase hs \<in> set (pl_calls log) \<longrightarrow> set hs = acted \<and>
       (\<forall>h \<in> set hs. \<exists>t \<in> set raw. raw_hash t = h \<and> raw_complete t \<and> raw_is_active t \<and> \<not> still_remembered (ps_goal_stops (fst m)) t)) \<and>
    (\<forall>p \<in> set (pl_spawned log). mi_hash (fst p) \<notin> acted \<and> is_localhost (po_transport s) \<and>
       (\<exists>t \<in> set raw. raw_hash t = mi_hash (fst p) \<and> settled t) \<and> mi_hash (fst p) \<in> busy_hashes (w_store (snd m'))) \<and>
    distinct (map (mi_hash \<circ> fst) (pl_spawned log))"
proof -
  let ?log = "fst (run_tick env s raw m)" and ?m' = "snd (run_tick env s raw m)" and ?a = "acted_now env s raw m"
  let ?q = "decide_queues raw (queue_config_of s) (ps_queue (fst m)) (?a \<union> busy_hashes (w_store (snd m)))"
  have "h \<notin> ?a \<and> h \<notin> busy_hashes (w_store (snd m)) \<and> h \<in> want_set (queue_config_of s) raw \<and>
      (\<exists>t \<in> set raw. raw_hash t = h \<and> managed (queue_config_of s) t \<and> \<not> raw_is_active t)"
    if "PcStart hs \<in> set (pl_calls ?log)" "h \<in> set hs" for hs h
    using tick_starts [OF that] unfolding decide_start by blast
  moreover have "set hs = ?a \<and> (\<forall>h \<in> set hs. \<exists>t \<in> set raw. raw_hash t = h \<and> raw_complete t \<and> raw_is_active t \<and>
      \<not> still_remembered (ps_goal_stops (fst m)) t)"
    if "PcStop hs \<in> set (pl_calls ?log) \<or> PcErase hs \<in> set (pl_calls ?log)" for hs
    using tick_stops [OF that] goals_mem [of _ env s raw m] by (fastforce simp: acted_now_def)
  moreover have "(\<forall>p \<in> set (pl_spawned ?log). mi_hash (fst p) \<notin> ?a \<and> is_localhost (po_transport s) \<and>
      (\<exists>t \<in> set raw. raw_hash t = mi_hash (fst p) \<and> settled t) \<and> mi_hash (fst p) \<in> busy_hashes (w_store (snd ?m'))) \<and>
      distinct (map (mi_hash \<circ> fst) (pl_spawned ?log))"
    using tick_spawns [OF assms] .
  ultimately show ?thesis unfolding split_def Let_def by (intro conjI) blast+
qed

definition sample_policy :: policy_settings where
  "sample_policy =
     \<lparr>po_transport = UnixSocket ''/s'', po_down_limit_kb = 0, po_up_limit_kb = 0, po_excluded_labels = [], po_throttles = [],
      po_global_goal = \<lparr>sg_stop_ratio = 2, sg_seed_hours = 0\<rparr>, po_label_goals = [], po_goal_action = GoalStop,
      po_network = \<lparr>ns_encryption = EncAllow, ns_pex_enabled = True, ns_proxy_address = [], ns_proxy_tracker_http = False,
        ns_bind_address = [], ns_local_address = [], ns_max_peers = 0, ns_max_uploads_global = 0, ns_max_downloads_global = 0\<rparr>,
      po_max_active_downloads = 1, po_max_active_uploads = 0, po_max_active_torrents = 0, po_queue_slow_limit_kbs = 0,
      po_label_defaults = [], po_incomplete_dir = [], po_move_rules = [], po_bandwidth_rules = [],
      po_collision_policy = AutoRename, po_run_on_complete = [], po_turtle_down_kb = 0, po_turtle_up_kb = 0, po_turtle_enabled = False,
      po_turtle_schedule = \<lparr>ts_enabled = False, ts_start_min = 0, ts_end_min = 0, ts_days = []\<rparr>,
      po_schedule = \<lparr>sch_windows = [], sch_override = None\<rparr>\<rparr>"

definition sample_env :: "(policy_call list \<Rightarrow> string option) \<Rightarrow> policy_env" where
  "sample_env daemon =
     \<lparr>pe_daemon = daemon, pe_now = 100, pe_weekday = 1, pe_minute = 600, pe_now_ms = 100000, pe_move_clock = \<lambda>n. 100000 + int n,
      pe_order = \<lambda>_. [], pe_meanwhile = \<lambda>_ w. w\<rparr>"

definition idle_moves :: move_world where
  "idle_moves = \<lparr>w_store = \<lparr>ms_journal = [], ms_disk = [], ms_active = []\<rparr>, w_saves = [], w_fs = w_fs sample_world, w_rows = None,
     w_replies = [], w_join = None, w_trace = []\<rparr>"

text \<open>The stages composed without tuples, for evaluation.\<close>

definition tick_queue :: "policy_env \<Rightarrow> policy_settings \<Rightarrow> raw_torrent list \<Rightarrow> policy_memory \<Rightarrow> string list \<times> policy_run" where
  "tick_queue env s raw m =
     queue_stage env s raw (acted_now env s raw m) (enforce_goals env s raw (goals_now env s raw m)
       (snd (completion_stage s raw (replay_stage env s
         \<lparr>pr_state = fst m, pr_moves = snd m, pr_calls = [], pr_lines = [], pr_hooks = []\<rparr>))))"

definition tick_run :: "policy_env \<Rightarrow> policy_settings \<Rightarrow> raw_torrent list \<Rightarrow> policy_memory \<Rightarrow> policy_run" where
  "tick_run env s raw m =
     schedule_stage env s raw (fst (tick_queue env s raw m)) (bandwidth_stage env s raw (snd (tick_queue env s raw m)))"

lemma tick_run:
  "pl_calls (fst (run_tick env s raw m)) = pr_calls (tick_run env s raw m)"
  "pl_lines (fst (run_tick env s raw m)) = pr_lines (tick_run env s raw m)"
  "fst (snd (run_tick env s raw m)) = pr_state (tick_run env s raw m)"
proof -
  let ?r1 = "snd (completion_stage s raw (replay_stage env s
         \<lparr>pr_state = fst m, pr_moves = snd m, pr_calls = [], pr_lines = [], pr_hooks = []\<rparr>))"
  have "does mild plain_line decisions_memory \<lparr>pr_state = fst m, pr_moves = snd m, pr_calls = [], pr_lines = [], pr_hooks = []\<rparr> ?r1"
    by (rule does_trans [OF replay_does completion_does])
  then have "ps_goal_stops (pr_state ?r1) = ps_goal_stops (fst m)" by (simp add: does_def decisions_memory_def)
  then have g: "goal_stage env s raw ?r1 = (acted_now env s raw m, enforce_goals env s raw (goals_now env s raw m) ?r1)"
    by (simp add: goal_stage_def Let_def acted_now_def goals_now_def)
  obtain w where "snd (move_stage env s raw (acted_now env s raw m) (tick_run env s raw m)) = (tick_run env s raw m)\<lparr>pr_moves := w\<rparr>"
    using move_does by blast
  with g show "pl_calls (fst (run_tick env s raw m)) = pr_calls (tick_run env s raw m)"
    "pl_lines (fst (run_tick env s raw m)) = pr_lines (tick_run env s raw m)"
    "fst (snd (run_tick env s raw m)) = pr_state (tick_run env s raw m)"
    by (simp_all add: run_tick_def Let_def split_def tick_run_def tick_queue_def)
qed

lemma sample_tick:
  "pl_calls (fst (run_tick (sample_env (\<lambda>_. None)) sample_policy [sample_torrent ''A'' False 3] (policy_default, idle_moves))) =
     [PcStart [''A''], PcThrottles 0 0]"
  unfolding tick_run by code_simp

theorem tick_keeps_apart_witness:
  "let (log, m') = run_tick (sample_env (\<lambda>_. None)) sample_policy [sample_torrent ''A'' False 3] (policy_default, idle_moves) in
     PcStart [''A''] \<in> set (pl_calls log) \<and> ''A'' \<notin> acted_now (sample_env (\<lambda>_. None)) sample_policy [sample_torrent ''A'' False 3] (policy_default, idle_moves)"
proof -
  have "\<forall>t \<in> set [sample_torrent ''A'' False 3]. plain_hash (raw_hash t)" by code_simp
  from tick_keeps_apart [OF this, of "sample_env (\<lambda>_. None)" sample_policy "(policy_default, idle_moves)"] sample_tick
  show ?thesis by (simp add: split_def Let_def)
qed

section \<open>A goal stops a torrent once\<close>

type_synonym policy_input = "policy_env \<times> policy_settings \<times> raw_torrent list"

fun policy_step :: "policy_input \<Rightarrow> policy_memory \<Rightarrow> policy_log \<times> policy_memory" where
  "policy_step (env, s, raw) m = run_tick env s raw m"

definition same_completion :: "string \<Rightarrow> goal_stop \<Rightarrow> raw_torrent list \<Rightarrow> bool" where
  "same_completion h g raw \<longleftrightarrow>
     (\<forall>u \<in> set raw. raw_hash u = h \<longrightarrow> raw_finished_at u = gs_finished_at g \<and> raw_ratio_permille u \<le> gs_ratio_permille g)"

lemma remember_fold:
  "(\<And>d. d \<in> set ds \<Longrightarrow> gd_hash d = h \<Longrightarrow> gd_record d = g) \<Longrightarrow>
   ps_goal_stops (pr_state (fold remember_stop ds r)) h =
     (if h \<in> gd_hash ` set ds then Some g else ps_goal_stops (pr_state r) h)"
  by (induction ds arbitrary: r) (auto simp: remember_stop_def note_line_def on_policy_def)

lemma remember_lines: "SeedStopped msg h \<in> set (pr_lines (fold remember_stop ds r)) \<Longrightarrow>
   h \<in> gd_hash ` set ds \<or> SeedStopped msg h \<in> set (pr_lines r)"
  by (induction ds arbitrary: r) (fastforce simp: remember_stop_def note_line_def on_policy_def)+

lemma fold_lines: "pr_state (fold (\<lambda>x. note_line (f x)) xs r) = pr_state r \<and>
   pr_lines (fold (\<lambda>x. note_line (f x)) xs r) = pr_lines r @ map f xs"
  by (induction xs arbitrary: r) (simp_all add: note_line_def)

lemma enforce_cases:
  "enforce_goals env s raw ds r = fold remember_stop ds (r\<lparr>pr_calls := pr_calls r @ [PcStop (map gd_hash ds)]\<rparr>) \<or>
   pr_state (enforce_goals env s raw ds r) = pr_state r \<and>
   (\<forall>msg h. SeedStopped msg h \<in> set (pr_lines (enforce_goals env s raw ds r)) \<longrightarrow> SeedStopped msg h \<in> set (pr_lines r))"
  by (auto simp: enforce_goals_def ask_def Let_def fold_lines note_line_def split: option.split)

lemma enforce_memory:
  assumes "\<And>d. d \<in> set ds \<Longrightarrow> gd_hash d = h \<Longrightarrow> gd_record d = g"
  shows "h \<notin> gd_hash ` set ds \<Longrightarrow> ps_goal_stops (pr_state (enforce_goals env s raw ds r)) h = ps_goal_stops (pr_state r) h"
    and "SeedStopped msg h \<in> set (pr_lines (enforce_goals env s raw ds r)) \<Longrightarrow> SeedStopped msg h \<notin> set (pr_lines r) \<Longrightarrow>
      ps_goal_stops (pr_state (enforce_goals env s raw ds r)) h = Some g"
proof -
  let ?r = "r\<lparr>pr_calls := pr_calls r @ [PcStop (map gd_hash ds)]\<rparr>"
  note m = remember_fold [of ds h g ?r, OF assms] and l = remember_lines [of msg h ds ?r]
  show "h \<notin> gd_hash ` set ds \<Longrightarrow> ps_goal_stops (pr_state (enforce_goals env s raw ds r)) h = ps_goal_stops (pr_state r) h"
    using enforce_cases [of env s raw ds r] m by auto
  show "SeedStopped msg h \<in> set (pr_lines (enforce_goals env s raw ds r)) \<Longrightarrow> SeedStopped msg h \<notin> set (pr_lines r) \<Longrightarrow>
      ps_goal_stops (pr_state (enforce_goals env s raw ds r)) h = Some g"
    using enforce_cases [of env s raw ds r] m l by auto
qed

lemma tick_goal_memory:
  "\<exists>r1. ps_goal_stops (pr_state r1) = ps_goal_stops (fst m) \<and> (\<forall>msg h. SeedStopped msg h \<notin> set (pr_lines r1)) \<and>
     ps_goal_stops (fst (snd (run_tick env s raw m))) = ps_goal_stops (pr_state (enforce_goals env s raw (goals_now env s raw m) r1)) \<and>
     (\<forall>msg h. SeedStopped msg h \<in> set (pl_lines (fst (run_tick env s raw m))) \<longrightarrow>
        SeedStopped msg h \<in> set (pr_lines (enforce_goals env s raw (goals_now env s raw m) r1)))"
proof -
  obtain r1 r2 r3 r5 where st:
    "does mild plain_line decisions_memory \<lparr>pr_state = fst m, pr_moves = snd m, pr_calls = [], pr_lines = [], pr_hooks = []\<rparr> r1"
    "r2 = enforce_goals env s raw (goals_now env s raw m) r1"
    "r3 = snd (queue_stage env s raw (acted_now env s raw m) r2)"
    "r5 = schedule_stage env s raw (fst (queue_stage env s raw (acted_now env s raw m) r2)) (bandwidth_stage env s raw r3)"
    "pl_lines (fst (run_tick env s raw m)) = pr_lines r5" "fst (snd (run_tick env s raw m)) = pr_state r5"
    by (rule tick_stages [of m env s raw])
  note q = queue_does(1) [where env = env and s = s and raw = raw and acted = "acted_now env s raw m" and r = r2, folded st(3)]
  note b = bandwidth_does [of r3 env s raw]
  note c = schedule_does [of "bandwidth_stage env s raw r3" env s raw "fst (queue_stage env s raw (acted_now env s raw m) r2)", folded st(4)]
  have "ps_goal_stops (pr_state r5) = ps_goal_stops (pr_state r2)"
    using q b c by (simp add: does_def decisions_memory_def)
  moreover have "SeedStopped msg h \<in> set (pr_lines r2)" if "SeedStopped msg h \<in> set (pr_lines r5)" for msg h
    using that does_lines [OF c] does_lines [OF b] does_lines [OF q] by fastforce
  moreover have "ps_goal_stops (pr_state r1) = ps_goal_stops (fst m)" using st(1) by (simp add: does_def decisions_memory_def)
  moreover have "SeedStopped msg h \<notin> set (pr_lines r1)" for msg h using does_lines [OF st(1)] by fastforce
  ultimately show ?thesis using st(2,5,6) by (intro exI [of _ r1]) simp
qed

lemma goal_recorded:
  assumes "distinct_rows raw" "t \<in> set raw" "SeedStopped msg (raw_hash t) \<in> set (pl_lines (fst (run_tick env s raw m)))"
  shows "ps_goal_stops (fst (snd (run_tick env s raw m))) (raw_hash t) =
    Some \<lparr>gs_ratio_permille = raw_ratio_permille t, gs_finished_at = raw_finished_at t\<rparr>"
proof -
  obtain r1 where r1: "\<forall>msg h. SeedStopped msg h \<notin> set (pr_lines r1)"
    "ps_goal_stops (fst (snd (run_tick env s raw m))) = ps_goal_stops (pr_state (enforce_goals env s raw (goals_now env s raw m) r1))"
    "\<forall>msg h. SeedStopped msg h \<in> set (pl_lines (fst (run_tick env s raw m))) \<longrightarrow>
        SeedStopped msg h \<in> set (pr_lines (enforce_goals env s raw (goals_now env s raw m) r1))"
    using tick_goal_memory by blast
  have "gd_record d = \<lparr>gs_ratio_permille = raw_ratio_permille t, gs_finished_at = raw_finished_at t\<rparr>"
    if d: "d \<in> set (goals_now env s raw m)" and h: "gd_hash d = raw_hash t" for d
  proof -
    obtain u where "u \<in> set raw" "raw_hash u = gd_hash d"
      "gd_record d = \<lparr>gs_ratio_permille = raw_ratio_permille u, gs_finished_at = raw_finished_at u\<rparr>"
      using goals_mem [OF d] by blast
    with distinct_rows_eq [OF assms(1), of u t] assms(2) h show ?thesis by simp
  qed
  from enforce_memory(2) [OF this] r1 assms(3) show ?thesis by metis
qed

lemma goal_kept:
  assumes "ps_goal_stops (fst m) h = Some g" "same_completion h g raw"
  shows "ps_goal_stops (fst (snd (run_tick env s raw m))) h = Some g \<and> h \<notin> acted_now env s raw m"
proof -
  have out: "h \<notin> gd_hash ` set (goals_now env s raw m)"
    using goals_mem [of _ env s raw m] assms by (fastforce simp: still_remembered_def same_completion_def)
  obtain r1 where "ps_goal_stops (pr_state r1) = ps_goal_stops (fst m)"
    "ps_goal_stops (fst (snd (run_tick env s raw m))) = ps_goal_stops (pr_state (enforce_goals env s raw (goals_now env s raw m) r1))"
    using tick_goal_memory by blast
  moreover have "ps_goal_stops (pr_state (enforce_goals env s raw (goals_now env s raw m) r1)) h = ps_goal_stops (pr_state r1) h"
    by (rule enforce_memory(1) [of _ _ g]) (use out in auto)
  ultimately show ?thesis using out assms(1) by (simp add: acted_now_def)
qed

definition leaves :: "string \<Rightarrow> policy_log \<Rightarrow> bool" where
  "leaves h l \<longleftrightarrow> (\<forall>hs. PcStop hs \<in> set (pl_calls l) \<or> PcErase hs \<in> set (pl_calls l) \<longrightarrow> h \<notin> set hs)"

lemma tick_leaves:
  assumes "h \<notin> acted_now env s raw m"
  shows "leaves h (fst (run_tick env s raw m))"
  unfolding leaves_def
proof (intro allI impI)
  fix hs
  assume "PcStop hs \<in> set (pl_calls (fst (run_tick env s raw m))) \<or> PcErase hs \<in> set (pl_calls (fst (run_tick env s raw m)))"
  from tick_stops [OF this] have "set hs = acted_now env s raw m" by (simp add: acted_now_def)
  with assms show "h \<notin> set hs" by simp
qed

interpretation goal_sticks: keeps_invariant policy_step "\<lambda>_ i. same_completion h g (snd (snd i))"
    "\<lambda>m. ps_goal_stops (fst m) h = Some g" "leaves h" for h g
proof (unfold_locales, goal_cases)
  case (1 m i)
  then show ?case using goal_kept by (cases i) auto
next
  case (2 m i)
  then show ?case using goal_kept tick_leaves by (cases i) auto
qed


definition seeding_row :: raw_torrent where
  "seeding_row = raw_torrent_default\<lparr>raw_hash := ''A'', raw_complete := True, raw_is_active := True, raw_is_open := True,
     raw_ratio_permille := 2500, raw_finished_at := 50\<rparr>"

lemma does_keeps_lines: "does P L F r r' \<Longrightarrow> set (pr_lines r) \<subseteq> set (pr_lines r')"
  by (auto simp: does_def)

lemma remember_keeps: "set (pr_lines r) \<subseteq> set (pr_lines (fold remember_stop ds r))"
proof (induction ds arbitrary: r)
  case (Cons x xs)
  have "set (pr_lines r) \<subseteq> set (pr_lines (remember_stop x r))" by (auto simp: remember_stop_def note_line_def on_policy_def)
  also have "\<dots> \<subseteq> set (pr_lines (fold remember_stop xs (remember_stop x r)))" by (rule Cons.IH)
  finally show ?case by simp
qed simp

lemma remember_logs: "d \<in> set ds \<Longrightarrow> SeedStopped (gd_message d) (gd_hash d) \<in> set (pr_lines (fold remember_stop ds r))"
proof (induction ds arbitrary: r)
  case (Cons x xs)
  have "SeedStopped (gd_message x) (gd_hash x) \<in> set (pr_lines (remember_stop x r))" by (simp add: remember_stop_def note_line_def)
  with remember_keeps [of "remember_stop x r" xs] Cons show ?case by auto
qed simp

text \<open>A goal that is met is enforced when the daemon answers.\<close>

lemma met_goal_stops:
  assumes "po_goal_action s = GoalStop" "d \<in> set (goals_now env s raw m)" "\<And>cs. pe_daemon env cs = None"
  shows "SeedStopped (gd_message d) (gd_hash d) \<in> set (pl_lines (fst (run_tick env s raw m)))"
proof -
  obtain r1 r2 r3 r5 where st:
    "r2 = enforce_goals env s raw (goals_now env s raw m) r1"
    "r3 = snd (queue_stage env s raw (acted_now env s raw m) r2)"
    "r5 = schedule_stage env s raw (fst (queue_stage env s raw (acted_now env s raw m) r2)) (bandwidth_stage env s raw r3)"
    "pl_lines (fst (run_tick env s raw m)) = pr_lines r5"
    by (rule tick_stages [of m env s raw])
  have "r2 = fold remember_stop (goals_now env s raw m) (r1\<lparr>pr_calls := pr_calls r1 @ [PcStop (map gd_hash (goals_now env s raw m))]\<rparr>)"
    using assms(1-2) by (auto simp: st(1) enforce_goals_def ask_def assms(3) Let_def)
  with remember_logs [OF assms(2)] have "SeedStopped (gd_message d) (gd_hash d) \<in> set (pr_lines r2)" by simp
  with does_keeps_lines [OF queue_does(1) [where env = env and s = s and raw = raw and acted = "acted_now env s raw m" and r = r2]]
  have "SeedStopped (gd_message d) (gd_hash d) \<in> set (pr_lines r3)" by (auto simp: st(2))
  with does_keeps_lines [OF bandwidth_does [of r3 env s raw]]
  have "SeedStopped (gd_message d) (gd_hash d) \<in> set (pr_lines (bandwidth_stage env s raw r3))" by blast
  with does_keeps_lines [OF schedule_does [of "bandwidth_stage env s raw r3" env s raw]]
  show ?thesis unfolding st(3,4) by blast
qed

lemma sample_goal:
  "goals_now (sample_env (\<lambda>_. None)) sample_policy [seeding_row] (policy_default, idle_moves) =
     [\<lparr>gd_hash = ''A'', gd_message = ''seed goal reached: ratio 2.5 >= 2.0'', gd_record = \<lparr>gs_ratio_permille = 2500, gs_finished_at = 50\<rparr>\<rparr>]"
  by code_simp

lemma sample_stop:
  "SeedStopped ''seed goal reached: ratio 2.5 >= 2.0'' ''A'' \<in>
     set (pl_lines (fst (run_tick (sample_env (\<lambda>_. None)) sample_policy [seeding_row] (policy_default, idle_moves))))"
proof -
  let ?d = "\<lparr>gd_hash = ''A'', gd_message = ''seed goal reached: ratio 2.5 >= 2.0'', gd_record = \<lparr>gs_ratio_permille = 2500, gs_finished_at = 50\<rparr>\<rparr>"
  have "SeedStopped (gd_message ?d) (gd_hash ?d) \<in>
     set (pl_lines (fst (run_tick (sample_env (\<lambda>_. None)) sample_policy [seeding_row] (policy_default, idle_moves))))"
    by (rule met_goal_stops) (simp_all add: sample_goal, simp_all add: sample_policy_def sample_env_def)
  then show ?thesis by simp
qed


section \<open>A pause window holds what it paused\<close>

definition sched_actions :: "policy_env \<Rightarrow> policy_settings \<Rightarrow> raw_torrent list \<Rightarrow> string list \<Rightarrow> sched_memory \<Rightarrow> transition_actions \<times> sched_memory" where
  "sched_actions env s raw started mem = pause_transition (is_paused (schedule_state env s)) (map raw_hash (filter raw_is_active raw) @ started) mem"

lemma held_all: "user_paused (fold (\<lambda>h. set_scheduler_held h True) hs m) = set hs \<union> user_paused m"
  by (induction hs arbitrary: m) (auto simp: set_scheduler_held_def)

lemma pause_memory:
  "ps_queue (pr_state (pause_active env [] r)) = ps_queue (pr_state r)"
  "ps_sched (pr_state (pause_active env [] r)) = ps_sched (pr_state r)"
  "SchedPausedLine n \<in> set (pr_lines (pause_active env hs r)) \<Longrightarrow> SchedPausedLine n \<notin> set (pr_lines r) \<Longrightarrow>
     ps_sched (pr_state (pause_active env hs r)) = ps_sched (pr_state r) \<and> hs \<noteq> [] \<and>
     user_paused (ps_queue (pr_state (pause_active env hs r))) = set hs \<union> user_paused (ps_queue (pr_state r))"
  by (auto simp: pause_active_def ask_def note_line_def on_policy_def held_all split: option.splits if_splits)

lemma release_memory:
  "user_paused (ps_queue (pr_state (release_held hs r))) = user_paused (ps_queue (pr_state r)) - hs"
  "ps_sched (pr_state (release_held hs r)) = ps_sched (pr_state r)"
  "SchedPausedLine n \<in> set (pr_lines (release_held hs r)) \<longleftrightarrow> SchedPausedLine n \<in> set (pr_lines r)"
  by (auto simp: release_held_def note_line_def on_policy_def)

lemma push_memory: "ps_queue (pr_state (push_limits env s sched r)) = ps_queue (pr_state r)"
  "ps_sched (pr_state (push_limits env s sched r)) = ps_sched (pr_state r)"
  "SchedPausedLine n \<in> set (pr_lines (push_limits env s sched r)) \<longleftrightarrow> SchedPausedLine n \<in> set (pr_lines r)"
  by (auto simp: push_limits_def ask_def note_line_def on_policy_def Let_def split: option.split)

lemma schedule_stage_unfold:
  "schedule_stage env s raw started r =
     push_limits env s (schedule_state env s) (release_held (ta_release (fst (sched_actions env s raw started (ps_sched (pr_state r)))))
       (pause_active env (ta_pause (fst (sched_actions env s raw started (ps_sched (pr_state r)))))
         (on_policy (\<lambda>st. st\<lparr>ps_sched := snd (sched_actions env s raw started (ps_sched (pr_state r)))\<rparr>) r)))"
  by (simp add: schedule_stage_def sched_actions_def split_def Let_def)

lemma tick_before_schedule:
  obtains r started where
    "started = qa_start (fst (decide_queues raw (queue_config_of s) (ps_queue (fst m)) (acted_now env s raw m \<union> busy_hashes (w_store (snd m)))))"
    "ps_queue (pr_state r) = snd (decide_queues raw (queue_config_of s) (ps_queue (fst m)) (acted_now env s raw m \<union> busy_hashes (w_store (snd m))))"
    "ps_sched (pr_state r) = ps_sched (fst m)" "\<forall>n. SchedPausedLine n \<notin> set (pr_lines r)"
    "fst (snd (run_tick env s raw m)) = pr_state (schedule_stage env s raw started r)"
    "pl_lines (fst (run_tick env s raw m)) = pr_lines (schedule_stage env s raw started r)"
proof -
  obtain r1 r2 r3 r5 where st:
    "does mild plain_line decisions_memory \<lparr>pr_state = fst m, pr_moves = snd m, pr_calls = [], pr_lines = [], pr_hooks = []\<rparr> r1"
    "r2 = enforce_goals env s raw (goals_now env s raw m) r1"
    "r3 = snd (queue_stage env s raw (acted_now env s raw m) r2)"
    "r5 = schedule_stage env s raw (fst (queue_stage env s raw (acted_now env s raw m) r2)) (bandwidth_stage env s raw r3)"
    "pl_lines (fst (run_tick env s raw m)) = pr_lines r5" "fst (snd (run_tick env s raw m)) = pr_state r5"
    by (rule tick_stages [of m env s raw])
  note g = goal_does [where env = env and s = s and raw = raw and ds = "goals_now env s raw m" and r = r1, folded st(2)]
  note q = queue_does [where env = env and s = s and raw = raw and acted = "acted_now env s raw m" and r = r2, folded st(3)]
  note b = bandwidth_does [of r3 env s raw]
  have r2: "ps_queue (pr_state r2) = ps_queue (fst m)" "pr_moves r2 = snd m" "ps_sched (pr_state r2) = ps_sched (fst m)"
    using g st(1) by (simp_all add: does_def decisions_memory_def)
  have lines: "SchedPausedLine n \<notin> set (pr_lines (bandwidth_stage env s raw r3))" for n
    using does_lines [OF b, of "SchedPausedLine n"] does_lines [OF q(1), of "SchedPausedLine n"] does_lines [OF g, of "SchedPausedLine n"]
      does_lines [OF st(1), of "SchedPausedLine n"] by auto
  show thesis
  proof (rule that [of "fst (queue_stage env s raw (acted_now env s raw m) r2)" "bandwidth_stage env s raw r3"])
    show "ps_queue (pr_state (bandwidth_stage env s raw r3)) =
        snd (decide_queues raw (queue_config_of s) (ps_queue (fst m)) (acted_now env s raw m \<union> busy_hashes (w_store (snd m))))"
      using q(3) b r2 by (simp add: does_def decisions_memory_def)
    show "ps_sched (pr_state (bandwidth_stage env s raw r3)) = ps_sched (fst m)"
      using q(1) b r2 by (simp add: does_def decisions_memory_def)
  qed (use q(2) r2 lines st in auto)
qed

text \<open>What the memory says of a torrent the open window paused.\<close>

definition window_holds :: "string \<Rightarrow> policy_memory \<Rightarrow> bool" where
  "window_holds h m \<longleftrightarrow> sm_was_paused (ps_sched (fst m)) \<and> h \<in> sm_held (ps_sched (fst m)) \<and> h \<in> user_paused (ps_queue (fst m))"

lemma window_opens:
  assumes "SchedPausedLine n \<in> set (pl_lines (fst (run_tick env s raw m)))" "t \<in> set raw" "raw_is_active t"
  shows "window_holds (raw_hash t) (snd (run_tick env s raw m))"
proof -
  obtain r started where r: "ps_sched (pr_state r) = ps_sched (fst m)" "\<forall>n. SchedPausedLine n \<notin> set (pr_lines r)"
    "fst (snd (run_tick env s raw m)) = pr_state (schedule_stage env s raw started r)"
    "pl_lines (fst (run_tick env s raw m)) = pr_lines (schedule_stage env s raw started r)"
    by (rule tick_before_schedule [of raw s m env])
  let ?acts = "sched_actions env s raw started (ps_sched (pr_state r))"
  let ?r1 = "on_policy (\<lambda>st. st\<lparr>ps_sched := snd ?acts\<rparr>) r"
  have line: "SchedPausedLine n \<in> set (pr_lines (pause_active env (ta_pause (fst ?acts)) ?r1))" "SchedPausedLine n \<notin> set (pr_lines ?r1)"
    using assms(1) r(2,4) by (simp_all add: schedule_stage_unfold push_memory release_memory on_policy_def)
  note p = pause_memory(3) [OF line]
  then have "ta_pause (fst ?acts) \<noteq> []" by simp
  then have acts: "ta_release (fst ?acts) = {}" "raw_hash t \<in> set (ta_pause (fst ?acts))"
    "sm_was_paused (snd ?acts)" "raw_hash t \<in> sm_held (snd ?acts)"
    using assms(2,3) by (auto simp: sched_actions_def pause_transition_def split: if_splits)
  then show ?thesis
    using p r(3) by (simp add: window_holds_def schedule_stage_unfold push_memory release_memory on_policy_def)
qed

lemma window_stays:
  assumes "window_holds h m" "is_paused (schedule_state env s)" "shows_idle h (raw, {})"
  shows "window_holds h (snd (run_tick env s raw m)) \<and> (\<forall>hs. PcStart hs \<in> set (pl_calls (fst (run_tick env s raw m))) \<longrightarrow> h \<notin> set hs)"
proof -
  let ?skip = "acted_now env s raw m \<union> busy_hashes (w_store (snd m))"
  let ?d = "decide_queues raw (queue_config_of s) (ps_queue (fst m)) ?skip"
  obtain r started where r: "ps_queue (pr_state r) = snd ?d" "ps_sched (pr_state r) = ps_sched (fst m)"
    "fst (snd (run_tick env s raw m)) = pr_state (schedule_stage env s raw started r)"
    by (rule tick_before_schedule [of raw s m env])
  have acts: "sched_actions env s raw started (ps_sched (pr_state r)) = (\<lparr>ta_pause = [], ta_release = {}\<rparr>, ps_sched (fst m))"
    using assms(1,2) r(2) by (simp add: sched_actions_def pause_transition_def window_holds_def)
  note acts' = acts [unfolded r(2)]
  have q: "h \<in> user_paused (snd ?d) \<and> h \<notin> set (qa_start (fst ?d))"
  proof (cases "configured (queue_config_of s)")
    case True
    then show ?thesis
      using paused_tick [of "queue_config_of s" h "(raw, ?skip)" "ps_queue (fst m)"] assms by (simp add: queue_tick_def shows_idle_def window_holds_def)
  next
    case False
    then show ?thesis using assms(1) by (simp add: decide_queues_def window_holds_def)
  qed
  have "h \<notin> set hs" if "PcStart hs \<in> set (pl_calls (fst (run_tick env s raw m)))" for hs
    using tick_starts [OF that, of h] q by blast
  moreover have "window_holds h (snd (run_tick env s raw m))"
    using q r assms(1) by (simp add: window_holds_def schedule_stage_unfold acts' push_memory release_memory pause_memory on_policy_def)
  ultimately show ?thesis by blast
qed

lemma window_closes:
  assumes "window_holds h m" "\<not> is_paused (schedule_state env s)"
  shows "h \<notin> user_paused (ps_queue (fst (snd (run_tick env s raw m))))"
proof -
  obtain r started where r: "ps_sched (pr_state r) = ps_sched (fst m)"
    "fst (snd (run_tick env s raw m)) = pr_state (schedule_stage env s raw started r)"
    by (rule tick_before_schedule [of raw s m env])
  have "ta_release (fst (sched_actions env s raw started (ps_sched (pr_state r)))) = sm_held (ps_sched (fst m))"
    using assms r(1) by (simp add: sched_actions_def pause_transition_def window_holds_def)
  with assms(1) show ?thesis by (simp add: r(2) schedule_stage_unfold push_memory release_memory window_holds_def)
qed

definition window_open :: "string \<Rightarrow> policy_input \<Rightarrow> bool" where
  "window_open h i \<longleftrightarrow> (case i of (env, s, raw) \<Rightarrow> is_paused (schedule_state env s) \<and> shows_idle h (raw, {}))"

interpretation window_keeps: keeps_invariant policy_step "\<lambda>_ i. window_open h i" "window_holds h"
    "\<lambda>l. \<forall>hs. PcStart hs \<in> set (pl_calls l) \<longrightarrow> h \<notin> set hs" for h
proof (unfold_locales, goal_cases)
  case (1 m i)
  then show ?case using window_stays by (cases i) (auto simp: window_open_def)
next
  case (2 m i)
  obtain env s raw where "i = (env, s, raw)" by (cases i)
  with 2 window_stays [of h m env s raw] show ?case by (simp add: window_open_def)
qed

text \<open>Property C11. The schedule and the queue work together over a pause window. When a tick has paused the running torrents,
  no later tick starts one of them while the window is open and the torrent stays idle, whatever the queue's caps and
  settings become, whatever other torrents and failing calls there are; and the tick that finds the window closed gives
  the torrent back to the queue.\<close>

theorem pause_window_holds:
  assumes "SchedPausedLine n \<in> set (pl_lines (fst (run_tick env s raw m)))" "t \<in> set raw" "raw_is_active t"
    and "\<forall>i \<in> set is. window_open (raw_hash t) i" and "\<not> is_paused (schedule_state env' s')"
  shows "(\<forall>l \<in> set (fst (run_steps policy_step (snd (run_tick env s raw m)) is)). \<forall>hs. PcStart hs \<in> set (pl_calls l) \<longrightarrow> raw_hash t \<notin> set hs) \<and>
    raw_hash t \<notin> user_paused (ps_queue (fst (snd (run_tick env' s' raw' (snd (run_steps policy_step (snd (run_tick env s raw m)) is))))))"
proof -
  note opens = window_opens [OF assms(1-3)]
  have "admissible_run policy_step (\<lambda>_ i. window_open (raw_hash t) i) (snd (run_tick env s raw m)) is"
    using assms(4) by (intro admissible_run_uniform) auto
  from window_keeps.safe_run [OF this opens] window_closes [OF window_keeps.inv_run [OF this opens] assms(5)]
  show ?thesis by blast
qed

definition paused_policy :: policy_settings where
  "paused_policy = sample_policy\<lparr>po_schedule := \<lparr>sch_windows = [], sch_override = Some \<lparr>to_pause = True, to_down_kb = 0, to_up_kb = 0, to_until_ms = 500000\<rparr>\<rparr>\<rparr>"

lemma sample_pause:
  "SchedPausedLine 1 \<in> set (pl_lines (fst (run_tick (sample_env (\<lambda>_. None)) paused_policy [sample_torrent ''A'' True 3] (policy_default, idle_moves))))"
  unfolding tick_run by code_simp

lemma sample_verdicts:
  "is_paused (schedule_state (sample_env (\<lambda>_. None)) paused_policy)" "\<not> is_paused (schedule_state (sample_env (\<lambda>_. None)) sample_policy)"
  by code_simp+

theorem pause_window_holds_witness:
  "list_all (\<lambda>l. PcStart [''A''] \<notin> set (pl_calls l)) (fst (run_steps policy_step
     (snd (run_tick (sample_env (\<lambda>_. None)) paused_policy [sample_torrent ''A'' True 3] (policy_default, idle_moves)))
     [(sample_env (\<lambda>_. None), paused_policy, [sample_torrent ''A'' False 3]), (sample_env (\<lambda>_. None), paused_policy, [sample_torrent ''A'' False 3])]))"
proof -
  let ?i = "(sample_env (\<lambda>_. None), paused_policy, [sample_torrent ''A'' False 3])" let ?t = "sample_torrent ''A'' True 3"
  have h: "raw_hash ?t = ''A''" by (simp add: sample_simps)
  have i: "\<forall>i \<in> set [?i, ?i]. window_open (raw_hash ?t) i"
    by (simp add: h window_open_def sample_verdicts shows_idle_def distinct_rows_def sample_torrent_def)
  have t: "?t \<in> set [?t]" "raw_is_active ?t" by (simp_all add: sample_torrent_def)
  from pause_window_holds [OF sample_pause t i sample_verdicts(2), of "[]"] show ?thesis
    unfolding list_all_iff h by fastforce
qed

section \<open>What modelling showed\<close>

text \<open>Releasing only clears the queue's hold. Without any cap the queue starts nothing, so what the window paused stays paused.\<close>

lemma uncapped_never_starts:
  assumes "\<not> configured (queue_config_of s)" "PcStart hs \<in> set (pl_calls (fst (run_tick env s raw m)))"
  shows "hs = []"
  using tick_calls [OF assms(2)] assms(1) by (simp add: decide_queues_def)

text \<open>A throttle whose definition failed counts as defined, so the next adoption assigns an unknown throttle.\<close>

lemma failed_definition_counts:
  assumes "throttle_name rule \<notin> bs_defined (ps_bw (pr_state r))"
    "pe_daemon env (pr_calls r @ [PcDefine (throttle_name rule) (br_down_kb rule) (br_up_kb rule)]) = Some e"
  shows "let r1 = bandwidth_step env raw (Adopt h rule) r in
    \<exists>cs. pr_calls (bandwidth_step env raw' (Adopt h' rule) r1) = pr_calls r1 @ PcAssign [h'] (Some (throttle_name rule)) # cs"
  using assms
  by (auto simp: needs_define_def ask_def tell_def warn_define_def should_warn_def on_bw_def on_policy_def note_line_def adopt_def
      clear_warned_def Let_def split: option.split)

text \<open>Data of a remote daemon is not trashed, but the log says it was removed.\<close>

lemma remote_data_not_removed:
  assumes "po_goal_action s = GoalRemoveData" "\<not> is_localhost (po_transport s)" "ds \<noteq> []" "pe_daemon env (pr_calls r @ [PcErase (map gd_hash ds)]) = None"
  shows "pr_lines (enforce_goals env s raw ds r) = pr_lines r @ map (\<lambda>d. SeedRemoved (gd_message d @ '' - removed with data'') (gd_hash d)) ds"
proof -
  have "pr_lines (fold (\<lambda>d r. note_line (f d) r) ds r1) = pr_lines r1 @ map f ds" for f r1
    by (induction ds arbitrary: r1) (simp_all add: note_line_def)
  from this [of "\<lambda>d. SeedRemoved (gd_message d @ '' - removed with data'') (gd_hash d)"] show ?thesis
    using assms by (simp add: enforce_goals_def ask_def Let_def goal_paths_def)
qed

text \<open>The tokens are replaced one after the other, so a token in a torrent's name is replaced too.\<close>

lemma name_tokens_replaced: "build_hook ''notify %N'' ''a%Hb'' ''/p'' ''AA'' = Some (''notify'', [''aAAb''])"
  by code_simp

text \<open>Completions fire exactly for rows seen incomplete in the tick before.\<close>

lemma seen_after_row: "distinct_rows raw \<Longrightarrow> t \<in> set raw \<Longrightarrow> seen_after raw (raw_hash t) = Some (raw_complete t)"
  unfolding seen_after_def
proof (induction raw arbitrary: rule: rev_induct)
  case (snoc u raw)
  then show ?case by (cases "t = u") (auto simp: distinct_rows_def image_iff)
qed simp

lemma seen_after_none: "h \<notin> raw_hash ` set raw \<Longrightarrow> seen_after raw h = None"
  unfolding seen_after_def by (induction raw rule: rev_induct) auto

lemma completions_are_transitions:
  assumes "distinct_rows raw"
  shows "map cp_hash (completions_of excluded (seen_after raw) raw') =
    map raw_hash (filter (\<lambda>u. raw_complete u \<and> raw_label u \<notin> set excluded \<and> (\<exists>t \<in> set raw. raw_hash t = raw_hash u \<and> \<not> raw_complete t)) raw')"
proof -
  have "seen_after raw h = Some False \<longleftrightarrow> (\<exists>t \<in> set raw. raw_hash t = h \<and> \<not> raw_complete t)" for h
  proof (cases "h \<in> raw_hash ` set raw")
    case True
    then obtain u where u: "u \<in> set raw" "raw_hash u = h" by blast
    have "(\<exists>t \<in> set raw. raw_hash t = h \<and> \<not> raw_complete t) \<longleftrightarrow> \<not> raw_complete u"
    proof
      assume "\<exists>t \<in> set raw. raw_hash t = h \<and> \<not> raw_complete t"
      then obtain t where t: "t \<in> set raw" "raw_hash t = h" "\<not> raw_complete t" by blast
      have "t = u" by (rule distinct_rows_eq [OF assms t(1) u(1)]) (simp add: t(2) u(2))
      with t(3) show "\<not> raw_complete u" by simp
    qed (use u in blast)
    with seen_after_row [OF assms u(1)] u(2) show ?thesis by simp
  next
    case False
    then show ?thesis using seen_after_none [of h raw] by auto
  qed
  then show ?thesis by (simp add: completions_of_def o_def) (rule arg_cong [of _ _ "map raw_hash"], rule filter_cong, auto)
qed

end
