(* ===== verification/Spec2Isabelle.thy ===== *)
theory Spec2Isabelle
  imports Prelude F64 Types Error_Kind Derive Delta Queue Complete Fs Mover Schedule Bandwidth Session Web_Auth Import_Job Xmlrpc Tags Client Transport Rss Rss_Feed Rss_Runner File_Index Duplicates Server_State Server_Moves Poller Torrent_File Bencode Foreign Cmd Table Policy
begin

text \<open>
  A verification library for rstorrent, a client for the rtorrent daemon written in Rust. The program has three parts: the
  core library \<open>crates/rtorrent\<close>, which talks to the daemon and holds the decisions; the web server \<open>server\<close>, which polls the
  daemon and serves a browser; and the desktop shell \<open>crates/gpui\<close>, which polls the daemon itself. The server and the shell
  are drivers: they fetch rows, call the core's pure planners, and carry the plans out. The theories follow that split, and
  the composition of the planners in their drivers is modelled with them. This theory only collects the others.

  \<^bold>\<open>Foundations.\<close> \<open>Prelude\<close> has the parts of Rust's standard library the program uses (trimming, ASCII case, splitting, number
  formats, stable sorting), the run of a step function over a list of inputs, and the two locales many theories share.
  \<open>F64\<close> has finite binary64 arithmetic with rounding to even, \<open>Types\<close> the daemon's rows, the rows shown, snapshots, deltas
  and errors (\<open>types.rs\<close>, \<open>rtorrent/mod.rs\<close>).

  \<^bold>\<open>Reaching the daemon.\<close> \<open>Xmlrpc\<close> is the codec (\<open>xmlrpc.rs\<close>), \<open>Transport\<close> the SCGI frames, HTTP calls, endpoint checks and the
  password (\<open>scgi.rs\<close>, \<open>http.rs\<close>, \<open>transport.rs\<close>), \<open>Client\<close> every operation of the client with its calls and the reading of the
  answers (\<open>client.rs\<close>), \<open>Error_Kind\<close> the classification of messages. Shown: what is encoded is read back, decoding ends on
  every list of events, a frame is read back and its reply gives the value or the fault it carries, the columns of the list
  are assembled into the rows, a batch reaches every target.

  \<^bold>\<open>Rows.\<close> \<open>Derive\<close> computes what is shown (\<open>derive.rs\<close>, \<open>snapshot.rs\<close>), \<open>Delta\<close> the incremental updates (\<open>delta.rs\<close>), \<open>Tags\<close>,
  \<open>Duplicates\<close> and \<open>File_Index\<close> the modules of these names, \<open>Table\<close> the desktop's table (\<open>table_state.rs\<close>). Shown: a delta
  applied to the old snapshot is the new one, the bounded index refines a map, the table shows the matching rows in the
  order of the column, and the selection moves as a pair of indexes.

  \<^bold>\<open>Decisions.\<close> \<open>Queue\<close> (\<open>queue.rs\<close>), \<open>Schedule\<close> (\<open>schedule.rs\<close>), \<open>Bandwidth\<close> (\<open>bandwidth.rs\<close>), \<open>Complete\<close> (\<open>complete.rs\<close>) and \<open>Rss\<close>
  (\<open>rss.rs\<close>) are the planners with their memories. Shown: what a tick may touch, the caps, fairness, convergence in one
  tick and the respect of the user's choices over any number of ticks; the precedence and preview of windows; collisions;
  when a rule matches and which item of a group it takes. \<open>Policy\<close> is the desktop's tick that runs them all
  (\<open>policy.rs\<close>, \<open>network_prefs.rs\<close>): no stage works against another, a goal stops a torrent once, a pause window holds.

  \<^bold>\<open>Moving data.\<close> \<open>Fs\<close> moves a tree with copy, verification and cleanup under any script of failures and cancels (\<open>fs.rs\<close>),
  \<open>Mover\<close> drives one move with its journal and recovers after a restart (\<open>mover.rs\<close>), \<open>Server_Moves\<close> is the server's use of
  it (\<open>server/src/moves.rs\<close>). Shown: the data is whole at the source or the target, the journal is written ahead, at most
  one unfinished move and one live task per torrent.

  \<^bold>\<open>Sessions.\<close> \<open>Session\<close> exports, validates and imports manifests (\<open>session.rs\<close>), \<open>Import_Job\<close> is the server's job around it,
  \<open>Bencode\<close> and \<open>Foreign\<close> read the resume files of other clients (\<open>foreign.rs\<close>), \<open>Torrent_File\<close> creates and reads torrent files
  (\<open>torrent_file.rs\<close>). Shown: exports restore, imports resume and never load twice, a scan's manifest validates with exactly
  what the scan counted, bencode reading ends and reads back what is written.

  \<^bold>\<open>The feeds.\<close> \<open>Rss_Feed\<close> is the parser over the XML reader's events, \<open>Rss_Runner\<close> the desktop's pass (\<open>gpui/src/rss.rs\<close>): documents
  are read back, nothing is added twice.

  \<^bold>\<open>The web server.\<close> \<open>Web_Auth\<close> is the session store, the limiter and the gate (\<open>auth.rs\<close>, \<open>api.rs\<close>), \<open>Server_State\<close> the log ring
  and the rate history, \<open>Poller\<close> the polling loop, its publication and the browser that follows it (\<open>poller.rs\<close>, \<open>state.rs\<close>,
  \<open>web.ts\<close>), \<open>Cmd\<close> the commands and uploads (\<open>cmd.rs\<close>, \<open>api.rs\<close>). Shown: no entry without a login, guesses are bounded,
  signing out is durable; the browser stays in sync however polls, outages and reads interleave; a refused command has told
  the daemon nothing; a remote server keeps off its own disk.

  \<^bold>\<open>Interfaces.\<close> \<open>comparator\<close> (a strict weak order, giving stability and sortedness of the insertion sort) is interpreted on
  the keys of maps, on both rankings of the queue and on the table's columns; \<open>keeps_invariant\<close> (a step that keeps an
  invariant and is safe under it, giving the same for every run) on the queue, the schedule, the RSS runner, the mover, the
  session store and the automation; \<open>bounded_index\<close> on the file index; \<open>cmd_relation\<close> (a relation every primitive of the
  command monad keeps) on keeping the disk and on telling the daemon nothing.

  \<^bold>\<open>Conventions.\<close> A string is a list of bytes and text is ASCII: dashes and other signs of messages are written in ASCII, and
  case folding is ASCII's. \<open>i64\<close> is \<open>int\<close> with saturation and wrap-around where the code relies on them, \<open>u64\<close> and
  \<open>usize\<close> are \<open>nat\<close>, \<open>u8\<close> of the schedule is a word. A \<open>HashMap\<close> is a map, or an association list where its order shows; an iteration
  order the code leaves open is a parameter. Errors are \<open>option\<close> or sum values. The daemon, the disk, the clock and the
  network are parameters or scripts of answers, so every call may fail; the libraries (XML reader, base64, regex, Argon2, SHA-256,
  serde) are parameters too. State is passed explicitly, and concurrent tasks are steps of an explicit
  interleaving.

  \<^bold>\<open>Bounds and fuel.\<close> Recursion is structural or has a measure, with two exceptions. The decoder of \<open>Xmlrpc\<close> spends a unit of fuel
  per call and is given one more than the events it reads, which is proved to be enough for every input. The
  reader of \<open>Bencode\<close> is given two per byte and two more, enough for every input by \<open>parse_enough\<close>.

  \<^bold>\<open>Not modelled.\<close> The mock daemon (\<open>mock.rs\<close>), a test double. The keychain (\<open>secrets.rs\<close>) and the crate roots, operating system
  calls and re-exports. The server's read-only routes, its configuration file and settings store (\<open>config.rs\<close>, \<open>settings.rs\<close>,
  \<open>main.rs\<close>, \<open>assets.rs\<close>, \<open>disk.rs\<close>), request glue and serde documents around calls modelled elsewhere. The desktop's views
  and dialogs (GPUI element trees), its process management (\<open>daemon.rs\<close>, \<open>wsl.rs\<close>), path mapping on Windows and the service
  layer, which forwards to the client. The Tauri shell and the TypeScript front end, apart from the poll that follows the deltas. Not
  covered by any theorem: running times, memory, the stack (but see \<open>deep_nesting\<close>), and real files
  and sockets.
\<close>

end
